(* ===== verification/Prelude.thy ===== *)
theory Prelude
  imports Main "HOL-Library.AList" "HOL-Library.Multiset"
begin

text \<open>
  Shared vocabulary of the development.

  A Go map has no defined iteration order. It is modelled by an association list with
  distinct keys, \<open>gomap\<close>, whose list order is the order in which a \<open>range\<close> loop happens to
  visit the entries. Every theorem about a loop over a map is stated for an arbitrary such
  list, so it holds for every order the runtime may choose, and results are compared by
  \<open>gm_get\<close> only. Reading, writing and deleting are the association-list operations of
  \<open>HOL-Library.AList\<close>.

  A fallible operation returns a sum: \<open>Inl\<close> carries the error, \<open>Inr\<close> the value.
\<close>

section \<open>Collections of rewrite rules\<close>

named_theorems gomap_simps \<open>rewrite rules for reads of a Go map after a write\<close>
named_theorems loop_simps \<open>closed forms of the loops of the program\<close>

section \<open>Go maps\<close>

type_synonym ('k, 'v) gomap = "('k \<times> 'v) list"

abbreviation gm_get :: "('k, 'v) gomap \<Rightarrow> 'k \<Rightarrow> 'v option" where
  "gm_get m k \<equiv> map_of m k"

abbreviation gm_set :: "('k, 'v) gomap \<Rightarrow> 'k \<Rightarrow> 'v \<Rightarrow> ('k, 'v) gomap" where
  "gm_set m k v \<equiv> AList.update k v m"

abbreviation gm_del :: "('k, 'v) gomap \<Rightarrow> 'k \<Rightarrow> ('k, 'v) gomap" where
  "gm_del m k \<equiv> AList.delete k m"

abbreviation gm_has :: "('k, 'v) gomap \<Rightarrow> 'k \<Rightarrow> bool" where
  "gm_has m k \<equiv> map_of m k \<noteq> None"

definition gm_wf :: "('k, 'v) gomap \<Rightarrow> bool" where
  "gm_wf m \<longleftrightarrow> distinct (map fst m)"

lemma gm_wf_Nil [simp]: "gm_wf []"
  by (simp add: gm_wf_def)

lemma gm_wf_Cons [simp]: "gm_wf ((k, v) # m) \<longleftrightarrow> k \<notin> fst ` set m \<and> gm_wf m"
  by (simp add: gm_wf_def)

lemma gm_wf_set [simp, intro]: "gm_wf m \<Longrightarrow> gm_wf (gm_set m k v)"
  by (simp add: gm_wf_def AList.distinct_update)

lemma gm_wf_del [simp, intro]: "gm_wf m \<Longrightarrow> gm_wf (gm_del m k)"
  by (simp add: gm_wf_def AList.distinct_delete)

lemma gm_get_set [simp, gomap_simps]:
  "gm_get (gm_set m k v) x = (if x = k then Some v else gm_get m x)"
  by (simp add: AList.update_conv')

lemma gm_get_del [simp, gomap_simps]:
  "gm_get (gm_del m k) x = (if x = k then None else gm_get m x)"
  by (simp add: AList.delete_conv')

lemma gm_set_new: "gm_get m k = None \<Longrightarrow> gm_set m k v = m @ [(k, v)]"
  by (induction m) (auto split: if_splits)

lemma gm_get_in_set: "gm_wf m \<Longrightarrow> (k, v) \<in> set m \<longleftrightarrow> gm_get m k = Some v"
  by (auto simp: gm_wf_def)

lemma gm_dom_conv: "gm_has m k \<longleftrightarrow> k \<in> fst ` set m"
  by (auto simp: map_of_eq_None_iff)

lemma gm_get_filter_keys:
  "gm_get (filter (\<lambda>(k, v). P k) m) x = (if P x then gm_get m x else None)"
  by (induction m) auto

lemma gm_wf_filter [simp]: "gm_wf m \<Longrightarrow> gm_wf (filter P m)"
  by (auto simp: gm_wf_def distinct_map_filter)

lemma gm_keys_set: "gm_has m k \<Longrightarrow> map fst (gm_set m k v) = map fst m"
  by (induction m) (auto split: if_splits)

lemma list_all_gm:
  "gm_wf m \<Longrightarrow> list_all (\<lambda>(k, v). P v) m \<longleftrightarrow> (\<forall>k v. gm_get m k = Some v \<longrightarrow> P v)"
  by (auto simp: list_all_iff gm_get_in_set [symmetric])

lemma list_ex_gm:
  "gm_wf m \<Longrightarrow> list_ex (\<lambda>(k, v). P v) m \<longleftrightarrow> (\<exists>k v. gm_get m k = Some v \<and> P v)"
  by (auto simp: list_ex_iff gm_get_in_set [symmetric])

text \<open>Iterating twice in different orders visits the same entries.\<close>

lemma gm_get_perm:
  assumes "mset m = mset m'" and "gm_wf m"
  shows "gm_get m' = gm_get m"
proof -
  have "gm_wf m'"
    using assms by (metis gm_wf_def mset_eq_imp_distinct_iff mset_map)
  moreover have "set m' = set m" using assms(1) mset_eq_setD by metis
  ultimately show ?thesis
    using assms(2) by (metis gm_wf_def map_of_inject_set)
qed

section \<open>Loops that stop at the first error\<close>

text \<open>
  \<open>foldres f s xs\<close> runs \<open>f\<close> over the elements from left to right, threading the state, and
  stops at the first error: the shape of every \<open>for\<close> loop that returns early with an error.
\<close>

fun foldres :: "('s \<Rightarrow> 'a \<Rightarrow> 'e + 's) \<Rightarrow> 's \<Rightarrow> 'a list \<Rightarrow> 'e + 's" where
  "foldres f s [] = Inr s"
| "foldres f s (x # xs) = (case f s x of Inl e \<Rightarrow> Inl e | Inr s' \<Rightarrow> foldres f s' xs)"

lemma foldres_append:
  "foldres f s (xs @ ys) = (case foldres f s xs of Inl e \<Rightarrow> Inl e | Inr s' \<Rightarrow> foldres f s' ys)"
  by (induction xs arbitrary: s) (auto split: sum.splits)

lemma foldres_invariant:
  assumes "foldres f s xs = Inr s'" and "P s"
    and "\<And>s x s'. x \<in> set xs \<Longrightarrow> P s \<Longrightarrow> f s x = Inr s' \<Longrightarrow> P s'"
  shows "P s'"
  using assms
proof (induction xs arbitrary: s)
  case (Cons x xs)
  from Cons.prems(1) obtain t where t: "f s x = Inr t" "foldres f t xs = Inr s'"
    by (auto split: sum.splits)
  have "P t" using Cons.prems(2,3) t(1) by (meson list.set_intros(1))
  then show ?case
    using Cons.IH [OF t(2)] Cons.prems(3) by (meson list.set_intros(2))
qed simp

lemma foldres_establishes:
  assumes "foldres f s xs = Inr s'" and "x \<in> set xs"
    and "\<And>s s'. f s x = Inr s' \<Longrightarrow> P s'" and "\<And>s y s'. P s \<Longrightarrow> f s y = Inr s' \<Longrightarrow> P s'"
  shows "P s'"
proof -
  obtain us vs where xs: "xs = us @ x # vs" using assms(2) by (meson split_list)
  then obtain t t' where t: "f t x = Inr t'" "foldres f t' vs = Inr s'"
    using assms(1) by (auto simp: foldres_append split: sum.splits)
  from t(2) assms(3) [OF t(1)] assms(4) show ?thesis by (rule foldres_invariant)
qed

section \<open>Lists\<close>

lemma fold_append_concat: "fold (\<lambda>x acc. acc @ f x) xs acc = acc @ concat (map f xs)"
  by (induction xs arbitrary: acc) auto

lemma list_ex_find: "list_ex P xs \<longleftrightarrow> find P xs \<noteq> None"
  by (induction xs) auto

lemma sum_list_append_map: "sum_list (map f (xs @ ys)) = sum_list (map f xs) + sum_list (map f ys)"
  for f :: "'a \<Rightarrow> nat"
  by simp

text \<open>
  \<open>firsts f seen xs\<close> keeps, in order, the first element of \<open>xs\<close> for every key \<open>f x\<close> that is
  not in \<open>seen\<close>: the specification of every de-duplicating loop.
\<close>

fun firsts :: "('a \<Rightarrow> 'k) \<Rightarrow> 'k set \<Rightarrow> 'a list \<Rightarrow> 'a list" where
  "firsts f seen [] = []"
| "firsts f seen (x # xs) =
     (if f x \<in> seen then firsts f seen xs else x # firsts f (insert (f x) seen) xs)"

lemma firsts_subset: "set (firsts f seen xs) \<subseteq> set xs"
  by (induction f seen xs rule: firsts.induct) auto

lemma firsts_keys: "f ` set (firsts f seen xs) = f ` set xs - seen"
  by (induction f seen xs rule: firsts.induct) auto

lemma firsts_distinct: "distinct (map f (firsts f seen xs))"
proof (induction f seen xs rule: firsts.induct)
  case (2 f seen x xs)
  have "f x \<notin> f ` set (firsts f (insert (f x) seen) xs)" by (simp add: firsts_keys)
  with 2 show ?case by auto
qed simp

lemma firsts_first:
  "y \<in> set (firsts f seen xs) \<Longrightarrow> \<exists>us vs. xs = us @ y # vs \<and> f y \<notin> f ` set us \<and> f y \<notin> seen"
proof (induction f seen xs rule: firsts.induct)
  case (2 f seen x xs)
  show ?case
  proof (cases "f x \<in> seen")
    case True
    with 2 obtain us vs where "xs = us @ y # vs" "f y \<notin> f ` set us" "f y \<notin> seen" by auto
    with True show ?thesis by (intro exI [of _ "x # us"] exI [of _ vs]) auto
  next
    case False
    then consider "y = x" | "y \<in> set (firsts f (insert (f x) seen) xs)" using 2 by auto
    then show ?thesis
    proof cases
      case 1
      with False show ?thesis by (intro exI [of _ "[]"] exI [of _ xs]) auto
    next
      case 2
      with "2.IH"(2) [OF False] obtain us vs
        where "xs = us @ y # vs" "f y \<notin> f ` set us" "f y \<notin> insert (f x) seen" by blast
      then show ?thesis by (intro exI [of _ "x # us"] exI [of _ vs]) auto
    qed
  qed
qed simp

text \<open>\<open>strings.Join\<close>.\<close>

fun str_join :: "string \<Rightarrow> string list \<Rightarrow> string" where
  "str_join sep [] = []"
| "str_join sep [x] = x"
| "str_join sep (x # y # xs) = x @ sep @ str_join sep (y # xs)"

section \<open>Decimal numbers\<close>

text \<open>\<open>strconv.Itoa\<close>.\<close>

definition digit_char :: "nat \<Rightarrow> char" where
  "digit_char d = char_of (48 + d)"

fun utoa :: "nat \<Rightarrow> string" where
  "utoa n = (if n < 10 then [digit_char n] else utoa (n div 10) @ [digit_char (n mod 10)])"

declare utoa.simps [simp del]

definition itoa :: "int \<Rightarrow> string" where
  "itoa i = (if i < 0 then CHR ''-'' # utoa (nat (- i)) else utoa (nat i))"

text \<open>Reading the digits back gives the number, so the decimal text identifies it.\<close>

definition digit_val :: "char \<Rightarrow> nat" where
  "digit_val c = of_char c - 48"

definition atou :: "string \<Rightarrow> nat" where
  "atou s = foldl (\<lambda>n c. 10 * n + digit_val c) 0 s"

lemma digit_val_char: "d < 10 \<Longrightarrow> digit_val (digit_char d) = d"
  by (simp add: digit_val_def digit_char_def)

lemma atou_utoa [simp]: "atou (utoa n) = n"
proof (induction n rule: utoa.induct)
  case (1 n)
  show ?case
  proof (cases "n < 10")
    case True
    then show ?thesis by (subst utoa.simps) (simp add: atou_def digit_val_char)
  next
    case False
    with 1 have "atou (utoa (n div 10)) = n div 10" by blast
    with False show ?thesis
      by (subst utoa.simps) (simp add: atou_def digit_val_char)
  qed
qed

lemma utoa_inject [simp]: "utoa m = utoa n \<longleftrightarrow> m = n"
  by (metis atou_utoa)

lemma utoa_not_minus: "utoa n \<noteq> CHR ''-'' # s"
proof (induction n arbitrary: s rule: utoa.induct)
  case (1 n)
  have d: "digit_char k \<noteq> CHR ''-''" if "k < 10" for k
  proof
    assume "digit_char k = CHR ''-''"
    then have "(of_char (digit_char k) :: nat) = of_char CHR ''-''" by simp
    with that show False by (simp add: digit_char_def)
  qed
  show ?case
  proof (cases "n < 10")
    case True
    then show ?thesis using d by (subst utoa.simps) simp
  next
    case False
    obtain c cs where c: "utoa (n div 10) = c # cs"
      by (cases "utoa (n div 10)") (auto simp: utoa.simps split: if_splits)
    with 1 False have "c \<noteq> CHR ''-''" by blast
    with False c show ?thesis by (subst utoa.simps) simp
  qed
qed

lemma itoa_inject [simp]: "itoa i = itoa j \<longleftrightarrow> i = j"
  using utoa_not_minus by (auto simp: itoa_def nat_eq_iff split: if_splits) (metis utoa_not_minus)+

end
