(* ===== verification/GoErrors.thy ===== *)
theory GoErrors
  imports Prelude
begin

text \<open>
  Go error values and their classification in \<open>pkg/exec/error.go\<close> and
  \<open>pkg/exec/error_canceled.go\<close>.

  An error value is a tree. A leaf is a sentinel (a package variable, compared by identity,
  here by its name), an error built from a text, or a DNS error. \<open>Wrap\<close> is an error with a
  method \<open>Unwrap() error\<close> (what \<open>fmt.Errorf\<close> with one \<open>%w\<close> builds), \<open>Join\<close> one with a
  method \<open>Unwrap() []error\<close> (what \<open>errors.Join\<close> builds), \<open>Multi\<close> the error list of
  \<open>hashicorp/go-multierror\<close> and \<open>Typed\<close> a struct error of the program with an \<open>Unwrap\<close>
  method, tagged with its type's name. Every node carries the text its \<open>Error\<close> method
  returns. The absent error \<open>nil\<close> is \<open>None\<close> of \<open>goerr option\<close>.
\<close>

section \<open>Error values of the standard library\<close>

datatype goerr =
    Sentinel string string
  | Opaque string
  | DnsError string bool
  | Wrap string goerr
  | Join string "goerr list"
  | Multi string "goerr list"
  | Typed string string goerr

type_synonym error = "goerr option"

fun err_text :: "goerr \<Rightarrow> string" where
  "err_text (Sentinel n t) = t"
| "err_text (Opaque t) = t"
| "err_text (DnsError t b) = t"
| "err_text (Wrap t e) = t"
| "err_text (Join t es) = t"
| "err_text (Multi t es) = t"
| "err_text (Typed ty t e) = t"

text \<open>\<open>fmt.Errorf\<close> with a text before and after its single \<open>%w\<close>.\<close>

definition errorf_w :: "string \<Rightarrow> goerr \<Rightarrow> string \<Rightarrow> goerr" where
  "errorf_w pre e post = Wrap (pre @ err_text e @ post) e"

text \<open>
  \<open>errors.Is\<close> against a sentinel: the error itself or anything it unwraps to, depth first.
\<close>

fun errors_is :: "goerr \<Rightarrow> string \<Rightarrow> bool" where
  "errors_is (Sentinel n t) target = (n = target)"
| "errors_is (Opaque t) target = False"
| "errors_is (DnsError t b) target = False"
| "errors_is (Wrap t e) target = errors_is e target"
| "errors_is (Join t es) target = list_ex (\<lambda>e. errors_is e target) es"
| "errors_is (Multi t es) target = list_ex (\<lambda>e. errors_is e target) es"
| "errors_is (Typed ty t e) target = errors_is e target"

definition errors_Is :: "error \<Rightarrow> string \<Rightarrow> bool" where
  "errors_Is err target = (case err of None \<Rightarrow> False | Some e \<Rightarrow> errors_is e target)"

text \<open>The first element of a list on which a partial function is defined.\<close>

fun first_some :: "('a \<Rightarrow> 'b option) \<Rightarrow> 'a list \<Rightarrow> 'b option" where
  "first_some f [] = None"
| "first_some f (x # xs) = (case f x of None \<Rightarrow> first_some f xs | Some y \<Rightarrow> Some y)"

lemma first_some_cong [fundef_cong]:
  "xs = ys \<Longrightarrow> (\<And>x. x \<in> set ys \<Longrightarrow> f x = g x) \<Longrightarrow> first_some f xs = first_some g ys"
  by (induction xs arbitrary: ys) (auto split: option.splits)

lemma first_some_Some: "first_some f xs = Some y \<Longrightarrow> \<exists>x \<in> set xs. f x = Some y"
  by (induction xs) (auto split: option.splits)

text \<open>\<open>errors.As\<close> for a \<open>multierror.Error\<close>, a DNS error and a struct error of the program.\<close>

fun as_multi :: "goerr \<Rightarrow> goerr list option" where
  "as_multi (Multi t es) = Some es"
| "as_multi (Wrap t e) = as_multi e"
| "as_multi (Typed ty t e) = as_multi e"
| "as_multi (Join t es) = first_some as_multi es"
| "as_multi (Sentinel n t) = None"
| "as_multi (Opaque t) = None"
| "as_multi (DnsError t b) = None"

fun as_dns :: "goerr \<Rightarrow> bool option" where
  "as_dns (DnsError t b) = Some b"
| "as_dns (Wrap t e) = as_dns e"
| "as_dns (Typed ty t e) = as_dns e"
| "as_dns (Join t es) = first_some as_dns es"
| "as_dns (Multi t es) = first_some as_dns es"
| "as_dns (Sentinel n t) = None"
| "as_dns (Opaque t) = None"

fun as_typed :: "string \<Rightarrow> goerr \<Rightarrow> goerr option" where
  "as_typed ty (Typed ty' t e) = (if ty = ty' then Some (Typed ty' t e) else as_typed ty e)"
| "as_typed ty (Wrap t e) = as_typed ty e"
| "as_typed ty (Join t es) = first_some (as_typed ty) es"
| "as_typed ty (Multi t es) = first_some (as_typed ty) es"
| "as_typed ty (Sentinel n t) = None"
| "as_typed ty (Opaque t) = None"
| "as_typed ty (DnsError t b) = None"

text \<open>\<open>strings.Contains\<close>.\<close>

fun str_contains :: "string \<Rightarrow> string \<Rightarrow> bool" where
  "str_contains [] sub = (sub = [])"
| "str_contains (c # cs) sub = (take (length sub) (c # cs) = sub \<or> str_contains cs sub)"

lemma str_contains_iff: "str_contains s sub \<longleftrightarrow> (\<exists>u v. s = u @ sub @ v)"
proof (induction s sub rule: str_contains.induct)
  case (2 c cs sub)
  show ?case
  proof
    assume "str_contains (c # cs) sub"
    then consider "take (length sub) (c # cs) = sub" | "str_contains cs sub" by auto
    then show "\<exists>u v. c # cs = u @ sub @ v"
    proof cases
      case 1
      then have "c # cs = [] @ sub @ drop (length sub) (c # cs)"
        by (metis append_Nil append_take_drop_id)
      then show ?thesis by blast
    next
      case 2
      with "2.IH" obtain u v where "cs = u @ sub @ v" by blast
      then have "c # cs = (c # u) @ sub @ v" by simp
      then show ?thesis by blast
    qed
  next
    assume "\<exists>u v. c # cs = u @ sub @ v"
    then obtain u v where uv: "c # cs = u @ sub @ v" by blast
    show "str_contains (c # cs) sub"
    proof (cases u)
      case Nil
      with uv have "take (length sub) (c # cs) = sub" by simp
      then show ?thesis by simp
    next
      case (Cons d u')
      with uv have "cs = u' @ sub @ v" by simp
      with "2.IH" show ?thesis by auto
    qed
  qed
qed auto

section \<open>Classification of retryable errors (error.go)\<close>

datatype ErrorType = ErrorTypeUnknown | ErrorTypeOk | ErrorTypePermanent | ErrorTypeRetryable

type_synonym 'r ErrorChecker = "'r \<Rightarrow> goerr \<Rightarrow> ErrorType"

text \<open>
  Every \<open>Check\<close> function of the file has the same two branches. A checker is only ever
  called with a non-nil error (\<open>executor_backoff.go\<close>, line 103).
\<close>

definition retryable_if :: "bool \<Rightarrow> ErrorType" where
  "retryable_if b = (if b then ErrorTypeRetryable else ErrorTypeUnknown)"

definition text_has :: "error \<Rightarrow> string \<Rightarrow> bool" where
  "text_has err s = (case err of None \<Rightarrow> False | Some e \<Rightarrow> str_contains (err_text e) s)"

definition net_ErrClosed_text :: string where
  "net_ErrClosed_text = ''use of closed network connection''"

text \<open>\<open>None\<close> is the panic of calling \<open>Error\<close> on a nil error.\<close>

definition IsUsedClosedConnectionError :: "error \<Rightarrow> bool option" where
  "IsUsedClosedConnectionError err =
     (case err of None \<Rightarrow> None | Some e \<Rightarrow> Some (str_contains (err_text e) net_ErrClosed_text))"

definition CheckUsedClosedConnectionError :: "'r ErrorChecker" where
  "CheckUsedClosedConnectionError r e =
     retryable_if (the (IsUsedClosedConnectionError (Some e)))"

definition IsConnectionError :: "error \<Rightarrow> bool" where
  "IsConnectionError err =
     (if errors_Is err ''io.EOF'' \<or> errors_Is err ''io.ErrUnexpectedEOF''
         \<or> errors_Is err ''ECONNREFUSED'' \<or> errors_Is err ''ECONNRESET'' \<or> errors_Is err ''EPIPE''
      then True
      else if err = None then False
      else if text_has err ''read: connection reset'' then True else False)"

definition CheckConnectionError :: "'r ErrorChecker" where
  "CheckConnectionError r e = retryable_if (IsConnectionError (Some e))"

definition IsTimeoutError :: "error \<Rightarrow> bool" where
  "IsTimeoutError err = errors_Is err ''ETIMEDOUT''"

definition CheckTimeoutError :: "'r ErrorChecker" where
  "CheckTimeoutError r e = retryable_if (IsTimeoutError (Some e))"

definition IsClientAwaitHeadersTimeoutError :: "error \<Rightarrow> bool" where
  "IsClientAwaitHeadersTimeoutError err =
     text_has err ''(Client.Timeout exceeded while awaiting headers)''"

definition CheckClientAwaitHeaderTimeoutError :: "'r ErrorChecker" where
  "CheckClientAwaitHeaderTimeoutError r e =
     retryable_if (IsClientAwaitHeadersTimeoutError (Some e))"

definition IsTlsHandshakeTimeoutError :: "error \<Rightarrow> bool" where
  "IsTlsHandshakeTimeoutError err = text_has err ''net/http: TLS handshake timeout''"

definition CheckTlsHandshakeTimeoutError :: "'r ErrorChecker" where
  "CheckTlsHandshakeTimeoutError r e = retryable_if (IsTlsHandshakeTimeoutError (Some e))"

definition IsIoTimeoutError :: "error \<Rightarrow> bool" where
  "IsIoTimeoutError err = text_has err ''i/o timeout''"

definition IsOperationWasCanceledError :: "error \<Rightarrow> bool" where
  "IsOperationWasCanceledError err = text_has err ''operation was canceled''"

definition CheckOperationWasCanceledError :: "'r ErrorChecker" where
  "CheckOperationWasCanceledError r e = retryable_if (IsOperationWasCanceledError (Some e))"

definition IsHttp2ClientConnectionForceClosedError :: "error \<Rightarrow> bool" where
  "IsHttp2ClientConnectionForceClosedError err =
     text_has err ''http2: client connection force closed''"

definition CheckHttp2ClientConnectionForceClosedError :: "'r ErrorChecker" where
  "CheckHttp2ClientConnectionForceClosedError r e =
     retryable_if (IsHttp2ClientConnectionForceClosedError (Some e))"

definition IsDNSNotFoundError :: "error \<Rightarrow> bool" where
  "IsDNSNotFoundError err =
     (case err of None \<Rightarrow> False
      | Some e \<Rightarrow> (case as_dns e of None \<Rightarrow> False | Some notFound \<Rightarrow> notFound))"

section \<open>Cancelled requests (error\_canceled.go)\<close>

type_synonym RequestCanceledCheck = "goerr \<Rightarrow> bool"

definition isError :: "string \<Rightarrow> RequestCanceledCheck" where
  "isError target = (\<lambda>err. errors_is err target)"

text \<open>The package variable \<open>requestCancelChecks\<close> with its initial value and its extension.\<close>

definition requestCancelChecks :: "RequestCanceledCheck list" where
  "requestCancelChecks =
     [isError ''context.Canceled'', isError ''context.DeadlineExceeded'', isError ''RequestCanceled'']"

definition AddRequestCancelCheck ::
  "RequestCanceledCheck list \<Rightarrow> RequestCanceledCheck \<Rightarrow> RequestCanceledCheck list" where
  "AddRequestCancelCheck checks c = checks @ [c]"

lemma elem_size_list: "x \<in> set xs \<Longrightarrow> size x < Suc (size_list size xs)"
  by (induction xs) auto

lemma as_multi_size: "as_multi e = Some es \<Longrightarrow> x \<in> set es \<Longrightarrow> size x < size e"
proof (induction e arbitrary: es x)
  case (Join t fs)
  then obtain f where f: "f \<in> set fs" "as_multi f = Some es"
    using first_some_Some [of as_multi fs es] by auto
  with Join.IH Join.prems(2) have "size x < size f" by blast
  also have "size f < size (Join t fs)" using elem_size_list [OF f(1)] by simp
  finally show ?case .
next
  case (Multi t fs)
  then show ?case using elem_size_list [of x fs] by simp
qed (fastforce simp: less_SucI)+

text \<open>
  The type switch of \<open>IsRequestCanceled\<close>: a joined error, then anything that carries a
  \<open>multierror.Error\<close>, then the registered checks. \<open>checks\<close> is the package variable.
\<close>

function isRequestCanceled :: "RequestCanceledCheck list \<Rightarrow> goerr \<Rightarrow> bool" where
  "isRequestCanceled checks err =
     (case err of
        Join t es \<Rightarrow> (\<forall>e \<in> set es. isRequestCanceled checks e) \<and> es \<noteq> []
      | _ \<Rightarrow>
        (case as_multi err of
           Some es \<Rightarrow> (\<forall>e \<in> set es. isRequestCanceled checks e) \<and> es \<noteq> []
         | None \<Rightarrow> list_ex (\<lambda>check. check err) checks))"
  by pat_completeness auto
termination
  by (relation "measure (\<lambda>(checks, err). size err)")
    (auto simp: elem_size_list dest: as_multi_size)

declare isRequestCanceled.simps [simp del]

definition IsRequestCanceled :: "RequestCanceledCheck list \<Rightarrow> error \<Rightarrow> bool" where
  "IsRequestCanceled checks err =
     (case err of None \<Rightarrow> False | Some e \<Rightarrow> isRequestCanceled checks e)"

definition CheckRequestCanceled :: "RequestCanceledCheck list \<Rightarrow> 'r ErrorChecker" where
  "CheckRequestCanceled checks r e =
     (if IsRequestCanceled checks (Some e) then ErrorTypePermanent else ErrorTypeUnknown)"

section \<open>What a cancelled request is\<close>

text \<open>
  The documentation of \<open>IsRequestCanceled\<close> promises \<open>true\<close> only when every error contained
  in the value is a cancellation. The specification reads the contained errors off the tree.
\<close>

fun err_leaves :: "goerr \<Rightarrow> goerr list" where
  "err_leaves (Wrap t e) = err_leaves e"
| "err_leaves (Typed ty t e) = err_leaves e"
| "err_leaves (Join t es) = concat (map err_leaves es)"
| "err_leaves (Multi t es) = concat (map err_leaves es)"
| "err_leaves e = [e]"

fun no_empty_list :: "goerr \<Rightarrow> bool" where
  "no_empty_list (Wrap t e) = no_empty_list e"
| "no_empty_list (Typed ty t e) = no_empty_list e"
| "no_empty_list (Join t es) = (es \<noteq> [] \<and> list_all no_empty_list es)"
| "no_empty_list (Multi t es) = (es \<noteq> [] \<and> list_all no_empty_list es)"
| "no_empty_list e = True"

fun canceled_leaf :: "goerr \<Rightarrow> bool" where
  "canceled_leaf (Sentinel n t) =
     (n \<in> {''context.Canceled'', ''context.DeadlineExceeded'', ''RequestCanceled''})"
| "canceled_leaf e = False"

fun peel :: "goerr \<Rightarrow> goerr" where
  "peel (Wrap t e) = peel e"
| "peel (Typed ty t e) = peel e"
| "peel e = e"

fun is_join :: "goerr \<Rightarrow> bool" where
  "is_join (Join t es) = True"
| "is_join e = False"

text \<open>No joined error is hidden behind a wrapper.\<close>

fun no_hidden_join :: "goerr \<Rightarrow> bool" where
  "no_hidden_join (Wrap t e) = (\<not> is_join (peel e) \<and> no_hidden_join e)"
| "no_hidden_join (Typed ty t e) = (\<not> is_join (peel e) \<and> no_hidden_join e)"
| "no_hidden_join (Join t es) = list_all no_hidden_join es"
| "no_hidden_join (Multi t es) = list_all no_hidden_join es"
| "no_hidden_join e = True"

lemma peel_simps [simp]:
  "as_multi (peel e) = as_multi e" "errors_is (peel e) t = errors_is e t"
  "err_leaves (peel e) = err_leaves e" "no_empty_list (peel e) = no_empty_list e"
  by (induction e) auto

lemma peel_no_hidden_join: "no_hidden_join e \<Longrightarrow> no_hidden_join (peel e)"
  by (induction e) auto

lemma peel_size: "size (peel e) \<le> size e"
  by (induction e) auto

lemma peel_not_wrapper: "peel e \<noteq> Wrap t f" "peel e \<noteq> Typed ty t f"
  by (induction e) auto

lemma requestCancelChecks_peel:
  "list_ex (\<lambda>c. c (peel e)) requestCancelChecks = list_ex (\<lambda>c. c e) requestCancelChecks"
  by (simp add: requestCancelChecks_def isError_def)

lemma isRequestCanceled_not_join:
  "\<not> is_join err \<Longrightarrow> isRequestCanceled checks err =
     (case as_multi err of
        Some es \<Rightarrow> (\<forall>e \<in> set es. isRequestCanceled checks e) \<and> es \<noteq> []
      | None \<Rightarrow> list_ex (\<lambda>check. check err) checks)"
  by (subst isRequestCanceled.simps) (cases err; simp)

lemma isRequestCanceled_peel:
  assumes "\<not> is_join (peel e)"
  shows "isRequestCanceled requestCancelChecks (peel e) = isRequestCanceled requestCancelChecks e"
proof -
  have "\<not> is_join e" using assms by (cases e) auto
  then show ?thesis
    using assms requestCancelChecks_peel [of e]
    by (simp add: isRequestCanceled_not_join split: option.split)
qed

lemma canceled_iff_leaves:
  assumes "no_hidden_join e"
  shows "isRequestCanceled requestCancelChecks e \<longleftrightarrow>
    no_empty_list e \<and> list_all canceled_leaf (err_leaves e)"
  using assms
proof (induction e rule: measure_induct_rule [where f = size])
  case (less e)
  have sub: "(\<forall>f \<in> set es. isRequestCanceled requestCancelChecks f) \<and> es \<noteq> [] \<longleftrightarrow>
      es \<noteq> [] \<and> list_all no_empty_list es \<and> list_all canceled_leaf (concat (map err_leaves es))"
    if "list_all no_hidden_join es" "\<forall>f \<in> set es. size f < size e" for es
    using less.IH that by (auto simp: list_all_iff)
  consider (join) t es where "e = Join t es" | (wrapped) "peel e \<noteq> e" "\<not> is_join (peel e)"
    | (plain) "peel e = e" "\<not> is_join e"
    using less.prems by (cases e) auto
  then show ?case
  proof cases
    case join
    then show ?thesis
      using sub [of es] less.prems elem_size_list [of _ es]
      by (subst isRequestCanceled.simps) auto
  next
    case wrapped
    then have "size (peel e) < size e" by (cases e) (auto simp: peel_size le_imp_less_Suc)
    then show ?thesis
      using less.IH [of "peel e"] less.prems wrapped isRequestCanceled_peel
      by (simp add: peel_no_hidden_join)
  next
    case plain
    show ?thesis
    proof (cases e)
      case (Multi t es)
      then show ?thesis
        using sub [of es] less.prems elem_size_list [of _ es]
        by (subst isRequestCanceled.simps) auto
    qed (use plain peel_not_wrapper [of e] in
        \<open>auto simp: isRequestCanceled_not_join requestCancelChecks_def isError_def\<close>)
  qed
qed

section \<open>Properties\<close>

text \<open>
  C11. For an error in which no joined error sits behind a wrapper, \<open>IsRequestCanceled\<close> with
  its initial checks answers \<open>true\<close> exactly when no error list in the value is empty and
  every error contained in it is one of the three cancellation errors: the documented
  "(only) caused by a canceled context".
\<close>

theorem IsRequestCanceled_only_cancellations:
  assumes "no_hidden_join e"
  shows "IsRequestCanceled requestCancelChecks (Some e) \<longleftrightarrow>
    no_empty_list e \<and> (\<forall>l. l \<in> set (err_leaves e) \<longrightarrow> canceled_leaf l)"
  using canceled_iff_leaves [OF assms] by (auto simp: IsRequestCanceled_def list_all_iff)

theorem IsRequestCanceled_only_cancellations_witness:
  "IsRequestCanceled requestCancelChecks
     (Some (Wrap ''w'' (Multi ''m'' [Sentinel ''context.Canceled'' ''c'',
        Join ''j'' [Sentinel ''RequestCanceled'' ''r'']]))) \<and>
   \<not> IsRequestCanceled requestCancelChecks
     (Some (Join ''j'' [Sentinel ''context.Canceled'' ''c'', Opaque ''boom'']))"
  using IsRequestCanceled_only_cancellations
      [of "Wrap ''w'' (Multi ''m'' [Sentinel ''context.Canceled'' ''c'',
        Join ''j'' [Sentinel ''RequestCanceled'' ''r'']])"]
    IsRequestCanceled_only_cancellations
      [of "Join ''j'' [Sentinel ''context.Canceled'' ''c'', Opaque ''boom'']"]
  by auto

text \<open>
  The promise fails for a joined error behind a wrapper: a cancellation joined with a
  second error of any text and wrapped by one \<open>fmt.Errorf\<close> is reported as a cancelled request, although the second error is contained in
  it and the same joined error without the wrapper is not reported.
\<close>

theorem IsRequestCanceled_hidden_join:
  "IsRequestCanceled requestCancelChecks
     (Some (errorf_w pre (Join t [Sentinel ''context.Canceled'' c, Opaque other]) post)) \<and>
   \<not> IsRequestCanceled requestCancelChecks
     (Some (Join t [Sentinel ''context.Canceled'' c, Opaque other]))"
  by (auto simp: IsRequestCanceled_def errorf_w_def isRequestCanceled.simps requestCancelChecks_def isError_def)

end
