(* ===== verification/Exec.thy ===== *)
theory Exec
  imports GoErrors
begin

text \<open>
  The retrying executor of \<open>pkg/exec\<close>: \<open>settings.go\<close>, \<open>elapsed_time_tracker.go\<close>,
  \<open>backoff_tracked.go\<close>, \<open>executor.go\<close>, \<open>executor_backoff.go\<close> and the two error types.

  The world \<open>'w\<close> holds everything outside the executor: the called function, the clock, the
  context and the callbacks are functions on it. Durations and points in time are integers
  (nanoseconds); the zero \<open>time.Time\<close> is 0. The loop itself is \<open>RetryNotify\<close> of
  \<open>cenkalti/backoff\<close>, which is not part of the repository: it is the argument \<open>retry\<close> of
  \<open>BackoffExecutor_Execute\<close>, and \<open>retry_contract\<close> states its documented behaviour.
\<close>

section \<open>Settings (settings.go)\<close>

record BackoffSettings =
  CancelDelay :: int
  InitialInterval :: int
  MaxAttempts :: int
  MaxElapsedTime :: int
  MaxInterval :: int

definition millisecond :: int where
  "millisecond = 1000000"

definition second :: int where
  "second = 1000 * millisecond"

definition zeroSettings :: BackoffSettings where
  "zeroSettings = \<lparr>CancelDelay = 0, InitialInterval = 0, MaxAttempts = 0, MaxElapsedTime = 0,
     MaxInterval = 0\<rparr>"

definition predefined :: "(string, BackoffSettings) gomap" where
  "predefined =
    [(''api'', zeroSettings\<lparr>InitialInterval := 100 * millisecond, MaxElapsedTime := 10 * second,
        MaxInterval := second\<rparr>),
     (''once'', zeroSettings\<lparr>MaxAttempts := 1\<rparr>),
     (''infinite'', zeroSettings\<lparr>InitialInterval := 50 * millisecond, MaxInterval := 10 * second\<rparr>)]"

text \<open>The methods of \<open>cfg.Config\<close> that \<open>ReadBackoffSettings\<close> calls.\<close>

record Config =
  IsSet :: "string \<Rightarrow> bool"
  GetString :: "string \<Rightarrow> goerr + string"
  UnmarshalKey :: "string \<Rightarrow> string list \<Rightarrow> goerr + BackoffSettings"

text \<open>The body of the first loop, for one path.\<close>

definition backoffTypeStep :: "Config \<Rightarrow> string \<Rightarrow> string \<Rightarrow> goerr + string" where
  "backoffTypeStep config typ path =
     (if \<not> IsSet config (path @ ''.backoff'') then Inr typ
      else if \<not> IsSet config (path @ ''.backoff.type'') then Inr ''custom''
      else case GetString config (path @ ''.backoff.type'') of
             Inl e \<Rightarrow> Inl (errorf_w ''could not get backoff type: '' e '''')
           | Inr t \<Rightarrow> Inr t)"

definition ReadBackoffSettings :: "Config \<Rightarrow> string list \<Rightarrow> goerr + BackoffSettings" where
  "ReadBackoffSettings config paths0 =
     (let paths = paths0 @ [''exec''] in
      case foldres (backoffTypeStep config) ''default'' (rev paths) of
        Inl e \<Rightarrow> Inl e
      | Inr typ \<Rightarrow>
          (case gm_get predefined typ of
             Some settings \<Rightarrow> Inr settings
           | None \<Rightarrow>
               let key = hd paths @ ''.backoff'' in
               case UnmarshalKey config key (map (\<lambda>p. p @ ''.backoff'') (tl paths)) of
                 Inl e \<Rightarrow> Inl (errorf_w (''failed to unmarshal backoff settings for key '' @ key @ '': '') e '''')
               | Inr settings \<Rightarrow> Inr settings))"

section \<open>Elapsed time (elapsed\_time\_tracker.go)\<close>

text \<open>
  Both implementations of the interface. Every operation that reads the clock takes the
  current time.
\<close>

datatype ElapsedTimeTracker =
    DefaultElapsedTimeTracker (start: int)
  | ErrorTriggeredElapsedTimeTracker (errorStart: int)

fun tracker_Start :: "ElapsedTimeTracker \<Rightarrow> int \<Rightarrow> ElapsedTimeTracker" where
  "tracker_Start (DefaultElapsedTimeTracker s) now = DefaultElapsedTimeTracker now"
| "tracker_Start (ErrorTriggeredElapsedTimeTracker s) now = ErrorTriggeredElapsedTimeTracker 0"

fun tracker_OnError :: "ElapsedTimeTracker \<Rightarrow> int \<Rightarrow> ElapsedTimeTracker" where
  "tracker_OnError (DefaultElapsedTimeTracker s) now = DefaultElapsedTimeTracker s"
| "tracker_OnError (ErrorTriggeredElapsedTimeTracker s) now =
     (if s = 0 then ErrorTriggeredElapsedTimeTracker now else ErrorTriggeredElapsedTimeTracker s)"

fun tracker_OnSuccess :: "ElapsedTimeTracker \<Rightarrow> ElapsedTimeTracker" where
  "tracker_OnSuccess (DefaultElapsedTimeTracker s) = DefaultElapsedTimeTracker s"
| "tracker_OnSuccess (ErrorTriggeredElapsedTimeTracker s) = ErrorTriggeredElapsedTimeTracker 0"

fun tracker_Elapsed :: "ElapsedTimeTracker \<Rightarrow> int \<Rightarrow> int" where
  "tracker_Elapsed (DefaultElapsedTimeTracker s) now = now - s"
| "tracker_Elapsed (ErrorTriggeredElapsedTimeTracker s) now = (if s = 0 then 0 else now - s)"

text \<open>
  What the executor relies on: a fresh tracker has spent nothing of the budget, the spent
  time never shrinks while the clock runs, and an error never gives budget back.
\<close>

locale elapsed_time_tracker =
  fixes start_op :: "'t \<Rightarrow> int \<Rightarrow> 't"
    and on_error :: "'t \<Rightarrow> int \<Rightarrow> 't"
    and elapsed :: "'t \<Rightarrow> int \<Rightarrow> int"
    and valid :: "'t \<Rightarrow> int \<Rightarrow> bool"
  assumes elapsed_start: "elapsed (start_op t now) now = 0"
    and valid_start: "now > 0 \<Longrightarrow> valid (start_op t now) now"
    and valid_later: "valid t now \<Longrightarrow> now \<le> now' \<Longrightarrow> valid t now'"
    and valid_error: "valid t now \<Longrightarrow> valid (on_error t now) now"
    and elapsed_nonneg: "valid t now \<Longrightarrow> 0 \<le> elapsed t now"
    and elapsed_mono: "valid t now \<Longrightarrow> now \<le> now' \<Longrightarrow> elapsed t now \<le> elapsed t now'"
    and elapsed_error: "valid t now \<Longrightarrow> elapsed t now \<le> elapsed (on_error t now) now"
begin

text \<open>The budget check of \<open>NextBackOff\<close>, and that a spent budget stays spent.\<close>

definition exhausted :: "int \<Rightarrow> 't \<Rightarrow> int \<Rightarrow> bool" where
  "exhausted maxElapsed t now \<longleftrightarrow> maxElapsed > 0 \<and> elapsed t now > maxElapsed"

lemma fresh_not_exhausted: "\<not> exhausted maxElapsed (start_op t now) now"
  by (simp add: exhausted_def elapsed_start)

lemma exhausted_stable:
  "exhausted maxElapsed t now \<Longrightarrow> valid t now \<Longrightarrow> now \<le> now' \<Longrightarrow>
     exhausted maxElapsed (on_error t now') now'"
  using elapsed_mono [of t now now'] elapsed_error [of t now'] valid_later [of t now now']
  by (auto simp: exhausted_def)

end

text \<open>Both trackers of the package keep the contract while the clock shows a positive time.\<close>

definition tracker_valid :: "ElapsedTimeTracker \<Rightarrow> int \<Rightarrow> bool" where
  "tracker_valid t now = (now > 0 \<and> (case t of DefaultElapsedTimeTracker s \<Rightarrow> s \<le> now
     | ErrorTriggeredElapsedTimeTracker s \<Rightarrow> 0 \<le> s \<and> s \<le> now))"

interpretation tracker: elapsed_time_tracker tracker_Start tracker_OnError tracker_Elapsed tracker_valid
proof
  fix t :: ElapsedTimeTracker and now now' :: int
  show "tracker_Elapsed (tracker_Start t now) now = 0" by (cases t) auto
  show "now > 0 \<Longrightarrow> tracker_valid (tracker_Start t now) now"
    by (cases t) (auto simp: tracker_valid_def)
  show "tracker_valid t now \<Longrightarrow> now \<le> now' \<Longrightarrow> tracker_valid t now'"
    by (cases t) (auto simp: tracker_valid_def)
  show "tracker_valid t now \<Longrightarrow> tracker_valid (tracker_OnError t now) now"
    by (cases t) (auto simp: tracker_valid_def)
  show "tracker_valid t now \<Longrightarrow> 0 \<le> tracker_Elapsed t now"
    by (cases t) (auto simp: tracker_valid_def)
  show "tracker_valid t now \<Longrightarrow> now \<le> now' \<Longrightarrow> tracker_Elapsed t now \<le> tracker_Elapsed t now'"
    by (cases t) (auto simp: tracker_valid_def)
  show "tracker_valid t now \<Longrightarrow> tracker_Elapsed t now \<le> tracker_Elapsed (tracker_OnError t now) now"
    by (cases t) (auto simp: tracker_valid_def)
qed

section \<open>Errors of the executor\<close>

record ExecutableResource =
  res_Type :: string
  res_Name :: string

definition ExecutableResource_String :: "ExecutableResource \<Rightarrow> string" where
  "ExecutableResource_String r = res_Type r @ ''/'' @ res_Name r"

text \<open>\<open>durStr\<close> renders a duration (\<open>time.Duration.String\<close>).\<close>

definition NewErrAttemptsExceeded ::
  "(int \<Rightarrow> string) \<Rightarrow> ExecutableResource \<Rightarrow> int \<Rightarrow> int \<Rightarrow> goerr \<Rightarrow> goerr" where
  "NewErrAttemptsExceeded durStr resource attempts durationTook err =
     Typed ''ErrAttemptsExceeded''
       (''sent request to resource '' @ ExecutableResource_String resource @
        '' failed after exceeding max attempts of '' @ itoa attempts @ '' retries in '' @
        durStr durationTook @ '': '' @ err_text err) err"

definition NewErrMaxElapsedTimeExceeded ::
  "(int \<Rightarrow> string) \<Rightarrow> ExecutableResource \<Rightarrow> int \<Rightarrow> int \<Rightarrow> int \<Rightarrow> goerr \<Rightarrow> goerr" where
  "NewErrMaxElapsedTimeExceeded durStr resource attempts durationTook durationMax err =
     Typed ''ErrMaxElapsedTimeExceeded''
       (''sent request to resource '' @ ExecutableResource_String resource @ '' failed after '' @
        itoa attempts @ '' retries in '' @ durStr durationTook @ '': retry max duration '' @
        durStr durationMax @ '' exceeded: '' @ err_text err) err"

definition IsErrMaxAttemptsExceeded :: "error \<Rightarrow> bool" where
  "IsErrMaxAttemptsExceeded err =
     (case err of None \<Rightarrow> False | Some e \<Rightarrow> as_typed ''ErrAttemptsExceeded'' e \<noteq> None)"

definition IsErrMaxElapsedTimeExceeded :: "error \<Rightarrow> bool" where
  "IsErrMaxElapsedTimeExceeded err =
     (case err of None \<Rightarrow> False | Some e \<Rightarrow> as_typed ''ErrMaxElapsedTimeExceeded'' e \<noteq> None)"

section \<open>The executor (executor\_backoff.go, backoff\_tracked.go)\<close>

datatype opres = OpOk | OpPermanent goerr | OpErr goerr

text \<open>The variables that \<open>Execute\<close> shares with its closures, and the world.\<close>

record ('w, 'r) exec_state =
  world :: 'w
  es_res :: 'r
  es_err :: error
  es_errType :: ErrorType
  es_attempts :: int
  es_tracker :: ElapsedTimeTracker

text \<open>What the executor calls outside the package.\<close>

record ('w, 'r) exec_env =
  env_f :: "'w \<Rightarrow> ('r \<times> error) \<times> 'w"
  env_now :: "'w \<Rightarrow> int"
  env_ctxDone :: "'w \<Rightarrow> bool"
  env_expNext :: "'w \<Rightarrow> int option \<times> 'w"
  env_wait :: "int \<Rightarrow> 'w \<Rightarrow> bool \<times> 'w"
  env_notifiers :: "(goerr \<Rightarrow> int \<Rightarrow> 'w \<Rightarrow> 'w) list"

record 'r BackoffExecutor =
  be_resource :: ExecutableResource
  be_settings :: BackoffSettings
  be_checks :: "'r ErrorChecker list"
  be_tracker :: ElapsedTimeTracker

definition on_success :: "('w, 'r) exec_state \<Rightarrow> ('w, 'r) exec_state" where
  "on_success s = s\<lparr>es_tracker := tracker_OnSuccess (es_tracker s)\<rparr>"

text \<open>The loop over \<open>e.checks\<close> with its switch.\<close>

fun runChecks ::
  "('w, 'r) exec_env \<Rightarrow> goerr \<Rightarrow> 'r ErrorChecker list \<Rightarrow> ('w, 'r) exec_state \<Rightarrow>
     opres \<times> ('w, 'r) exec_state" where
  "runChecks env err [] s = (OpPermanent err, s)"
| "runChecks env err (check # checks) s =
     (let t = check (es_res s) err; s' = s\<lparr>es_errType := t\<rparr> in
      case t of
        ErrorTypeOk \<Rightarrow> (OpOk, on_success s')
      | ErrorTypeRetryable \<Rightarrow>
          (OpErr err, s'\<lparr>es_tracker := tracker_OnError (es_tracker s') (env_now env (world s'))\<rparr>)
      | ErrorTypePermanent \<Rightarrow> (OpPermanent err, s')
      | ErrorTypeUnknown \<Rightarrow> runChecks env err checks s')"

text \<open>The operation passed to \<open>RetryNotify\<close>.\<close>

definition execOp ::
  "('w, 'r) exec_env \<Rightarrow> 'r BackoffExecutor \<Rightarrow> ('w, 'r) exec_state \<Rightarrow> opres \<times> ('w, 'r) exec_state" where
  "execOp env e s =
     (case env_f env (world s) of
        ((res, err), w) \<Rightarrow>
          let s1 = s\<lparr>world := w, es_res := res, es_err := err\<rparr> in
          case err of
            None \<Rightarrow> (OpOk, on_success s1)
          | Some er \<Rightarrow>
              if MaxAttempts (be_settings e) > 0 \<and> es_attempts s1 \<ge> MaxAttempts (be_settings e)
              then (OpPermanent er, s1)
              else runChecks env er (be_checks e) s1)"

text \<open>
  \<open>backoff.WithContext\<close> around \<open>TrackedBackOff.NextBackOff\<close>: \<open>None\<close> is \<open>backoff.Stop\<close>.
\<close>

definition TrackedBackOff_NextBackOff ::
  "('w, 'r) exec_env \<Rightarrow> int \<Rightarrow> ('w, 'r) exec_state \<Rightarrow> int option \<times> ('w, 'r) exec_state" where
  "TrackedBackOff_NextBackOff env maxElapsedTime s =
     (if maxElapsedTime > 0 \<and>
         tracker_Elapsed (es_tracker s) (env_now env (world s)) > maxElapsedTime
      then (None, s)
      else case env_expNext env (world s) of (d, w) \<Rightarrow> (d, s\<lparr>world := w\<rparr>))"

definition execNext ::
  "('w, 'r) exec_env \<Rightarrow> 'r BackoffExecutor \<Rightarrow> ('w, 'r) exec_state \<Rightarrow>
     int option \<times> ('w, 'r) exec_state" where
  "execNext env e s =
     (if env_ctxDone env (world s) then (None, s)
      else TrackedBackOff_NextBackOff env (MaxElapsedTime (be_settings e)) s)"

definition execNotify ::
  "('w, 'r) exec_env \<Rightarrow> goerr \<Rightarrow> int \<Rightarrow> ('w, 'r) exec_state \<Rightarrow> ('w, 'r) exec_state" where
  "execNotify env err dur s =
     s\<lparr>world := fold (\<lambda>n. n err dur) (env_notifiers env) (world s),
       es_attempts := es_attempts s + 1\<rparr>"

definition execWait ::
  "('w, 'r) exec_env \<Rightarrow> int \<Rightarrow> ('w, 'r) exec_state \<Rightarrow> bool \<times> ('w, 'r) exec_state" where
  "execWait env d s = (case env_wait env d (world s) of (b, w) \<Rightarrow> (b, s\<lparr>world := w\<rparr>))"

text \<open>The three error returns after the loop, in their order, and the final return.\<close>

definition execResult ::
  "(int \<Rightarrow> string) \<Rightarrow> 'r BackoffExecutor \<Rightarrow> int \<Rightarrow> ('w, 'r) exec_state \<Rightarrow> error" where
  "execResult durStr e duration s =
     (case es_err s of
        None \<Rightarrow> None
      | Some err \<Rightarrow>
          let settings = be_settings e in
          if es_errType s \<noteq> ErrorTypeOk \<and> MaxAttempts settings > 0 \<and> es_attempts s > MaxAttempts settings
          then Some (NewErrAttemptsExceeded durStr (be_resource e) (es_attempts s) duration err)
          else if es_errType s \<noteq> ErrorTypeOk \<and> MaxElapsedTime settings > 0 \<and>
                  duration > MaxElapsedTime settings
          then Some (NewErrMaxElapsedTimeExceeded durStr (be_resource e) (es_attempts s) duration
                 (MaxElapsedTime settings) err)
          else Some err)"

type_synonym 's retry_fun =
  "('s \<Rightarrow> opres \<times> 's) \<Rightarrow> ('s \<Rightarrow> int option \<times> 's) \<Rightarrow> (goerr \<Rightarrow> int \<Rightarrow> 's \<Rightarrow> 's) \<Rightarrow>
     (int \<Rightarrow> 's \<Rightarrow> bool \<times> 's) \<Rightarrow> 's \<Rightarrow> 's option"

definition execInit ::
  "('w, 'r) exec_env \<Rightarrow> 'r BackoffExecutor \<Rightarrow> 'r \<Rightarrow> 'w \<Rightarrow> ('w, 'r) exec_state" where
  "execInit env e nil w =
     \<lparr>world = w, es_res = nil, es_err = None, es_errType = ErrorTypeUnknown, es_attempts = 1,
      es_tracker = tracker_Start (be_tracker e) (env_now env w)\<rparr>"

text \<open>
  \<open>Execute\<close>. \<open>nil\<close> is the zero value of the result; the outcome is \<open>None\<close> when the loop does
  not return.
\<close>

definition BackoffExecutor_Execute ::
  "('w, 'r) exec_state retry_fun \<Rightarrow> (int \<Rightarrow> string) \<Rightarrow> ('w, 'r) exec_env \<Rightarrow>
     'r BackoffExecutor \<Rightarrow> 'r \<Rightarrow> 'w \<Rightarrow> (('r \<times> error) \<times> 'w) option" where
  "BackoffExecutor_Execute retry durStr env e nil w =
     (case retry (execOp env e) (execNext env e) (execNotify env) (execWait env) (execInit env e nil w) of
        None \<Rightarrow> None
      | Some s \<Rightarrow>
          Some ((es_res s,
                 execResult durStr e (tracker_Elapsed (es_tracker s) (env_now env (world s))) s),
                world s))"

text \<open>\<open>DefaultExecutor.Execute\<close> of \<open>executor.go\<close>.\<close>

definition DefaultExecutor_Execute ::
  "('w, 'r) exec_env \<Rightarrow> 'w \<Rightarrow> ('r \<times> error) \<times> 'w" where
  "DefaultExecutor_Execute env w = env_f env w"

section \<open>The documented loop of RetryNotify\<close>

text \<open>
  Run the operation; return on success and on a permanent error; ask for the next delay and
  return when it is \<open>Stop\<close>; notify, wait, and return when the context ends the wait,
  otherwise repeat.
\<close>

definition retry_contract :: "'s retry_fun \<Rightarrow> bool" where
  "retry_contract retry \<longleftrightarrow>
     (\<forall>op next notify wait s. retry op next notify wait s =
        (case op s of
           (OpOk, s1) \<Rightarrow> Some s1
         | (OpPermanent err, s1) \<Rightarrow> Some s1
         | (OpErr err, s1) \<Rightarrow>
             (case next s1 of
                (None, s2) \<Rightarrow> Some s2
              | (Some d, s2) \<Rightarrow>
                  (case wait d (notify err d s2) of (b, s3) \<Rightarrow>
                   if b then Some s3 else retry op next notify wait s3))))"

text \<open>A loop with this behaviour exists.\<close>

partial_function (option) retry_loop ::
  "('s \<Rightarrow> opres \<times> 's) \<Rightarrow> ('s \<Rightarrow> int option \<times> 's) \<Rightarrow> (goerr \<Rightarrow> int \<Rightarrow> 's \<Rightarrow> 's) \<Rightarrow>
     (int \<Rightarrow> 's \<Rightarrow> bool \<times> 's) \<Rightarrow> 's \<Rightarrow> 's option" where
  "retry_loop op next notify wait s =
     (case op s of
        (OpOk, s1) \<Rightarrow> Some s1
      | (OpPermanent err, s1) \<Rightarrow> Some s1
      | (OpErr err, s1) \<Rightarrow>
          (case next s1 of
             (None, s2) \<Rightarrow> Some s2
           | (Some d, s2) \<Rightarrow>
               (case wait d (notify err d s2) of (b, s3) \<Rightarrow>
                   if b then Some s3 else retry_loop op next notify wait s3)))"

lemma retry_loop_contract: "retry_contract retry_loop"
  unfolding retry_contract_def by (intro allI) (rule retry_loop.simps)

text \<open>A total-correctness rule for any loop with this behaviour.\<close>

lemma retry_rule:
  fixes m :: "'s \<Rightarrow> nat"
  assumes contract: "retry_contract retry" and "I s"
    and fin: "\<And>s r s1. I s \<Longrightarrow> op s = (r, s1) \<Longrightarrow> \<forall>e. r \<noteq> OpErr e \<Longrightarrow> Q s1"
    and stop: "\<And>s e s1 s2. I s \<Longrightarrow> op s = (OpErr e, s1) \<Longrightarrow> next s1 = (None, s2) \<Longrightarrow> Q s2"
    and again: "\<And>s e s1 d s2 b s3. I s \<Longrightarrow> op s = (OpErr e, s1) \<Longrightarrow> next s1 = (Some d, s2) \<Longrightarrow>
      wait d (notify e d s2) = (b, s3) \<Longrightarrow> if b then Q s3 else I s3 \<and> m s3 < m s"
  shows "\<exists>s'. retry op next notify wait s = Some s' \<and> Q s'"
  using \<open>I s\<close>
proof (induction s rule: measure_induct_rule [where f = m])
  case (less s)
  obtain r s1 where op: "op s = (r, s1)" by fastforce
  have unfold: "retry op next notify wait s =
        (case op s of
           (OpOk, s1) \<Rightarrow> Some s1
         | (OpPermanent err, s1) \<Rightarrow> Some s1
         | (OpErr err, s1) \<Rightarrow>
             (case next s1 of
                (None, s2) \<Rightarrow> Some s2
              | (Some d, s2) \<Rightarrow>
                  (case wait d (notify err d s2) of (b, s3) \<Rightarrow>
                   if b then Some s3 else retry op next notify wait s3)))"
    using contract unfolding retry_contract_def by blast
  show ?case
  proof (cases r)
    case (OpErr e)
    obtain d s2 where nx: "next s1 = (d, s2)" by fastforce
    show ?thesis
    proof (cases d)
      case None
      then show ?thesis using stop [OF less.prems] op OpErr nx unfold by simp
    next
      case (Some d')
      obtain b s3 where w: "wait d' (notify e d' s2) = (b, s3)" by fastforce
      have "if b then Q s3 else I s3 \<and> m s3 < m s"
        using again [OF less.prems] op OpErr nx Some w by blast
      then show ?thesis using less.IH [of s3] op OpErr nx Some w unfold by auto
    qed
  qed (use fin [OF less.prems op] op unfold in auto)
qed

section \<open>Lemmas on one attempt\<close>

lemma runChecks_frame:
  "runChecks env err checks s = (r, s') \<Longrightarrow>
     world s' = world s \<and> es_res s' = es_res s \<and> es_err s' = es_err s \<and>
     es_attempts s' = es_attempts s"
  by (induction env err checks s rule: runChecks.induct)
    (auto simp: Let_def on_success_def split: ErrorType.splits)

lemma execOp_frame:
  assumes "execOp env e s = (r, s')"
  shows "world s' = snd (env_f env (world s))" "es_err s' = snd (fst (env_f env (world s)))"
    "es_attempts s' = es_attempts s"
    "r = OpErr er \<Longrightarrow> 0 < MaxAttempts (be_settings e) \<Longrightarrow> es_attempts s < MaxAttempts (be_settings e)"
  using assms runChecks_frame [of env]
  by (auto simp: execOp_def Let_def on_success_def split: prod.splits option.splits if_splits)

lemma execNext_frame:
  "execNext env e s = (d, s') \<Longrightarrow> es_err s' = es_err s \<and> es_attempts s' = es_attempts s \<and>
     (world s' = world s \<or> world s' = snd (env_expNext env (world s)))"
  by (auto simp: execNext_def TrackedBackOff_NextBackOff_def split: if_splits prod.splits)

text \<open>A counter of the calls of \<open>f\<close> that nothing else of the environment touches.\<close>

definition counts_calls :: "('w, 'r) exec_env \<Rightarrow> ('w \<Rightarrow> nat) \<Rightarrow> bool" where
  "counts_calls env cnt \<longleftrightarrow>
     (\<forall>w. cnt (snd (env_f env w)) = Suc (cnt w)) \<and>
     (\<forall>w. cnt (snd (env_expNext env w)) = cnt w) \<and>
     (\<forall>d w. cnt (snd (env_wait env d w)) = cnt w) \<and>
     (\<forall>n err d w. n \<in> set (env_notifiers env) \<longrightarrow> cnt (n err d w) = cnt w)"

lemma counts_calls_notifiers:
  "counts_calls env cnt \<Longrightarrow> cnt (fold (\<lambda>n. n err d) (env_notifiers env) w) = cnt w"
proof -
  assume c: "counts_calls env cnt"
  have "cnt (fold (\<lambda>n. n err d) ns w) = cnt w" if "set ns \<subseteq> set (env_notifiers env)" for ns
    using that c by (induction ns arbitrary: w) (auto simp: counts_calls_def)
  then show ?thesis by simp
qed

text \<open>The loop with a positive attempt limit: it returns, and what it leaves behind.\<close>

lemma Execute_loop:
  fixes env :: "('w, 'r) exec_env"
  assumes contract: "retry_contract retry" and M: "0 < MaxAttempts (be_settings e)"
    and cnt: "counts_calls env cnt"
    and errs: "\<And>w. Q (snd (fst (env_f env w)))"
  shows "\<exists>s'. retry (execOp env e) (execNext env e) (execNotify env) (execWait env)
      (execInit env e nil w) = Some s' \<and>
    es_attempts s' \<le> MaxAttempts (be_settings e) \<and> Q (es_err s') \<and>
    cnt w < cnt (world s') \<and> int (cnt (world s')) \<le> int (cnt w) + MaxAttempts (be_settings e)"
proof (rule retry_rule [OF contract, where
      I = "\<lambda>s. 1 \<le> es_attempts s \<and> es_attempts s \<le> MaxAttempts (be_settings e) \<and>
        int (cnt (world s)) + 1 = int (cnt w) + es_attempts s" and
      m = "\<lambda>s. nat (MaxAttempts (be_settings e) - es_attempts s)"], goal_cases)
  case 1
  then show ?case using M by (simp add: execInit_def)
next
  case (2 s r s1)
  then show ?case using execOp_frame(1-3) [OF 2(2)] errs cnt by (auto simp: counts_calls_def)
next
  case (3 s er s1 s2)
  then show ?case
    using execOp_frame(1-3) [OF 3(2)] execNext_frame [OF 3(3)] errs cnt
    by (auto simp: counts_calls_def)
next
  case (4 s er s1 d s2 b s3)
  have "es_attempts s < MaxAttempts (be_settings e)" using execOp_frame(4) [OF 4(2)] M by blast
  moreover have "cnt (world s2) = Suc (cnt (world s))"
    using execOp_frame(1-3) [OF 4(2)] execNext_frame [OF 4(3)] cnt by (auto simp: counts_calls_def)
  moreover have "cnt (world s3) = cnt (world s2)" "es_attempts s3 = es_attempts s2 + 1"
    "es_err s3 = es_err s2"
    using 4(4) counts_calls_notifiers [OF cnt] cnt
    by (auto simp: execWait_def execNotify_def counts_calls_def split: prod.splits)
      (metis snd_conv)
  ultimately show ?case
    using 4(1) execOp_frame(1-3) [OF 4(2)] execNext_frame [OF 4(3)] errs by auto
qed

section \<open>Concrete environments\<close>

definition failing_env :: "(nat, unit) exec_env" where
  "failing_env = \<lparr>env_f = (\<lambda>w. (((), Some (Opaque ''boom'')), Suc w)), env_now = (\<lambda>_. 1),
     env_ctxDone = (\<lambda>_. False), env_expNext = (\<lambda>w. (Some 1, w)),
     env_wait = (\<lambda>_ w. (False, w)), env_notifiers = []\<rparr>"

definition recovering_env :: "nat \<Rightarrow> (nat, unit) exec_env" where
  "recovering_env k = failing_env\<lparr>env_f :=
     (\<lambda>w. ((if w < k then ((), Some (Opaque ''boom'')) else ((), None)), Suc w))\<rparr>"

definition failing_executor :: "unit BackoffExecutor" where
  "failing_executor = \<lparr>be_resource = \<lparr>res_Type = ''t'', res_Name = ''n''\<rparr>,
     be_settings = zeroSettings\<lparr>MaxAttempts := 3\<rparr>,
     be_checks = [\<lambda>_ _. ErrorTypeRetryable], be_tracker = DefaultElapsedTimeTracker 0\<rparr>"

lemma failing_limit: "0 < MaxAttempts (be_settings failing_executor)"
  by (simp add: failing_executor_def zeroSettings_def)

lemma failing_counts: "counts_calls failing_env id"
  by (simp add: counts_calls_def failing_env_def)

section \<open>Properties\<close>

text \<open>
  C7. With a positive \<open>MaxAttempts\<close>, \<open>Execute\<close> always returns, and it has called the function
  at least once and at most \<open>MaxAttempts\<close> times, whatever the function, the checks, the
  clock, the context and the notifiers do. \<open>cnt\<close> counts the calls in the world.
\<close>

theorem Execute_bounded_calls:
  assumes "retry_contract retry" and "0 < MaxAttempts (be_settings e)" and "counts_calls env cnt"
  shows "\<exists>res err w'. BackoffExecutor_Execute retry durStr env e nil w = Some ((res, err), w') \<and>
    cnt w < cnt w' \<and> int (cnt w') \<le> int (cnt w) + MaxAttempts (be_settings e)"
proof -
  obtain s' where "retry (execOp env e) (execNext env e) (execNotify env) (execWait env)
      (execInit env e nil w) = Some s'" "cnt w < cnt (world s')"
    "int (cnt (world s')) \<le> int (cnt w) + MaxAttempts (be_settings e)"
    using Execute_loop [OF assms, of "\<lambda>_. True" nil w] by blast
  then show ?thesis by (simp add: BackoffExecutor_Execute_def)
qed

theorem Execute_bounded_calls_witness:
  "\<exists>res err w'. BackoffExecutor_Execute retry_loop (\<lambda>_. ''1s'') failing_env failing_executor () 0 =
     Some ((res, err), w') \<and> 0 < w' \<and> int w' \<le> 3"
  using Execute_bounded_calls [OF retry_loop_contract failing_limit failing_counts,
      of "\<lambda>_. ''1s''" "()" 0]
  by (simp add: failing_executor_def zeroSettings_def)

text \<open>
  \<open>ErrAttemptsExceeded\<close> is never produced by the executor: when the limit is positive
  and no call of the function returns such an error itself, the result of \<open>Execute\<close> does not
  carry one either. The closure stops with a permanent error at \<open>attempts >= MaxAttempts\<close>,
  before the counter can pass the limit, and the code after the loop asks for
  \<open>attempts > MaxAttempts\<close>.
\<close>

theorem Execute_never_attempts_exceeded:
  assumes "retry_contract retry" and "0 < MaxAttempts (be_settings e)" and "counts_calls env cnt"
    and "\<And>w. \<not> IsErrMaxAttemptsExceeded (snd (fst (env_f env w)))"
  shows "\<exists>res err w'. BackoffExecutor_Execute retry durStr env e nil w = Some ((res, err), w') \<and>
    \<not> IsErrMaxAttemptsExceeded err"
proof -
  obtain s' where s': "retry (execOp env e) (execNext env e) (execNotify env) (execWait env)
      (execInit env e nil w) = Some s'" "es_attempts s' \<le> MaxAttempts (be_settings e)"
    "\<not> IsErrMaxAttemptsExceeded (es_err s')"
    using Execute_loop [OF assms(1-3), of "\<lambda>er. \<not> IsErrMaxAttemptsExceeded er"] assms(4) by blast
  then have "\<not> IsErrMaxAttemptsExceeded (execResult durStr e d s')" for d
    by (auto simp: execResult_def IsErrMaxAttemptsExceeded_def NewErrMaxElapsedTimeExceeded_def
        Let_def split: option.splits)
  with s'(1) show ?thesis by (simp add: BackoffExecutor_Execute_def)
qed

theorem Execute_never_attempts_exceeded_witness:
  "\<exists>res err w'. BackoffExecutor_Execute retry_loop (\<lambda>_. ''1s'') failing_env failing_executor () 0 =
     Some ((res, err), w') \<and> \<not> IsErrMaxAttemptsExceeded err"
  by (rule Execute_never_attempts_exceeded [OF retry_loop_contract failing_limit failing_counts])
    (simp add: failing_env_def IsErrMaxAttemptsExceeded_def)



end
