(* ===== verification/Funk.thy ===== *)
theory Funk
  imports Prelude
begin

text \<open>
  The generic collection helpers of \<open>pkg/funk\<close>: \<open>set.go\<close>, \<open>slice.go\<close>, \<open>maps.go\<close> and the
  methods of \<open>maper\<close> in \<open>map.go\<close>.

  A slice is a list; where the code tells a nil slice from an empty one the result is an
  option, \<open>None\<close> being nil. \<open>reflect.DeepEqual\<close> and \<open>==\<close> are equality. A loop is a \<open>fold\<close>
  in the order of the source; a loop over a map follows the list order of the \<open>gomap\<close>.
  A function that changes a map in place returns the changed map beside its result.
\<close>

section \<open>Sets (set.go)\<close>

type_synonym 'a Set = "('a, unit) gomap"

definition Set_Contains :: "'a Set \<Rightarrow> 'a \<Rightarrow> bool" where
  "Set_Contains s item = gm_has s item"

definition Set_Set :: "'a Set \<Rightarrow> 'a \<Rightarrow> 'a Set" where
  "Set_Set s item = gm_set s item ()"

text \<open>\<open>Add\<close> and \<open>Remove\<close> return whether the set changed.\<close>

definition Set_Add :: "'a Set \<Rightarrow> 'a list \<Rightarrow> 'a Set \<times> bool" where
  "Set_Add s items =
     fold (\<lambda>item (s, result). if gm_has s item then (s, result) else (gm_set s item (), True))
       items (s, False)"

definition Set_AddAll :: "'a Set \<Rightarrow> 'a Set \<Rightarrow> 'a Set \<times> bool" where
  "Set_AddAll s items =
     fold (\<lambda>(item, _) (s, result).
         case Set_Add s [item] of (s', added) \<Rightarrow> (s', if added then True else result))
       items (s, False)"

definition Set_Remove :: "'a Set \<Rightarrow> 'a list \<Rightarrow> 'a Set \<times> bool" where
  "Set_Remove s items =
     fold (\<lambda>item (s, result). if \<not> gm_has s item then (s, result) else (gm_del s item, True))
       items (s, False)"

definition Set_RemoveAll :: "'a Set \<Rightarrow> 'a Set \<Rightarrow> 'a Set \<times> bool" where
  "Set_RemoveAll s items =
     fold (\<lambda>(item, _) (s, result). if \<not> gm_has s item then (s, result) else (gm_del s item, True))
       items (s, False)"

definition NewSet :: "'a list \<Rightarrow> 'a Set" where
  "NewSet items = fst (Set_Add [] items)"

fun Set_ContainsAll :: "'a Set \<Rightarrow> 'a Set \<Rightarrow> bool" where
  "Set_ContainsAll s [] = True"
| "Set_ContainsAll s ((item, _) # other) =
     (if \<not> Set_Contains s item then False else Set_ContainsAll s other)"

definition Set_Len :: "'a Set \<Rightarrow> nat" where
  "Set_Len s = length s"

definition Set_Empty :: "'a Set \<Rightarrow> bool" where
  "Set_Empty s = (length s = 0)"

definition SetToSlice :: "'a Set \<Rightarrow> 'a list" where
  "SetToSlice s = fold (\<lambda>(k, _) out. out @ [k]) s []"

section \<open>Slices (slice.go)\<close>

text \<open>\<open>CastSlice\<close>: \<open>cast\<close> is the type assertion; the error names the offending index.\<close>

fun castFrom :: "('a \<Rightarrow> 'b option) \<Rightarrow> nat \<Rightarrow> 'a list \<Rightarrow> 'b list \<Rightarrow> nat + 'b list" where
  "castFrom cast i [] result = Inr result"
| "castFrom cast i (x # xs) result =
     (case cast x of None \<Rightarrow> Inl i | Some el \<Rightarrow> castFrom cast (Suc i) xs (result @ [el]))"

definition CastSlice :: "('a \<Rightarrow> 'b option) \<Rightarrow> 'a list \<Rightarrow> nat + 'b list" where
  "CastSlice cast sl = castFrom cast 0 sl []"

definition appendAt :: "('k, 'v list) gomap \<Rightarrow> 'k \<Rightarrow> 'v \<Rightarrow> ('k, 'v list) gomap" where
  "appendAt m k v = gm_set m k ((case gm_get m k of None \<Rightarrow> [] | Some vs \<Rightarrow> vs) @ [v])"

definition PartitionMap :: "'a list \<Rightarrow> ('a \<Rightarrow> 'k \<times> 'v) \<Rightarrow> ('k, 'v list) gomap" where
  "PartitionMap inp keyer = fold (\<lambda>item out. case keyer item of (k, v) \<Rightarrow> appendAt out k v) inp []"

definition Partition :: "'a list \<Rightarrow> ('a \<Rightarrow> 'k) \<Rightarrow> ('k, 'a list) gomap" where
  "Partition sl keyer = fold (\<lambda>item result. appendAt result (keyer item) item) sl []"

text \<open>\<open>Chunk\<close>: the buckets are made first, then element \<open>i\<close> is appended to bucket \<open>i/size\<close>.\<close>

definition chunkBuckets :: "nat \<Rightarrow> nat \<Rightarrow> 'a list list" where
  "chunkBuckets n sz = replicate (n div sz) [] @ (if n mod sz \<noteq> 0 then [[]] else [])"

definition chunkStep :: "nat \<Rightarrow> 'a list \<Rightarrow> nat \<Rightarrow> 'a list list \<Rightarrow> 'a list list" where
  "chunkStep sz sl i result = result[i div sz := result ! (i div sz) @ [sl ! i]]"

definition Chunk :: "'a list \<Rightarrow> int \<Rightarrow> 'a list list option" where
  "Chunk sl sz =
     (if sz \<le> 0 then None
      else if sl = [] then Some []
      else Some (fold (chunkStep (nat sz) sl) [0..<length sl] (chunkBuckets (length sl) (nat sz))))"

definition Concat :: "'a list list \<Rightarrow> 'a list" where
  "Concat sl = fold (\<lambda>xs final. final @ xs) sl []"

definition Flatten :: "'a list list \<Rightarrow> 'a list" where
  "Flatten sl = fold (\<lambda>items result. result @ items) sl []"

fun FindFirstFunc :: "'a list \<Rightarrow> ('a \<Rightarrow> bool) \<Rightarrow> 'a option" where
  "FindFirstFunc [] pred = None"
| "FindFirstFunc (item # sl) pred = (if pred item then Some item else FindFirstFunc sl pred)"

fun FindFirst :: "'a list \<Rightarrow> 'a \<Rightarrow> 'a option" where
  "FindFirst [] el = None"
| "FindFirst (item # sl) el = (if item = el then Some item else FindFirst sl el)"

definition ContainsFunc :: "'a list \<Rightarrow> ('a \<Rightarrow> bool) \<Rightarrow> bool" where
  "ContainsFunc sl pred = (FindFirstFunc sl pred \<noteq> None)"

definition Contains :: "'a list \<Rightarrow> 'a \<Rightarrow> bool" where
  "Contains inp elem = ContainsFunc inp (\<lambda>actual. actual = elem)"

fun ContainsAll :: "'a list \<Rightarrow> 'a list \<Rightarrow> bool" where
  "ContainsAll inp [] = True"
| "ContainsAll inp (elem # elements) =
     (if \<not> Contains inp elem then False else ContainsAll inp elements)"

definition Difference :: "'a list \<Rightarrow> 'a list \<Rightarrow> 'a list \<times> 'a list" where
  "Difference left right =
     (let set1 = NewSet left; set2 = NewSet right in
      (fold (\<lambda>item acc. if \<not> Set_Contains set2 item then acc @ [item] else acc) left [],
       fold (\<lambda>item acc. if \<not> Set_Contains set1 item then acc @ [item] else acc) right []))"

definition Filter :: "'a list \<Rightarrow> ('a \<Rightarrow> bool) \<Rightarrow> 'a list" where
  "Filter sl pred =
     (if length sl = 0 then []
      else fold (\<lambda>item result. if pred item then result @ [item] else result) sl [])"

definition First :: "'a list \<Rightarrow> 'a option" where
  "First sl = (if length sl \<ge> 1 then Some (sl ! 0) else None)"

fun indexFrom :: "int \<Rightarrow> 'a list \<Rightarrow> 'a \<Rightarrow> int" where
  "indexFrom i [] e = -1"
| "indexFrom i (v # sl) e = (if v = e then i else indexFrom (i + 1) sl e)"

definition Index :: "'a list \<Rightarrow> 'a \<Rightarrow> int" where
  "Index sl e = indexFrom 0 sl e"

definition Intersect :: "'a list \<Rightarrow> 'a list \<Rightarrow> 'a list" where
  "Intersect sl1 sl2 =
     (let set2 = NewSet sl2 in
      SetToSlice (fold (\<lambda>item result.
          if Set_Contains set2 item then fst (Set_Add result [item]) else result) sl1 []))"

definition KeyedToMap :: "('a \<Rightarrow> string) \<Rightarrow> 'a list \<Rightarrow> (string, 'a) gomap" where
  "KeyedToMap GetKey sl = fold (\<lambda>item out. gm_set out (GetKey item) item) sl []"

text \<open>\<open>zero\<close> is the zero value of the element type.\<close>

definition Last :: "'a \<Rightarrow> 'a list \<Rightarrow> 'a" where
  "Last zero sl = (if length sl = 0 then zero else sl ! (length sl - 1))"

definition Map :: "'a list \<Rightarrow> ('a \<Rightarrow> 'b) \<Rightarrow> 'b list" where
  "Map sl op = fold (\<lambda>item result. result @ [op item]) sl []"

fun reduceFrom :: "nat \<Rightarrow> 'a list \<Rightarrow> ('b \<Rightarrow> 'a \<Rightarrow> nat \<Rightarrow> 'b) \<Rightarrow> 'b \<Rightarrow> 'b" where
  "reduceFrom idx [] op result = result"
| "reduceFrom idx (item # sl) op result = reduceFrom (Suc idx) sl op (op result item idx)"

definition Reduce :: "'a list \<Rightarrow> ('b \<Rightarrow> 'a \<Rightarrow> nat \<Rightarrow> 'b) \<Rightarrow> 'b \<Rightarrow> 'b" where
  "Reduce sl op init = reduceFrom 0 sl op init"

definition SliceToMap :: "'a list \<Rightarrow> ('a \<Rightarrow> 'k \<times> 'v) \<Rightarrow> ('k, 'v) gomap" where
  "SliceToMap sl keyer = fold (\<lambda>item out. case keyer item of (k, v) \<Rightarrow> gm_set out k v) sl []"

definition SliceToSet :: "'a list \<Rightarrow> 'a Set" where
  "SliceToSet sl = NewSet sl"

definition Repeat :: "'a \<Rightarrow> int \<Rightarrow> 'a list option" where
  "Repeat el n =
     (if n < 0 then None else if n = 0 then Some [] else Some (replicate (nat n) el))"

text \<open>\<open>Reverse\<close>: the loop with the two indices \<open>i\<close> and \<open>j\<close> (\<open>j\<close> as an integer).\<close>

function reverseLoop :: "'a list \<Rightarrow> nat \<Rightarrow> int \<Rightarrow> 'a list \<Rightarrow> 'a list" where
  "reverseLoop sl i j out =
     (if i < length sl \<and> j \<ge> 0 then reverseLoop sl (i + 1) (j - 1) (out[i := sl ! nat j]) else out)"
  by pat_completeness auto
termination
  by (relation "measure (\<lambda>(sl, i, j, out). length sl - i)") auto

declare reverseLoop.simps [simp del]

definition Reverse :: "'a \<Rightarrow> 'a list \<Rightarrow> 'a list" where
  "Reverse zero sl = reverseLoop sl 0 (int (length sl) - 1) (replicate (length sl) zero)"

definition Tail :: "'a list \<Rightarrow> 'a list" where
  "Tail sl = (if length sl < 2 then sl else drop 1 sl)"

definition UniqFunc :: "'a list \<Rightarrow> ('a \<Rightarrow> 'k) \<Rightarrow> 'a list" where
  "UniqFunc sl fn =
     snd (fold (\<lambda>item (keys, uniq).
         let key = fn item in
         if Set_Contains keys key then (keys, uniq)
         else (fst (Set_Add keys [key]), uniq @ [item])) sl ([], []))"

definition Uniq :: "'a list \<Rightarrow> 'a list" where
  "Uniq sl =
     snd (fold (\<lambda>e (set, res).
         if Set_Contains set e then (set, res)
         else (fst (Set_Add set [e]), res @ [e])) sl ([], []))"

definition Any :: "'a list \<Rightarrow> ('a \<Rightarrow> bool) \<Rightarrow> bool" where
  "Any inp pred = (FindFirstFunc inp pred \<noteq> None)"

definition None_of :: "'a list \<Rightarrow> ('a \<Rightarrow> bool) \<Rightarrow> bool" where
  "None_of inp pred = (\<not> Any inp pred)"

definition All_of :: "'a list \<Rightarrow> ('a \<Rightarrow> bool) \<Rightarrow> bool" where
  "All_of inp pred = None_of inp (\<lambda>i. \<not> pred i)"

definition NilIfEmpty :: "'a list \<Rightarrow> 'a list option" where
  "NilIfEmpty inp = (if length inp = 0 then None else Some inp)"

section \<open>Maps (maps.go)\<close>

definition gm_setAll :: "('k, 'v) gomap \<Rightarrow> ('k, 'v) gomap \<Rightarrow> ('k, 'v) gomap" where
  "gm_setAll item out = fold (\<lambda>(k, v) out. gm_set out k v) item out"

definition MergeMaps :: "('k, 'v) gomap list \<Rightarrow> ('k, 'v) gomap" where
  "MergeMaps m = fold gm_setAll m []"

definition combineInto ::
  "('v \<Rightarrow> 'v \<Rightarrow> 'v) \<Rightarrow> ('k, 'v) gomap \<Rightarrow> ('k, 'v) gomap \<Rightarrow> ('k, 'v) gomap" where
  "combineInto combine item out =
     fold (\<lambda>(k, v) out. case gm_get out k of
         Some existing \<Rightarrow> gm_set out k (combine existing v) | None \<Rightarrow> gm_set out k v) item out"

definition MergeMapsWith :: "('v \<Rightarrow> 'v \<Rightarrow> 'v) \<Rightarrow> ('k, 'v) gomap list \<Rightarrow> ('k, 'v) gomap" where
  "MergeMapsWith combine m = fold (combineInto combine) m []"

definition IntersectMaps ::
  "('k, 'v) gomap \<Rightarrow> ('k, 'v) gomap \<Rightarrow> ('k, 'v) gomap list \<Rightarrow> ('k, 'v) gomap" where
  "IntersectMaps m1 m2 ms =
     fold (\<lambda>(k, v) result.
         if gm_has m2 k \<and> All_of ms (\<lambda>m3. gm_has m3 k) then gm_set result k v else result) m1 []"

definition IntersectMapsWith ::
  "('v \<Rightarrow> 'v \<Rightarrow> 'v) \<Rightarrow> ('k, 'v) gomap \<Rightarrow> ('k, 'v) gomap \<Rightarrow> ('k, 'v) gomap list \<Rightarrow> ('k, 'v) gomap" where
  "IntersectMapsWith combine m1 m2 ms =
     fold (\<lambda>(k, v1) result.
         case gm_get m2 k of
           Some v2 \<Rightarrow>
             if All_of ms (\<lambda>m3. gm_has m3 k)
             then gm_set result k (fold (\<lambda>m3 acc. combine acc (the (gm_get m3 k))) ms (combine v1 v2))
             else result
         | None \<Rightarrow> result) m1 []"

definition withoutKeysOf :: "('k, 'v) gomap \<Rightarrow> ('k, 'w) gomap \<Rightarrow> ('k, 'v) gomap" where
  "withoutKeysOf left right =
     fold (\<lambda>(k, v) acc. if \<not> gm_has right k then gm_set acc k v else acc) left []"

definition DifferenceMaps ::
  "('k, 'v) gomap \<Rightarrow> ('k, 'w) gomap \<Rightarrow> ('k, 'v) gomap \<times> ('k, 'w) gomap" where
  "DifferenceMaps left right = (withoutKeysOf left right, withoutKeysOf right left)"

definition Keys :: "('k, 'v) gomap \<Rightarrow> 'k list" where
  "Keys m = fold (\<lambda>(k, _) keys. keys @ [k]) m []"

definition Values :: "('k, 'v) gomap \<Rightarrow> 'v list" where
  "Values m = fold (\<lambda>(_, v) values. values @ [v]) m []"

definition MapFilter :: "('k, 'v) gomap \<Rightarrow> ('k \<Rightarrow> 'v \<Rightarrow> bool) \<Rightarrow> ('k, 'v) gomap" where
  "MapFilter m f = fold (\<lambda>(k, v) acc. if f k v then gm_set acc k v else acc) m []"

definition MapKeys :: "('k, 'v) gomap \<Rightarrow> ('k \<Rightarrow> 'l) \<Rightarrow> ('l, 'v) gomap" where
  "MapKeys m f = fold (\<lambda>(k, v) r. gm_set r (f k) v) m []"

definition MapKeysWith :: "('k, 'v) gomap \<Rightarrow> ('k \<Rightarrow> 'l) \<Rightarrow> ('v \<Rightarrow> 'v \<Rightarrow> 'v) \<Rightarrow> ('l, 'v) gomap" where
  "MapKeysWith m f combine =
     fold (\<lambda>(k, v) r. case gm_get r (f k) of
         Some existing \<Rightarrow> gm_set r (f k) (combine existing v) | None \<Rightarrow> gm_set r (f k) v) m []"

definition MapValues :: "('k, 'v) gomap \<Rightarrow> ('v \<Rightarrow> 'w) \<Rightarrow> ('k, 'w) gomap" where
  "MapValues m f = fold (\<lambda>(k, v) r. gm_set r k (f v)) m []"

definition PopulateMapWith :: "('k \<Rightarrow> 'v) \<Rightarrow> 'k list \<Rightarrow> ('k, 'v) gomap" where
  "PopulateMapWith generator keys = fold (\<lambda>key result. gm_set result key (generator key)) keys []"

definition PopulateMap :: "'v \<Rightarrow> 'k list \<Rightarrow> ('k, 'v) gomap" where
  "PopulateMap value keys = fold (\<lambda>key result. gm_set result key value) keys []"

text \<open>The pairs \<open>RangeSorted\<close> yields to a consumer that never stops.\<close>

definition RangeSorted :: "('k::linorder, 'v) gomap \<Rightarrow> ('k \<times> 'v) list" where
  "RangeSorted m = map (\<lambda>k. (k, the (gm_get m k))) (sort (Keys m))"

definition IntersectKeyed :: "('a \<Rightarrow> string) \<Rightarrow> 'a list \<Rightarrow> 'a list \<Rightarrow> 'a list" where
  "IntersectKeyed GetKey s1 s2 = Values (IntersectMaps (KeyedToMap GetKey s1) (KeyedToMap GetKey s2) [])"

definition DifferenceKeyed ::
  "('a \<Rightarrow> string) \<Rightarrow> ('b \<Rightarrow> string) \<Rightarrow> 'a list \<Rightarrow> 'b list \<Rightarrow> 'a list \<times> 'b list" where
  "DifferenceKeyed GetKey1 GetKey2 left right =
     (case DifferenceMaps (KeyedToMap GetKey1 left) (KeyedToMap GetKey2 right) of
        (inLeftS, inRightS) \<Rightarrow> (Values inLeftS, Values inRightS))"

section \<open>Closed forms of the slice loops\<close>

lemma fold_snoc_filter:
  "fold (\<lambda>item acc. if P item then acc @ [f item] else acc) xs acc = acc @ map f (filter P xs)"
  by (induction xs arbitrary: acc) auto

lemma Filter_eq [loop_simps]: "Filter sl pred = filter pred sl"
  using fold_snoc_filter [of pred "\<lambda>x. x" sl "[]"] by (auto simp: Filter_def)

lemma Map_eq [loop_simps]: "Map sl op = map op sl"
  using fold_snoc_filter [of "\<lambda>_. True" op sl "[]"] by (simp add: Map_def)

lemma Concat_eq [loop_simps]: "Concat sl = concat sl"
  using fold_append_concat [of "\<lambda>x. x" sl "[]"] by (simp add: Concat_def)

lemma Flatten_eq [loop_simps]: "Flatten sl = concat sl"
  using fold_append_concat [of "\<lambda>x. x" sl "[]"] by (simp add: Flatten_def)

lemma FindFirstFunc_eq [loop_simps]: "FindFirstFunc sl pred = find pred sl"
  by (induction sl) auto

lemma FindFirst_eq [loop_simps]: "FindFirst sl el = (if el \<in> set sl then Some el else None)"
  by (induction sl) auto

lemma Any_eq [loop_simps]: "Any inp pred \<longleftrightarrow> (\<exists>x \<in> set inp. pred x)"
  by (auto simp: Any_def FindFirstFunc_eq find_None_iff)

lemma All_of_eq [loop_simps]: "All_of inp pred \<longleftrightarrow> (\<forall>x \<in> set inp. pred x)"
  by (simp add: All_of_def None_of_def Any_eq)

lemma Contains_eq [loop_simps]: "Contains inp elem \<longleftrightarrow> elem \<in> set inp"
  by (auto simp: Contains_def ContainsFunc_def FindFirstFunc_eq find_None_iff)

lemma ContainsAll_eq [loop_simps]: "ContainsAll inp elements \<longleftrightarrow> set elements \<subseteq> set inp"
  by (induction elements) (auto simp: Contains_eq)

lemma Keys_eq [loop_simps]: "Keys m = map fst m"
  using fold_snoc_filter [of "\<lambda>_. True" fst m "[]"] by (simp add: Keys_def case_prod_unfold)

lemma Values_eq [loop_simps]: "Values m = map snd m"
  using fold_snoc_filter [of "\<lambda>_. True" snd m "[]"] by (simp add: Values_def case_prod_unfold)

lemma SetToSlice_eq [loop_simps]: "SetToSlice s = map fst s"
  using fold_snoc_filter [of "\<lambda>_. True" fst s "[]"] by (simp add: SetToSlice_def case_prod_unfold)

lemma castFrom_eq:
  "castFrom cast i xs result = Inr ys \<longleftrightarrow> (\<exists>zs. ys = result @ zs \<and> map cast xs = map Some zs)"
  by (induction cast i xs result rule: castFrom.induct) (auto split: option.splits simp: Cons_eq_map_conv)

lemma castFrom_error:
  "castFrom cast i xs result = Inl j \<longleftrightarrow>
     (\<exists>k < length xs. j = i + k \<and> cast (xs ! k) = None \<and> (\<forall>l < k. cast (xs ! l) \<noteq> None))"
proof (induction cast i xs result rule: castFrom.induct)
  case (2 cast i x xs result)
  show ?case
  proof (cases "cast x")
    case None
    then have "k = 0" if "\<forall>l < k. cast ((x # xs) ! l) \<noteq> None" for k
      using that by (cases k) auto
    with None show ?thesis by fastforce
  next
    case (Some el)
    have "(\<exists>k < length (x # xs). j = i + k \<and> cast ((x # xs) ! k) = None \<and> (\<forall>l < k. cast ((x # xs) ! l) \<noteq> None)) \<longleftrightarrow>
        (\<exists>k < length xs. j = Suc i + k \<and> cast (xs ! k) = None \<and> (\<forall>l < k. cast (xs ! l) \<noteq> None))"
      (is "?l \<longleftrightarrow> ?r")
    proof
      assume ?l
      then obtain k where k: "k < length (x # xs)" "j = i + k" "cast ((x # xs) ! k) = None"
        "\<forall>l < k. cast ((x # xs) ! l) \<noteq> None" by blast
      with Some obtain k' where "k = Suc k'" by (cases k) auto
      with k show ?r by (auto intro!: exI [of _ k'])
    next
      assume ?r
      then obtain k where "k < length xs" "j = Suc i + k" "cast (xs ! k) = None"
        "\<forall>l < k. cast (xs ! l) \<noteq> None" by blast
      with Some show ?l by (auto simp: nth_Cons' less_Suc_eq_0_disj intro!: exI [of _ "Suc k"])
    qed
    with 2 Some show ?thesis by simp
  qed
qed simp

section \<open>Sets as sets\<close>

text \<open>The abstraction of a \<open>Set\<close> and the contract of the type as a locale.\<close>

definition set_of :: "'a Set \<Rightarrow> 'a set" where
  "set_of s = fst ` set s"

lemma set_of_simps [simp]:
  "set_of [] = {}" "set_of (gm_set s x ()) = insert x (set_of s)"
  "set_of (gm_del s x) = set_of s - {x}"
  by (auto simp: set_of_def AList.dom_update AList.delete_eq image_iff)

lemma gm_has_set_of: "gm_has s x \<longleftrightarrow> x \<in> set_of s"
  by (simp only: gm_dom_conv set_of_def)

lemma gm_get_unit [simp]: "gm_get s x = Some () \<longleftrightarrow> x \<in> set_of s"
  using gm_has_set_of [of s x] by simp

locale set_contract =
  fixes empty_set :: 's
    and add :: "'s \<Rightarrow> 'a list \<Rightarrow> 's \<times> bool"
    and remove :: "'s \<Rightarrow> 'a list \<Rightarrow> 's \<times> bool"
    and member :: "'s \<Rightarrow> 'a \<Rightarrow> bool"
    and abs_set :: "'s \<Rightarrow> 'a set"
    and invar :: "'s \<Rightarrow> bool"
  assumes abs_empty: "abs_set empty_set = {}"
    and abs_add: "invar s \<Longrightarrow> abs_set (fst (add s xs)) = abs_set s \<union> set xs"
    and add_changed: "invar s \<Longrightarrow> snd (add s xs) \<longleftrightarrow> \<not> set xs \<subseteq> abs_set s"
    and abs_remove: "invar s \<Longrightarrow> abs_set (fst (remove s xs)) = abs_set s - set xs"
    and remove_changed: "invar s \<Longrightarrow> snd (remove s xs) \<longleftrightarrow> set xs \<inter> abs_set s \<noteq> {}"
    and member_iff: "invar s \<Longrightarrow> member s x \<longleftrightarrow> x \<in> abs_set s"
    and invar_empty: "invar empty_set"
    and invar_add: "invar s \<Longrightarrow> invar (fst (add s xs))"
    and invar_remove: "invar s \<Longrightarrow> invar (fst (remove s xs))"
begin

text \<open>Collecting a slice into a set, and the idiom of \<open>Uniq\<close>: keep what was not seen yet.\<close>

lemma member_collect: "member (fst (add empty_set xs)) x \<longleftrightarrow> x \<in> set xs"
  by (simp add: member_iff invar_add invar_empty abs_add abs_empty)

lemma add_remove: "invar s \<Longrightarrow> set xs \<inter> abs_set s = {} \<Longrightarrow>
    abs_set (fst (remove (fst (add s xs)) xs)) = abs_set s"
  by (auto simp: abs_remove invar_add abs_add)

definition dedup_step :: "('b \<Rightarrow> 'a) \<Rightarrow> 'b \<Rightarrow> 's \<times> 'b list \<Rightarrow> 's \<times> 'b list" where
  "dedup_step f x = (\<lambda>(s, res). if member s (f x) then (s, res) else (fst (add s [f x]), res @ [x]))"

lemma dedup_step_simp:
  "dedup_step f x (s, res) = (if member s (f x) then (s, res) else (fst (add s [f x]), res @ [x]))"
  by (simp add: dedup_step_def)

lemma dedup_fold:
  "invar s \<Longrightarrow> snd (fold (dedup_step f) xs (s, res)) = res @ firsts f (abs_set s) xs"
  by (induction xs arbitrary: s res) (auto simp: dedup_step_simp member_iff invar_add abs_add)

end

lemma Set_Add_invariant:
  "fold (\<lambda>item (s, result). if gm_has s item then (s, result) else (gm_set s item (), True)) xs (s, b) = (s', b')
   \<Longrightarrow> set_of s' = set_of s \<union> set xs \<and> (b' \<longleftrightarrow> b \<or> \<not> set xs \<subseteq> set_of s) \<and> (gm_wf s \<longrightarrow> gm_wf s')"
  by (induction xs arbitrary: s b) (auto split: if_splits)

lemma Set_Remove_invariant:
  "fold (\<lambda>item (s, result). if \<not> gm_has s item then (s, result) else (gm_del s item, True)) xs (s, b) = (s', b')
   \<Longrightarrow> set_of s' = set_of s - set xs \<and> (b' \<longleftrightarrow> b \<or> set xs \<inter> set_of s \<noteq> {}) \<and> (gm_wf s \<longrightarrow> gm_wf s')"
  by (induction xs arbitrary: s b) (auto split: if_splits)

interpretation funk_set: set_contract "[]" Set_Add Set_Remove Set_Contains set_of gm_wf
proof
  fix s :: "'a Set" and xs :: "'a list" and x
  show "set_of (fst (Set_Add s xs)) = set_of s \<union> set xs"
    "snd (Set_Add s xs) \<longleftrightarrow> \<not> set xs \<subseteq> set_of s" "gm_wf s \<Longrightarrow> gm_wf (fst (Set_Add s xs))"
    using Set_Add_invariant [of xs s False "fst (Set_Add s xs)" "snd (Set_Add s xs)"]
    by (simp_all add: Set_Add_def)
  show "set_of (fst (Set_Remove s xs)) = set_of s - set xs"
    "snd (Set_Remove s xs) \<longleftrightarrow> set xs \<inter> set_of s \<noteq> {}" "gm_wf s \<Longrightarrow> gm_wf (fst (Set_Remove s xs))"
    using Set_Remove_invariant [of xs s False "fst (Set_Remove s xs)" "snd (Set_Remove s xs)"]
    by (simp_all add: Set_Remove_def)
  show "Set_Contains s x \<longleftrightarrow> x \<in> set_of s" by (simp add: Set_Contains_def)
qed simp_all

lemma UniqFunc_eq [loop_simps]: "UniqFunc sl fn = firsts fn {} sl"
  using funk_set.dedup_fold [of "[]" fn sl "[]"]
  by (simp add: UniqFunc_def funk_set.dedup_step_def [abs_def] Let_def)

lemma Uniq_eq [loop_simps]: "Uniq sl = firsts (\<lambda>x. x) {} sl"
  using funk_set.dedup_fold [of "[]" "\<lambda>x. x" sl "[]"]
  by (simp add: Uniq_def funk_set.dedup_step_def [abs_def])

lemma NewSet_contains [simp]: "Set_Contains (NewSet items) x \<longleftrightarrow> x \<in> set items"
  by (simp add: NewSet_def funk_set.member_collect)

lemma Difference_eq [loop_simps]:
  "Difference left right = (filter (\<lambda>x. x \<notin> set right) left, filter (\<lambda>x. x \<notin> set left) right)"
  by (simp add: Difference_def fold_snoc_filter [where f = "\<lambda>x. x", simplified])

lemma Intersect_loop:
  "gm_wf acc \<Longrightarrow>
   let r = fold (\<lambda>item result. if P item then fst (Set_Add result [item]) else result) xs acc
   in set_of r = set_of acc \<union> Set.filter P (set xs) \<and> gm_wf r"
  by (induction xs arbitrary: acc) (auto simp: funk_set.abs_add funk_set.invar_add Let_def)

lemma Intersect_spec:
  "set (Intersect sl1 sl2) = set sl1 \<inter> set sl2" "distinct (Intersect sl1 sl2)"
  using Intersect_loop [of "[]" "\<lambda>x. x \<in> set sl2" sl1]
  by (auto simp: Intersect_def Let_def SetToSlice_eq set_of_def gm_wf_def)

section \<open>Chunks\<close>

lemma bucket_in_range: "0 < sz \<Longrightarrow> i < n \<Longrightarrow> i div sz < length (chunkBuckets n sz)"
proof -
  assume sz: "0 < sz" and i: "i < n"
  show ?thesis
  proof (cases "i div sz = n div sz")
    case True
    have "n mod sz \<noteq> 0"
    proof
      assume "n mod sz = 0"
      then have "n = n div sz * sz" using div_mult_mod_eq [of n sz] by simp
      moreover have "i div sz * sz \<le> i" by (rule div_times_less_eq_dividend)
      ultimately show False using True i by simp
    qed
    with True show ?thesis by (simp add: chunkBuckets_def)
  next
    case False
    with i have "i div sz < n div sz" using div_le_mono [of i n sz] by simp
    then show ?thesis by (simp add: chunkBuckets_def)
  qed
qed

lemma bucket_start: "0 < sz \<Longrightarrow> j < length (chunkBuckets n sz) \<Longrightarrow> j * sz < n"
proof -
  assume sz: "0 < sz" and j: "j < length (chunkBuckets n sz)"
  have n: "n = n div sz * sz + n mod sz" by simp
  show ?thesis
  proof (cases "j < n div sz")
    case True
    then have "j * sz < n div sz * sz" using sz by simp
    with n show ?thesis by linarith
  next
    case False
    with j have "j = n div sz" "n mod sz \<noteq> 0" by (auto simp: chunkBuckets_def split: if_splits)
    then have "j * sz + n mod sz = n" "0 < n mod sz" by simp_all
    then show ?thesis by linarith
  qed
qed

text \<open>After \<open>i\<close> steps the buckets hold the first \<open>i\<close> elements, cut every \<open>sz\<close> elements.\<close>

abbreviation cut :: "nat \<Rightarrow> 'a list \<Rightarrow> nat \<Rightarrow> 'a list" where
  "cut sz xs j \<equiv> take sz (drop (j * sz) xs)"

lemma cut_snoc:
  assumes sz: "0 < sz" and i: "i < length sl"
  shows "cut sz (take (Suc i) sl) j =
    (if j = i div sz then cut sz (take i sl) j @ [sl ! i] else cut sz (take i sl) j)"
proof -
  have split: "take (Suc i) sl = take i sl @ [sl ! i]" using i by (simp add: take_Suc_conv_app_nth)
  have q: "i = i div sz * sz + i mod sz" "i mod sz < sz" using sz by simp_all
  consider "j < i div sz" | "j = i div sz" | "i div sz < j" by linarith
  then show ?thesis
  proof cases
    case 1
    then have "Suc j * sz \<le> i div sz * sz" by (intro mult_le_mono1) simp
    also have "i div sz * sz \<le> i" by (rule div_times_less_eq_dividend)
    finally have "j * sz + sz \<le> i" by simp
    with 1 i split show ?thesis by simp
  next
    case 2
    then have "j * sz + i mod sz = i" by simp
    then have "j * sz \<le> i" "i - j * sz < sz" using q(2) by linarith+
    with 2 i split show ?thesis by simp
  next
    case 3
    then have "Suc (i div sz) * sz \<le> j * sz" by (intro mult_le_mono1) simp
    moreover have "i < Suc (i div sz) * sz" using sz by (simp add: dividend_less_div_times)
    ultimately have "i < j * sz" by linarith
    with 3 i show ?thesis by simp
  qed
qed

lemma chunk_fold:
  fixes sl :: "'a list"
  assumes "0 < sz" and "i \<le> length sl"
  shows "fold (chunkStep sz sl) [0..<i] (chunkBuckets (length sl) sz) =
    map (cut sz (take i sl)) [0..<length (chunkBuckets (length sl) sz :: 'a list list)]"
  using assms(2)
proof (induction i)
  case 0
  show ?case by (rule nth_equalityI) (auto simp: chunkBuckets_def nth_append)
next
  case (Suc i)
  then have r: "i div sz < length (chunkBuckets (length sl) sz :: 'a list list)"
    by (intro bucket_in_range [OF assms(1)]) simp
  show ?case
    using Suc r cut_snoc [OF assms(1), of i sl]
    by (auto simp: chunkStep_def intro!: nth_equalityI simp: nth_list_update)
qed

lemma concat_cuts: "concat (map (cut sz xs) [0..<m]) = take (m * sz) xs"
proof (induction m)
  case (Suc m)
  then show ?case using take_add [of "m * sz" sz xs] by (simp add: add.commute)
qed simp

lemma cuts_cover: "0 < sz \<Longrightarrow> length xs \<le> length (chunkBuckets (length xs) sz :: 'a list list) * sz"
proof (cases "length xs")
  case (Suc n)
  assume sz: "0 < sz"
  have "n div sz < length (chunkBuckets (length xs) sz :: 'a list list)"
    by (rule bucket_in_range [OF sz]) (simp add: Suc)
  then have "Suc (n div sz) * sz \<le> length (chunkBuckets (length xs) sz :: 'a list list) * sz"
    by (intro mult_le_mono1) simp
  moreover have "n < Suc (n div sz) * sz" using sz by (simp add: dividend_less_div_times)
  ultimately show ?thesis using Suc by linarith
qed simp

section \<open>Maps\<close>

lemma gm_get_setAll: "gm_wf item \<Longrightarrow> gm_get (gm_setAll item out) = gm_get out ++ gm_get item"
proof (induction item arbitrary: out)
  case (Cons kv item)
  obtain k v where kv: "kv = (k, v)" by fastforce
  then have "gm_get (gm_setAll item (gm_set out k v)) = gm_get (gm_set out k v) ++ gm_get item"
    using Cons.prems by (intro Cons.IH) simp
  moreover have "gm_get item k = None" using Cons.prems kv by (auto simp: map_of_eq_None_iff)
  ultimately show ?case
    by (auto simp: kv gm_setAll_def fun_eq_iff map_add_def split: option.splits)
qed (simp add: gm_setAll_def)

lemma gm_wf_setAll: "gm_wf out \<Longrightarrow> gm_wf (gm_setAll item out)"
  by (induction item arbitrary: out) (auto simp: gm_setAll_def)

lemma MergeMaps_get:
  "list_all gm_wf ms \<Longrightarrow> gm_get (MergeMaps ms) = foldl (++) Map.empty (map gm_get ms)"
proof -
  have "gm_get (fold gm_setAll ms out) = foldl (++) (gm_get out) (map gm_get ms)"
    if "list_all gm_wf ms" for out
    using that by (induction ms arbitrary: out) (auto simp: gm_get_setAll)
  then show "list_all gm_wf ms \<Longrightarrow> ?thesis" by (simp add: MergeMaps_def)
qed

lemma combineInto_get:
  "gm_wf item \<Longrightarrow> gm_get (combineInto combine item out) k =
     (case (gm_get out k, gm_get item k) of
        (None, r) \<Rightarrow> r | (Some a, None) \<Rightarrow> Some a | (Some a, Some b) \<Rightarrow> Some (combine a b))"
proof (induction item arbitrary: out)
  case (Cons kv item)
  obtain k' v where kv: "kv = (k', v)" by fastforce
  let ?out = "case gm_get out k' of Some existing \<Rightarrow> gm_set out k' (combine existing v) | None \<Rightarrow> gm_set out k' v"
  have "gm_get item k' = None" using Cons.prems kv by (auto simp: map_of_eq_None_iff)
  moreover have "combineInto combine (kv # item) out = combineInto combine item ?out"
    by (simp add: combineInto_def kv)
  ultimately show ?case
    using Cons.IH [of ?out] Cons.prems kv by (auto split: option.splits)
qed (simp add: combineInto_def split: option.split)

text \<open>A loop that copies the entries with a given property filters the map.\<close>

lemma copy_loop_get:
  "gm_wf m \<Longrightarrow>
     gm_get (fold (\<lambda>(k, v) acc. if P k v then gm_set acc k (f k v) else acc) m acc) x =
     (case gm_get m x of Some v \<Rightarrow> if P x v then Some (f x v) else gm_get acc x | None \<Rightarrow> gm_get acc x)"
proof (induction m arbitrary: acc)
  case (Cons kv m)
  obtain k v where kv: "kv = (k, v)" by fastforce
  then have "gm_get m k = None" using Cons.prems by (auto simp: map_of_eq_None_iff)
  with Cons kv show ?case by (auto split: option.splits)
qed simp

lemma withoutKeysOf_get:
  "gm_wf left \<Longrightarrow> gm_get (withoutKeysOf left right) x =
     (if gm_has right x then None else gm_get left x)"
  unfolding withoutKeysOf_def
  by (subst copy_loop_get [where f = "\<lambda>_ v. v"]) (auto split: option.splits)

lemma IntersectMaps_get:
  "gm_wf m1 \<Longrightarrow> gm_get (IntersectMaps m1 m2 ms) x =
     (if gm_has m2 x \<and> (\<forall>m3 \<in> set ms. gm_has m3 x) then gm_get m1 x else None)"
  unfolding IntersectMaps_def
  by (subst copy_loop_get [where f = "\<lambda>_ v. v"]) (auto simp: All_of_eq split: option.splits)

lemma MapFilter_get:
  "gm_wf m \<Longrightarrow> gm_get (MapFilter m f) x =
     (case gm_get m x of Some v \<Rightarrow> if f x v then Some v else None | None \<Rightarrow> None)"
  unfolding MapFilter_def
  by (subst copy_loop_get [where f = "\<lambda>_ v. v"]) (auto split: option.splits)

lemma MapValues_get: "gm_wf m \<Longrightarrow> gm_get (MapValues m f) x = map_option f (gm_get m x)"
  using copy_loop_get [of m "\<lambda>_ _. True" "\<lambda>_. f" "[]" x]
  by (auto simp: MapValues_def split: option.splits)

lemma appendAt_get:
  "gm_get (appendAt m k v) x =
     (if x = k then Some ((case gm_get m k of None \<Rightarrow> [] | Some vs \<Rightarrow> vs) @ [v]) else gm_get m x)"
  by (simp add: appendAt_def)

lemma Partition_get:
  "gm_get (Partition sl keyer) k =
     (case filter (\<lambda>x. keyer x = k) sl of [] \<Rightarrow> None | xs \<Rightarrow> Some xs)"
proof -
  have "gm_get (fold (\<lambda>item result. appendAt result (keyer item) item) sl acc) k =
      (case (gm_get acc k, filter (\<lambda>x. keyer x = k) sl) of
         (None, []) \<Rightarrow> None | (None, xs) \<Rightarrow> Some xs | (Some vs, xs) \<Rightarrow> Some (vs @ xs))" for acc
    by (induction sl arbitrary: acc) (auto simp: appendAt_get split: option.splits list.splits)
  from this [of "[]"] show ?thesis by (simp add: Partition_def split: list.splits)
qed

lemma reverseLoop_eq:
  "length out = length sl \<Longrightarrow> int i + j + 1 = int (length sl) \<Longrightarrow> i \<le> length sl \<Longrightarrow>
     (\<forall>l < i. out ! l = rev sl ! l) \<Longrightarrow> reverseLoop sl i j out = rev sl"
proof (induction sl i j out rule: reverseLoop.induct)
  case (1 sl i j out)
  show ?case
  proof (cases "i < length sl \<and> j \<ge> 0")
    case True
    have "nat j = length sl - Suc i" using "1.prems"(2) by linarith
    then have new: "sl ! nat j = rev sl ! i" using True by (simp add: rev_nth)
    have "\<forall>l < i + 1. out[i := sl ! nat j] ! l = rev sl ! l"
      using "1.prems"(1,4) True new by (auto simp: nth_list_update less_Suc_eq)
    then have "reverseLoop sl (i + 1) (j - 1) (out[i := sl ! nat j]) = rev sl"
      using "1.IH" [OF True] "1.prems" True by simp
    with True show ?thesis by (subst reverseLoop.simps) simp
  next
    case False
    with "1.prems" have "i = length sl" by linarith
    with "1.prems" have "out = rev sl" by (intro nth_equalityI) auto
    moreover have "reverseLoop sl i j out = out" using False by (subst reverseLoop.simps) auto
    ultimately show ?thesis by simp
  qed
qed

lemma Reverse_eq [loop_simps]: "Reverse zero sl = rev sl"
  unfolding Reverse_def by (rule reverseLoop_eq) auto

section \<open>Properties\<close>

text \<open>
  \<open>Chunk\<close> with a positive size cuts the slice without losing, adding or reordering an
  element: the chunks concatenate to the input, no chunk is empty or longer than the size,
  and every chunk but the last has exactly that size. For a size of zero or less the result
  is nil.
\<close>

theorem Chunk_correct:
  "(sz \<le> 0 \<longrightarrow> Chunk sl sz = None) \<and>
   (sz > 0 \<longrightarrow> (\<exists>cs. Chunk sl sz = Some cs \<and> concat cs = sl \<and>
      (\<forall>j. j < length cs \<longrightarrow> 0 < length (cs ! j) \<and> int (length (cs ! j)) \<le> sz) \<and>
      (\<forall>j. Suc j < length cs \<longrightarrow> int (length (cs ! j)) = sz)))"
proof (cases "sz \<le> 0 \<or> sl = []")
  case False
  then have pos: "0 < nat sz" by simp
  let ?m = "length (chunkBuckets (length sl) (nat sz) :: 'a list list)"
  have c: "Chunk sl sz = Some (map (cut (nat sz) sl) [0..<?m])"
    using False chunk_fold [OF pos, of "length sl" sl] by (simp add: Chunk_def)
  have start: "j * nat sz < length sl" if "j < ?m" for j by (rule bucket_start [OF pos that])
  have full: "int (length (cut (nat sz) sl j)) = sz" if "Suc j < ?m" for j
    using start [OF that] False by auto
  have part: "0 < length (cut (nat sz) sl j)" if "j < ?m" for j
    using start [OF that] pos by simp
  have "length (cut (nat sz) sl j) \<le> nat sz" for j by simp
  then have small: "int (length (cut (nat sz) sl j)) \<le> sz" for j
    using False by (metis int_nat_eq nat_le_linear of_nat_le_iff not_le order_less_imp_le)
  have "concat (map (cut (nat sz) sl) [0..<?m]) = sl"
    using concat_cuts [of "nat sz" sl ?m] cuts_cover [OF pos, of sl] by simp
  with c full part small False show ?thesis by (simp add: linorder_not_le)
qed (auto simp: Chunk_def)

theorem Chunk_correct_witness:
  "Chunk [1, 2, 3, 4, 5 :: nat] 2 = Some [[1, 2], [3, 4], [5]] \<and>
   (\<exists>cs. Chunk [1, 2, 3, 4, 5 :: nat] 2 = Some cs \<and> concat cs = [1, 2, 3, 4, 5])"
  using Chunk_correct [of 2 "[1, 2, 3, 4, 5 :: nat]"]
  by (auto simp: Chunk_def chunkBuckets_def chunkStep_def upt_rec)

text \<open>
  \<open>UniqFunc\<close> (and with the identity \<open>Uniq\<close>) keeps exactly one element per key, in the
  order of the input, and for every key it is the first one.
\<close>

theorem UniqFunc_correct:
  "distinct (map fn (UniqFunc sl fn)) \<and> fn ` set (UniqFunc sl fn) = fn ` set sl \<and>
   (\<forall>y. y \<in> set (UniqFunc sl fn) \<longrightarrow> (\<exists>us vs. sl = us @ y # vs \<and> fn y \<notin> fn ` set us)) \<and>
   Uniq sl = UniqFunc sl (\<lambda>x. x)"
  using firsts_first [of _ fn "{}" sl]
  by (auto simp: loop_simps firsts_distinct firsts_keys)

theorem UniqFunc_correct_witness:
  "UniqFunc [(1, ''a''), (2, ''b''), (1 :: nat, ''c'')] fst = [(1, ''a''), (2, ''b'')] \<and>
   distinct (map fst (UniqFunc [(1 :: nat, ''a''), (2, ''b''), (1, ''c'')] fst))"
  using UniqFunc_correct [of fst "[(1 :: nat, ''a''), (2, ''b''), (1, ''c'')]"]
  by (simp add: loop_simps)

text \<open>
  The map helpers do not depend on the order in which the runtime visits a map: their
  results, read key by key, are given by the inputs read key by key. \<open>MergeMaps\<close> overrides
  earlier maps by later ones, \<open>MergeMapsWith\<close> combines the two values of a shared key in the
  order of the arguments, \<open>DifferenceMaps\<close> and \<open>IntersectMaps\<close> select by key.
\<close>

theorem map_helpers_pointwise:
  assumes "gm_wf m1" and "gm_wf m2"
  shows "gm_get (MergeMaps [m1, m2]) k = (case gm_get m2 k of None \<Rightarrow> gm_get m1 k | Some v \<Rightarrow> Some v) \<and>
    gm_get (MergeMapsWith combine [m1, m2]) k =
       (case (gm_get m1 k, gm_get m2 k) of
          (None, r) \<Rightarrow> r | (Some a, None) \<Rightarrow> Some a | (Some a, Some b) \<Rightarrow> Some (combine a b)) \<and>
    gm_get (fst (DifferenceMaps m1 m2)) k = (if gm_has m2 k then None else gm_get m1 k) \<and>
    gm_get (snd (DifferenceMaps m1 m2)) k = (if gm_has m1 k then None else gm_get m2 k) \<and>
    gm_get (IntersectMaps m1 m2 []) k = (if gm_has m2 k then gm_get m1 k else None)"
  using assms MergeMaps_get [of "[m1, m2]"]
  by (simp add: map_add_def MergeMapsWith_def combineInto_get DifferenceMaps_def
      withoutKeysOf_get IntersectMaps_get split: option.splits)

theorem map_helpers_pointwise_witness:
  "gm_get (MergeMaps [[(1 :: nat, ''a'')], [(1, ''b''), (2, ''c'')]]) 1 = Some ''b'' \<and>
   gm_get (MergeMapsWith (@) [[(1 :: nat, ''a'')], [(1, ''b''), (2, ''c'')]]) 1 = Some ''ab'' \<and>
   gm_get (fst (DifferenceMaps [(1 :: nat, ''a'')] [(1, ''b''), (2, ''c'')])) 1 = None"
  using map_helpers_pointwise [of "[(1 :: nat, ''a'')]" "[(1, ''b''), (2, ''c'')]" 1 "(@)"] by simp

end
