(* ===== verification/KernelBuild.thy ===== *)
theory KernelBuild
  imports GoErrors Funk
begin

text \<open>
  The static half of \<open>pkg/kernel\<close>: module configuration (\<open>module.go\<close>, \<open>module_options.go\<close>),
  the stages of a kernel (\<open>stages.go\<close>, the data of \<open>stage.go\<close>), health-check results
  (\<open>health_check.go\<close>) and the factory that builds a kernel from a blueprint (\<open>blueprint.go\<close>,
  \<open>factory.go\<close>).
\<close>

section \<open>Modules (module.go, module\_options.go)\<close>

definition StageEssential :: int where "StageEssential = 0"
definition StageProducerDaemon :: int where "StageProducerDaemon = 512"
definition StageService :: int where "StageService = 1024"
definition StageApplication :: int where "StageApplication = 2048"

text \<open>
  A module by the optional interfaces it implements: \<open>TypedModule\<close> (\<open>IsEssential\<close>,
  \<open>IsBackground\<close>), \<open>StagedModule\<close> (\<open>GetStage\<close>) and \<open>HealthCheckedModule\<close>.
\<close>

record Module =
  mod_typed :: "(bool \<times> bool) option"
  mod_stage :: "int option"
  mod_healthAware :: bool

record moduleConfig =
  essential :: bool
  background :: bool
  cfg_stage :: int

definition isModuleEssential :: "Module \<Rightarrow> bool" where
  "isModuleEssential m = (case mod_typed m of Some (e, b) \<Rightarrow> e | None \<Rightarrow> False)"

definition isModuleBackground :: "Module \<Rightarrow> bool" where
  "isModuleBackground m = (case mod_typed m of Some (e, b) \<Rightarrow> b | None \<Rightarrow> False)"

definition getModuleStage :: "Module \<Rightarrow> int" where
  "getModuleStage m = (case mod_stage m of Some s \<Rightarrow> s | None \<Rightarrow> StageApplication)"

definition getModuleConfig :: "Module \<Rightarrow> moduleConfig" where
  "getModuleConfig m = \<lparr>essential = isModuleEssential m, background = isModuleBackground m,
     cfg_stage = getModuleStage m\<rparr>"

definition GetType :: "moduleConfig \<Rightarrow> string" where
  "GetType mc =
     (if essential mc then (if background mc then ''essential-background'' else ''essential'')
      else if background mc then ''background'' else ''foreground'')"

text \<open>The module types of the package, as \<open>(IsEssential, IsBackground)\<close>.\<close>

definition EssentialModule :: "bool \<times> bool" where "EssentialModule = (True, False)"
definition EssentialBackgroundModule :: "bool \<times> bool" where "EssentialBackgroundModule = (True, True)"
definition ForegroundModule :: "bool \<times> bool" where "ForegroundModule = (False, False)"
definition BackgroundModule :: "bool \<times> bool" where "BackgroundModule = (False, True)"

datatype ModuleOption = ModuleType "bool \<times> bool" | ModuleStage int

fun applyOption :: "ModuleOption \<Rightarrow> moduleConfig \<Rightarrow> moduleConfig" where
  "applyOption (ModuleType t) ms = ms\<lparr>essential := fst t, background := snd t\<rparr>"
| "applyOption (ModuleStage i) ms = ms\<lparr>cfg_stage := i\<rparr>"

definition MergeOptions :: "ModuleOption list \<Rightarrow> moduleConfig \<Rightarrow> moduleConfig" where
  "MergeOptions options ms = fold applyOption options ms"

section \<open>Stages (stage.go, stages.go)\<close>

text \<open>
  The control point of the goroutine that runs a module: not started by the stage yet;
  inside \<open>runModule\<close>; past its deferred function; past the call of \<open>Stop\<close> in \<open>stage.run\<close>;
  returned to the coffin.
\<close>

datatype mpc = NotSpawned | Running | Finished | Reported | Returned

record moduleState =
  ms_module :: Module
  ms_config :: moduleConfig
  ms_isRunning :: int
  ms_err :: error
  ms_pc :: mpc

text \<open>The control point of the goroutine of \<open>stage.run\<close> that spawns the modules.\<close>

datatype spawner = SpNone | SpRun | SpDone

text \<open>
  A stage with its coffin. \<open>st_reason\<close> is the coffin's state: \<open>None\<close> while it is alive,
  \<open>Some r\<close> once it is dying with death reason \<open>r\<close>.
\<close>

record stage =
  st_index :: int
  st_modules :: "(string, moduleState) gomap"
  st_poisoned :: bool
  st_spawner :: spawner
  st_running :: bool
  st_terminated :: bool
  st_reason :: "error option"
  st_err :: error

type_synonym stages = "(int, stage) gomap"

definition newStage :: "int \<Rightarrow> stage" where
  "newStage i = \<lparr>st_index = i, st_modules = [], st_poisoned = False, st_spawner = SpNone,
     st_running = False, st_terminated = False, st_reason = None, st_err = None\<rparr>"

fun hasModules :: "stages \<Rightarrow> bool" where
  "hasModules [] = False"
| "hasModules ((i, st) # s) = (if length (st_modules st) > 0 then True else hasModules s)"

definition countForegroundModules :: "stages \<Rightarrow> int" where
  "countForegroundModules s =
     fold (\<lambda>(i, st) count.
         fold (\<lambda>(n, m) count. if \<not> background (ms_config m) then count + 1 else count)
           (st_modules st) count) s 0"

definition getIndices :: "stages \<Rightarrow> int list" where
  "getIndices s = sort (map fst s)"

section \<open>Health checks (health\_check.go, stage.healthcheck, kernel.HealthCheck)\<close>

record ModuleHealthCheckResult =
  StageIndex :: int
  Name :: string
  Healthy :: bool
  Err :: error

type_synonym HealthCheckResult = "ModuleHealthCheckResult list"

definition GetUnhealthy :: "HealthCheckResult \<Rightarrow> HealthCheckResult" where
  "GetUnhealthy r = Filter r (\<lambda>result. \<not> Healthy result)"

definition GetUnhealthyNames :: "HealthCheckResult \<Rightarrow> string list" where
  "GetUnhealthyNames r = Map (GetUnhealthy r) Name"

fun IsHealthy :: "HealthCheckResult \<Rightarrow> bool" where
  "IsHealthy [] = True"
| "IsHealthy (m # r) = (if \<not> Healthy m then False else IsHealthy r)"

text \<open>
  \<open>multierror.Append\<close> on an accumulator that is nil or a multierror; \<open>multiText\<close> is the
  format function of that package.
\<close>

definition multierror_Append :: "(goerr list \<Rightarrow> string) \<Rightarrow> error \<Rightarrow> goerr \<Rightarrow> error" where
  "multierror_Append multiText err e =
     (let es = (case err of Some (Multi _ es) \<Rightarrow> es | Some e0 \<Rightarrow> [e0] | None \<Rightarrow> []) @ [e]
      in Some (Multi (multiText es) es))"

definition HealthCheckResult_Err :: "(goerr list \<Rightarrow> string) \<Rightarrow> HealthCheckResult \<Rightarrow> error" where
  "HealthCheckResult_Err multiText r =
     fold (\<lambda>m err. case Err m of
         Some e \<Rightarrow> multierror_Append multiText err
           (errorf_w (''error during health check in module '' @ Name m @ '': '') e '''')
       | None \<Rightarrow> err) r None"

text \<open>What a call of \<open>IsHealthy\<close> on a module does: return a pair, or panic.\<close>

datatype health = HReturn bool error | HPanic goerr

text \<open>The deferred recovery only fills in an error when the call has not returned one.\<close>

definition healthOutcome :: "health \<Rightarrow> bool \<times> error" where
  "healthOutcome h = (case h of HReturn ok err \<Rightarrow> (ok, err) | HPanic e \<Rightarrow> (False, Some e))"

definition stage_healthcheck :: "(string \<Rightarrow> health) \<Rightarrow> stage \<Rightarrow> HealthCheckResult" where
  "stage_healthcheck probe s =
     fold (\<lambda>(name, ms) result.
         if \<not> mod_healthAware (ms_module ms) then result
         else case healthOutcome (probe name) of (ok, err) \<Rightarrow>
           result @ [\<lparr>StageIndex = st_index s, Name = name, Healthy = ok, Err = err\<rparr>])
       (st_modules s) []"

definition kernel_HealthCheck :: "(int \<Rightarrow> string \<Rightarrow> health) \<Rightarrow> stages \<Rightarrow> HealthCheckResult" where
  "kernel_HealthCheck probe s =
     sort_key StageIndex
       (fold (\<lambda>i result. result @ stage_healthcheck (probe i) (the (gm_get s i))) (getIndices s) [])"

text \<open>
  \<open>waitUntilHealthy\<close>. The script lists, for every round, the answers of the modules and the
  case of the \<open>select\<close> that fires when the stage is not healthy. The result is \<open>None\<close> while
  the stage still waits after the last round.
\<close>

datatype wait_select = WTimeout | WCtxDone | WTick

fun waitUntilHealthy ::
  "(int \<Rightarrow> string) \<Rightarrow> int \<Rightarrow> stage \<Rightarrow> ((string \<Rightarrow> health) \<times> wait_select) list \<Rightarrow> error option" where
  "waitUntilHealthy durStr timeout s [] = None"
| "waitUntilHealthy durStr timeout s ((probe, sel) # rounds) =
     (let result = stage_healthcheck probe s in
      if IsHealthy result then Some None
      else case sel of
        WTimeout \<Rightarrow>
          Some (Some (Opaque (''stage '' @ itoa (st_index s) @ '' was not able to get healthy in '' @
            durStr timeout @ '' due to: '' @ str_join '', '' (GetUnhealthyNames result))))
      | WCtxDone \<Rightarrow> Some None
      | WTick \<Rightarrow> waitUntilHealthy durStr timeout s rounds)"

section \<open>The factory (blueprint.go, factory.go)\<close>

text \<open>What a user-supplied factory does: return a value, return an error, or panic.\<close>

datatype 'a made = Made 'a | MadeErr goerr | MadePanic goerr

datatype Position = PositionBeginning | PositionEnd

record ('mw, 'sh) blueprint =
  middlewareFactories :: "('mw made \<times> Position) list"
  moduleFactories :: "(string \<times> Module option made \<times> ModuleOption list) list"
  multiModuleFactories :: "(string, Module option made) gomap made list"
  shutdownHandlerFactories :: "'sh made list"

record ('mw, 'sh) factory =
  f_middlewares :: "'mw list"
  f_shutdownHandlers :: "'sh list"
  f_stages :: stages

definition ErrNoModulesToRun :: goerr where
  "ErrNoModulesToRun = Sentinel ''kernel.ErrNoModulesToRun'' ''no modules to run''"

definition buildMiddleware ::
  "('mw, 'sh) factory \<Rightarrow> 'mw made \<times> Position \<Rightarrow> goerr + ('mw, 'sh) factory" where
  "buildMiddleware f mf =
     (case fst mf of
        MadeErr e \<Rightarrow> Inl (errorf_w ''can not create middleware: '' e '''')
      | MadePanic e \<Rightarrow> Inl e
      | Made mw \<Rightarrow>
          if snd mf = PositionBeginning
          then Inr (f\<lparr>f_middlewares := [mw] @ f_middlewares f\<rparr>)
          else Inr (f\<lparr>f_middlewares := f_middlewares f @ [mw]\<rparr>))"

text \<open>\<open>settingsErr\<close> is the outcome of \<open>readSettings\<close>, reading the kernel settings when a stage is created.\<close>

definition addModuleToStage ::
  "error \<Rightarrow> stages \<Rightarrow> string \<Rightarrow> Module \<Rightarrow> ModuleOption list \<Rightarrow> goerr + stages" where
  "addModuleToStage settingsErr s name module opts =
     (let ms = \<lparr>ms_module = module, ms_config = MergeOptions opts (getModuleConfig module),
            ms_isRunning = 0, ms_err = None, ms_pc = NotSpawned\<rparr>;
          i = cfg_stage (ms_config ms) in
      case (case gm_get s i of
              Some st \<Rightarrow> Inr (st, s)
            | None \<Rightarrow>
                (case settingsErr of
                   Some e \<Rightarrow> Inl (errorf_w (''can not create stage '' @ itoa i @ '' for module '' @ name @ '': '') e '''')
                 | None \<Rightarrow> Inr (newStage i, gm_set s i (newStage i)))) of
        Inl e \<Rightarrow> Inl e
      | Inr (st, s') \<Rightarrow>
          if gm_has (st_modules st) name
          then Inl (Opaque (''failed to add new module '' @ name @ '': module exists''))
          else Inr (gm_set s' i (st\<lparr>st_modules := gm_set (st_modules st) name ms\<rparr>)))"

definition buildModuleFactory ::
  "error \<Rightarrow> ('mw, 'sh) factory \<Rightarrow> string \<times> Module option made \<times> ModuleOption list \<Rightarrow>
     goerr + ('mw, 'sh) factory" where
  "buildModuleFactory settingsErr f = (\<lambda>(name, mk, opts).
     case mk of
       MadeErr e \<Rightarrow> Inl (errorf_w (''can not build module '' @ name @ '': '') e '''')
     | MadePanic e \<Rightarrow> Inl e
     | Made None \<Rightarrow> Inr f
     | Made (Some module) \<Rightarrow>
         (case addModuleToStage settingsErr (f_stages f) name module opts of
            Inl e \<Rightarrow> Inl (errorf_w ''can not add module to stage: '' e '''')
          | Inr s \<Rightarrow> Inr (f\<lparr>f_stages := s\<rparr>)))"

definition buildMultiModuleFactory ::
  "error \<Rightarrow> ('mw, 'sh) factory \<Rightarrow> (string, Module option made) gomap made \<Rightarrow>
     goerr + ('mw, 'sh) factory" where
  "buildMultiModuleFactory settingsErr f mk =
     (case mk of
        MadeErr e \<Rightarrow> Inl e
      | MadePanic e \<Rightarrow> Inl e
      | Made ms \<Rightarrow> foldres (\<lambda>f (name, mf). buildModuleFactory settingsErr f (name, mf, [])) f ms)"

definition buildShutdownHandler :: "('mw, 'sh) factory \<Rightarrow> 'sh made \<Rightarrow> goerr + ('mw, 'sh) factory" where
  "buildShutdownHandler f mk =
     (case mk of
        MadeErr e \<Rightarrow> Inl (errorf_w ''can not create shutdown handler: '' e '''')
      | MadePanic e \<Rightarrow> Inl e
      | Made h \<Rightarrow> Inr (f\<lparr>f_shutdownHandlers := f_shutdownHandlers f @ [h]\<rparr>))"

definition emptyFactory :: "('mw, 'sh) factory" where
  "emptyFactory = \<lparr>f_middlewares = [], f_shutdownHandlers = [], f_stages = []\<rparr>"

definition factory_checks :: "('mw, 'sh) factory \<Rightarrow> goerr + ('mw, 'sh) factory" where
  "factory_checks f =
     (if \<not> hasModules (f_stages f) then Inl ErrNoModulesToRun
      else if countForegroundModules (f_stages f) = 0
      then Inl (Opaque ''no foreground modules to run'')
      else Inr f)"

definition factory_build ::
  "error \<Rightarrow> ('mw, 'sh) blueprint \<Rightarrow> goerr + ('mw, 'sh) factory" where
  "factory_build settingsErr bp =
     (case foldres buildMiddleware emptyFactory (middlewareFactories bp) of Inl e \<Rightarrow> Inl e | Inr f1 \<Rightarrow>
      case foldres (buildModuleFactory settingsErr) f1 (moduleFactories bp) of Inl e \<Rightarrow> Inl e | Inr f2 \<Rightarrow>
      case foldres (buildMultiModuleFactory settingsErr) f2 (multiModuleFactories bp) of Inl e \<Rightarrow> Inl e | Inr f3 \<Rightarrow>
      case foldres buildShutdownHandler f3 (shutdownHandlerFactories bp) of Inl e \<Rightarrow> Inl e | Inr f4 \<Rightarrow>
      factory_checks f4)"

section \<open>Lemmas\<close>

definition allModules :: "stages \<Rightarrow> moduleState list" where
  "allModules s = concat (map (\<lambda>(i, st). map snd (st_modules st)) s)"

abbreviation is_fg :: "moduleState \<Rightarrow> bool" where
  "is_fg m \<equiv> \<not> background (ms_config m)"

lemma countForegroundModules_eq:
  "countForegroundModules s = int (length (filter is_fg (allModules s)))"
proof -
  have inner: "fold (\<lambda>(n, m) count. if is_fg m then count + 1 else count) ms c =
      c + int (length (filter is_fg (map snd ms)))" for ms :: "(string, moduleState) gomap" and c :: int
    by (induction ms arbitrary: c) auto
  have "fold (\<lambda>(i, st) count. fold (\<lambda>(n, m) count. if is_fg m then count + 1 else count)
        (st_modules st) count) s c = c + int (length (filter is_fg (allModules s)))" for c :: int
    by (induction s arbitrary: c) (auto simp: inner allModules_def)
  from this [of 0] show ?thesis by (simp add: countForegroundModules_def)
qed

lemma IsHealthy_eq: "IsHealthy r \<longleftrightarrow> (\<forall>m \<in> set r. Healthy m)"
  by (induction r) auto

lemma getIndices_sorted [simp]: "sorted (getIndices s)" "set (getIndices s) = fst ` set s"
  by (simp_all add: getIndices_def)

lemma getIndices_distinct: "gm_wf s \<Longrightarrow> distinct (getIndices s)"
  by (simp add: getIndices_def gm_wf_def)

text \<open>A module as the factory leaves it, in the stage it asks for.\<close>

definition fresh_module :: "int \<Rightarrow> moduleState \<Rightarrow> bool" where
  "fresh_module i m \<longleftrightarrow> cfg_stage (ms_config m) = i \<and> ms_isRunning m = 0 \<and> ms_err m = None \<and>
     ms_pc m = NotSpawned"

definition fresh_stage :: "int \<Rightarrow> stage \<Rightarrow> bool" where
  "fresh_stage i st \<longleftrightarrow> st_index st = i \<and> gm_wf (st_modules st) \<and> st_modules st \<noteq> [] \<and>
     (\<forall>(n, m) \<in> set (st_modules st). fresh_module i m) \<and> \<not> st_poisoned st \<and> st_spawner st = SpNone \<and>
     \<not> st_running st \<and> \<not> st_terminated st \<and> st_reason st = None \<and> st_err st = None"

definition fresh_stages :: "stages \<Rightarrow> bool" where
  "fresh_stages s \<longleftrightarrow> gm_wf s \<and> (\<forall>(i, st) \<in> set s. fresh_stage i st)"

lemma gm_set_mem: "(k, v) \<in> set (gm_set m k' v') \<Longrightarrow> (k, v) = (k', v') \<or> (k, v) \<in> set m"
  by (induction m) (auto split: if_splits)

lemma gm_set_nonempty [simp]: "gm_set m k v \<noteq> []"
  by (induction m) auto

lemma addModuleToStage_fresh:
  assumes "addModuleToStage err s name module opts = Inr s'" and "fresh_stages s"
  shows "fresh_stages s'"
proof -
  let ?ms = "\<lparr>ms_module = module, ms_config = MergeOptions opts (getModuleConfig module),
    ms_isRunning = 0, ms_err = None, ms_pc = NotSpawned\<rparr>"
  let ?i = "cfg_stage (ms_config ?ms)"
  obtain st s1 where st: "s' = gm_set s1 ?i (st\<lparr>st_modules := gm_set (st_modules st) name ?ms\<rparr>)"
    "(gm_get s ?i = Some st \<and> s1 = s) \<or> (st = newStage ?i \<and> s1 = gm_set s ?i (newStage ?i))"
    using assms(1) by (auto simp: addModuleToStage_def Let_def split: option.splits sum.splits if_splits)
  have upd: "fresh_stage ?i (st\<lparr>st_modules := gm_set (st_modules st) name ?ms\<rparr>)"
    using st(2) assms(2)
    by (auto simp: fresh_stages_def fresh_stage_def newStage_def fresh_module_def dest!: gm_set_mem map_of_SomeD)
  have "gm_set s1 ?i x = gm_set s ?i x" for x
    using st(2) by (auto simp: AList.update_conv' intro: AList.update_swap)
  then show ?thesis
    using upd st(1) assms(2) by (auto simp: fresh_stages_def dest!: gm_set_mem)
qed

lemma factory_build_fresh:
  assumes "factory_build err bp = Inr f"
  shows "fresh_stages (f_stages f) \<and> countForegroundModules (f_stages f) \<noteq> 0 \<and> hasModules (f_stages f)"
proof -
  obtain f1 f2 f3 where f: "foldres buildMiddleware emptyFactory (middlewareFactories bp) = Inr f1"
    "foldres (buildModuleFactory err) f1 (moduleFactories bp) = Inr f2"
    "foldres (buildMultiModuleFactory err) f2 (multiModuleFactories bp) = Inr f3"
    "foldres buildShutdownHandler f3 (shutdownHandlerFactories bp) = Inr f"
    "factory_checks f = Inr f"
    using assms by (auto simp: factory_build_def factory_checks_def split: sum.splits if_splits)
  have mk: "fresh_stages (f_stages g')" if "buildModuleFactory err g x = Inr g'" "fresh_stages (f_stages g)"
    for g g' :: "('a, 'b) factory" and x
    using that by (auto simp: buildModuleFactory_def addModuleToStage_fresh
        split: made.splits option.splits sum.splits prod.splits)
  have "fresh_stages (f_stages f1)"
    by (rule foldres_invariant [OF f(1)])
      (auto simp: emptyFactory_def fresh_stages_def buildMiddleware_def split: made.splits if_splits)
  then have "fresh_stages (f_stages f2)"
    by (rule foldres_invariant [OF f(2), where P = "\<lambda>g. fresh_stages (f_stages g)"]) (rule mk)
  then have "fresh_stages (f_stages f3)"
  proof (rule foldres_invariant [OF f(3), where P = "\<lambda>g. fresh_stages (f_stages g)"])
    fix g g' :: "('a, 'b) factory" and x
    assume g: "fresh_stages (f_stages g)" "buildMultiModuleFactory err g x = Inr g'"
    then obtain ms where "foldres (\<lambda>f (name, mf). buildModuleFactory err f (name, mf, [])) g ms = Inr g'"
      by (auto simp: buildMultiModuleFactory_def split: made.splits)
    then show "fresh_stages (f_stages g')"
      by (rule foldres_invariant [where P = "\<lambda>g. fresh_stages (f_stages g)"])
        (use g mk in \<open>auto split: prod.splits\<close>)
  qed
  then have "fresh_stages (f_stages f)"
    by (rule foldres_invariant [OF f(4), where P = "\<lambda>g. fresh_stages (f_stages g)"])
      (auto simp: buildShutdownHandler_def split: made.splits)
  with f(5) show ?thesis by (auto simp: factory_checks_def split: if_splits)
qed

end
