(* ===== verification/KernelRun.thy ===== *)
theory KernelRun
  imports KernelBuild
begin

text \<open>
  The run time of \<open>pkg/kernel\<close>: \<open>kernel.go\<close> and \<open>stage.go\<close> as a transition system.

  Every goroutine is a control point of the state, and one event moves one goroutine from
  one blocking or shared action to the next; any interleaving of events is a run. The
  goroutines are \<open>Run\<close> with its \<open>runHandler\<close> (\<open>k_main\<close>), per stage the spawner of
  \<open>stage.run\<close> and one goroutine per module, the goroutine of \<open>Stop\<close> (\<open>k_stopper\<close>), the one
  of \<open>signalOnceAllStagesDone\<close>, the kill timer of \<open>killIfNotStopped\<close> and the signal handler.
  \<open>sync.Once\<close> fields and channels that are only ever closed are booleans. The coffin follows
  the contract documented in \<open>pkg/coffin/coffin.go\<close>: the first non-nil reason is kept, the
  coffin dies when its last goroutine returns, and its context is done once it is dying.
  Logging has no effect on the state.
\<close>

section \<open>State\<close>

definition ExitCodeOk :: int where "ExitCodeOk = 0"
definition ExitCodeErr :: int where "ExitCodeErr = 1"
definition ExitCodeForced :: int where "ExitCodeForced = 12"

lemmas exit_codes = ExitCodeOk_def ExitCodeErr_def ExitCodeForced_def

definition ErrKernelStopping :: goerr where
  "ErrKernelStopping = Sentinel ''kernel.ErrKernelStopping'' ''stopping kernel''"

abbreviation is_stopping_err :: "error \<Rightarrow> bool" where
  "is_stopping_err err \<equiv> errors_Is err ''kernel.ErrKernelStopping''"

text \<open>
  Control points of \<open>Run\<close>: the stages still to start; waiting for stage \<open>i\<close> to become
  healthy; waiting for all stage contexts; waiting for \<open>stopped\<close>; the deferred \<open>exit\<close>; done.
\<close>

datatype mainpc = Boot "int list" | AwaitHealthy int "int list" | AwaitContexts | AwaitStopped | Exiting | Exited

text \<open>
  Control points of the goroutine started by \<open>Stop\<close>: not started; about to call \<open>stopWait\<close>
  for the stages listed; inside \<open>cfn.Wait\<close> of a stage; finished.
\<close>

datatype stoppc = StopNone | StopStages "int list" | StopWait int "int list" | StopDone

datatype killpc = KillNone | KillArmed | KillDone

record kernel =
  k_stages :: stages
  k_foreground :: int
  k_running :: bool
  k_stopping :: bool
  k_stopped :: bool
  k_middlewareCancelled :: bool
  k_kill :: killpc
  k_signals :: nat
  k_exitCode :: int
  k_exitHandler :: "int option"
  k_main :: mainpc
  k_stopper :: stoppc

section \<open>Operations\<close>

text \<open>\<open>tomb.kill\<close>: the first non-nil reason wins.\<close>

definition cfn_Kill :: "error \<Rightarrow> stage \<Rightarrow> stage" where
  "cfn_Kill reason st =
     st\<lparr>st_reason := (case st_reason st of
          None \<Rightarrow> Some reason | Some None \<Rightarrow> Some reason | Some (Some e) \<Rightarrow> Some (Some e))\<rparr>"

definition upd_stage :: "int \<Rightarrow> (stage \<Rightarrow> stage) \<Rightarrow> kernel \<Rightarrow> kernel" where
  "upd_stage i f k =
     (case gm_get (k_stages k) i of None \<Rightarrow> k | Some st \<Rightarrow> k\<lparr>k_stages := gm_set (k_stages k) i (f st)\<rparr>)"

definition upd_module :: "string \<Rightarrow> (moduleState \<Rightarrow> moduleState) \<Rightarrow> stage \<Rightarrow> stage" where
  "upd_module n f st =
     (case gm_get (st_modules st) n of None \<Rightarrow> st
      | Some m \<Rightarrow> st\<lparr>st_modules := gm_set (st_modules st) n (f m)\<rparr>)"

definition get_module :: "kernel \<Rightarrow> int \<Rightarrow> string \<Rightarrow> moduleState option" where
  "get_module k i n = Option.bind (gm_get (k_stages k) i) (\<lambda>st. gm_get (st_modules st) n)"

text \<open>\<open>Stop\<close> with \<open>stopOnce\<close> and \<open>killIfNotStopped\<close> with \<open>killOnce\<close>.\<close>

definition killIfNotStopped :: "kernel \<Rightarrow> kernel" where
  "killIfNotStopped k = (if k_kill k = KillNone then k\<lparr>k_kill := KillArmed\<rparr> else k)"

definition kernel_Stop :: "kernel \<Rightarrow> kernel" where
  "kernel_Stop k =
     killIfNotStopped
       (if k_stopping k then k
        else k\<lparr>k_stopping := True, k_stopper := StopStages (rev (getIndices (k_stages k)))\<rparr>)"

definition callExitHandler :: "int \<Rightarrow> kernel \<Rightarrow> kernel" where
  "callExitHandler code k =
     (case k_exitHandler k of None \<Rightarrow> k\<lparr>k_exitHandler := Some code\<rparr> | Some _ \<Rightarrow> k)"

definition setExitCode :: "int \<Rightarrow> kernel \<Rightarrow> kernel" where
  "setExitCode code k = (if k_exitCode k = ExitCodeForced then k else k\<lparr>k_exitCode := code\<rparr>)"

definition forceExit :: "kernel \<Rightarrow> kernel" where
  "forceExit k = callExitHandler ExitCodeForced (k\<lparr>k_exitCode := ExitCodeForced\<rparr>)"

text \<open>
  \<open>exit\<close>: the code is read, the shutdown handlers run, then the logger is closed; only a
  failing close changes the code once more.
\<close>

definition kernel_exit :: "bool \<Rightarrow> kernel \<Rightarrow> kernel" where
  "kernel_exit closeFails k =
     (let exitCode = k_exitCode k in
      if closeFails
      then let k' = setExitCode ExitCodeErr k in callExitHandler (k_exitCode k') k'
      else callExitHandler exitCode k)"

text \<open>A module error that \<open>stopWait\<close> and \<open>Run\<close> must not lose.\<close>

definition significant :: "RequestCanceledCheck list \<Rightarrow> error \<Rightarrow> bool" where
  "significant checks err \<longleftrightarrow> err \<noteq> None \<and> \<not> is_stopping_err err \<and> \<not> IsRequestCanceled checks err"

fun firstModuleErr :: "RequestCanceledCheck list \<Rightarrow> (string, moduleState) gomap \<Rightarrow> error" where
  "firstModuleErr checks [] = None"
| "firstModuleErr checks ((n, m) # ms) =
     (if ms_err m \<noteq> None \<and> \<not> is_stopping_err (ms_err m) \<and> \<not> IsRequestCanceled checks (ms_err m)
      then ms_err m else firstModuleErr checks ms)"

text \<open>The second half of \<open>stopWait\<close>: what happens once \<open>cfn.Wait\<close> has returned \<open>reason\<close>.\<close>

definition stopWaitResult :: "RequestCanceledCheck list \<Rightarrow> stage \<Rightarrow> stage" where
  "stopWaitResult checks s =
     (let reason = (case st_reason s of None \<Rightarrow> None | Some r \<Rightarrow> r);
          err1 = (if \<not> IsRequestCanceled checks reason then reason else st_err s);
          err2 = (if err1 = None \<or> is_stopping_err err1
                  then (case firstModuleErr checks (st_modules s) of None \<Rightarrow> err1 | Some e \<Rightarrow> Some e)
                  else err1)
      in s\<lparr>st_err := err2, st_terminated := True\<rparr>)"

text \<open>All goroutines of the stage's coffin have returned.\<close>

definition allReturned :: "stage \<Rightarrow> bool" where
  "allReturned st \<longleftrightarrow> st_spawner st = SpDone \<and> list_all (\<lambda>(n, m). ms_pc m = Returned) (st_modules st)"

definition dieIfLast :: "stage \<Rightarrow> stage" where
  "dieIfLast st = (if allReturned st then cfn_Kill None st else st)"

text \<open>
  A module's goroutine returns \<open>err\<close> to the coffin: \<open>Gof\<close> wraps an error, the coffin dies of it.
\<close>

definition wrapModuleErr :: "string \<Rightarrow> goerr \<Rightarrow> goerr" where
  "wrapModuleErr n e = Wrap (''panic during running of module '' @ n @ '': '' @ err_text e) e"

definition coffinReturn :: "string \<Rightarrow> error \<Rightarrow> stage \<Rightarrow> stage" where
  "coffinReturn n err st =
     (let st1 = upd_module n (\<lambda>m. m\<lparr>ms_pc := Returned\<rparr>) st in
      dieIfLast (case err of None \<Rightarrow> st1 | Some e \<Rightarrow> cfn_Kill (Some (wrapModuleErr n e)) st1))"

text \<open>The deferred function of \<open>runModule\<close>, with the error the module left behind.\<close>

definition moduleExited :: "moduleConfig \<Rightarrow> error \<Rightarrow> kernel \<Rightarrow> kernel" where
  "moduleExited mc err k =
     (if essential mc
      then (if err \<noteq> None then k else kernel_Stop k)
      else if \<not> background mc
      then (let remaining = k_foreground k - 1; k' = k\<lparr>k_foreground := remaining\<rparr> in
            if remaining = 0 \<and> err = None then kernel_Stop k' else k')
      else k)"

definition hasErr :: "stages \<Rightarrow> bool" where
  "hasErr s = list_ex (\<lambda>(i, st). st_err st \<noteq> None \<and> \<not> is_stopping_err (st_err st)) s"

section \<open>Events\<close>

text \<open>
  \<open>EStartStage\<close>, \<open>EHealthy\<close>, \<open>EUnhealthy\<close>, \<open>EBooted\<close>, \<open>EContextsDone\<close>, \<open>EStopped\<close>, \<open>EPanic\<close> and
  \<open>EExit\<close> move \<open>Run\<close>; \<open>ESpawn\<close> and \<open>ESpawned\<close> the spawner of a stage; \<open>EFinish\<close> (the module
  returns or panics with the given error), \<open>EReport\<close> and \<open>EReturn\<close> a module's goroutine;
  \<open>EKillStage\<close>, \<open>EStageDone\<close>, \<open>EStopDone\<close> the goroutine of \<open>Stop\<close>; \<open>EAllDone\<close> the one of
  \<open>signalOnceAllStagesDone\<close>; \<open>EKillTimeout\<close> and \<open>EKillCancel\<close> the kill timer; \<open>ESignal\<close> an
  operating-system signal; \<open>EParentCancel\<close> the cancellation of the application's context.
\<close>

datatype event =
    EStartStage | EHealthy | EUnhealthy | EBooted | EContextsDone | EStopped | EPanic | EExit bool
  | ESpawn int string | ESpawned int
  | EFinish int string error | EReport int string | EReturn int string
  | EKillStage | EStageDone | EStopDone | EAllDone
  | EKillTimeout | EKillCancel | ESignal | EParentCancel int goerr

definition guarded :: "bool \<Rightarrow> kernel \<Rightarrow> kernel option" where
  "guarded b k = (if b then Some k else None)"

fun kstep :: "RequestCanceledCheck list \<Rightarrow> event \<Rightarrow> kernel \<Rightarrow> kernel option" where
  \<comment> \<open>\<open>stage.run\<close>: poison the lock, start the spawner; an already poisoned stage is an error\<close>
  "kstep checks EStartStage k =
     (case k_main k of
        Boot (i # rest) \<Rightarrow>
          (case gm_get (k_stages k) i of
             None \<Rightarrow> None
           | Some st \<Rightarrow>
               if st_poisoned st then Some ((kernel_Stop k)\<lparr>k_running := True, k_main := AwaitContexts\<rparr>)
               else Some ((upd_stage i (\<lambda>st. st\<lparr>st_poisoned := True, st_spawner := SpRun\<rparr>) k)
                      \<lparr>k_main := AwaitHealthy i rest\<rparr>))
      | _ \<Rightarrow> None)"
  \<comment> \<open>\<open>waitUntilHealthy\<close> returns nil: healthy, or the stage's context is done\<close>
| "kstep checks EHealthy k =
     (case k_main k of AwaitHealthy i rest \<Rightarrow> Some (k\<lparr>k_main := Boot rest\<rparr>) | _ \<Rightarrow> None)"
  \<comment> \<open>\<open>waitUntilHealthy\<close> returns its timeout error: stop, then go on in \<open>runHandler\<close>\<close>
| "kstep checks EUnhealthy k =
     (case k_main k of
        AwaitHealthy i rest \<Rightarrow> Some ((kernel_Stop k)\<lparr>k_running := True, k_main := AwaitContexts\<rparr>)
      | _ \<Rightarrow> None)"
| "kstep checks EBooted k =
     (case k_main k of Boot [] \<Rightarrow> Some (k\<lparr>k_running := True, k_main := AwaitContexts\<rparr>) | _ \<Rightarrow> None)"
| "kstep checks EContextsDone k =
     (if k_main k = AwaitContexts \<and> list_all (\<lambda>(i, st). st_reason st \<noteq> None) (k_stages k)
      then Some ((kernel_Stop k)\<lparr>k_main := AwaitStopped\<rparr>) else None)"
| "kstep checks EStopped k =
     (if k_main k = AwaitStopped \<and> k_stopped k
      then Some ((if \<not> hasErr (k_stages k) then setExitCode ExitCodeOk k else k)\<lparr>k_main := Exiting\<rparr>)
      else None)"
  \<comment> \<open>a panic in a middleware is recovered by \<open>Run\<close>\<close>
| "kstep checks EPanic k =
     (if k_main k \<noteq> Exited then Some ((setExitCode ExitCodeErr k)\<lparr>k_main := Exiting\<rparr>) else None)"
| "kstep checks (EExit closeFails) k =
     (if k_main k = Exiting then Some ((kernel_exit closeFails k)\<lparr>k_main := Exited\<rparr>) else None)"
| "kstep checks (ESpawn i n) k =
     (case (gm_get (k_stages k) i, get_module k i n) of
        (Some st, Some m) \<Rightarrow>
          guarded (st_spawner st = SpRun \<and> ms_pc m = NotSpawned)
            (upd_stage i (upd_module n (\<lambda>m. m\<lparr>ms_pc := Running, ms_isRunning := 1\<rparr>)) k)
      | _ \<Rightarrow> None)"
| "kstep checks (ESpawned i) k =
     (case gm_get (k_stages k) i of
        Some st \<Rightarrow>
          guarded (st_spawner st = SpRun \<and> list_all (\<lambda>(n, m). ms_pc m \<noteq> NotSpawned) (st_modules st))
            (upd_stage i (\<lambda>st. dieIfLast (st\<lparr>st_running := True, st_spawner := SpDone\<rparr>)) k)
      | None \<Rightarrow> None)"
| "kstep checks (EFinish i n err) k =
     (case get_module k i n of
        Some m \<Rightarrow>
          guarded (ms_pc m = Running)
            (moduleExited (ms_config m) err
               (upd_stage i (upd_module n (\<lambda>m. m\<lparr>ms_pc := Finished, ms_isRunning := 0, ms_err := err\<rparr>)) k))
      | None \<Rightarrow> None)"
| "kstep checks (EReport i n) k =
     (case get_module k i n of
        Some m \<Rightarrow>
          guarded (ms_pc m = Finished)
            (let k' = upd_stage i (upd_module n (\<lambda>m. m\<lparr>ms_pc := Reported\<rparr>)) k in
             if ms_err m \<noteq> None then kernel_Stop k' else k')
      | None \<Rightarrow> None)"
| "kstep checks (EReturn i n) k =
     (case get_module k i n of
        Some m \<Rightarrow>
          guarded (ms_pc m = Reported)
            (upd_stage i (coffinReturn n (ms_err m)) k)
      | None \<Rightarrow> None)"
| "kstep checks EKillStage k =
     (case k_stopper k of
        StopStages (i # rest) \<Rightarrow>
          (case gm_get (k_stages k) i of
             Some st \<Rightarrow>
               guarded (st_running st)
                 ((upd_stage i (cfn_Kill (Some ErrKernelStopping)) k)\<lparr>k_stopper := StopWait i rest\<rparr>)
           | None \<Rightarrow> None)
      | _ \<Rightarrow> None)"
| "kstep checks EStageDone k =
     (case k_stopper k of
        StopWait i rest \<Rightarrow>
          (case gm_get (k_stages k) i of
             Some st \<Rightarrow>
               guarded (allReturned st)
                 ((upd_stage i (stopWaitResult checks) k)\<lparr>k_stopper := StopStages rest\<rparr>)
           | None \<Rightarrow> None)
      | _ \<Rightarrow> None)"
| "kstep checks EStopDone k =
     (case k_stopper k of
        StopStages [] \<Rightarrow> Some (k\<lparr>k_stopper := StopDone, k_middlewareCancelled := True\<rparr>)
      | _ \<Rightarrow> None)"
| "kstep checks EAllDone k =
     guarded (list_all (\<lambda>(i, st). st_terminated st) (k_stages k)) (k\<lparr>k_stopped := True\<rparr>)"
| "kstep checks EKillTimeout k = guarded (k_kill k = KillArmed) ((forceExit k)\<lparr>k_kill := KillDone\<rparr>)"
| "kstep checks EKillCancel k = guarded (k_kill k = KillArmed \<and> k_stopped k) (k\<lparr>k_kill := KillDone\<rparr>)"
  \<comment> \<open>the first signal stops the kernel, a later one (after the debounce) forces the exit\<close>
| "kstep checks ESignal k =
     (if k_signals k = 0 then Some ((kernel_Stop k)\<lparr>k_signals := 1\<rparr>)
      else if k_signals k = 1 then Some ((forceExit k)\<lparr>k_signals := 2\<rparr>)
      else None)"
| "kstep checks (EParentCancel i e) k =
     (case gm_get (k_stages k) i of
        Some st \<Rightarrow> guarded (st_reason st = None) (upd_stage i (cfn_Kill (Some e)) k)
      | None \<Rightarrow> None)"

text \<open>The kernel \<open>GetKernel\<close> returns, as \<open>Run\<close> starts it.\<close>

definition startKernel :: "stages \<Rightarrow> kernel" where
  "startKernel s = \<lparr>k_stages = s, k_foreground = countForegroundModules s, k_running = False,
     k_stopping = False, k_stopped = False, k_middlewareCancelled = False, k_kill = KillNone,
     k_signals = 0, k_exitCode = ExitCodeErr, k_exitHandler = None, k_main = Boot (getIndices s),
     k_stopper = StopNone\<rparr>"

fun krun :: "RequestCanceledCheck list \<Rightarrow> event list \<Rightarrow> kernel \<Rightarrow> kernel option" where
  "krun checks [] k = Some k"
| "krun checks (e # es) k = (case kstep checks e k of None \<Rightarrow> None | Some k' \<Rightarrow> krun checks es k')"

text \<open>The states a run from a built kernel can reach.\<close>

inductive reachable :: "RequestCanceledCheck list \<Rightarrow> stages \<Rightarrow> kernel \<Rightarrow> bool" for checks s where
  start: "reachable checks s (startKernel s)"
| step: "reachable checks s k \<Longrightarrow> kstep checks e k = Some k' \<Longrightarrow> reachable checks s k'"

section \<open>Frame lemmas\<close>

text \<open>Which fields the operations leave alone.\<close>

lemma kernel_Stop_frame [simp]:
  "k_stages (kernel_Stop k) = k_stages k" "k_foreground (kernel_Stop k) = k_foreground k"
  "k_running (kernel_Stop k) = k_running k" "k_stopped (kernel_Stop k) = k_stopped k"
  "k_exitCode (kernel_Stop k) = k_exitCode k" "k_exitHandler (kernel_Stop k) = k_exitHandler k"
  "k_main (kernel_Stop k) = k_main k" "k_stopping (kernel_Stop k)"
  "k_signals (kernel_Stop k) = k_signals k"
  by (simp_all add: kernel_Stop_def killIfNotStopped_def)

lemma kernel_Stop_stopper:
  "k_stopper (kernel_Stop k) =
     (if k_stopping k then k_stopper k else StopStages (rev (getIndices (k_stages k))))"
  by (simp add: kernel_Stop_def killIfNotStopped_def)

lemma upd_stage_frame [simp]:
  "k_foreground (upd_stage i f k) = k_foreground k" "k_running (upd_stage i f k) = k_running k"
  "k_stopping (upd_stage i f k) = k_stopping k" "k_stopped (upd_stage i f k) = k_stopped k"
  "k_exitCode (upd_stage i f k) = k_exitCode k" "k_exitHandler (upd_stage i f k) = k_exitHandler k"
  "k_main (upd_stage i f k) = k_main k" "k_stopper (upd_stage i f k) = k_stopper k"
  "k_signals (upd_stage i f k) = k_signals k"
  by (simp_all add: upd_stage_def split: option.split)

lemma upd_stage_stages:
  "gm_get (k_stages k) i = Some st \<Longrightarrow> k_stages (upd_stage i f k) = gm_set (k_stages k) i (f st)"
  by (simp add: upd_stage_def)

lemma exit_frame [simp]:
  "k_stages (callExitHandler c k) = k_stages k" "k_stages (setExitCode c k) = k_stages k"
  "k_stages (forceExit k) = k_stages k" "k_stages (kernel_exit b k) = k_stages k"
  "k_stopped (callExitHandler c k) = k_stopped k" "k_stopped (setExitCode c k) = k_stopped k"
  "k_stopped (forceExit k) = k_stopped k" "k_stopped (kernel_exit b k) = k_stopped k"
  "k_stopper (callExitHandler c k) = k_stopper k" "k_stopper (setExitCode c k) = k_stopper k"
  "k_stopper (forceExit k) = k_stopper k" "k_stopper (kernel_exit b k) = k_stopper k"
  "k_stopping (callExitHandler c k) = k_stopping k" "k_stopping (setExitCode c k) = k_stopping k"
  "k_stopping (forceExit k) = k_stopping k" "k_stopping (kernel_exit b k) = k_stopping k"
  "k_main (callExitHandler c k) = k_main k" "k_main (setExitCode c k) = k_main k"
  "k_main (forceExit k) = k_main k" "k_main (kernel_exit b k) = k_main k"
  "k_foreground (callExitHandler c k) = k_foreground k" "k_foreground (setExitCode c k) = k_foreground k"
  "k_foreground (forceExit k) = k_foreground k" "k_foreground (kernel_exit b k) = k_foreground k"
  by (simp_all add: callExitHandler_def setExitCode_def forceExit_def kernel_exit_def Let_def split: option.split)

lemma moduleExited_frame [simp]:
  "k_stages (moduleExited mc err k) = k_stages k" "k_stopped (moduleExited mc err k) = k_stopped k"
  "k_exitCode (moduleExited mc err k) = k_exitCode k"
  "k_exitHandler (moduleExited mc err k) = k_exitHandler k" "k_main (moduleExited mc err k) = k_main k"
  by (simp_all add: moduleExited_def Let_def)

lemma moduleExited_stop:
  "(k_stopping (moduleExited mc err k) = k_stopping k \<and> k_stopper (moduleExited mc err k) = k_stopper k) \<or>
   (k_stopping (moduleExited mc err k) \<and> k_stopper (moduleExited mc err k) = k_stopper (kernel_Stop k))"
  by (auto simp: moduleExited_def Let_def kernel_Stop_stopper)

section \<open>Steps of one stage\<close>

text \<open>What an event can do to a stage, with the condition under which it does.\<close>

inductive sstep :: "RequestCanceledCheck list \<Rightarrow> stage \<Rightarrow> stage \<Rightarrow> bool" for checks where
  s_start: "\<not> st_poisoned st \<Longrightarrow> sstep checks st (st\<lparr>st_poisoned := True, st_spawner := SpRun\<rparr>)"
| s_spawn: "st_spawner st = SpRun \<Longrightarrow> gm_get (st_modules st) n = Some m \<Longrightarrow> ms_pc m = NotSpawned \<Longrightarrow>
    sstep checks st (upd_module n (\<lambda>m. m\<lparr>ms_pc := Running, ms_isRunning := 1\<rparr>) st)"
| s_spawned: "st_spawner st = SpRun \<Longrightarrow> list_all (\<lambda>(n, m). ms_pc m \<noteq> NotSpawned) (st_modules st) \<Longrightarrow>
    sstep checks st (dieIfLast (st\<lparr>st_running := True, st_spawner := SpDone\<rparr>))"
| s_finish: "gm_get (st_modules st) n = Some m \<Longrightarrow> ms_pc m = Running \<Longrightarrow>
    sstep checks st (upd_module n (\<lambda>m. m\<lparr>ms_pc := Finished, ms_isRunning := 0, ms_err := err\<rparr>) st)"
| s_report: "gm_get (st_modules st) n = Some m \<Longrightarrow> ms_pc m = Finished \<Longrightarrow>
    sstep checks st (upd_module n (\<lambda>m. m\<lparr>ms_pc := Reported\<rparr>) st)"
| s_return: "gm_get (st_modules st) n = Some m \<Longrightarrow> ms_pc m = Reported \<Longrightarrow>
    sstep checks st (coffinReturn n (ms_err m) st)"
| s_kill: "sstep checks st (cfn_Kill (Some e) st)"
| s_done: "allReturned st \<Longrightarrow> sstep checks st (stopWaitResult checks st)"

lemma get_module_Some:
  "get_module k i n = Some m \<longleftrightarrow>
     (\<exists>st. gm_get (k_stages k) i = Some st \<and> gm_get (st_modules st) n = Some m)"
  by (cases "gm_get (k_stages k) i") (auto simp: get_module_def)

lemma guarded_Some [simp]: "guarded b k = Some k' \<longleftrightarrow> b \<and> k' = k"
  by (auto simp: guarded_def)

text \<open>Every event changes at most one stage, by one of these steps.\<close>

inductive stages_step :: "RequestCanceledCheck list \<Rightarrow> stages \<Rightarrow> stages \<Rightarrow> bool" for checks where
  same_stages: "stages_step checks s s"
| one_stage: "gm_get s i = Some st \<Longrightarrow> sstep checks st st' \<Longrightarrow> stages_step checks s (gm_set s i st')"

lemmas one_stage_intros =
  one_stage [OF _ s_start] one_stage [OF _ s_spawn] one_stage [OF _ s_spawned]
  one_stage [OF _ s_finish] one_stage [OF _ s_report] one_stage [OF _ s_return]
  one_stage [OF _ s_kill] one_stage [OF _ s_done]

lemma kstep_stages:
  assumes "kstep checks e k = Some k'"
  shows "stages_step checks (k_stages k) (k_stages k')"
  using assms
  by (cases e) (auto simp: get_module_Some upd_stage_stages Let_def split: mainpc.splits list.splits
      option.splits if_splits stoppc.splits intro: same_stages one_stage_intros)

text \<open>The well-formedness of a stage at run time.\<close>

definition modules_ok :: "stage \<Rightarrow> bool" where
  "modules_ok st \<longleftrightarrow> (\<forall>n m. gm_get (st_modules st) n = Some m \<longrightarrow>
     (ms_pc m = NotSpawned \<or> ms_pc m = Running \<longrightarrow> ms_err m = None) \<and>
     (ms_pc m \<noteq> NotSpawned \<longrightarrow> st_spawner st \<noteq> SpNone) \<and>
     (ms_pc m = NotSpawned \<longrightarrow> st_spawner st \<noteq> SpDone))"

definition errs_kept :: "RequestCanceledCheck list \<Rightarrow> stage \<Rightarrow> bool" where
  "errs_kept checks st \<longleftrightarrow> st_err st \<noteq> None \<and> \<not> is_stopping_err (st_err st) \<or>
     (\<forall>n m. gm_get (st_modules st) n = Some m \<longrightarrow> \<not> significant checks (ms_err m))"

definition stage_inv :: "RequestCanceledCheck list \<Rightarrow> stage \<Rightarrow> bool" where
  "stage_inv checks st \<longleftrightarrow> gm_wf (st_modules st) \<and> modules_ok st \<and>
     (st_poisoned st \<longleftrightarrow> st_spawner st \<noteq> SpNone) \<and> (st_running st \<longleftrightarrow> st_spawner st = SpDone) \<and>
     (st_terminated st \<longrightarrow> allReturned st \<and> errs_kept checks st)"

lemma allReturned_iff:
  "gm_wf (st_modules st) \<Longrightarrow> allReturned st \<longleftrightarrow>
     st_spawner st = SpDone \<and> (\<forall>n m. gm_get (st_modules st) n = Some m \<longrightarrow> ms_pc m = Returned)"
  by (simp add: allReturned_def list_all_gm [where P = "\<lambda>m. ms_pc m = Returned"])

lemma cfn_Kill_frame [simp]:
  "st_modules (cfn_Kill r st) = st_modules st" "st_poisoned (cfn_Kill r st) = st_poisoned st"
  "st_spawner (cfn_Kill r st) = st_spawner st" "st_running (cfn_Kill r st) = st_running st"
  "st_terminated (cfn_Kill r st) = st_terminated st" "st_err (cfn_Kill r st) = st_err st"
  "st_index (cfn_Kill r st) = st_index st"
  by (simp_all add: cfn_Kill_def)

lemma dieIfLast_frame [simp]:
  "st_modules (dieIfLast st) = st_modules st" "st_poisoned (dieIfLast st) = st_poisoned st"
  "st_spawner (dieIfLast st) = st_spawner st" "st_running (dieIfLast st) = st_running st"
  "st_terminated (dieIfLast st) = st_terminated st" "st_err (dieIfLast st) = st_err st"
  "st_index (dieIfLast st) = st_index st"
  by (simp_all add: dieIfLast_def)

lemma upd_module_frame [simp]:
  "st_poisoned (upd_module n f st) = st_poisoned st" "st_spawner (upd_module n f st) = st_spawner st"
  "st_running (upd_module n f st) = st_running st" "st_terminated (upd_module n f st) = st_terminated st"
  "st_err (upd_module n f st) = st_err st" "st_index (upd_module n f st) = st_index st"
  "st_reason (upd_module n f st) = st_reason st"
  by (simp_all add: upd_module_def split: option.split)

lemma upd_module_modules:
  "gm_get (st_modules st) n = Some m \<Longrightarrow>
     st_modules (upd_module n f st) = gm_set (st_modules st) n (f m)"
  by (simp add: upd_module_def)

lemma coffinReturn_frame:
  "st_modules (coffinReturn n err st) = st_modules (upd_module n (\<lambda>m. m\<lparr>ms_pc := Returned\<rparr>) st)"
  "st_poisoned (coffinReturn n err st) = st_poisoned st" "st_spawner (coffinReturn n err st) = st_spawner st"
  "st_running (coffinReturn n err st) = st_running st"
  "st_terminated (coffinReturn n err st) = st_terminated st" "st_err (coffinReturn n err st) = st_err st"
  "st_index (coffinReturn n err st) = st_index st"
  by (simp_all add: coffinReturn_def Let_def split: option.split)

lemma firstModuleErr_None:
  "firstModuleErr checks ms = None \<longleftrightarrow> (\<forall>(n, m) \<in> set ms. \<not> significant checks (ms_err m))"
  by (induction ms rule: firstModuleErr.induct) (auto simp: significant_def)

lemma firstModuleErr_Some: "firstModuleErr checks ms = Some e \<Longrightarrow> significant checks (Some e)"
  by (induction ms rule: firstModuleErr.induct) (auto simp: significant_def split: if_splits)

lemma stopWaitResult_errs_kept: "gm_wf (st_modules st) \<Longrightarrow> errs_kept checks (stopWaitResult checks st)"
  using firstModuleErr_None [of checks "st_modules st"] firstModuleErr_Some [of checks "st_modules st"]
  by (auto simp: stopWaitResult_def errs_kept_def Let_def significant_def gm_get_in_set [symmetric]
      split: option.splits if_splits)

lemma stopWaitResult_frame [simp]:
  "st_modules (stopWaitResult checks st) = st_modules st" "st_poisoned (stopWaitResult checks st) = st_poisoned st"
  "st_spawner (stopWaitResult checks st) = st_spawner st" "st_running (stopWaitResult checks st) = st_running st"
  "st_terminated (stopWaitResult checks st)" "st_index (stopWaitResult checks st) = st_index st"
  "allReturned (stopWaitResult checks st) = allReturned st"
  by (simp_all add: stopWaitResult_def Let_def allReturned_def)

lemma sstep_inv: "sstep checks st st' \<Longrightarrow> stage_inv checks st \<Longrightarrow> stage_inv checks st'"
proof (induction rule: sstep.induct)
  case (s_done st)
  then show ?case
    using stopWaitResult_errs_kept [of st checks] by (auto simp: stage_inv_def modules_ok_def)
qed (auto simp: stage_inv_def modules_ok_def allReturned_iff errs_kept_def upd_module_modules
    coffinReturn_frame list_all_gm split: if_splits)

end
