(* ===== verification/KernelProps.thy ===== *)
theory KernelProps
  imports KernelRun
begin

text \<open>
  Invariants of the running kernel and the properties they give: the order in which stages
  start and stop, that an exit code of zero never hides a module's error, that the exit
  handler is called once and a forced exit is final, and when the kernel stops by itself.
\<close>

section \<open>Views of a state\<close>

definition started :: "kernel \<Rightarrow> int \<Rightarrow> bool" where
  "started k i = (case gm_get (k_stages k) i of Some st \<Rightarrow> st_poisoned st | None \<Rightarrow> False)"

definition terminated :: "kernel \<Rightarrow> int \<Rightarrow> bool" where
  "terminated k i = (case gm_get (k_stages k) i of Some st \<Rightarrow> st_terminated st | None \<Rightarrow> False)"

definition stage_err :: "kernel \<Rightarrow> int \<Rightarrow> error" where
  "stage_err k i = Option.bind (gm_get (k_stages k) i) st_err"

abbreviation indices :: "kernel \<Rightarrow> int list" where
  "indices k \<equiv> getIndices (k_stages k)"

lemma stages_step_keys: "stages_step checks s s' \<Longrightarrow> map fst s' = map fst s"
  by (induction rule: stages_step.induct) (auto simp: gm_keys_set)

lemma kstep_indices: "kstep checks e k = Some k' \<Longrightarrow> indices k' = indices k"
  by (simp add: getIndices_def stages_step_keys [OF kstep_stages])

lemma kstep_dom: "kstep checks e k = Some k' \<Longrightarrow> gm_has (k_stages k') i \<longleftrightarrow> gm_has (k_stages k) i"
  using stages_step_keys [OF kstep_stages]
  by (metis gm_dom_conv list.set_map)

lemmas kstep_splits =
  mainpc.splits list.splits option.splits if_splits stoppc.splits

text \<open>The single events that change what is started, terminated or recorded as an error.\<close>

lemma kstep_started:
  "kstep checks e k = Some k' \<Longrightarrow>
     started k' j \<longleftrightarrow> started k j \<or> e = EStartStage \<and> (\<exists>rest. k_main k = Boot (j # rest)) \<and> gm_has (k_stages k) j"
  by (cases e) (auto simp: started_def get_module_Some upd_stage_stages Let_def coffinReturn_frame
      split: kstep_splits)

lemma kstep_terminated:
  "kstep checks e k = Some k' \<Longrightarrow>
     terminated k' j \<longleftrightarrow> terminated k j \<or> e = EStageDone \<and> (\<exists>rest. k_stopper k = StopWait j rest)"
  by (cases e) (auto simp: terminated_def get_module_Some upd_stage_stages Let_def coffinReturn_frame
      split: kstep_splits)

lemma kstep_stage_err:
  "kstep checks e k = Some k' \<Longrightarrow> (\<And>rest. k_stopper k \<noteq> StopWait j rest) \<Longrightarrow> stage_err k' j = stage_err k j"
  by (cases e) (auto simp: stage_err_def get_module_Some upd_stage_stages Let_def coffinReturn_frame
      split: kstep_splits)

section \<open>Stages keep their invariant\<close>

definition stages_inv :: "RequestCanceledCheck list \<Rightarrow> stages \<Rightarrow> bool" where
  "stages_inv checks s \<longleftrightarrow> gm_wf s \<and> (\<forall>i st. gm_get s i = Some st \<longrightarrow> stage_inv checks st)"

lemma stages_step_inv: "stages_step checks s s' \<Longrightarrow> stages_inv checks s \<Longrightarrow> stages_inv checks s'"
  by (induction rule: stages_step.induct) (auto simp: stages_inv_def intro: sstep_inv)

lemma fresh_stages_inv: "fresh_stages s \<Longrightarrow> stages_inv checks s"
  by (fastforce simp: fresh_stages_def stages_inv_def stage_inv_def fresh_stage_def modules_ok_def
      fresh_module_def gm_get_in_set [symmetric] dest!: map_of_SomeD)

section \<open>Start and stop order\<close>

text \<open>The stages started so far are a prefix of the stage indices.\<close>

definition boot_inv :: "kernel \<Rightarrow> bool" where
  "boot_inv k \<longleftrightarrow>
     (case k_main k of
        Boot rest \<Rightarrow> \<exists>pre. indices k = pre @ rest \<and> (\<forall>i. started k i \<longleftrightarrow> i \<in> set pre)
      | AwaitHealthy j rest \<Rightarrow>
          \<exists>pre. indices k = pre @ j # rest \<and> (\<forall>i. started k i \<longleftrightarrow> i \<in> set (pre @ [j]))
      | _ \<Rightarrow> \<exists>pre rest. indices k = pre @ rest \<and> (\<forall>i. started k i \<longleftrightarrow> i \<in> set pre))"

text \<open>The stages terminated so far are a suffix of the stage indices.\<close>

definition stop_inv :: "kernel \<Rightarrow> bool" where
  "stop_inv k \<longleftrightarrow>
     (case k_stopper k of
        StopNone \<Rightarrow> \<not> k_stopping k \<and> (\<forall>i. \<not> terminated k i)
      | StopStages rest \<Rightarrow>
          k_stopping k \<and> (\<exists>pre. rev (indices k) = pre @ rest \<and> (\<forall>i. terminated k i \<longleftrightarrow> i \<in> set pre))
      | StopWait j rest \<Rightarrow>
          k_stopping k \<and> (\<exists>pre. rev (indices k) = pre @ j # rest \<and> (\<forall>i. terminated k i \<longleftrightarrow> i \<in> set pre))
      | StopDone \<Rightarrow> k_stopping k \<and> (\<forall>i. terminated k i \<longleftrightarrow> i \<in> set (indices k)))"

lemma index_dom: "i \<in> set (indices k) \<longleftrightarrow> gm_has (k_stages k) i"
  by (simp only: getIndices_sorted gm_dom_conv)

text \<open>How an event moves \<open>Run\<close> and the goroutine of \<open>Stop\<close>.\<close>

lemma kstep_main:
  assumes "kstep checks e k = Some k'" and "e \<noteq> EStartStage"
  shows "k_main k' = k_main k \<or> (\<exists>i rest. k_main k = AwaitHealthy i rest \<and> k_main k' = Boot rest) \<or>
    k_main k' \<in> {AwaitContexts, AwaitStopped, Exiting, Exited}"
  using assms by (cases e) (auto simp: Let_def split: kstep_splits)

lemma indices_upd_stage [simp]: "indices (upd_stage i f k) = indices k"
  by (auto simp: upd_stage_def getIndices_def gm_keys_set split: option.split)

lemma kstep_stopper:
  assumes "kstep checks e k = Some k'" and "e \<noteq> EKillStage" "e \<noteq> EStageDone" "e \<noteq> EStopDone"
  shows "k_stopper k' = k_stopper k \<and> k_stopping k' = k_stopping k \<or>
    k_stopping k' \<and> k_stopper k' = (if k_stopping k then k_stopper k else StopStages (rev (indices k)))"
proof (cases e)
  case (EFinish i n err)
  with assms(1) obtain m where m: "get_module k i n = Some m"
    by (cases "get_module k i n") auto
  let ?k = "upd_stage i (upd_module n (\<lambda>m. m\<lparr>ms_pc := Finished, ms_isRunning := 0, ms_err := err\<rparr>)) k"
  from assms(1) EFinish m have "k' = moduleExited (ms_config m) err ?k" by simp
  then show ?thesis
    using moduleExited_stop [of "ms_config m" err ?k] by (auto simp: kernel_Stop_stopper)
next
  case (EReport i n)
  with assms(1) show ?thesis by (auto simp: Let_def kernel_Stop_stopper split: kstep_splits)
qed (use assms in \<open>auto simp: Let_def kernel_Stop_stopper split: kstep_splits\<close>)

text \<open>The started stages stay a prefix, the terminated ones a suffix.\<close>

lemma boot_inv_prefix:
  assumes "boot_inv k"
  shows "\<exists>pre rest. indices k = pre @ rest \<and> (\<forall>i. started k i \<longleftrightarrow> i \<in> set pre)"
proof (cases "k_main k")
  case (AwaitHealthy j rest)
  with assms obtain pre where "indices k = (pre @ [j]) @ rest" "\<forall>i. started k i \<longleftrightarrow> i \<in> set (pre @ [j])"
    by (auto simp: boot_inv_def)
  then show ?thesis by blast
qed (use assms in \<open>auto simp: boot_inv_def\<close>)

lemma kstep_boot_inv:
  assumes "kstep checks e k = Some k'" and "stages_inv checks (k_stages k)" and "boot_inv k"
  shows "boot_inv k'"
proof (cases "e = EStartStage")
  case True
  with assms(1) obtain i rest st where main: "k_main k = Boot (i # rest)" and st: "gm_get (k_stages k) i = Some st"
    by (cases "k_main k") (auto split: list.splits option.splits)
  from assms(3) main obtain pre where pre: "indices k = pre @ i # rest" "\<forall>j. started k j \<longleftrightarrow> j \<in> set pre"
    by (auto simp: boot_inv_def)
  have "distinct (indices k)" using assms(2) by (simp add: stages_inv_def getIndices_distinct)
  with pre have "\<not> started k i" by simp
  with st have "\<not> st_poisoned st" by (simp add: started_def)
  then have "k_main k' = AwaitHealthy i rest" using assms(1) True main st by auto
  moreover have "indices k' = indices k" using assms(1) by (rule kstep_indices)
  moreover have "started k' j \<longleftrightarrow> j = i \<or> started k j" for j
    using kstep_started [OF assms(1), of j] True main st by auto
  ultimately show ?thesis using pre by (simp add: boot_inv_def)
next
  case False
  have same: "started k' = started k" "indices k' = indices k"
    using kstep_started [OF assms(1)] False kstep_indices [OF assms(1)] by auto
  consider "k_main k' = k_main k" | i rest where "k_main k = AwaitHealthy i rest" "k_main k' = Boot rest" |
      "k_main k' \<in> {AwaitContexts, AwaitStopped, Exiting, Exited}"
    using kstep_main [OF assms(1) False] by blast
  then show ?thesis
  proof cases
    case 1
    show ?thesis using assms(3) unfolding boot_inv_def same 1 .
  next
    case 2
    with assms(3) obtain pre where pre: "indices k = (pre @ [i]) @ rest" "\<forall>j. started k j \<longleftrightarrow> j \<in> set (pre @ [i])"
      by (auto simp: boot_inv_def)
    have "\<exists>pre. indices k = pre @ rest \<and> (\<forall>j. started k j \<longleftrightarrow> j \<in> set pre)"
      using pre by blast
    with 2 show ?thesis using same by (simp add: boot_inv_def)
  next
    case 3
    with boot_inv_prefix [OF assms(3)] show ?thesis
      by (elim insertE) (simp_all add: boot_inv_def same)
  qed
qed

lemma kstep_stop_inv:
  assumes "kstep checks e k = Some k'" and "stop_inv k"
  shows "stop_inv k'"
proof -
  have idx: "indices k' = indices k" using assms(1) by (rule kstep_indices)
  note t = kstep_terminated [OF assms(1)]
  consider "e = EKillStage" | "e = EStageDone" | "e = EStopDone" | (other) "e \<noteq> EKillStage" "e \<noteq> EStageDone" "e \<noteq> EStopDone"
    by blast
  then show ?thesis
  proof cases
    case 1
    with assms(1) obtain i rest where "k_stopper k = StopStages (i # rest)" "k_stopper k' = StopWait i rest"
      "k_stopping k' = k_stopping k"
      by (cases "k_stopper k") (auto split: list.splits option.splits)
    with assms(2) idx t 1 show ?thesis by (auto simp: stop_inv_def)
  next
    case 2
    with assms(1) obtain i rest where s: "k_stopper k = StopWait i rest" "k_stopper k' = StopStages rest"
      "k_stopping k' = k_stopping k"
      by (cases "k_stopper k") (auto split: list.splits option.splits)
    with assms(2) obtain pre where pre: "rev (indices k) = (pre @ [i]) @ rest" "\<forall>j. terminated k j \<longleftrightarrow> j \<in> set pre" "k_stopping k"
      by (auto simp: stop_inv_def)
    have "\<forall>j. terminated k' j \<longleftrightarrow> j \<in> set (pre @ [i])" using t 2 s pre(2) by auto
    with pre s idx show ?thesis by (auto simp: stop_inv_def)
  next
    case 3
    with assms(1) have "k_stopper k = StopStages []" "k_stopper k' = StopDone" "k_stopping k' = k_stopping k"
      by (cases "k_stopper k"; auto split: list.splits)+
    moreover have "set (rev (indices k)) = set (indices k)" by simp
    ultimately show ?thesis using assms(2) idx t 3 by (auto simp: stop_inv_def simp del: set_rev)
  next
    case other
    then have same: "terminated k' = terminated k" using t by auto
    consider "k_stopper k' = k_stopper k" "k_stopping k' = k_stopping k" |
        "\<not> k_stopping k" "k_stopping k'" "k_stopper k' = StopStages (rev (indices k))"
      using kstep_stopper [OF assms(1) other] by (auto split: if_splits)
    then show ?thesis
    proof cases
      case 1
      show ?thesis using assms(2) unfolding stop_inv_def same idx 1 .
    next
      case 2
      with assms(2) have "\<forall>i. \<not> terminated k i" by (simp add: stop_inv_def split: stoppc.splits)
      with 2 idx same show ?thesis by (simp add: stop_inv_def)
    qed
  qed
qed

section \<open>Exit codes\<close>

text \<open>Some stage keeps an error other than the one \<open>Stop\<close> kills the stages with.\<close>

abbreviation failed :: "error \<Rightarrow> bool" where
  "failed err \<equiv> err \<noteq> None \<and> \<not> is_stopping_err err"

lemma hasErr_iff:
  assumes "gm_wf (k_stages k)"
  shows "hasErr (k_stages k) \<longleftrightarrow> (\<exists>i. failed (stage_err k i))"
proof -
  have "hasErr (k_stages k) \<longleftrightarrow> (\<exists>i st. gm_get (k_stages k) i = Some st \<and> failed (st_err st))"
    unfolding hasErr_def using assms by (rule list_ex_gm [where P = "\<lambda>st. failed (st_err st)"])
  then show ?thesis by (fastforce simp: stage_err_def bind_eq_Some_conv)
qed

definition all_terminated :: "kernel \<Rightarrow> bool" where
  "all_terminated k \<longleftrightarrow> (\<forall>i \<in> set (indices k). terminated k i)"

definition clean :: "kernel \<Rightarrow> bool" where
  "clean k \<longleftrightarrow> all_terminated k \<and> (\<forall>i. \<not> failed (stage_err k i))"

text \<open>Only a clean shutdown sets the exit code, or calls the exit handler, with zero.\<close>

definition exit_inv :: "kernel \<Rightarrow> bool" where
  "exit_inv k \<longleftrightarrow> (k_stopped k \<longrightarrow> all_terminated k) \<and> (k_exitCode k = ExitCodeOk \<longrightarrow> clean k) \<and>
     (k_exitHandler k = Some ExitCodeOk \<longrightarrow> clean k)"

text \<open>\<open>stopWait\<close> is never called twice for a stage.\<close>

lemma stopper_not_terminated:
  assumes "stages_inv checks (k_stages k)" and "stop_inv k" and "k_stopper k = StopWait j rest"
  shows "\<not> terminated k j \<and> j \<in> set (indices k)"
proof -
  obtain pre where pre: "rev (indices k) = pre @ j # rest" "\<forall>i. terminated k i \<longleftrightarrow> i \<in> set pre"
    using assms(2,3) by (auto simp: stop_inv_def)
  have "distinct (rev (indices k))" using assms(1) by (simp add: stages_inv_def getIndices_distinct)
  moreover have "j \<in> set (indices k)" by (subst set_rev [symmetric], subst pre(1)) simp
  ultimately show ?thesis using pre by simp
qed

lemma kstep_all_terminated:
  "kstep checks e k = Some k' \<Longrightarrow> all_terminated k \<Longrightarrow> all_terminated k'"
  by (simp add: all_terminated_def kstep_terminated kstep_indices)

lemma kstep_clean:
  assumes "kstep checks e k = Some k'" and "stages_inv checks (k_stages k)" and "stop_inv k" and "clean k"
  shows "clean k'"
proof -
  have "stage_err k' j = stage_err k j" for j
    using assms(1) stopper_not_terminated [OF assms(2,3)] assms(4)
    by (intro kstep_stage_err) (auto simp: clean_def all_terminated_def)
  then show ?thesis using kstep_all_terminated [OF assms(1)] assms(4) by (simp add: clean_def)
qed

text \<open>How the exit code and the call of the exit handler can change.\<close>

lemma kstep_exitCode:
  "kstep checks e k = Some k' \<Longrightarrow> k_exitCode k' = k_exitCode k \<or>
     k_exitCode k' \<in> {ExitCodeErr, ExitCodeForced} \<or>
     e = EStopped \<and> k_stopped k \<and> \<not> hasErr (k_stages k) \<and> k_exitCode k' = ExitCodeOk"
  by (cases e) (auto simp: Let_def setExitCode_def forceExit_def callExitHandler_def kernel_exit_def
      split: kstep_splits)

lemma kstep_exitHandler:
  "kstep checks e k = Some k' \<Longrightarrow> k_exitHandler k' = k_exitHandler k \<or>
     k_exitHandler k = None \<and> k_exitHandler k' \<in> {Some ExitCodeErr, Some ExitCodeForced, Some (k_exitCode k)}"
  by (cases e) (auto simp: Let_def setExitCode_def forceExit_def callExitHandler_def kernel_exit_def
      split: kstep_splits)

lemma kstep_stopped:
  "kstep checks e k = Some k' \<Longrightarrow> k_stopped k' \<longleftrightarrow> k_stopped k \<or>
     e = EAllDone \<and> list_all (\<lambda>(i, st). st_terminated st) (k_stages k)"
  by (cases e) (auto simp: Let_def split: kstep_splits)

lemma kstep_exit_inv:
  assumes "kstep checks e k = Some k'" and "stages_inv checks (k_stages k)" and "stop_inv k" and "exit_inv k"
  shows "exit_inv k'"
proof -
  have wf: "gm_wf (k_stages k)" using assms(2) by (simp add: stages_inv_def)
  have at: "list_all (\<lambda>(i, st). st_terminated st) (k_stages k) \<Longrightarrow> all_terminated k"
    using list_all_gm [OF wf, of st_terminated]
    by (fastforce simp: all_terminated_def terminated_def index_dom simp del: getIndices_sorted(2) split: option.splits)
  have "k_stopped k' \<longrightarrow> all_terminated k'"
    using kstep_stopped [OF assms(1)] at kstep_all_terminated [OF assms(1)] assms(4) by (auto simp: exit_inv_def)
  moreover have "k_exitCode k' = ExitCodeOk \<longrightarrow> clean k'"
    using kstep_exitCode [OF assms(1)] kstep_clean [OF assms(1-3)] assms(4) hasErr_iff [OF wf]
    by (auto simp: exit_inv_def exit_codes clean_def)
  moreover have "k_exitHandler k' = Some ExitCodeOk \<longrightarrow> clean k'"
    using kstep_exitHandler [OF assms(1)] kstep_clean [OF assms(1-3)] assms(4)
    by (auto simp: exit_inv_def exit_codes)
  ultimately show ?thesis by (simp add: exit_inv_def)
qed

section \<open>Reachable states\<close>

definition kernel_inv :: "RequestCanceledCheck list \<Rightarrow> kernel \<Rightarrow> bool" where
  "kernel_inv checks k \<longleftrightarrow> stages_inv checks (k_stages k) \<and> boot_inv k \<and> stop_inv k \<and> exit_inv k"

lemma fresh_views:
  "fresh_stages s \<Longrightarrow> \<not> started (startKernel s) i" "fresh_stages s \<Longrightarrow> \<not> terminated (startKernel s) i"
  by (auto simp: fresh_stages_def fresh_stage_def started_def terminated_def startKernel_def
      dest!: map_of_SomeD split: option.splits)

lemma start_inv: "fresh_stages s \<Longrightarrow> kernel_inv checks (startKernel s)"
  using fresh_views [of s] fresh_stages_inv [of s checks]
  by (auto simp: kernel_inv_def boot_inv_def stop_inv_def exit_inv_def startKernel_def exit_codes)

lemma reachable_inv:
  assumes "reachable checks s k" and "fresh_stages s"
  shows "kernel_inv checks k"
  using assms(1)
proof induction
  case start
  show ?case using assms(2) by (rule start_inv)
next
  case (step k e k')
  then show ?case
    using stages_step_inv [OF kstep_stages] kstep_boot_inv kstep_stop_inv kstep_exit_inv
    by (simp add: kernel_inv_def)
qed

lemma krun_reachable:
  "reachable checks s k \<Longrightarrow> krun checks es k = Some k' \<Longrightarrow> reachable checks s k'"
  by (induction es arbitrary: k) (auto split: option.splits intro: reachable.step)

lemma terminated_stage:
  assumes "stages_inv checks (k_stages k)" and "terminated k j"
  obtains st where "gm_get (k_stages k) j = Some st" and "gm_wf (st_modules st)" and "allReturned st" and "started k j"
  using assms
  by (auto simp: terminated_def started_def stages_inv_def stage_inv_def allReturned_def split: option.splits)

lemma terminated_returned:
  assumes "stages_inv checks (k_stages k)" and "terminated k j" and "get_module k j n = Some m"
  shows "ms_pc m = Returned"
proof -
  obtain st where "gm_get (k_stages k) j = Some st" "gm_wf (st_modules st)" "allReturned st"
    using assms(1,2) by (rule terminated_stage)
  with assms(3) show ?thesis by (auto simp: get_module_Some allReturned_iff)
qed

lemma never_started_never_stopped:
  assumes "kernel_inv checks k" and "gm_has (k_stages k) j" and "\<not> started k j"
  shows "\<not> k_stopped k"
proof
  assume "k_stopped k"
  with assms(1,2) have "terminated k j" "stages_inv checks (k_stages k)"
    by (auto simp: kernel_inv_def exit_inv_def all_terminated_def index_dom simp del: getIndices_sorted(2))
  with assms(3) show False by (auto elim: terminated_stage)
qed

section \<open>The count of foreground modules\<close>

text \<open>
  The modules \<open>k_foreground\<close> still counts: every foreground module that has not exited, and
  essential ones for ever, since their exit does not decrement it.
\<close>

definition fg_open :: "moduleState \<Rightarrow> bool" where
  "fg_open m \<longleftrightarrow> is_fg m \<and> (essential (ms_config m) \<or> ms_pc m = NotSpawned \<or> ms_pc m = Running)"

definition count_open :: "stages \<Rightarrow> int" where
  "count_open s = int (length (filter fg_open (allModules s)))"

lemma gm_split:
  "gm_get ms n = Some m \<Longrightarrow> \<exists>a b. ms = a @ (n, m) # b \<and> (\<forall>m'. gm_set ms n m' = a @ (n, m') # b)"
proof (induction ms)
  case (Cons p ms)
  show ?case
  proof (cases "fst p = n")
    case True
    with Cons.prems show ?thesis by (intro exI [of _ "[]"] exI [of _ ms]) (cases p, auto)
  next
    case False
    with Cons obtain a b where "ms = a @ (n, m) # b" "\<forall>m'. gm_set ms n m' = a @ (n, m') # b"
      by (auto split: if_splits)
    with False show ?thesis by (intro exI [of _ "p # a"] exI [of _ b]) (cases p, auto)
  qed
qed simp

lemma count_open_set:
  assumes "gm_get s i = Some st" and "gm_get (st_modules st) n = Some m"
    and "st_modules st' = gm_set (st_modules st) n m'"
  shows "count_open (gm_set s i st') = count_open s + of_bool (fg_open m') - of_bool (fg_open m)"
proof -
  obtain a b where "s = a @ (i, st) # b" "\<forall>st'. gm_set s i st' = a @ (i, st') # b"
    using gm_split [OF assms(1)] by blast
  moreover obtain c d where "st_modules st = c @ (n, m) # d"
    "\<forall>m'. gm_set (st_modules st) n m' = c @ (n, m') # d"
    using gm_split [OF assms(2)] by blast
  ultimately show ?thesis using assms(3) by (simp add: count_open_def allModules_def)
qed

lemma count_open_same:
  assumes "gm_get s i = Some st" and "st_modules st' = st_modules st"
  shows "count_open (gm_set s i st') = count_open s"
proof -
  obtain a b where "s = a @ (i, st) # b" "\<forall>st'. gm_set s i st' = a @ (i, st') # b"
    using gm_split [OF assms(1)] by blast
  then show ?thesis using assms(2) by (simp add: count_open_def allModules_def)
qed

definition fg_inv :: "kernel \<Rightarrow> bool" where
  "fg_inv k \<longleftrightarrow> k_foreground k = count_open (k_stages k) \<and>
     (\<forall>i n m. get_module k i n = Some m \<longrightarrow>
        (ms_pc m = Reported \<or> ms_pc m = Returned \<longrightarrow> ms_err m \<noteq> None \<longrightarrow> k_stopping k) \<and>
        (ms_pc m \<noteq> NotSpawned \<and> ms_pc m \<noteq> Running \<longrightarrow> essential (ms_config m) \<longrightarrow> ms_err m = None \<longrightarrow>
           k_stopping k)) \<and>
     (k_foreground k = 0 \<longrightarrow> k_stopping k \<or>
        (\<exists>i n m. get_module k i n = Some m \<and> is_fg m \<and> ms_pc m = Finished \<and> ms_err m \<noteq> None))"

lemma get_module_upd:
  assumes "\<And>st. st_modules (g st) = st_modules (upd_module n f st)"
  shows "get_module (upd_stage i g k) j l =
    (if j = i \<and> l = n then map_option f (get_module k i n) else get_module k j l)"
  using assms by (auto simp: get_module_def upd_stage_def upd_module_def bind_eq_None_conv split: option.split)

lemma get_module_cong: "k_stages k' = k_stages k \<Longrightarrow> get_module k' = get_module k"
  by (simp add: get_module_def fun_eq_iff)

lemma kstep_other:
  assumes "kstep checks e k = Some k'" and "\<And>i n. e \<noteq> ESpawn i n" "\<And>i n err. e \<noteq> EFinish i n err"
    "\<And>i n. e \<noteq> EReport i n" "\<And>i n. e \<noteq> EReturn i n"
  shows "k_foreground k' = k_foreground k" "k_stopping k \<longrightarrow> k_stopping k'"
    "count_open (k_stages k') = count_open (k_stages k)" "get_module k' = get_module k"
proof -
  show "k_foreground k' = k_foreground k" "k_stopping k \<longrightarrow> k_stopping k'"
    using assms by (cases e; auto simp: Let_def split: kstep_splits)+
  show "count_open (k_stages k') = count_open (k_stages k)"
    using assms by (cases e; auto simp: upd_stage_stages count_open_same split: kstep_splits)
  show "get_module k' = get_module k"
    using assms by (cases e) (auto simp: fun_eq_iff get_module_def upd_stage_stages split: kstep_splits)
qed

lemma fg_inv_module_step:
  assumes "fg_inv k" and m: "get_module k i n = Some m"
    and g: "\<And>st. st_modules (g st) = st_modules (upd_module n f st)"
    and k': "k_stages k' = k_stages (upd_stage i g k)"
    and fg: "k_foreground k' = k_foreground k + of_bool (fg_open (f m)) - of_bool (fg_open m)"
    and stop: "k_stopping k \<longrightarrow> k_stopping k'"
    and rep: "ms_pc (f m) = Reported \<or> ms_pc (f m) = Returned \<Longrightarrow> ms_err (f m) \<noteq> None \<Longrightarrow> k_stopping k'"
    and ess: "ms_pc (f m) \<noteq> NotSpawned \<and> ms_pc (f m) \<noteq> Running \<Longrightarrow> essential (ms_config (f m)) \<Longrightarrow>
      ms_err (f m) = None \<Longrightarrow> k_stopping k'"
    and zero: "k_foreground k' = 0 \<Longrightarrow> k_stopping k' \<or> is_fg (f m) \<and> ms_pc (f m) = Finished \<and> ms_err (f m) \<noteq> None \<or>
      k_foreground k = 0 \<and> \<not> (ms_pc m = Finished \<and> ms_err m \<noteq> None)"
  shows "fg_inv k'"
proof -
  obtain st where st: "gm_get (k_stages k) i = Some st" "gm_get (st_modules st) n = Some m"
    using m by (auto simp: get_module_Some)
  have gm: "get_module k' j l = (if j = i \<and> l = n then Some (f m) else get_module k j l)" for j l
    using get_module_cong [OF k'] get_module_upd [OF g, of i k j l] m by simp
  have count: "count_open (k_stages k') = count_open (k_stages k) + of_bool (fg_open (f m)) - of_bool (fg_open m)"
    using count_open_set [OF st, of "g st" "f m"] g [of st] st k' by (simp add: upd_stage_stages upd_module_modules)
  have ex: "\<exists>j l m'. get_module k' j l = Some m' \<and> is_fg m' \<and> ms_pc m' = Finished \<and> ms_err m' \<noteq> None"
    if "k_foreground k' = 0" "\<not> k_stopping k'"
  proof (cases "is_fg (f m) \<and> ms_pc (f m) = Finished \<and> ms_err (f m) \<noteq> None")
    case True
    then show ?thesis by (intro exI [of _ i] exI [of _ n] exI [of _ "f m"]) (simp add: gm)
  next
    case False
    with zero that stop have "k_foreground k = 0" "\<not> k_stopping k" "\<not> (ms_pc m = Finished \<and> ms_err m \<noteq> None)"
      by auto
    with assms(1) obtain j l m' where "get_module k j l = Some m'" "is_fg m'" "ms_pc m' = Finished" "ms_err m' \<noteq> None"
      by (auto simp: fg_inv_def)
    moreover from this m \<open>\<not> (ms_pc m = Finished \<and> ms_err m \<noteq> None)\<close> have "\<not> (j = i \<and> l = n)" by auto
    ultimately show ?thesis by (intro exI [of _ j] exI [of _ l] exI [of _ m']) (auto simp: gm)
  qed
  have "k_foreground k' = count_open (k_stages k')" using assms(1) count fg by (simp add: fg_inv_def)
  moreover have "\<forall>j l m. get_module k' j l = Some m \<longrightarrow>
      (ms_pc m = Reported \<or> ms_pc m = Returned \<longrightarrow> ms_err m \<noteq> None \<longrightarrow> k_stopping k') \<and>
      (ms_pc m \<noteq> NotSpawned \<and> ms_pc m \<noteq> Running \<longrightarrow> essential (ms_config m) \<longrightarrow> ms_err m = None \<longrightarrow> k_stopping k')"
  proof (intro allI impI)
    fix j l m'
    assume "get_module k' j l = Some m'"
    then show "(ms_pc m' = Reported \<or> ms_pc m' = Returned \<longrightarrow> ms_err m' \<noteq> None \<longrightarrow> k_stopping k') \<and>
      (ms_pc m' \<noteq> NotSpawned \<and> ms_pc m' \<noteq> Running \<longrightarrow> essential (ms_config m') \<longrightarrow> ms_err m' = None \<longrightarrow> k_stopping k')"
      using assms(1) stop rep ess unfolding gm fg_inv_def by (cases "j = i \<and> l = n") auto
  qed
  ultimately show ?thesis using ex unfolding fg_inv_def by blast
qed

lemma moduleExited_foreground:
  "k_foreground (moduleExited mc err k) =
     k_foreground k - of_bool (\<not> essential mc \<and> \<not> background mc)"
  "k_stopping k \<Longrightarrow> k_stopping (moduleExited mc err k)"
  "essential mc \<Longrightarrow> err = None \<Longrightarrow> k_stopping (moduleExited mc err k)"
  "\<not> essential mc \<Longrightarrow> \<not> background mc \<Longrightarrow> err = None \<Longrightarrow> k_foreground k = 1 \<Longrightarrow> k_stopping (moduleExited mc err k)"
  by (simp_all add: moduleExited_def Let_def)

lemma kstep_fg_inv:
  assumes "kstep checks e k = Some k'" and "fg_inv k"
  shows "fg_inv k'"
proof -
  consider (spawn) i n where "e = ESpawn i n" | (finish) i n err where "e = EFinish i n err"
    | (report) i n where "e = EReport i n" | (ret) i n where "e = EReturn i n"
    | (other) "\<And>i n. e \<noteq> ESpawn i n" "\<And>i n err. e \<noteq> EFinish i n err" "\<And>i n. e \<noteq> EReport i n" "\<And>i n. e \<noteq> EReturn i n"
    by blast
  then show ?thesis
  proof cases
    case spawn
    let ?f = "\<lambda>m::moduleState. m\<lparr>ms_pc := Running, ms_isRunning := 1\<rparr>"
    from assms(1) spawn obtain m where m: "get_module k i n = Some m" "ms_pc m = NotSpawned"
      and k': "k' = upd_stage i (upd_module n ?f) k"
      by (auto split: option.splits)
    show ?thesis
      by (rule fg_inv_module_step [OF assms(2) m(1), where f = ?f and g = "upd_module n ?f"])
        (auto simp: k' m fg_open_def)
  next
    case finish
    let ?f = "\<lambda>m::moduleState. m\<lparr>ms_pc := Finished, ms_isRunning := 0, ms_err := err\<rparr>"
    from assms(1) finish obtain m where m: "get_module k i n = Some m" "ms_pc m = Running"
      and k': "k' = moduleExited (ms_config m) err (upd_stage i (upd_module n ?f) k)"
      by (auto split: option.splits)
    have last: "k_foreground k = 1 \<Longrightarrow> is_fg m \<Longrightarrow> \<not> essential (ms_config m) \<Longrightarrow> k_stopping k' \<or> err \<noteq> None"
      by (cases err) (auto simp: k' moduleExited_foreground)
    show ?thesis
      by (rule fg_inv_module_step [OF assms(2) m(1), where f = ?f and g = "upd_module n ?f"])
        (use last in \<open>auto simp: k' m fg_open_def moduleExited_foreground split: if_splits\<close>)
  next
    case report
    let ?f = "\<lambda>m::moduleState. m\<lparr>ms_pc := Reported\<rparr>"
    from assms(1) report obtain m where m: "get_module k i n = Some m" "ms_pc m = Finished"
      and k': "k' = (if ms_err m \<noteq> None then kernel_Stop (upd_stage i (upd_module n ?f) k)
        else upd_stage i (upd_module n ?f) k)"
      by (auto simp: Let_def split: option.splits)
    show ?thesis
      by (rule fg_inv_module_step [OF assms(2) m(1), where f = ?f and g = "upd_module n ?f"])
        (use assms(2) m in \<open>auto simp: k' fg_open_def fg_inv_def\<close>)
  next
    case ret
    let ?f = "\<lambda>m::moduleState. m\<lparr>ms_pc := Returned\<rparr>"
    from assms(1) ret obtain m where m: "get_module k i n = Some m" "ms_pc m = Reported"
      and k': "k' = upd_stage i (coffinReturn n (ms_err m)) k"
      by (auto split: option.splits)
    show ?thesis
      by (rule fg_inv_module_step [OF assms(2) m(1), where f = ?f and g = "coffinReturn n (ms_err m)"])
        (use assms(2) m in \<open>auto simp: k' coffinReturn_frame fg_open_def fg_inv_def\<close>)
  next
    case other
    from kstep_other [OF assms(1) this] show ?thesis
      using assms(2) by (auto simp: fg_inv_def)
  qed
qed

lemma reachable_fg_inv:
  assumes "reachable checks s k" and "fresh_stages s" and "countForegroundModules s \<noteq> 0"
  shows "fg_inv k"
  using assms(1)
proof induction
  case start
  have "fresh_module i m" if "get_module (startKernel s) i n = Some m" for i n m
    using that assms(2)
    by (fastforce simp: get_module_Some startKernel_def fresh_stages_def fresh_stage_def dest!: map_of_SomeD)
  moreover have "\<forall>m \<in> set (allModules s). ms_pc m = NotSpawned"
    using assms(2) by (fastforce simp: allModules_def fresh_stages_def fresh_stage_def fresh_module_def)
  then have "filter fg_open (allModules s) = filter is_fg (allModules s)"
    by (intro filter_cong) (auto simp: fg_open_def)
  ultimately show ?case
    using assms(3) by (auto simp: fg_inv_def startKernel_def count_open_def countForegroundModules_eq fresh_module_def)
next
  case (step k e k')
  then show ?case by (blast intro: kstep_fg_inv)
qed

section \<open>Properties\<close>

text \<open>
  C9. A blueprint that \<open>BuildKernel\<close> accepts yields stages that are ready to run: every stage
  is keyed by its index and holds at least one module, every module sits in the stage its
  merged configuration asks for and has neither been started nor failed, and there is at
  least one module that keeps the kernel running.
\<close>

theorem factory_build_ready:
  assumes "factory_build settingsErr bp = Inr f"
  shows "fresh_stages (f_stages f) \<and> hasModules (f_stages f) \<and> countForegroundModules (f_stages f) > 0"
proof -
  have "countForegroundModules (f_stages f) \<ge> 0" by (simp add: countForegroundModules_eq)
  with factory_build_fresh [OF assms] show ?thesis by simp
qed

definition demo_module :: "bool \<times> bool \<Rightarrow> int \<Rightarrow> Module" where
  "demo_module t i = \<lparr>mod_typed = Some t, mod_stage = Some i, mod_healthAware = True\<rparr>"

definition demo_blueprint :: "(unit, unit) blueprint" where
  "demo_blueprint = \<lparr>middlewareFactories = [],
     moduleFactories = [(''api'', Made (Some (demo_module ForegroundModule StageApplication)), []),
       (''off'', Made None, []),
       (''metric'', Made (Some (demo_module BackgroundModule StageApplication)), [ModuleStage StageService])],
     multiModuleFactories = [], shutdownHandlerFactories = []\<rparr>"

definition demo_stages :: stages where
  "demo_stages = (case factory_build None demo_blueprint of Inr f \<Rightarrow> f_stages f | Inl _ \<Rightarrow> [])"

theorem factory_build_ready_witness:
  "\<exists>f. factory_build None demo_blueprint = Inr f \<and> countForegroundModules (f_stages f) > 0"
proof -
  have "(case factory_build None demo_blueprint of Inr f \<Rightarrow> True | Inl _ \<Rightarrow> False)"
    by code_simp
  then obtain f where f: "factory_build None demo_blueprint = Inr f"
    by (auto split: sum.splits)
  with factory_build_ready [OF f] show ?thesis by blast
qed

lemma demo_fresh: "fresh_stages demo_stages" "countForegroundModules demo_stages \<noteq> 0"
proof -
  have "(case factory_build None demo_blueprint of Inr f \<Rightarrow> True | Inl _ \<Rightarrow> False)"
    by code_simp
  then obtain f where f: "factory_build None demo_blueprint = Inr f"
    by (auto split: sum.splits)
  then have "demo_stages = f_stages f" by (simp add: demo_stages_def)
  with factory_build_fresh [OF f] show "fresh_stages demo_stages" "countForegroundModules demo_stages \<noteq> 0"
    by simp_all
qed

text \<open>A whole life of that kernel: boot, the foreground module ends, shutdown, exit.\<close>

definition demo_boot :: "event list" where
  "demo_boot = [EStartStage, ESpawn 1024 ''metric'', ESpawned 1024, EHealthy,
     EStartStage, ESpawn 2048 ''api'', ESpawned 2048, EHealthy, EBooted]"

definition demo_end :: "event list" where
  "demo_end = [EFinish 2048 ''api'' None, EReport 2048 ''api'', EReturn 2048 ''api'', EKillStage, EStageDone]"

definition demo_life :: "event list" where
  "demo_life = demo_boot @ demo_end @ [EKillStage, EFinish 1024 ''metric'' None, EReport 1024 ''metric'',
     EReturn 1024 ''metric'', EStageDone, EStopDone, EAllDone, EContextsDone, EStopped, EExit False]"

lemma demo_run:
  assumes "case krun [] es (startKernel demo_stages) of Some k \<Rightarrow> P k | None \<Rightarrow> False"
  obtains k where "reachable [] demo_stages k" and "krun [] es (startKernel demo_stages) = Some k" and "P k"
  using assms krun_reachable [OF reachable.start, where es = es and s = demo_stages and checks = "[]"] by (auto split: option.splits)

text \<open>
  C1. The exit handler is called with code zero only after a clean shutdown: in whatever
  order the goroutines, signals and timers were interleaved, every module has then returned
  and none of them failed with an error other than the stop error or a cancellation.
\<close>

theorem exit_zero_means_clean:
  assumes "reachable checks s k" and "fresh_stages s" and "k_exitHandler k = Some ExitCodeOk"
    and "get_module k i n = Some m"
  shows "ms_pc m = Returned \<and> \<not> significant checks (ms_err m)"
proof -
  obtain st where st: "gm_get (k_stages k) i = Some st" "gm_get (st_modules st) n = Some m"
    using assms(4) by (auto simp: get_module_Some)
  have inv: "stages_inv checks (k_stages k)" "clean k"
    using reachable_inv [OF assms(1,2)] assms(3) by (auto simp: kernel_inv_def exit_inv_def)
  then have "stage_inv checks st" "terminated k i" "\<not> failed (st_err st)"
    using st by (auto simp: stages_inv_def clean_def all_terminated_def index_dom stage_err_def
        simp del: getIndices_sorted(2) dest: spec [of _ i])
  with st show ?thesis
    by (auto simp: terminated_def stage_inv_def allReturned_iff errs_kept_def)
qed

theorem exit_zero_means_clean_witness:
  "\<exists>k m. krun [] demo_life (startKernel demo_stages) = Some k \<and> k_exitHandler k = Some ExitCodeOk \<and>
     get_module k 2048 ''api'' = Some m \<and> ms_pc m = Returned"
proof -
  have "case krun [] demo_life (startKernel demo_stages) of None \<Rightarrow> False
      | Some k \<Rightarrow> k_exitHandler k = Some ExitCodeOk \<and> get_module k 2048 ''api'' \<noteq> None"
    by code_simp
  then obtain k where k: "reachable [] demo_stages k" "krun [] demo_life (startKernel demo_stages) = Some k"
    "k_exitHandler k = Some ExitCodeOk \<and> get_module k 2048 ''api'' \<noteq> None"
    by (rule demo_run)
  then obtain m where "get_module k 2048 ''api'' = Some m" by auto
  with exit_zero_means_clean [OF k(1) demo_fresh(1) _ this] k show ?thesis by blast
qed



text \<open>
  C4. A forced exit is final and the exit handler is called at most once: once the handler
  has been called with some code, no later event calls it with another, and once the exit
  code is the forced one, the graceful path never overwrites it.
\<close>

theorem forced_exit_final:
  assumes "krun checks es k = Some k'"
  shows "(k_exitHandler k = Some c \<longrightarrow> k_exitHandler k' = Some c) \<and>
    (k_exitCode k = ExitCodeForced \<longrightarrow> k_exitCode k' = ExitCodeForced)"
proof -
  have step: "k_exitCode k' = ExitCodeForced" if "kstep checks e k = Some k'" "k_exitCode k = ExitCodeForced" for e k k'
    using that by (cases e) (auto simp: Let_def setExitCode_def forceExit_def callExitHandler_def kernel_exit_def
        split: kstep_splits)
  show ?thesis
    using assms
  proof (induction es arbitrary: k)
    case (Cons e es)
    then obtain k1 where k1: "kstep checks e k = Some k1" "krun checks es k1 = Some k'"
      by (auto split: option.splits)
    from Cons.IH [OF k1(2)] kstep_exitHandler [OF k1(1)] step [OF k1(1)] show ?case by auto
  qed simp
qed

theorem forced_exit_final_witness:
  "\<exists>k k'. krun [] (demo_boot @ [ESignal, ESignal]) (startKernel demo_stages) = Some k \<and>
     krun [] [EPanic, EExit False] k = Some k' \<and> k_exitHandler k' = Some 12 \<and> k_exitCode k' = ExitCodeForced"
proof -
  have "case krun [] (demo_boot @ [ESignal, ESignal]) (startKernel demo_stages) of None \<Rightarrow> False
      | Some k \<Rightarrow> k_exitHandler k = Some 12 \<and> k_exitCode k = ExitCodeForced \<and> krun [] [EPanic, EExit False] k \<noteq> None"
    by code_simp
  then obtain k where k: "krun [] (demo_boot @ [ESignal, ESignal]) (startKernel demo_stages) = Some k"
    "k_exitHandler k = Some 12 \<and> k_exitCode k = ExitCodeForced \<and> krun [] [EPanic, EExit False] k \<noteq> None"
    by (rule demo_run)
  then obtain k' where "krun [] [EPanic, EExit False] k = Some k'" by auto
  with forced_exit_final [OF this, of 12] k show ?thesis by blast
qed

text \<open>
  C3. The kernel stops by itself. When every module that is not a background module has
  exited and its goroutine has returned from the calls that may stop the kernel, then the
  kernel is stopping, whatever the modules returned and in whatever order they exited.
\<close>

theorem kernel_stops_itself:
  assumes "reachable checks s k" and "fresh_stages s" and "countForegroundModules s \<noteq> 0"
    and "\<And>i n m. get_module k i n = Some m \<Longrightarrow> \<not> background (ms_config m) \<Longrightarrow>
      ms_pc m = Reported \<or> ms_pc m = Returned"
  shows "k_stopping k"
proof (rule ccontr)
  assume run: "\<not> k_stopping k"
  have inv: "fg_inv k" using reachable_fg_inv assms(1-3) .
  have wf: "stages_inv checks (k_stages k)" using reachable_inv [OF assms(1,2)] by (simp add: kernel_inv_def)
  have "\<not> fg_open m" if "m \<in> set (allModules (k_stages k))" for m
  proof -
    from that have "\<exists>i st n. (i, st) \<in> set (k_stages k) \<and> (n, m) \<in> set (st_modules st)"
      by (force simp: allModules_def)
    then obtain i st n where "(i, st) \<in> set (k_stages k)" "(n, m) \<in> set (st_modules st)" by blast
    then have "get_module k i n = Some m"
      using wf by (auto simp: get_module_Some stages_inv_def stage_inv_def gm_get_in_set)
    then show ?thesis using assms(4) inv run by (fastforce simp: fg_open_def fg_inv_def)
  qed
  then have "count_open (k_stages k) = 0" by (simp add: count_open_def filter_empty_conv)
  with inv run assms(4) show False by (fastforce simp: fg_inv_def)
qed

theorem kernel_stops_itself_witness:
  "\<exists>k. krun [] (demo_boot @ demo_end) (startKernel demo_stages) = Some k \<and> k_stopping k"
proof -
  have "case krun [] (demo_boot @ demo_end) (startKernel demo_stages) of None \<Rightarrow> False
      | Some k \<Rightarrow> list_all (\<lambda>(i, st). list_all (\<lambda>(n, m). background (ms_config m) \<or> ms_pc m = Returned)
          (st_modules st)) (k_stages k)"
    by code_simp
  then obtain k where k: "reachable [] demo_stages k"
    "krun [] (demo_boot @ demo_end) (startKernel demo_stages) = Some k"
    "list_all (\<lambda>(i, st). list_all (\<lambda>(n, m). background (ms_config m) \<or> ms_pc m = Returned)
       (st_modules st)) (k_stages k)"
    by (rule demo_run)
  have "ms_pc m = Reported \<or> ms_pc m = Returned" if "get_module k i n = Some m" "\<not> background (ms_config m)" for i n m
    using that k(3) by (fastforce simp: get_module_Some list_all_iff dest!: map_of_SomeD)
  with kernel_stops_itself [OF k(1) demo_fresh] k(2) show ?thesis by blast
qed

text \<open>
  A stage that never becomes healthy blocks the shutdown. When booting has been given
  up while some stage has not been started, \<open>stopWait\<close> waits for ever for that stage to run:
  whatever happens afterwards, the kernel is never stopped and \<open>Run\<close> never gets past waiting
  (unless a middleware panics), so the process only ends by the forced exit of the kill
  timer or of a second signal.
\<close>

theorem unhealthy_boot_never_stops:
  assumes "reachable checks s k" and "fresh_stages s" and "k_main k = AwaitContexts \<or> k_main k = AwaitStopped"
    and "gm_has (k_stages k) j" and "\<not> started k j"
    and "krun checks es k = Some k'" and "EPanic \<notin> set es"
  shows "\<not> k_stopped k' \<and> (k_main k' = AwaitContexts \<or> k_main k' = AwaitStopped)"
  using assms(1,3-)
proof (induction es arbitrary: k)
  case Nil
  then show ?case using never_started_never_stopped [OF reachable_inv [OF _ assms(2)]] by auto
next
  case (Cons e es)
  have blocked: "\<not> k_stopped k"
    using reachable_inv [OF Cons.prems(1) assms(2)] Cons.prems(3,4) by (rule never_started_never_stopped)
  from Cons.prems(5) obtain k1 where k1: "kstep checks e k = Some k1" "krun checks es k1 = Some k'"
    by (auto split: option.splits)
  show ?case
  proof (rule Cons.IH [OF _ _ _ _ k1(2)])
    show "reachable checks s k1" using Cons.prems(1) k1(1) by (rule reachable.step)
    show "k_main k1 = AwaitContexts \<or> k_main k1 = AwaitStopped"
      using k1(1) Cons.prems(2,6) blocked by (cases e) (auto simp: Let_def split: kstep_splits)
    show "gm_has (k_stages k1) j" using Cons.prems(3) kstep_dom [OF k1(1)] by simp
    show "\<not> started k1 j" using kstep_started [OF k1(1), of j] Cons.prems(2,4) by auto
    show "EPanic \<notin> set es" using Cons.prems(6) by simp
  qed
qed

theorem unhealthy_boot_never_stops_witness:
  "\<exists>k. krun [] [EStartStage, ESpawn 1024 ''metric'', ESpawned 1024, EUnhealthy] (startKernel demo_stages) = Some k \<and>
     (\<forall>es k'. krun [] es k = Some k' \<and> EPanic \<notin> set es \<longrightarrow> \<not> k_stopped k')"
proof -
  have "case krun [] [EStartStage, ESpawn 1024 ''metric'', ESpawned 1024, EUnhealthy] (startKernel demo_stages) of
      None \<Rightarrow> False | Some k \<Rightarrow> k_main k = AwaitContexts \<and> gm_has (k_stages k) 2048 \<and> \<not> started k 2048"
    by code_simp
  then obtain k where k: "reachable [] demo_stages k"
    "krun [] [EStartStage, ESpawn 1024 ''metric'', ESpawned 1024, EUnhealthy] (startKernel demo_stages) = Some k"
    "k_main k = AwaitContexts \<and> gm_has (k_stages k) 2048 \<and> \<not> started k 2048"
    by (rule demo_run)
  then have "\<not> k_stopped k'" if "krun [] es k = Some k'" "EPanic \<notin> set es" for es k'
    using unhealthy_boot_never_stops [OF k(1) demo_fresh(1), of 2048 es k'] that by blast
  with k(2) show ?thesis by blast
qed

end
