(* ===== verification/Cache.thy ===== *)
theory Cache
  imports Prelude GoErrors
begin

text \<open>
  \<open>pkg/cache/ccache.go\<close>: the typed cache with expiry around \<open>github.com/karlseguin/ccache\<close>.

  The third-party cache is a parameter, the record \<open>ccache\<close> of the calls the code makes.
  What the code relies on is \<open>ccache_ok\<close>: a read returns an unexpired item exactly when the
  cache holds one, a write stores the value but may evict others or itself, and extending an
  item into the past or deleting it removes it. \<open>live\<close> is the content: the unexpired items.
  The key lock makes \<open>mutate\<close> and \<open>provide\<close> atomic per key.
\<close>

section \<open>The third-party cache\<close>

text \<open>\<open>Get\<close> returns the value and \<open>Expired\<close> of the item; \<open>Extend\<close> acts on the item of a key.\<close>

record ('c, 'v) ccache =
  cc_Get :: "'c \<Rightarrow> string \<Rightarrow> ('v \<times> bool) option"
  cc_Set :: "'c \<Rightarrow> string \<Rightarrow> 'v \<Rightarrow> int \<Rightarrow> 'c"
  cc_Extend :: "'c \<Rightarrow> string \<Rightarrow> int \<Rightarrow> 'c"
  cc_Delete :: "'c \<Rightarrow> string \<Rightarrow> 'c \<times> bool"

definition ccache_ok :: "('c, 'v) ccache \<Rightarrow> ('c \<Rightarrow> string \<rightharpoonup> 'v) \<Rightarrow> bool" where
  "ccache_ok cc live \<longleftrightarrow>
     (\<forall>c k v. cc_Get cc c k = Some (v, False) \<longleftrightarrow> live c k = Some v) \<and>
     (\<forall>c k v ttl. live (cc_Set cc c k v ttl) \<subseteq>\<^sub>m (live c)(k \<mapsto> v)) \<and>
     (\<forall>c k d. d < 0 \<longrightarrow> live (cc_Extend cc c k d) \<subseteq>\<^sub>m (live c)(k := None)) \<and>
     (\<forall>c k. live (fst (cc_Delete cc c k)) \<subseteq>\<^sub>m (live c)(k := None))"

text \<open>A cache that never evicts, because it stays below its maximal size.\<close>

definition ccache_exact :: "('c, 'v) ccache \<Rightarrow> ('c \<Rightarrow> string \<rightharpoonup> 'v) \<Rightarrow> bool" where
  "ccache_exact cc live \<longleftrightarrow> ccache_ok cc live \<and>
     (\<forall>c k v ttl. 0 < ttl \<longrightarrow> live (cc_Set cc c k v ttl) = (live c)(k \<mapsto> v)) \<and>
     (\<forall>c k d. d < 0 \<longrightarrow> live (cc_Extend cc c k d) = (live c)(k := None)) \<and>
     (\<forall>c k. live (fst (cc_Delete cc c k)) = (live c)(k := None))"

section \<open>The cache\<close>

text \<open>Durations are integers in nanoseconds. The constructor takes the options last.\<close>

record 'c cache =
  base :: 'c
  ttl :: int
  notFoundTtl :: int

definition NewWithConfiguration :: "'c \<Rightarrow> int \<Rightarrow> ('c cache \<Rightarrow> 'c cache) list \<Rightarrow> 'c cache" where
  "NewWithConfiguration b t options = fold (\<lambda>opt c. opt c) options \<lparr>base = b, ttl = t, notFoundTtl = 0\<rparr>"

definition WithNotFoundTtl :: "int \<Rightarrow> 'c cache \<Rightarrow> 'c cache" where
  "WithNotFoundTtl t c = c\<lparr>notFoundTtl := t\<rparr>"

definition cache_Delete :: "('c, 'v) ccache \<Rightarrow> 'c cache \<Rightarrow> string \<Rightarrow> 'c cache \<times> bool" where
  "cache_Delete cc c key = (let (b, ok) = cc_Delete cc (base c) key in (c\<lparr>base := b\<rparr>, ok))"

definition cache_SetX :: "('c, 'v) ccache \<Rightarrow> 'c cache \<Rightarrow> string \<Rightarrow> 'v \<Rightarrow> int \<Rightarrow> 'c cache" where
  "cache_SetX cc c key value t = c\<lparr>base := cc_Set cc (base c) key value t\<rparr>"

definition cache_Set :: "('c, 'v) ccache \<Rightarrow> 'c cache \<Rightarrow> string \<Rightarrow> 'v \<Rightarrow> 'c cache" where
  "cache_Set cc c key value = c\<lparr>base := cc_Set cc (base c) key value (ttl c)\<rparr>"

definition cache_Get :: "('c, 'v) ccache \<Rightarrow> 'c cache \<Rightarrow> string \<Rightarrow> 'v option" where
  "cache_Get cc c key =
     (case cc_Get cc (base c) key of
        None \<Rightarrow> None
      | Some (value, expired) \<Rightarrow> if expired then None else Some value)"

definition cache_Contains :: "('c, 'v) ccache \<Rightarrow> 'c cache \<Rightarrow> string \<Rightarrow> bool" where
  "cache_Contains cc c key = (case cache_Get cc c key of None \<Rightarrow> False | Some _ \<Rightarrow> True)"

definition nanosPerSecond :: int where "nanosPerSecond = 1000000000"

definition cache_Expire :: "('c, 'v) ccache \<Rightarrow> 'c cache \<Rightarrow> string \<Rightarrow> 'c cache \<times> bool" where
  "cache_Expire cc c key =
     (case cc_Get cc (base c) key of
        None \<Rightarrow> (c, False)
      | Some _ \<Rightarrow> (c\<lparr>base := cc_Extend cc (base c) key (- nanosPerSecond)\<rparr>, True))"

text \<open>The test \<open>isZero\<close> compares with the zero value of the element type.\<close>

definition storeResult :: "('c, 'v) ccache \<Rightarrow> 'v \<Rightarrow> 'c cache \<Rightarrow> string \<Rightarrow> 'v \<Rightarrow> int \<Rightarrow> 'c cache" where
  "storeResult cc zero c key v t =
     (if v \<noteq> zero then cache_SetX cc c key v t
      else if notFoundTtl c > 0 then cache_SetX cc c key v (notFoundTtl c)
      else c)"

definition cache_mutate ::
  "('c, 'v) ccache \<Rightarrow> 'v \<Rightarrow> 'c cache \<Rightarrow> string \<Rightarrow> ('v option \<Rightarrow> 'v) \<Rightarrow> int \<Rightarrow> 'c cache \<times> 'v" where
  "cache_mutate cc zero c key mutate t =
     (let mutated = mutate (cache_Get cc c key) in (storeResult cc zero c key mutated t, mutated))"

definition cache_Mutate ::
  "('c, 'v) ccache \<Rightarrow> 'v \<Rightarrow> 'c cache \<Rightarrow> string \<Rightarrow> ('v option \<Rightarrow> 'v) \<Rightarrow> 'c cache \<times> 'v" where
  "cache_Mutate cc zero c key mutate = cache_mutate cc zero c key mutate (ttl c)"

text \<open>The provider returns a value and whether it may be used; it is called lazily.\<close>

definition provide ::
  "('c, 'v) ccache \<Rightarrow> 'v \<Rightarrow> 'c cache \<Rightarrow> string \<Rightarrow> (unit \<Rightarrow> 'v \<times> bool) \<Rightarrow> 'c cache \<times> 'v \<times> bool" where
  "provide cc zero c key provider =
     (case cache_Get cc c key of
        Some result \<Rightarrow> (c, result, True)
      | None \<Rightarrow>
          (case provider () of (result, ok) \<Rightarrow>
             if \<not> ok then (c, result, False)
             else (storeResult cc zero c key result (ttl c), result, True)))"

definition cache_Provide ::
  "('c, 'v) ccache \<Rightarrow> 'v \<Rightarrow> 'c cache \<Rightarrow> string \<Rightarrow> (unit \<Rightarrow> 'v) \<Rightarrow> 'c cache \<times> 'v" where
  "cache_Provide cc zero c key provider =
     (case provide cc zero c key (\<lambda>u. (provider u, True)) of (c', result, _) \<Rightarrow> (c', result))"

definition cache_ProvideWithError ::
  "('c, 'v) ccache \<Rightarrow> 'v \<Rightarrow> 'c cache \<Rightarrow> string \<Rightarrow> (unit \<Rightarrow> 'v \<times> error) \<Rightarrow> 'c cache \<times> 'v \<times> error" where
  "cache_ProvideWithError cc zero c key provider =
     (case provide cc zero c key (\<lambda>u. let (v, err) = provider u in (v, err = None)) of
        (c', result, ok) \<Rightarrow> if \<not> ok then (c', zero, snd (provider ())) else (c', result, None))"

section \<open>Laws\<close>

abbreviation clive :: "('c \<Rightarrow> string \<rightharpoonup> 'v) \<Rightarrow> 'c cache \<Rightarrow> string \<rightharpoonup> 'v" where
  "clive live c \<equiv> live (base c)"

lemma cache_Get_live:
  assumes "ccache_ok cc live"
  shows "cache_Get cc c k = clive live c k"
proof -
  have law: "cc_Get cc (base c) k = Some (v, False) \<longleftrightarrow> live (base c) k = Some v" for v
    using assms by (simp add: ccache_ok_def)
  show ?thesis
  proof (cases "live (base c) k")
    case None
    then have "\<And>v. cc_Get cc (base c) k \<noteq> Some (v, False)" by (simp add: law)
    with None show ?thesis by (auto simp: cache_Get_def split: option.split)
  next
    case (Some a)
    then have "cc_Get cc (base c) k = Some (a, False)" by (simp add: law)
    with Some show ?thesis by (simp add: cache_Get_def)
  qed
qed

lemma cache_Contains_live: "ccache_ok cc live \<Longrightarrow> cache_Contains cc c k \<longleftrightarrow> clive live c k \<noteq> None"
  by (simp add: cache_Contains_def cache_Get_live split: option.split)

lemma cache_Set_live: "ccache_ok cc live \<Longrightarrow> clive live (cache_Set cc c k v) \<subseteq>\<^sub>m (clive live c)(k \<mapsto> v)"
  by (simp add: cache_Set_def ccache_ok_def)

lemma cache_SetX_live: "ccache_ok cc live \<Longrightarrow> clive live (cache_SetX cc c k v t) \<subseteq>\<^sub>m (clive live c)(k \<mapsto> v)"
  by (simp add: cache_SetX_def ccache_ok_def)

lemma cache_Expire_live:
  assumes "ccache_ok cc live"
  shows "clive live (fst (cache_Expire cc c k)) \<subseteq>\<^sub>m (clive live c)(k := None)"
proof (cases "cc_Get cc (base c) k")
  case None
  with assms have "live (base c) k = None"
    unfolding ccache_ok_def by (metis not_None_eq option.distinct(1))
  then have "(live (base c))(k := None) = live (base c)" by auto
  with None show ?thesis by (simp add: cache_Expire_def map_le_def)
next
  case (Some a)
  with assms show ?thesis by (simp add: cache_Expire_def ccache_ok_def nanosPerSecond_def)
qed

lemma cache_Expire_exact:
  assumes "ccache_exact cc live"
  shows "clive live (fst (cache_Expire cc c k)) = (clive live c)(k := None)"
proof (cases "cc_Get cc (base c) k")
  case None
  with assms have "live (base c) k = None"
    unfolding ccache_exact_def ccache_ok_def by (metis not_None_eq option.distinct(1))
  with None show ?thesis by (auto simp: cache_Expire_def fun_upd_def)
next
  case (Some a)
  with assms show ?thesis by (simp add: cache_Expire_def ccache_exact_def nanosPerSecond_def)
qed

lemma cache_frame [simp]:
  "ttl (cache_Set cc c k v) = ttl c" "ttl (fst (cache_Expire cc c k)) = ttl c"
  by (simp_all add: cache_Set_def cache_Expire_def split: option.split)


text \<open>A cache without expiry or eviction, an association list, meets the contract.\<close>

definition listCache :: "((string, 'v) gomap, 'v) ccache" where
  "listCache = \<lparr>cc_Get = \<lambda>m k. map_option (\<lambda>v. (v, False)) (gm_get m k), cc_Set = \<lambda>m k v t. gm_set m k v,
     cc_Extend = \<lambda>m k d. if d < 0 then gm_del m k else m, cc_Delete = \<lambda>m k. (gm_del m k, gm_has m k)\<rparr>"

lemma listCache_exact: "ccache_exact listCache gm_get"
  by (auto simp: ccache_exact_def ccache_ok_def listCache_def map_le_def)

lemma listCache_ok: "ccache_ok listCache gm_get"
  by (rule listCache_exact [unfolded ccache_exact_def, THEN conjunct1])


end
