(* ===== verification/KvStore.thy ===== *)
theory KvStore
  imports Cache "HOL-Library.Word"
begin

text \<open>
  \<open>pkg/kvstore\<close>: the store interface (\<open>kvstore.go\<close>), batching (\<open>batch.go\<close>, \<open>uniq.go\<close>), the
  in-memory, empty and metric stores (\<open>in_memory.go\<close>, \<open>empty.go\<close>, \<open>metric.go\<close>) and the chain
  (\<open>chain.go\<close>), with the reflection helpers they use (\<open>pkg/refl\<close>).

  An \<open>any\<close> that must be a slice or a map is a \<open>dyn\<close>: the value, or a value of another type.
  A key is a \<open>gokey\<close> with its dynamic type. \<open>cast.ToStringE\<close> of the third-party package is
  the parameter \<open>ts\<close>. A store is a state with a record of operations, the method table of
  the interface; an operation returns the new state with its results.
\<close>

section \<open>Dynamic values (refl/slice.go, refl/map.go)\<close>

datatype gokey = KStr string | KInt int | KOther string string

fun key_type :: "gokey \<Rightarrow> string" where
  "key_type (KStr s) = ''string''"
| "key_type (KInt i) = ''int''"
| "key_type (KOther t v) = t"

fun key_text :: "gokey \<Rightarrow> string" where
  "key_text (KStr s) = s"
| "key_text (KInt i) = itoa i"
| "key_text (KOther t v) = v"

datatype 'a dyn = Val 'a | OtherType string

definition InterfaceToInterfaceSlice :: "gokey list dyn \<Rightarrow> goerr + gokey list" where
  "InterfaceToInterfaceSlice x =
     (case x of Val ks \<Rightarrow> Inr ks
      | OtherType t \<Rightarrow> Inl (Opaque (''input is not an slice but instead of type '' @ t)))"

text \<open>A Go map value with the static type of its keys.\<close>

record 'v rmap =
  keyType :: string
  mapValue :: "(gokey, 'v) gomap"

definition notAMap :: "string \<Rightarrow> goerr" where
  "notAMap t = Opaque (''value has to be of kind Map but instead is of type '' @ t)"

definition InterfaceToMapInterfaceInterface :: "'v rmap dyn \<Rightarrow> goerr + (gokey, 'v) gomap" where
  "InterfaceToMapInterfaceInterface m =
     (case m of Val r \<Rightarrow> Inr (mapValue r) | OtherType t \<Rightarrow> Inl (notAMap t))"

definition MapOf :: "'v rmap dyn \<Rightarrow> goerr + 'v rmap" where
  "MapOf m = (case m of Val r \<Rightarrow> Inr r | OtherType t \<Rightarrow> Inl (notAMap t))"

definition Map_Set :: "'v rmap \<Rightarrow> gokey \<Rightarrow> 'v \<Rightarrow> goerr + 'v rmap" where
  "Map_Set m key value =
     (if key_type key \<noteq> keyType m
      then Inl (Opaque (''provided key should be of type '' @ keyType m @ '' but instead is '' @ key_type key))
      else Inr (m\<lparr>mapValue := gm_set (mapValue m) key value\<rparr>))"

section \<open>The interface (kvstore.go)\<close>

type_synonym toStringE = "gokey \<Rightarrow> goerr + string"

definition CastKeyToString :: "toStringE \<Rightarrow> gokey \<Rightarrow> goerr + string" where
  "CastKeyToString ts key =
     (case ts key of
        Inr str \<Rightarrow> Inr str
      | Inl err \<Rightarrow> Inl (errorf_w (''unknown type ['' @ key_type key @ ''] for kvstore key: '') err ''''))"

text \<open>The method table: state, then arguments, to the new state and the results.\<close>

record ('s, 'v) kvops =
  op_Contains :: "'s \<Rightarrow> gokey \<Rightarrow> 's \<times> bool \<times> error"
  op_Get :: "'s \<Rightarrow> gokey \<Rightarrow> 'v \<Rightarrow> 's \<times> 'v \<times> bool \<times> error"
  op_GetBatch :: "'s \<Rightarrow> gokey list dyn \<Rightarrow> 'v rmap dyn \<Rightarrow> 's \<times> 'v rmap dyn \<times> gokey list \<times> error"
  op_Put :: "'s \<Rightarrow> gokey \<Rightarrow> 'v \<Rightarrow> 's \<times> error"
  op_PutBatch :: "'s \<Rightarrow> 'v rmap dyn \<Rightarrow> 's \<times> error"
  op_Delete :: "'s \<Rightarrow> gokey \<Rightarrow> 's \<times> error"
  op_DeleteBatch :: "'s \<Rightarrow> gokey list dyn \<Rightarrow> 's \<times> error"

section \<open>Batches (uniq.go, batch.go)\<close>

fun uniqLoop :: "toStringE \<Rightarrow> gokey list \<Rightarrow> string list \<Rightarrow> gokey list \<Rightarrow> goerr + gokey list" where
  "uniqLoop ts [] seen uniqKeys = Inr uniqKeys"
| "uniqLoop ts (key # keys) seen uniqKeys =
     (case CastKeyToString ts key of
        Inl err \<Rightarrow> Inl (errorf_w (''can not build string key from '' @ key_type key @ '' '' @ key_text key @ '': '') err '''')
      | Inr keyString \<Rightarrow>
          if keyString \<in> set seen then uniqLoop ts keys seen uniqKeys
          else uniqLoop ts keys (keyString # seen) (uniqKeys @ [key]))"

definition UniqKeys :: "toStringE \<Rightarrow> gokey list \<Rightarrow> goerr + gokey list" where
  "UniqKeys ts keys = uniqLoop ts keys [] []"

text \<open>\<open>keyChunks\<close>: the loop advances by the chunk size; a size below one would not advance, and
  \<open>getBatch\<close> never passes one.\<close>

fun keyChunks :: "'a list \<Rightarrow> nat \<Rightarrow> 'a list list" where
  "keyChunks [] n = []"
| "keyChunks (k # ks) n =
     (if n = 0 then [] else take n (k # ks) # keyChunks (drop n (k # ks)) n)"

type_synonym ('s, 'v) chunkGetter = "'s \<Rightarrow> 'v rmap \<Rightarrow> gokey list \<Rightarrow> 's \<times> 'v rmap \<times> (goerr + gokey list)"

fun chunkLoop :: "('s, 'v) chunkGetter \<Rightarrow> gokey list list \<Rightarrow> 's \<Rightarrow> 'v rmap \<Rightarrow> gokey list \<Rightarrow> 's \<times> 'v rmap \<times> (goerr + gokey list)" where
  "chunkLoop getChunk [] s rm missing = (s, rm, Inr missing)"
| "chunkLoop getChunk (chunk # chunks) s rm missing =
     (case getChunk s rm chunk of
        (s', rm', Inl err) \<Rightarrow> (s', rm', Inl (errorf_w ''can not get chunk: '' err ''''))
      | (s', rm', Inr miss) \<Rightarrow> chunkLoop getChunk chunks s' rm' (missing @ miss))"

definition getBatch ::
  "toStringE \<Rightarrow> gokey list dyn \<Rightarrow> 'v rmap dyn \<Rightarrow> ('s, 'v) chunkGetter \<Rightarrow> int \<Rightarrow> 's \<Rightarrow> 's \<times> 'v rmap dyn \<times> gokey list \<times> error" where
  "getBatch ts keys result getChunk batchSize s =
     (case InterfaceToInterfaceSlice keys of
        Inl err \<Rightarrow> (s, result, [], Some (errorf_w ''can not morph keys to slice of interfaces: '' err ''''))
      | Inr ks \<Rightarrow>
     (case UniqKeys ts ks of
        Inl err \<Rightarrow> (s, result, [], Some (errorf_w ''can not deduplicate keys: '' err ''''))
      | Inr keySlice \<Rightarrow>
     (case MapOf result of
        Inl err \<Rightarrow> (s, result, keySlice, Some (errorf_w ''can not use provided result value: '' err ''''))
      | Inr resultMap \<Rightarrow>
          (let n = (if batchSize < 1 then 1 else batchSize) in
           case chunkLoop getChunk (keyChunks keySlice (nat n)) s resultMap [] of
             (s, rm, Inl err) \<Rightarrow> (s, Val rm, keySlice, Some err)
           | (s, rm, Inr missing) \<Rightarrow> (s, Val rm, missing, None)))))"

section \<open>The in-memory store (in\_memory.go)\<close>

record 'c memStore =
  mem_cache :: "'c cache"
  cacheSize :: int
  BatchSize :: int

definition keyErr :: "gokey \<Rightarrow> goerr \<Rightarrow> goerr" where
  "keyErr key err = errorf_w (''can not build string key '' @ key_type key @ '' '' @ key_text key @ '': '') err ''''"

definition mem_Contains :: "toStringE \<Rightarrow> ('c, 'v) ccache \<Rightarrow> 'c memStore \<Rightarrow> gokey \<Rightarrow> 'c memStore \<times> bool \<times> error" where
  "mem_Contains ts cc s key =
     (case CastKeyToString ts key of
        Inl err \<Rightarrow> (s, False, Some (keyErr key err))
      | Inr keyStr \<Rightarrow> (s, cache_Contains cc (mem_cache s) keyStr, None))"

definition mem_Get :: "toStringE \<Rightarrow> ('c, 'v) ccache \<Rightarrow> 'c memStore \<Rightarrow> gokey \<Rightarrow> 'v \<Rightarrow> 'c memStore \<times> 'v \<times> bool \<times> error" where
  "mem_Get ts cc s key value =
     (case CastKeyToString ts key of
        Inl err \<Rightarrow> (s, value, False, Some (keyErr key err))
      | Inr keyStr \<Rightarrow>
          (case cache_Get cc (mem_cache s) keyStr of
             None \<Rightarrow> (s, value, False, None)
           | Some item \<Rightarrow> (s, item, True, None)))"

fun mem_getChunk ::
  "toStringE \<Rightarrow> ('c, 'v) ccache \<Rightarrow> 'v \<Rightarrow> 'c memStore \<Rightarrow> gokey list \<Rightarrow> 'v rmap \<Rightarrow> gokey list \<Rightarrow>
     'v rmap \<times> (goerr + gokey list)" where
  "mem_getChunk ts cc zero s [] rm missing = (rm, Inr missing)"
| "mem_getChunk ts cc zero s (key # keys) rm missing =
     (case CastKeyToString ts key of
        Inl err \<Rightarrow> (rm, Inl (keyErr key err))
      | Inr keyString \<Rightarrow>
          (case mem_Get ts cc s key zero of
             (_, element, ok, Some err) \<Rightarrow>
               (rm, Inl (errorf_w (''can not get batch element for key '' @ keyString @ '': '') err ''''))
           | (_, element, ok, None) \<Rightarrow>
               if \<not> ok then mem_getChunk ts cc zero s keys rm (missing @ [KStr keyString])
               else (case Map_Set rm (KStr keyString) element of
                       Inl err \<Rightarrow> (rm, Inl (errorf_w ''can not set new element on result map: '' err ''''))
                     | Inr rm' \<Rightarrow> mem_getChunk ts cc zero s keys rm' missing)))"

definition mem_GetBatch ::
  "toStringE \<Rightarrow> ('c, 'v) ccache \<Rightarrow> 'v \<Rightarrow> 'c memStore \<Rightarrow> gokey list dyn \<Rightarrow> 'v rmap dyn \<Rightarrow>
     'c memStore \<times> 'v rmap dyn \<times> gokey list \<times> error" where
  "mem_GetBatch ts cc zero s keys values =
     getBatch ts keys values (\<lambda>s rm ks. (s, mem_getChunk ts cc zero s ks rm [])) (BatchSize s) s"

definition mem_Put :: "toStringE \<Rightarrow> ('c, 'v) ccache \<Rightarrow> 'c memStore \<Rightarrow> gokey \<Rightarrow> 'v \<Rightarrow> 'c memStore \<times> error" where
  "mem_Put ts cc s key value =
     (case CastKeyToString ts key of
        Inl err \<Rightarrow> (s, Some (keyErr key err))
      | Inr keyStr \<Rightarrow>
          (s\<lparr>mem_cache := cache_Set cc (mem_cache s) keyStr value, cacheSize := cacheSize s + 1\<rparr>, None))"

fun mem_putAll :: "toStringE \<Rightarrow> ('c, 'v) ccache \<Rightarrow> 'c memStore \<Rightarrow> (gokey, 'v) gomap \<Rightarrow> 'c memStore \<times> error" where
  "mem_putAll ts cc s [] = (s, None)"
| "mem_putAll ts cc s ((k, v) # m) =
     (case mem_Put ts cc s k v of
        (s', Some err) \<Rightarrow> (s', Some (errorf_w ''can not put value into in_memory store: '' err ''''))
      | (s', None) \<Rightarrow> mem_putAll ts cc s' m)"

definition mem_PutBatch :: "toStringE \<Rightarrow> ('c, 'v) ccache \<Rightarrow> 'c memStore \<Rightarrow> 'v rmap dyn \<Rightarrow> 'c memStore \<times> error" where
  "mem_PutBatch ts cc s values =
     (case InterfaceToMapInterfaceInterface values of
        Inl err \<Rightarrow> (s, Some (Opaque ''could not convert values to map[any]any''))
      | Inr mii \<Rightarrow> mem_putAll ts cc s mii)"

definition mem_Delete :: "toStringE \<Rightarrow> ('c, 'v) ccache \<Rightarrow> 'c memStore \<Rightarrow> gokey \<Rightarrow> 'c memStore \<times> error" where
  "mem_Delete ts cc s key =
     (case CastKeyToString ts key of
        Inl err \<Rightarrow> (s, Some (keyErr key err))
      | Inr keyStr \<Rightarrow> (s\<lparr>mem_cache := fst (cache_Expire cc (mem_cache s) keyStr)\<rparr>, None))"

fun mem_deleteAll :: "toStringE \<Rightarrow> ('c, 'v) ccache \<Rightarrow> 'c memStore \<Rightarrow> gokey list \<Rightarrow> 'c memStore \<times> error" where
  "mem_deleteAll ts cc s [] = (s, None)"
| "mem_deleteAll ts cc s (k # ks) =
     (case mem_Delete ts cc s k of
        (s', Some err) \<Rightarrow> (s', Some (errorf_w ''can not remove value from in_memory store: '' err ''''))
      | (s', None) \<Rightarrow> mem_deleteAll ts cc s' ks)"

definition mem_DeleteBatch :: "toStringE \<Rightarrow> ('c, 'v) ccache \<Rightarrow> 'c memStore \<Rightarrow> gokey list dyn \<Rightarrow> 'c memStore \<times> error" where
  "mem_DeleteBatch ts cc s keys =
     (case InterfaceToInterfaceSlice keys of
        Inl err \<Rightarrow> (s, Some (errorf_w ''could not convert keys to []any: '' err ''''))
      | Inr si \<Rightarrow> mem_deleteAll ts cc s si)"

definition memOps :: "toStringE \<Rightarrow> ('c, 'v) ccache \<Rightarrow> 'v \<Rightarrow> ('c memStore, 'v) kvops" where
  "memOps ts cc zero = \<lparr>op_Contains = mem_Contains ts cc, op_Get = mem_Get ts cc,
     op_GetBatch = mem_GetBatch ts cc zero, op_Put = mem_Put ts cc, op_PutBatch = mem_PutBatch ts cc,
     op_Delete = mem_Delete ts cc, op_DeleteBatch = mem_DeleteBatch ts cc\<rparr>"

text \<open>
  The settings \<open>NewInMemoryKvStoreWithInterfaces\<close> fills in. \<open>bits.OnesCount32\<close> and
  \<open>bits.LeadingZeros32\<close> read the 32 bits of a word.
\<close>

definition OnesCount32 :: "32 word \<Rightarrow> nat" where
  "OnesCount32 w = length (filter (bit w) [0..<32])"

definition LeadingZeros32 :: "32 word \<Rightarrow> nat" where
  "LeadingZeros32 w = length (takeWhile (\<lambda>i. \<not> bit w i) (rev [0..<32]))"

record InMemorySettings =
  MaxSize :: int
  Buckets :: "32 word"
  ItemsToPrune :: "32 word"
  DeleteBuffer :: "32 word"
  PromoteBuffer :: "32 word"
  GetsPerPromote :: int

definition padBuckets :: "32 word \<Rightarrow> 32 word" where
  "padBuckets b =
     (if b = 0 then 16
      else if OnesCount32 b \<noteq> 1
      then (let exponent = 32 - LeadingZeros32 b;
                exponent = (if exponent = 32 then 31 else exponent)
            in push_bit exponent 1)
      else b)"

definition padInMemorySettings :: "InMemorySettings \<Rightarrow> InMemorySettings" where
  "padInMemorySettings st =
     (let st = (if MaxSize st \<le> 0 then st\<lparr>MaxSize := 5000\<rparr> else st);
          st = st\<lparr>Buckets := padBuckets (Buckets st)\<rparr>;
          st = (if ItemsToPrune st = 0 then st\<lparr>ItemsToPrune := of_int (MaxSize st div 10)\<rparr> else st);
          st = (if DeleteBuffer st = 0 then st\<lparr>DeleteBuffer := 1024\<rparr> else st);
          st = (if PromoteBuffer st = 0 then st\<lparr>PromoteBuffer := 1024\<rparr> else st)
      in if GetsPerPromote st \<le> 0 then st\<lparr>GetsPerPromote := 3\<rparr> else st)"

definition NewInMemoryKvStoreWithInterfaces :: "'c \<Rightarrow> int \<Rightarrow> int \<Rightarrow> 'c memStore" where
  "NewInMemoryKvStoreWithInterfaces emptyCache settingsTtl batchSize =
     \<lparr>mem_cache = NewWithConfiguration emptyCache (if settingsTtl = 0 then 3600 * nanosPerSecond else settingsTtl) [],
      cacheSize = 0, BatchSize = batchSize\<rparr>"

definition EstimateSize :: "'c memStore \<Rightarrow> int" where
  "EstimateSize s = cacheSize s"

section \<open>The empty store (empty.go)\<close>

definition empty_GetBatch ::
  "unit \<Rightarrow> gokey list dyn \<Rightarrow> 'v rmap dyn \<Rightarrow> unit \<times> 'v rmap dyn \<times> gokey list \<times> error" where
  "empty_GetBatch s keys values =
     (case InterfaceToInterfaceSlice keys of
        Inl err \<Rightarrow> (s, values, [], Some (errorf_w ''could not convert keys to []any: '' err ''''))
      | Inr missing \<Rightarrow> (s, values, missing, None))"

definition emptyOps :: "(unit, 'v) kvops" where
  "emptyOps = \<lparr>op_Contains = \<lambda>s key. (s, False, None), op_Get = \<lambda>s key value. (s, value, False, None),
     op_GetBatch = empty_GetBatch, op_Put = \<lambda>s key value. (s, None), op_PutBatch = \<lambda>s values. (s, None),
     op_Delete = \<lambda>s key. (s, None), op_DeleteBatch = \<lambda>s keys. (s, None)\<rparr>"

section \<open>The metric store (metric.go)\<close>

text \<open>The four counters are the sums of the data points written.\<close>

record 's metricStore =
  inner :: 's
  m_reads :: int
  m_hits :: int
  m_writes :: int
  m_deletes :: int

definition metric_Contains :: "('s, 'v) kvops \<Rightarrow> 's metricStore \<Rightarrow> gokey \<Rightarrow> 's metricStore \<times> bool \<times> error" where
  "metric_Contains ops s key =
     (let s = s\<lparr>m_reads := m_reads s + 1\<rparr> in
      case op_Contains ops (inner s) key of (i, found, err) \<Rightarrow>
        (let s = s\<lparr>inner := i\<rparr> in
         (if found \<and> err = None then s\<lparr>m_hits := m_hits s + 1\<rparr> else s, found, err)))"

definition metric_Get ::
  "('s, 'v) kvops \<Rightarrow> 's metricStore \<Rightarrow> gokey \<Rightarrow> 'v \<Rightarrow> 's metricStore \<times> 'v \<times> bool \<times> error" where
  "metric_Get ops s key value =
     (let s = s\<lparr>m_reads := m_reads s + 1\<rparr> in
      case op_Get ops (inner s) key value of (i, value, found, err) \<Rightarrow>
        (let s = s\<lparr>inner := i\<rparr> in
         (if found \<and> err = None then s\<lparr>m_hits := m_hits s + 1\<rparr> else s, value, found, err)))"

definition metric_GetBatch ::
  "('s, 'v) kvops \<Rightarrow> 's metricStore \<Rightarrow> gokey list dyn \<Rightarrow> 'v rmap dyn \<Rightarrow>
     's metricStore \<times> 'v rmap dyn \<times> gokey list \<times> error" where
  "metric_GetBatch ops s keys result =
     (case InterfaceToInterfaceSlice keys of
        Inl err \<Rightarrow> (s, result, [], Some (errorf_w ''can not morph keys to slice of interfaces: '' err ''''))
      | Inr keySlice \<Rightarrow>
          (let s = s\<lparr>m_reads := m_reads s + int (length keySlice)\<rparr> in
           case op_GetBatch ops (inner s) (Val keySlice) result of (i, result, missing, err) \<Rightarrow>
             (let s = s\<lparr>inner := i\<rparr> in
              (if err = None then s\<lparr>m_hits := m_hits s + (int (length keySlice) - int (length missing))\<rparr> else s,
               result, missing, err))))"

text \<open>\<open>Put\<close> and \<open>PutBatch\<close> return nil after calling the inner store.\<close>

definition metric_Put :: "('s, 'v) kvops \<Rightarrow> 's metricStore \<Rightarrow> gokey \<Rightarrow> 'v \<Rightarrow> 's metricStore \<times> error" where
  "metric_Put ops s key value =
     (case op_Put ops (inner s) key value of (i, err) \<Rightarrow>
        (let s = s\<lparr>inner := i\<rparr> in (if err = None then s\<lparr>m_writes := m_writes s + 1\<rparr> else s, None)))"

definition metric_PutBatch :: "('s, 'v) kvops \<Rightarrow> 's metricStore \<Rightarrow> 'v rmap dyn \<Rightarrow> 's metricStore \<times> error" where
  "metric_PutBatch ops s values =
     (case InterfaceToMapInterfaceInterface values of
        Inl err \<Rightarrow> (s, Some (errorf_w ''could not convert values to map[any]any: '' err ''''))
      | Inr mii \<Rightarrow>
          (case op_PutBatch ops (inner s) (Val \<lparr>keyType = ''interface {}'', mapValue = mii\<rparr>) of (i, err) \<Rightarrow>
             (let s = s\<lparr>inner := i\<rparr> in
              (if err = None then s\<lparr>m_writes := m_writes s + int (length mii)\<rparr> else s, None))))"

definition metric_Delete :: "('s, 'v) kvops \<Rightarrow> 's metricStore \<Rightarrow> gokey \<Rightarrow> 's metricStore \<times> error" where
  "metric_Delete ops s key =
     (case op_Delete ops (inner s) key of (i, err) \<Rightarrow>
        (let s = s\<lparr>inner := i\<rparr> in (if err = None then s\<lparr>m_deletes := m_deletes s + 1\<rparr> else s, err)))"

definition metric_DeleteBatch :: "('s, 'v) kvops \<Rightarrow> 's metricStore \<Rightarrow> gokey list dyn \<Rightarrow> 's metricStore \<times> error" where
  "metric_DeleteBatch ops s keys =
     (case InterfaceToInterfaceSlice keys of
        Inl err \<Rightarrow> (s, Some (errorf_w ''could not convert keys to []any: '' err ''''))
      | Inr si \<Rightarrow>
          (case op_DeleteBatch ops (inner s) (Val si) of (i, err) \<Rightarrow>
             (let s = s\<lparr>inner := i\<rparr> in
              (if err = None then s\<lparr>m_deletes := m_deletes s + int (length si)\<rparr> else s, err))))"

definition metricOps :: "('s, 'v) kvops \<Rightarrow> ('s metricStore, 'v) kvops" where
  "metricOps ops = \<lparr>op_Contains = metric_Contains ops, op_Get = metric_Get ops,
     op_GetBatch = metric_GetBatch ops, op_Put = metric_Put ops, op_PutBatch = metric_PutBatch ops,
     op_Delete = metric_Delete ops, op_DeleteBatch = metric_DeleteBatch ops\<rparr>"

section \<open>Closed forms of the loops\<close>

lemma CastKeyToString_str [simp]: "ts (KStr x) = Inr x \<Longrightarrow> CastKeyToString ts (KStr x) = Inr x"
  by (simp add: CastKeyToString_def)

lemma uniqLoop_str:
  "(\<And>x. ts (KStr x) = Inr x) \<Longrightarrow>
     uniqLoop ts (map KStr xs) seen acc = Inr (acc @ map KStr (firsts id (set seen) xs))"
  by (induction xs arbitrary: seen acc) auto

lemma concat_keyChunks: "0 < n \<Longrightarrow> concat (keyChunks ks n) = ks"
  by (induction ks n rule: keyChunks.induct) (simp_all add: append_take_drop_id del: take.simps drop.simps)

lemma keyChunks_length: "chunk \<in> set (keyChunks ks n) \<Longrightarrow> chunk \<noteq> [] \<and> length chunk \<le> n"
proof (induction ks n rule: keyChunks.induct)
  case (2 k ks n)
  then show ?case by (cases n) (auto split: if_splits)
qed simp

text \<open>What reading the keys \<open>xs\<close> of a store with content \<open>m\<close> adds to a result map.\<close>

definition readInto :: "(string \<rightharpoonup> 'v) \<Rightarrow> string list \<Rightarrow> (gokey, 'v) gomap \<Rightarrow> (gokey, 'v) gomap" where
  "readInto m xs r = fold (\<lambda>x r. case m x of Some v \<Rightarrow> gm_set r (KStr x) v | None \<Rightarrow> r) xs r"

lemma readInto_get:
  "gm_get (readInto m xs r) k =
     (case k of KStr x \<Rightarrow> if x \<in> set xs \<and> m x \<noteq> None then m x else gm_get r k | _ \<Rightarrow> gm_get r k)"
  unfolding readInto_def
  by (induction xs arbitrary: r) (auto split: gokey.splits option.splits)

lemma readInto_append: "readInto m (xs @ ys) r = readInto m ys (readInto m xs r)"
  by (simp add: readInto_def)

lemma mem_getChunk_str:
  assumes "\<And>x. ts (KStr x) = Inr x" and "ccache_ok cc live" and "keyType rm = ''string''"
  shows "mem_getChunk ts cc zero s (map KStr xs) rm missing =
    (rm\<lparr>mapValue := readInto (clive live (mem_cache s)) xs (mapValue rm)\<rparr>,
     Inr (missing @ map KStr (filter (\<lambda>x. clive live (mem_cache s) x = None) xs)))"
  using assms(3)
proof (induction xs arbitrary: rm missing)
  case (Cons x xs)
  then show ?case
    by (cases "clive live (mem_cache s) x")
      (simp_all add: assms(1) mem_Get_def cache_Get_live [OF assms(2)] Map_Set_def readInto_def)
qed (simp add: readInto_def)

lemma chunkLoop_mem:
  assumes "\<And>x. ts (KStr x) = Inr x" and "ccache_ok cc live" and "keyType rm = ''string''"
  shows "chunkLoop (\<lambda>s rm ks. (s, mem_getChunk ts cc zero s ks rm [])) (map (map KStr) xss) s rm missing =
    (s, rm\<lparr>mapValue := readInto (clive live (mem_cache s)) (concat xss) (mapValue rm)\<rparr>,
     Inr (missing @ map KStr (filter (\<lambda>x. clive live (mem_cache s) x = None) (concat xss))))"
  using assms(3)
proof (induction xss arbitrary: rm missing)
  case (Cons xs xss)
  then show ?case by (simp add: mem_getChunk_str [OF assms(1,2)] readInto_append)
qed (simp add: readInto_def)

lemma keyChunks_map: "keyChunks (map f xs) n = map (map f) (keyChunks xs n)"
proof (induction xs n rule: keyChunks.induct)
  case (2 k ks n)
  then show ?case by (simp add: take_map [of n f "k # ks", simplified] drop_map [of n f "k # ks", simplified])
qed simp

lemma mem_GetBatch_str:
  assumes ts: "\<And>x. ts (KStr x) = Inr x" and "ccache_ok cc live" and "keyType rm = ''string''"
  shows "mem_GetBatch ts cc zero s (Val (map KStr xs)) (Val rm) =
    (s, Val (rm\<lparr>mapValue := readInto (clive live (mem_cache s)) (firsts id {} xs) (mapValue rm)\<rparr>),
     map KStr (filter (\<lambda>x. clive live (mem_cache s) x = None) (firsts id {} xs)), None)"
proof -
  let ?n = "nat (if BatchSize s < 1 then 1 else BatchSize s)"
  have "0 < ?n" by simp
  then have "concat (keyChunks (firsts id {} xs) ?n) = firsts id {} xs" by (rule concat_keyChunks)
  then show ?thesis
    using chunkLoop_mem [OF ts assms(2,3), of zero "keyChunks (firsts id {} xs) ?n" s "[]"]
    by (simp add: mem_GetBatch_def getBatch_def InterfaceToInterfaceSlice_def UniqKeys_def uniqLoop_str [OF ts]
        MapOf_def Let_def keyChunks_map del: nat_eq_iff)
qed

section \<open>The contract of a store\<close>

text \<open>
  A read of the keys \<open>xs\<close> from a content \<open>m\<close> changes a result map only by entries of \<open>m\<close> at
  those keys; a complete one enters all of them.
\<close>

definition reads :: "(string \<rightharpoonup> 'v) \<Rightarrow> string set \<Rightarrow> 'v rmap \<Rightarrow> 'v rmap \<Rightarrow> bool" where
  "reads m xs rm rm' \<longleftrightarrow> keyType rm' = keyType rm \<and>
     (\<forall>k. gm_get (mapValue rm') k = gm_get (mapValue rm) k \<or>
        (\<exists>x. k = KStr x \<and> x \<in> xs \<and> m x \<noteq> None \<and> gm_get (mapValue rm') k = m x))"

definition reads_all :: "(string \<rightharpoonup> 'v) \<Rightarrow> string set \<Rightarrow> 'v rmap \<Rightarrow> bool" where
  "reads_all m xs rm \<longleftrightarrow> (\<forall>x \<in> xs. m x \<noteq> None \<longrightarrow> gm_get (mapValue rm) (KStr x) = m x)"

lemma reads_refl [simp]: "reads m xs rm rm"
  by (simp add: reads_def)

lemma reads_keep:
  "reads m xs rm rm' \<Longrightarrow> gm_get (mapValue rm') k = gm_get (mapValue rm) k \<or>
     (\<exists>x. k = KStr x \<and> x \<in> xs \<and> m x \<noteq> None \<and> gm_get (mapValue rm') k = m x)"
  by (simp add: reads_def)

lemma reads_trans:
  assumes "reads m xs rm rm'" and "reads m ys rm' rm''" and "ys \<subseteq> xs"
  shows "reads m xs rm rm''"
  unfolding reads_def
proof (intro conjI allI)
  show "keyType rm'' = keyType rm" using assms(1,2) by (simp add: reads_def)
  fix k
  show "gm_get (mapValue rm'') k = gm_get (mapValue rm) k \<or>
      (\<exists>x. k = KStr x \<and> x \<in> xs \<and> m x \<noteq> None \<and> gm_get (mapValue rm'') k = m x)"
    using reads_keep [OF assms(1), of k] reads_keep [OF assms(2), of k] assms(3) by auto
qed

lemma reads_mono: "reads m xs rm rm' \<Longrightarrow> m \<subseteq>\<^sub>m B \<Longrightarrow> reads B xs rm rm'"
  unfolding reads_def map_le_def by (metis domIff)

lemma reads_all_keep:
  assumes "reads_all m xs rm'" and "reads m ys rm' rm''"
  shows "reads_all m xs rm''"
  unfolding reads_all_def
proof (intro ballI impI)
  fix x
  assume "x \<in> xs" "m x \<noteq> None"
  then show "gm_get (mapValue rm'') (KStr x) = m x"
    using assms(1) reads_keep [OF assms(2), of "KStr x"] by (auto simp: reads_all_def)
qed

text \<open>
  The contract of the interface, for the content \<open>live\<close> of a store. A store may lose entries
  when it is written to (a cache evicts); one that is \<open>exact\<close> does not. An operation that
  fails finds nothing and leaves the content as it was; a failing batch may have been carried
  out in part.
\<close>

locale kv_store =
  fixes ts :: toStringE and ops :: "('s, 'v) kvops" and live :: "'s \<Rightarrow> string \<rightharpoonup> 'v" and exact :: "'s \<Rightarrow> bool"
  assumes ts_str: "ts (KStr x) = Inr x"
    and contains_law: "op_Contains ops s key = (s', found, err) \<Longrightarrow>
      live s' = live s \<and> exact s' = exact s \<and> (err \<noteq> None \<longrightarrow> \<not> found) \<and>
      (err = None \<longrightarrow> CastKeyToString ts key = Inr x \<longrightarrow> found = (live s x \<noteq> None))"
    and get_law: "op_Get ops s key v = (s', v', found, err) \<Longrightarrow>
      live s' = live s \<and> exact s' = exact s \<and> (err \<noteq> None \<longrightarrow> \<not> found) \<and>
      (err = None \<longrightarrow> CastKeyToString ts key = Inr x \<longrightarrow> (if found then live s x = Some v' else live s x = None \<and> v' = v))"
    and put_law: "op_Put ops s key v = (s', err) \<Longrightarrow> CastKeyToString ts key = Inr x \<Longrightarrow>
      exact s' = exact s \<and> (err = None \<longrightarrow> live s' \<subseteq>\<^sub>m (live s)(x \<mapsto> v)) \<and>
      (err = None \<and> exact s \<longrightarrow> live s' = (live s)(x \<mapsto> v)) \<and> (err \<noteq> None \<longrightarrow> live s' = live s)"
    and delete_law: "op_Delete ops s key = (s', err) \<Longrightarrow> CastKeyToString ts key = Inr x \<Longrightarrow>
      exact s' = exact s \<and> (err = None \<longrightarrow> live s' \<subseteq>\<^sub>m (live s)(x := None)) \<and>
      (err = None \<and> exact s \<longrightarrow> live s' = (live s)(x := None)) \<and> (err \<noteq> None \<longrightarrow> live s' = live s)"
    and getBatch_law: "op_GetBatch ops s (Val (map KStr xs)) (Val rm) = (s', rd, missing, err) \<Longrightarrow> keyType rm = ''string'' \<Longrightarrow>
      live s' = live s \<and> exact s' = exact s \<and>
      (\<exists>rm'. rd = Val rm' \<and> reads (live s) (set xs) rm rm' \<and>
         (err = None \<longrightarrow> set missing = KStr ` {x \<in> set xs. live s x = None} \<and> reads_all (live s) (set xs) rm'))"
    and putBatch_law: "op_PutBatch ops s (Val r) = (s', err) \<Longrightarrow> gm_wf (mapValue r) \<Longrightarrow>
      fst ` set (mapValue r) \<subseteq> range KStr \<Longrightarrow>
      exact s' = exact s \<and>
      (\<forall>x v. live s' x = Some v \<longrightarrow> live s x = Some v \<or> gm_get (mapValue r) (KStr x) = Some v)"

text \<open>The empty store meets it with the empty content.\<close>

interpretation emptyStore: kv_store "\<lambda>key. Inr (key_text key)" emptyOps "\<lambda>s. Map.empty" "\<lambda>s. False"
  by unfold_locales (auto simp: emptyOps_def empty_GetBatch_def InterfaceToInterfaceSlice_def map_le_def reads_all_def)

text \<open>The in-memory store meets it, exactly so if its cache does not evict and entries can live.\<close>

definition mem_exact :: "bool \<Rightarrow> 'c memStore \<Rightarrow> bool" where
  "mem_exact noEvict s \<longleftrightarrow> noEvict \<and> 0 < ttl (mem_cache s)"

abbreviation mem_live :: "('c \<Rightarrow> string \<rightharpoonup> 'v) \<Rightarrow> 'c memStore \<Rightarrow> string \<rightharpoonup> 'v" where
  "mem_live live s \<equiv> clive live (mem_cache s)"

lemma mem_Put_ttl [simp]: "ttl (mem_cache (fst (mem_Put ts cc s k v))) = ttl (mem_cache s)"
  by (simp add: mem_Put_def split: sum.split)

lemma mem_Put_live:
  assumes "ccache_ok cc live" and "CastKeyToString ts key = Inr x"
  shows "mem_live live (fst (mem_Put ts cc s key v)) \<subseteq>\<^sub>m (mem_live live s)(x \<mapsto> v)"
  using cache_Set_live [OF assms(1)] assms(2) by (simp add: mem_Put_def)

lemma mem_putAll_law:
  assumes "ccache_ok cc live" and "\<And>x. ts (KStr x) = Inr x"
    and "mem_putAll ts cc s m = (s', err)" and "gm_wf m" and "fst ` set m \<subseteq> range KStr"
  shows "ttl (mem_cache s') = ttl (mem_cache s) \<and>
    (\<forall>x v. mem_live live s' x = Some v \<longrightarrow> mem_live live s x = Some v \<or> gm_get m (KStr x) = Some v)"
  using assms(3-5)
proof (induction m arbitrary: s)
  case (Cons p m)
  obtain y v where p: "p = (KStr y, v)" using Cons.prems(3) by (cases p) auto
  let ?s = "fst (mem_Put ts cc s (KStr y) v)"
  have put: "mem_live live ?s \<subseteq>\<^sub>m (mem_live live s)(y \<mapsto> v)"
    using mem_Put_live [OF assms(1)] assms(2) by (metis CastKeyToString_str)
  have "mem_putAll ts cc ?s m = (s', err)"
    using Cons.prems(1) by (simp add: p mem_Put_def assms(2))
  then have IH: "ttl (mem_cache s') = ttl (mem_cache ?s)"
    "\<forall>x v. mem_live live s' x = Some v \<longrightarrow> mem_live live ?s x = Some v \<or> gm_get m (KStr x) = Some v"
    using Cons.IH Cons.prems(2,3) by (simp_all add: p)
  have fresh: "gm_get m (KStr y) = None"
    using Cons.prems(2) by (simp add: p map_of_eq_None_iff)
  have "mem_live live s x = Some w \<or> gm_get (p # m) (KStr x) = Some w" if "mem_live live s' x = Some w" for x w
  proof (cases "x = y")
    case True
    with IH(2) [rule_format, OF that] fresh have "mem_live live ?s x = Some w" by simp
    with put True show ?thesis by (force simp: map_le_def p dom_def)
  next
    case False
    with IH(2) [rule_format, OF that] put show ?thesis by (force simp: map_le_def p dom_def)
  qed
  with IH(1) show ?case by simp
qed simp

lemma mem_kv_store:
  assumes ok: "ccache_ok cc live" and ts: "\<And>x. ts (KStr x) = Inr x" and ex: "b \<Longrightarrow> ccache_exact cc live"
  shows "kv_store ts (memOps ts cc zero) (mem_live live) (mem_exact b)"
proof
  show "ts (KStr x) = Inr x" for x by (rule ts)
next
  fix s key s' found err x
  assume "op_Contains (memOps ts cc zero) s key = (s', found, err)"
  then show "mem_live live s' = mem_live live s \<and> mem_exact b s' = mem_exact b s \<and> (err \<noteq> None \<longrightarrow> \<not> found) \<and>
    (err = None \<longrightarrow> CastKeyToString ts key = Inr x \<longrightarrow> found = (mem_live live s x \<noteq> None))"
    by (auto simp: memOps_def mem_Contains_def cache_Contains_live [OF ok] split: sum.splits)
next
  fix s key v s' v' found err x
  assume "op_Get (memOps ts cc zero) s key v = (s', v', found, err)"
  then show "mem_live live s' = mem_live live s \<and> mem_exact b s' = mem_exact b s \<and> (err \<noteq> None \<longrightarrow> \<not> found) \<and>
    (err = None \<longrightarrow> CastKeyToString ts key = Inr x \<longrightarrow>
      (if found then mem_live live s x = Some v' else mem_live live s x = None \<and> v' = v))"
    by (auto simp: memOps_def mem_Get_def cache_Get_live [OF ok] split: sum.splits option.splits)
next
  fix s key v s' err x
  assume "op_Put (memOps ts cc zero) s key v = (s', err)" and key: "CastKeyToString ts key = Inr x"
  then have "s' = s\<lparr>mem_cache := cache_Set cc (mem_cache s) x v, cacheSize := cacheSize s + 1\<rparr>" "err = None"
    by (auto simp: memOps_def mem_Put_def)
  moreover have "b \<Longrightarrow> 0 < ttl c \<Longrightarrow> clive live (cache_Set cc c x v) = (clive live c)(x \<mapsto> v)" for c
    using ex by (simp add: ccache_exact_def cache_Set_def)
  ultimately show "mem_exact b s' = mem_exact b s \<and> (err = None \<longrightarrow> mem_live live s' \<subseteq>\<^sub>m (mem_live live s)(x \<mapsto> v)) \<and>
      (err = None \<and> mem_exact b s \<longrightarrow> mem_live live s' = (mem_live live s)(x \<mapsto> v)) \<and>
      (err \<noteq> None \<longrightarrow> mem_live live s' = mem_live live s)"
    using cache_Set_live [OF ok] by (simp add: mem_exact_def)
next
  fix s key s' err x
  assume "op_Delete (memOps ts cc zero) s key = (s', err)" and key: "CastKeyToString ts key = Inr x"
  then have "s' = s\<lparr>mem_cache := fst (cache_Expire cc (mem_cache s) x)\<rparr>" "err = None"
    by (auto simp: memOps_def mem_Delete_def)
  then show "mem_exact b s' = mem_exact b s \<and> (err = None \<longrightarrow> mem_live live s' \<subseteq>\<^sub>m (mem_live live s)(x := None)) \<and>
      (err = None \<and> mem_exact b s \<longrightarrow> mem_live live s' = (mem_live live s)(x := None)) \<and>
      (err \<noteq> None \<longrightarrow> mem_live live s' = mem_live live s)"
    using cache_Expire_live [OF ok] cache_Expire_exact ex by (auto simp: mem_exact_def)
next
  fix s xs rm s' rd missing err
  assume "op_GetBatch (memOps ts cc zero) s (Val (map KStr xs)) (Val rm) = (s', rd, missing, err)"
    and "keyType rm = ''string''"
  then have "s' = s" "rd = Val (rm\<lparr>mapValue := readInto (mem_live live s) (firsts id {} xs) (mapValue rm)\<rparr>)"
    "missing = map KStr (filter (\<lambda>x. mem_live live s x = None) (firsts id {} xs))"
    "keyType rm = ''string''"
    by (auto simp: memOps_def mem_GetBatch_str [OF ts ok])
  moreover have "set (firsts id {} xs) = set xs" using firsts_keys [of id "{}" xs] by simp
  ultimately show "mem_live live s' = mem_live live s \<and> mem_exact b s' = mem_exact b s \<and>
      (\<exists>rm'. rd = Val rm' \<and> reads (mem_live live s) (set xs) rm rm' \<and>
         (err = None \<longrightarrow> set missing = KStr ` {x \<in> set xs. mem_live live s x = None} \<and>
            reads_all (mem_live live s) (set xs) rm'))"
    by (auto simp: reads_def reads_all_def readInto_get split: gokey.splits if_splits)
next
  fix s r s' err
  assume "op_PutBatch (memOps ts cc zero) s (Val r) = (s', err)" and "gm_wf (mapValue r)"
    and "fst ` set (mapValue r) \<subseteq> range KStr"
  then show "mem_exact b s' = mem_exact b s \<and>
      (\<forall>x v. mem_live live s' x = Some v \<longrightarrow> mem_live live s x = Some v \<or> gm_get (mapValue r) (KStr x) = Some v)"
    using mem_putAll_law [OF ok ts, of s "mapValue r"]
    by (simp add: memOps_def mem_PutBatch_def InterfaceToMapInterfaceInterface_def mem_exact_def)
qed

end
