(* ===== verification/KvChain.thy ===== *)
theory KvChain
  imports KvStore
begin

text \<open>
  The chain of key-value stores, \<open>pkg/kvstore/chain.go\<close>: lower-level caches in front of a last
  store, with a cache of the keys known to be missing. All stores of the chain share one
  method table \<open>ops\<close> on a state type that may be a sum of store types; the missing cache has
  its own table \<open>mops\<close>. Warnings that are only logged leave no trace.
\<close>

section \<open>State\<close>

record ('s, 'm) chainKvStore =
  chain :: "'s list"
  missingCache :: 'm

definition NewChainKvStoreWithInterfaces :: "'m \<Rightarrow> ('s, 'm) chainKvStore" where
  "NewChainKvStoreWithInterfaces m = \<lparr>chain = [], missingCache = m\<rparr>"

definition AddStore :: "('s, 'm) chainKvStore \<Rightarrow> 's \<Rightarrow> ('s, 'm) chainKvStore" where
  "AddStore s store = s\<lparr>chain := chain s @ [store]\<rparr>"

definition Add :: "('s, 'm) chainKvStore \<Rightarrow> goerr + 's \<Rightarrow> ('s, 'm) chainKvStore \<times> error" where
  "Add s made =
     (case made of
        Inl err \<Rightarrow> (s, Some (errorf_w ''can not create store: '' err ''''))
      | Inr store \<Rightarrow> (AddStore s store, None))"

section \<open>Get and Contains\<close>

text \<open>
  The loop over the chain, to the new states, the value, whether and where (as an offset) the
  key was found, and the error of the last store.
\<close>

fun chainGetLoop ::
  "('s, 'v) kvops \<Rightarrow> gokey \<Rightarrow> 's list \<Rightarrow> 'v \<Rightarrow> 's list \<times> 'v \<times> bool \<times> nat \<times> error" where
  "chainGetLoop ops key [] value = ([], value, False, 0, None)"
| "chainGetLoop ops key (s # ss) value =
     (case op_Get ops s key value of (s', value', exists, err) \<Rightarrow>
        if err \<noteq> None \<and> ss = []
        then (s' # ss, value', False, 0,
          Some (errorf_w (''could not get '' @ key_text key @ '' from kvstore: '') (the err) ''''))
        else if exists then (s' # ss, value', True, 0, None)
        else (case chainGetLoop ops key ss value' of
                (ss', value'', ex, i, e) \<Rightarrow> (s' # ss', value'', ex, Suc i, e)))"

text \<open>\<open>for i := foundInIndex - 1; i >= 0; i--\<close>\<close>

fun propagate :: "('s \<Rightarrow> 's) \<Rightarrow> nat \<Rightarrow> 's list \<Rightarrow> 's list" where
  "propagate f 0 ss = ss"
| "propagate f (Suc i) ss = propagate f i (ss[i := f (ss ! i)])"

definition chain_Get ::
  "('s, 'v) kvops \<Rightarrow> ('m, 'v) kvops \<Rightarrow> 'v \<Rightarrow> ('s, 'm) chainKvStore \<Rightarrow> gokey \<Rightarrow> 'v \<Rightarrow>
     ('s, 'm) chainKvStore \<times> 'v \<times> bool \<times> error" where
  "chain_Get ops mops zero s key value =
     (case op_Contains mops (missingCache s) key of (m, exists, err) \<Rightarrow>
        let s = s\<lparr>missingCache := m\<rparr> in
        if exists then (s, value, False, None)
        else case chainGetLoop ops key (chain s) value of (ss, value, exists, foundInIndex, err) \<Rightarrow>
          let s = s\<lparr>chain := ss\<rparr> in
          if err \<noteq> None then (s, value, False, err)
          else if \<not> exists
          then (s\<lparr>missingCache := fst (op_Put mops (missingCache s) key zero)\<rparr>, value, False, None)
          else (s\<lparr>chain := propagate (\<lambda>st. fst (op_Put ops st key value)) foundInIndex ss\<rparr>, value, True, None))"

definition chain_Contains ::
  "('s, 'v) kvops \<Rightarrow> ('m, 'v) kvops \<Rightarrow> 'v \<Rightarrow> ('s, 'm) chainKvStore \<Rightarrow> gokey \<Rightarrow>
     ('s, 'm) chainKvStore \<times> bool \<times> error" where
  "chain_Contains ops mops zero s key =
     (case chain_Get ops mops zero s key zero of (s', _, found, err) \<Rightarrow> (s', found, err))"

section \<open>GetBatch\<close>

definition getKeysFromMissingCache ::
  "('m, 'v) kvops \<Rightarrow> 'm \<Rightarrow> gokey list \<Rightarrow> 'm \<times> gokey list \<times> gokey list" where
  "getKeysFromMissingCache mops m todo =
     (case op_GetBatch mops m (Val todo) (Val \<lparr>keyType = ''string'', mapValue = []\<rparr>) of
        (m', cachedMissingMap, remainingTodo, err) \<Rightarrow>
          (m', remainingTodo,
           (case cachedMissingMap of Val r \<Rightarrow> map fst (mapValue r) | OtherType _ \<Rightarrow> [])))"

text \<open>\<open>refill\<close> is the list of the entries for the stores visited.\<close>

fun getFromChain ::
  "('s, 'v) kvops \<Rightarrow> 's list \<Rightarrow> gokey list \<Rightarrow> 'v rmap dyn \<Rightarrow>
     's list \<times> 'v rmap dyn \<times> gokey list \<times> gokey list list \<times> nat \<times> error" where
  "getFromChain ops [] todo values = ([], values, todo, [], 0, None)"
| "getFromChain ops (s # ss) todo values =
     (case op_GetBatch ops s (Val todo) values of (s', values', missing, err) \<Rightarrow>
        if err \<noteq> None \<and> ss = []
        then (s' # ss, values', [], [], 0, Some (errorf_w ''could not get batch from kvstore: '' (the err) ''''))
        else let refill = (if err \<noteq> None then todo else missing) in
          if refill = [] then (s' # ss, values', [], [refill], 0, None)
          else (case getFromChain ops ss refill values' of
                  (ss', values'', rem, refills, i, e) \<Rightarrow> (s' # ss', values'', rem, refill # refills, Suc i, e)))"

definition missingInElement :: "(gokey, 'v) gomap \<Rightarrow> gokey list \<Rightarrow> (gokey, 'v) gomap" where
  "missingInElement mii refill =
     fold (\<lambda>key m. case gm_get mii key of Some v \<Rightarrow> gm_set m key v | None \<Rightarrow> m) refill []"

definition refillElement :: "('s, 'v) kvops \<Rightarrow> (gokey, 'v) gomap \<Rightarrow> gokey list \<Rightarrow> 's \<Rightarrow> 's" where
  "refillElement ops mii refill st =
     (if refill = [] then st
      else let m = missingInElement mii refill in
        if m = [] then st else fst (op_PutBatch ops st (Val \<lparr>keyType = ''interface {}'', mapValue = m\<rparr>)))"

fun propagateBatch :: "('s, 'v) kvops \<Rightarrow> (gokey, 'v) gomap \<Rightarrow> gokey list list \<Rightarrow> nat \<Rightarrow> 's list \<Rightarrow> 's list" where
  "propagateBatch ops mii refill 0 ss = ss"
| "propagateBatch ops mii refill (Suc i) ss =
     propagateBatch ops mii refill i (ss[i := refillElement ops mii (refill ! i) (ss ! i)])"

definition propagateToLowerCacheLevels ::
  "('s, 'v) kvops \<Rightarrow> 's list \<Rightarrow> 'v rmap dyn \<Rightarrow> gokey list list \<Rightarrow> nat \<Rightarrow> goerr + 's list" where
  "propagateToLowerCacheLevels ops ss values refill foundInIndex =
     (case InterfaceToMapInterfaceInterface values of
        Inl err \<Rightarrow> Inl (errorf_w ''can not cast result values to map[any]any: '' err '''')
      | Inr mii \<Rightarrow> Inr (propagateBatch ops mii refill foundInIndex ss))"

definition storeMissingKeys :: "('m, 'v) kvops \<Rightarrow> 'v \<Rightarrow> 'm \<Rightarrow> gokey list \<Rightarrow> 'm" where
  "storeMissingKeys mops zero m todo =
     (if length todo > 0
      then fst (op_PutBatch mops m
        (Val \<lparr>keyType = ''interface {}'', mapValue = fold (\<lambda>key mv. gm_set mv key zero) todo []\<rparr>))
      else m)"

definition chain_GetBatch ::
  "('s, 'v) kvops \<Rightarrow> ('m, 'v) kvops \<Rightarrow> 'v \<Rightarrow> ('s, 'm) chainKvStore \<Rightarrow> gokey list dyn \<Rightarrow> 'v rmap dyn \<Rightarrow>
     ('s, 'm) chainKvStore \<times> 'v rmap dyn \<times> gokey list \<times> error" where
  "chain_GetBatch ops mops zero s keys values =
     (case InterfaceToInterfaceSlice keys of
        Inl err \<Rightarrow> (s, values, [], Some (errorf_w ''can not morph keys to slice of interfaces: '' err ''''))
      | Inr todo \<Rightarrow>
     (case getKeysFromMissingCache mops (missingCache s) todo of (m, todo, cachedMissing) \<Rightarrow>
        let s = s\<lparr>missingCache := m\<rparr> in
        if length todo = 0 then (s, values, cachedMissing, None)
        else case getFromChain ops (chain s) todo values of (ss, values, todo, refill, foundInIndex, err) \<Rightarrow>
          let s = s\<lparr>chain := ss\<rparr> in
          if err \<noteq> None then (s, values, [], err)
          else case propagateToLowerCacheLevels ops ss values refill foundInIndex of
            Inl err \<Rightarrow> (s, values, [], Some err)
          | Inr ss \<Rightarrow>
              (s\<lparr>chain := ss, missingCache := storeMissingKeys mops zero (missingCache s) todo\<rparr>,
               values, todo @ cachedMissing, None)))"

section \<open>Writes\<close>

text \<open>Write to every store; only a failure of the last one is an error.\<close>

fun writeAll :: "('s \<Rightarrow> 's \<times> error) \<Rightarrow> string \<Rightarrow> 's list \<Rightarrow> 's list \<times> error" where
  "writeAll f msg [] = ([], None)"
| "writeAll f msg (s # ss) =
     (case f s of (s', err) \<Rightarrow>
        if err \<noteq> None \<and> ss = [] then (s' # ss, Some (errorf_w msg (the err) ''''))
        else (case writeAll f msg ss of (ss', e) \<Rightarrow> (s' # ss', e)))"

definition chain_Put ::
  "('s, 'v) kvops \<Rightarrow> ('m, 'v) kvops \<Rightarrow> ('s, 'm) chainKvStore \<Rightarrow> gokey \<Rightarrow> 'v \<Rightarrow> ('s, 'm) chainKvStore \<times> error" where
  "chain_Put ops mops s key value =
     (case writeAll (\<lambda>st. op_Put ops st key value) (''could not put '' @ key_text key @ '' to kvstore: '') (chain s) of
        (ss, Some err) \<Rightarrow> (s\<lparr>chain := ss\<rparr>, Some err)
      | (ss, None) \<Rightarrow> (s\<lparr>chain := ss, missingCache := fst (op_Delete mops (missingCache s) key)\<rparr>, None))"

definition chain_PutBatch ::
  "('s, 'v) kvops \<Rightarrow> ('m, 'v) kvops \<Rightarrow> ('s, 'm) chainKvStore \<Rightarrow> 'v rmap dyn \<Rightarrow> ('s, 'm) chainKvStore \<times> error" where
  "chain_PutBatch ops mops s values =
     (case InterfaceToMapInterfaceInterface values of
        Inl err \<Rightarrow> (s, Some (errorf_w ''can not cast values to map[any]any: '' err ''''))
      | Inr mii \<Rightarrow>
     (case writeAll (\<lambda>st. op_PutBatch ops st (Val \<lparr>keyType = ''interface {}'', mapValue = mii\<rparr>))
             ''could not put batch to kvstore: '' (chain s) of
        (ss, Some err) \<Rightarrow> (s\<lparr>chain := ss\<rparr>, Some err)
      | (ss, None) \<Rightarrow>
          (s\<lparr>chain := ss,
             missingCache := fold (\<lambda>(key, _) m. fst (op_Delete mops m key)) mii (missingCache s)\<rparr>, None)))"

text \<open>Delete from store to store; the first failure ends the loop.\<close>

fun deleteAll :: "('s \<Rightarrow> 's \<times> error) \<Rightarrow> string \<Rightarrow> 's list \<Rightarrow> 's list \<times> error" where
  "deleteAll f msg [] = ([], None)"
| "deleteAll f msg (s # ss) =
     (case f s of
        (s', Some err) \<Rightarrow> (s' # ss, Some (errorf_w msg err ''''))
      | (s', None) \<Rightarrow> (case deleteAll f msg ss of (ss', e) \<Rightarrow> (s' # ss', e)))"

definition chain_Delete :: "('s, 'v) kvops \<Rightarrow> ('s, 'm) chainKvStore \<Rightarrow> gokey \<Rightarrow> ('s, 'm) chainKvStore \<times> error" where
  "chain_Delete ops s key =
     (case deleteAll (\<lambda>st. op_Delete ops st key) (''could not delete '' @ key_text key @ '' from kvstore: '') (chain s) of
        (ss, err) \<Rightarrow> (s\<lparr>chain := ss\<rparr>, err))"

definition chain_DeleteBatch ::
  "('s, 'v) kvops \<Rightarrow> ('s, 'm) chainKvStore \<Rightarrow> gokey list dyn \<Rightarrow> ('s, 'm) chainKvStore \<times> error" where
  "chain_DeleteBatch ops s keys =
     (case deleteAll (\<lambda>st. op_DeleteBatch ops st keys) ''could not batch delete from kvstore: '' (chain s) of
        (ss, err) \<Rightarrow> (s\<lparr>chain := ss\<rparr>, err))"

section \<open>Coherence\<close>

text \<open>
  The abstract content of a chain is that of its last store. A chain is coherent when its
  last store does not lose entries, every store holds only what the last one holds, and no
  key cached as missing is in the last store.
\<close>

definition backend :: "('s \<Rightarrow> string \<rightharpoonup> 'v) \<Rightarrow> ('s, 'm) chainKvStore \<Rightarrow> string \<rightharpoonup> 'v" where
  "backend live c = live (last (chain c))"

definition coherent ::
  "('s \<Rightarrow> string \<rightharpoonup> 'v) \<Rightarrow> ('s \<Rightarrow> bool) \<Rightarrow> ('m \<Rightarrow> string \<rightharpoonup> 'v) \<Rightarrow> ('s, 'm) chainKvStore \<Rightarrow> bool" where
  "coherent live exact mlive c \<longleftrightarrow> chain c \<noteq> [] \<and> exact (last (chain c)) \<and>
     (\<forall>s \<in> set (chain c). live s \<subseteq>\<^sub>m backend live c) \<and>
     (\<forall>x. mlive (missingCache c) x \<noteq> None \<longrightarrow> backend live c x = None)"

lemma map_le_Some: "m \<subseteq>\<^sub>m n \<Longrightarrow> m x = Some v \<Longrightarrow> n x = Some v"
  by (force simp: map_le_def)

lemma length_propagate [simp]: "length (propagate f i ss) = length ss"
  by (induction f i ss rule: propagate.induct) auto

lemma propagate_nth:
  "i \<le> length ss \<Longrightarrow> j < length ss \<Longrightarrow> propagate f i ss ! j = (if j < i then f (ss ! j) else ss ! j)"
  by (induction f i ss rule: propagate.induct) (auto simp: nth_list_update less_Suc_eq)

lemma length_propagateBatch [simp]: "length (propagateBatch ops mii refill i ss) = length ss"
  by (induction ops mii refill i ss rule: propagateBatch.induct) auto

lemma propagateBatch_nth:
  "i \<le> length ss \<Longrightarrow> j < length ss \<Longrightarrow>
     propagateBatch ops mii refill i ss ! j = (if j < i then refillElement ops mii (refill ! j) (ss ! j) else ss ! j)"
  by (induction ops mii refill i ss rule: propagateBatch.induct) (auto simp: nth_list_update less_Suc_eq)

lemma missingInElement_get:
  "gm_get (missingInElement mii refill) k = (if k \<in> set refill then gm_get mii k else None)"
proof -
  have "gm_get (fold (\<lambda>key m. case gm_get mii key of Some v \<Rightarrow> gm_set m key v | None \<Rightarrow> m) refill m) k =
      (if k \<in> set refill \<and> gm_get mii k \<noteq> None then gm_get mii k else gm_get m k)" for m
    by (induction refill arbitrary: m) (auto split: option.splits)
  then show ?thesis by (simp add: missingInElement_def)
qed

lemma missingInElement_wf: "gm_wf (missingInElement mii refill)"
proof -
  have "gm_wf m \<Longrightarrow> gm_wf (fold (\<lambda>key m. case gm_get mii key of Some v \<Rightarrow> gm_set m key v | None \<Rightarrow> m) refill m)" for m
    by (induction refill arbitrary: m) (auto split: option.split)
  then show ?thesis by (simp add: missingInElement_def)
qed

lemma missingInElement_keys: "fst ` set (missingInElement mii refill) \<subseteq> set refill"
  using missingInElement_get [of mii refill] gm_dom_conv [of "missingInElement mii refill"]
  by (metis subsetI)

lemma zeroMap_get:
  "gm_get (fold (\<lambda>key mv. gm_set mv key zero) ks []) k = (if k \<in> set ks then Some zero else None)"
proof -
  have "gm_get (fold (\<lambda>key mv. gm_set mv key zero) ks m) k = (if k \<in> set ks then Some zero else gm_get m k)" for m
    by (induction ks arbitrary: m) auto
  then show ?thesis by simp
qed

lemma zeroMap_keys: "fst ` set (fold (\<lambda>key mv. gm_set mv key zero) ks []) = set ks"
proof (rule set_eqI)
  fix k
  show "k \<in> fst ` set (fold (\<lambda>key mv. gm_set mv key zero) ks []) \<longleftrightarrow> k \<in> set ks"
    unfolding gm_dom_conv [symmetric] zeroMap_get by simp
qed

lemma zeroMap_wf: "gm_wf (fold (\<lambda>key mv. gm_set mv key zero) ks [])"
proof -
  have "gm_wf m \<Longrightarrow> gm_wf (fold (\<lambda>key mv. gm_set mv key zero) ks m)" for m
    by (induction ks arbitrary: m) auto
  then show ?thesis by simp
qed

section \<open>The chain as a client of the contract\<close>

locale kv_chain = st: kv_store ts ops live exact + mc: kv_store ts mops mlive mexact
  for ts :: toStringE and ops :: "('s, 'v) kvops" and live exact and mops :: "('m, 'v) kvops" and mlive mexact
begin

lemma chainGetLoop_law:
  assumes "chainGetLoop ops key ss v = (ss', v', ex, i, e)" and "CastKeyToString ts key = Inr x"
  shows "map live ss' = map live ss \<and> map exact ss' = map exact ss \<and> (e \<noteq> None \<longrightarrow> \<not> ex) \<and>
    (ex \<longrightarrow> i < length ss \<and> live (ss ! i) x = Some v') \<and> (e = None \<and> \<not> ex \<and> ss \<noteq> [] \<longrightarrow> live (last ss) x = None)"
  using assms(1)
proof (induction ss arbitrary: v ss' v' ex i e)
  case (Cons s ss)
  obtain s1 v1 found err where g: "op_Get ops s key v = (s1, v1, found, err)" by (metis prod_cases4)
  note law = st.get_law [OF g, of x]
  obtain ss2 v2 ex2 i2 e2 where r: "chainGetLoop ops key ss v1 = (ss2, v2, ex2, i2, e2)" by (metis prod_cases5)
  show ?case
    using Cons.prems law Cons.IH [OF r] assms(2)
    by (auto simp: g r split: if_splits)
qed simp

lemma put_below:
  assumes "CastKeyToString ts key = Inr x" and "live s \<subseteq>\<^sub>m B" and "B x = Some v"
  shows "live (fst (op_Put ops s key v)) \<subseteq>\<^sub>m B"
proof -
  obtain s' e where p: "op_Put ops s key v = (s', e)" by (cases "op_Put ops s key v")
  have "(live s)(x \<mapsto> v) \<subseteq>\<^sub>m B" using assms(2,3) by (auto simp: map_le_def)
  with st.put_law [OF p assms(1)] assms(2) p show ?thesis by (cases e) (auto intro: map_le_trans)
qed

lemma same_content:
  assumes "map live ss' = map live ss" and "map exact ss' = map exact ss" and "ss \<noteq> []"
  shows "ss' \<noteq> []" "live (last ss') = live (last ss)" "exact (last ss') = exact (last ss)"
    "(\<forall>s \<in> set ss'. live s \<subseteq>\<^sub>m B) \<longleftrightarrow> (\<forall>s \<in> set ss. live s \<subseteq>\<^sub>m B)"
proof -
  show ne: "ss' \<noteq> []" using assms by auto
  show "live (last ss') = live (last ss)" "exact (last ss') = exact (last ss)"
    using arg_cong [OF assms(1), of last] arg_cong [OF assms(2), of last] assms(3) ne by (simp_all add: last_map)
  have "live ` set ss' = live ` set ss" using arg_cong [OF assms(1), of set] by simp
  then have "(\<forall>m \<in> live ` set ss'. m \<subseteq>\<^sub>m B) \<longleftrightarrow> (\<forall>m \<in> live ` set ss. m \<subseteq>\<^sub>m B)" by simp
  then show "(\<forall>s \<in> set ss'. live s \<subseteq>\<^sub>m B) \<longleftrightarrow> (\<forall>s \<in> set ss. live s \<subseteq>\<^sub>m B)" by simp
qed

lemma missing_put_below:
  assumes "CastKeyToString ts key = Inr x" and "B x = None" and "\<forall>y. mlive m y \<noteq> None \<longrightarrow> B y = None"
  shows "\<forall>y. mlive (fst (op_Put mops m key z)) y \<noteq> None \<longrightarrow> B y = None"
proof -
  obtain m' e where p: "op_Put mops m key z = (m', e)" by (cases "op_Put mops m key z")
  have "mlive m' y \<noteq> None \<longrightarrow> y = x \<or> mlive m y \<noteq> None" for y
    using mc.put_law [OF p assms(1)] by (cases e) (auto simp: map_le_def dom_def split: if_splits)
  with assms(2,3) p show ?thesis by (metis fst_conv)
qed

lemma chain_Get_law:
  assumes c: "coherent live exact mlive c" and x: "CastKeyToString ts key = Inr x"
    and get: "chain_Get ops mops zero c key v = (c', v', found, err)"
  shows "coherent live exact mlive c' \<and> backend live c' = backend live c \<and> (err \<noteq> None \<longrightarrow> \<not> found) \<and>
    (err = None \<longrightarrow> (if found then backend live c x = Some v' else backend live c x = None))"
proof -
  obtain m ex0 err0 where m: "op_Contains mops (missingCache c) key = (m, ex0, err0)" by (metis prod_cases3)
  note mlaw = mc.contains_law [OF m, of x]
  show ?thesis
  proof (cases ex0)
    case True
    with get m have "c' = c\<lparr>missingCache := m\<rparr>" "\<not> found" "err = None" by (auto simp: chain_Get_def)
    with True mlaw c x show ?thesis by (auto simp: coherent_def backend_def)
  next
    case False
    obtain ss v1 ex i e where l: "chainGetLoop ops key (chain c) v = (ss, v1, ex, i, e)" by (metis prod_cases5)
    note law = chainGetLoop_law [OF l x]
    have ne: "chain c \<noteq> []" using c by (simp add: coherent_def)
    have sm: "map live ss = map live (chain c)" "map exact ss = map exact (chain c)" using law by simp_all
    note same = same_content [OF sm ne]
    have last: "live (last ss) = backend live c" "exact (last ss)"
      using same c by (simp_all add: backend_def coherent_def)
    have sub: "\<forall>s \<in> set ss. live s \<subseteq>\<^sub>m backend live c" using same(4) c by (simp add: coherent_def)
    have mb: "\<forall>y. mlive (missingCache c) y \<noteq> None \<longrightarrow> backend live c y = None" using c by (simp add: coherent_def)
    have mm: "mlive m = mlive (missingCache c)" using mlaw by blast
    consider (err) "e \<noteq> None" | (none) "e = None" "\<not> ex" | (found) "e = None" "ex" by blast
    then show ?thesis
    proof cases
      case err
      then have "c' = c\<lparr>missingCache := m, chain := ss\<rparr>" "\<not> found" "err \<noteq> None"
        using get m l False by (auto simp: chain_Get_def Let_def)
      with mb mm last sub same(1) show ?thesis by (auto simp: coherent_def backend_def)
    next
      case none
      from none have c': "c' = c\<lparr>missingCache := fst (op_Put mops m key zero), chain := ss\<rparr>" "\<not> found" "err = None"
        using get m l False by (auto simp: chain_Get_def Let_def)
      have bx: "backend live c x = None" using law none ne by (simp add: backend_def)
      have "\<forall>y. mlive (fst (op_Put mops m key zero)) y \<noteq> None \<longrightarrow> backend live c y = None"
        by (rule missing_put_below [OF x]) (use bx mb mm in simp_all)
      with c' last sub same(1) bx show ?thesis by (simp add: coherent_def backend_def)
    next
      case found
      let ?f = "\<lambda>st. fst (op_Put ops st key v1)"
      from found have c': "c' = c\<lparr>missingCache := m, chain := propagate ?f i ss\<rparr>" "found" "err = None" "v' = v1"
        using get m l False by (auto simp: chain_Get_def Let_def)
      have len: "length ss = length (chain c)" using sm(1) by (metis length_map)
      have i: "i < length ss" "live (chain c ! i) x = Some v1" using law found len by auto
      then have "live (chain c ! i) \<subseteq>\<^sub>m backend live c" using c len by (simp add: coherent_def)
      with i(2) have bx: "backend live c x = Some v1" by (force simp: map_le_def)
      have lp: "last (propagate ?f i ss) = last ss"
      proof -
        have "propagate ?f i ss ! (length ss - 1) = ss ! (length ss - 1)"
          using i(1) by (subst propagate_nth) auto
        moreover have "propagate ?f i ss \<noteq> []" using same(1) by (metis length_propagate length_0_conv)
        ultimately show ?thesis using same(1) by (simp add: last_conv_nth)
      qed
      have "live (propagate ?f i ss ! j) \<subseteq>\<^sub>m backend live c" if "j < length ss" for j
        using sub that i(1) bx put_below [OF x, where B = "backend live c" and v = v1 and s = "ss ! j"]
        by (simp add: propagate_nth)
      then have "\<forall>s \<in> set (propagate ?f i ss). live s \<subseteq>\<^sub>m backend live c"
        by (metis in_set_conv_nth length_propagate)
      moreover have "propagate ?f i ss \<noteq> []" using same(1) by (metis length_propagate length_0_conv)
      ultimately show ?thesis
        using c' mb mm last bx lp by (simp add: coherent_def backend_def)
    qed
  qed
qed

lemma writeAll_law:
  assumes "writeAll f msg ss = (ss', e)"
  shows "length ss' = length ss \<and> (\<forall>j < length ss. ss' ! j = fst (f (ss ! j))) \<and>
    (e = None \<and> ss \<noteq> [] \<longrightarrow> snd (f (last ss)) = None)"
  using assms
proof (induction ss arbitrary: ss' e)
  case (Cons s ss)
  obtain s1 e1 where f: "f s = (s1, e1)" by (cases "f s")
  obtain ss2 e2 where r: "writeAll f msg ss = (ss2, e2)" by (cases "writeAll f msg ss")
  show ?case using Cons.prems Cons.IH [OF r] by (auto simp: f r nth_Cons split: if_splits nat.splits)
qed simp

lemma chain_Put_law:
  assumes c: "coherent live exact mlive c" and x: "CastKeyToString ts key = Inr x"
    and put: "chain_Put ops mops c key v = (c', None)"
    and ok: "\<And>s. s \<in> set (chain c) \<Longrightarrow> snd (op_Put ops s key v) = None"
    and del: "snd (op_Delete mops (missingCache c) key) = None"
  shows "coherent live exact mlive c' \<and> backend live c' = (backend live c)(x \<mapsto> v)"
proof -
  obtain ss e where w: "writeAll (\<lambda>st. op_Put ops st key v) (''could not put '' @ key_text key @ '' to kvstore: '') (chain c) = (ss, e)"
    by (metis surj_pair)
  have c': "c' = c\<lparr>chain := ss, missingCache := fst (op_Delete mops (missingCache c) key)\<rparr>" "e = None"
    using put unfolding chain_Put_def w by (auto split: option.splits)
  note law = writeAll_law [OF w]
  have ne: "chain c \<noteq> []" using c by (simp add: coherent_def)
  have len: "length ss = length (chain c)" using law by blast
  have put1: "live (fst (op_Put ops s key v)) \<subseteq>\<^sub>m (live s)(x \<mapsto> v)"
    "exact (fst (op_Put ops s key v)) = exact s"
    "exact s \<Longrightarrow> live (fst (op_Put ops s key v)) = (live s)(x \<mapsto> v)" if "s \<in> set (chain c)" for s
    using st.put_law [OF surjective_pairing x, of s v] ok [OF that] by simp_all
  have last: "last ss = fst (op_Put ops (last (chain c)) key v)"
    using law ne len by (simp add: last_conv_nth flip: length_greater_0_conv)
  have b: "live (last ss) = (backend live c)(x \<mapsto> v)" "exact (last ss)"
    using put1 [of "last (chain c)"] c ne last by (simp_all add: coherent_def backend_def)
  have "live s \<subseteq>\<^sub>m (backend live c)(x \<mapsto> v)" if "s \<in> set ss" for s
  proof -
    from that obtain j where "j < length ss" "s = ss ! j" by (auto simp: in_set_conv_nth)
    then have "j < length (chain c)" "s = fst (op_Put ops (chain c ! j) key v)" using law len by simp_all
    then have "live s \<subseteq>\<^sub>m (live (chain c ! j))(x \<mapsto> v)" "live (chain c ! j) \<subseteq>\<^sub>m backend live c"
      using put1 c by (auto simp: coherent_def)
    then show ?thesis by (meson map_le_trans map_le_upd)
  qed
  moreover have "((backend live c)(x \<mapsto> v)) y = None" if "mlive (missingCache c') y \<noteq> None" for y
  proof -
    have "missingCache c' = fst (op_Delete mops (missingCache c) key)" using c' by simp
    then have "mlive (missingCache c') \<subseteq>\<^sub>m (mlive (missingCache c))(x := None)"
      using mc.delete_law [OF surjective_pairing x, of "missingCache c"] del by simp
    with that have "((mlive (missingCache c))(x := None)) y \<noteq> None" by (auto dest: map_le_Some)
    then have "y \<noteq> x \<and> mlive (missingCache c) y \<noteq> None" by (simp split: if_splits)
    with c show ?thesis by (simp add: coherent_def)
  qed
  moreover have "ss \<noteq> []" using len ne by auto
  ultimately show ?thesis using b c'(1) by (auto simp: coherent_def backend_def fun_upd_def)
qed

lemma delete_facts:
  assumes "CastKeyToString ts key = Inr x" and "op_Delete ops s key = (s', e)"
  shows "exact s' = exact s" and "live s' \<subseteq>\<^sub>m live s" and "e = None \<Longrightarrow> live s' \<subseteq>\<^sub>m (live s)(x := None)"
    and "e = None \<Longrightarrow> exact s \<Longrightarrow> live s' = (live s)(x := None)" and "e \<noteq> None \<Longrightarrow> live s' = live s"
proof -
  note law = st.delete_law [OF assms(2,1)]
  show "exact s' = exact s" "e = None \<Longrightarrow> live s' \<subseteq>\<^sub>m (live s)(x := None)"
    "e = None \<Longrightarrow> exact s \<Longrightarrow> live s' = (live s)(x := None)" "e \<noteq> None \<Longrightarrow> live s' = live s"
    using law by blast+
  have "(live s)(x := None) \<subseteq>\<^sub>m live s" by (simp add: map_le_def)
  with law show "live s' \<subseteq>\<^sub>m live s" by (cases e) (auto intro: map_le_trans)
qed

lemma map_le_del: "m \<subseteq>\<^sub>m B \<Longrightarrow> m(x := None) \<subseteq>\<^sub>m B(x := None)"
  by (auto simp: map_le_def)

lemma deleteAll_law:
  assumes "deleteAll (\<lambda>st. op_Delete ops st key) msg ss = (ss', e)" and x: "CastKeyToString ts key = Inr x"
    and "ss \<noteq> []" and "\<forall>s \<in> set ss. live s \<subseteq>\<^sub>m B" and "exact (last ss)" and "live (last ss) = B"
  shows "ss' \<noteq> [] \<and> exact (last ss') \<and> live (last ss') = (if e = None then B(x := None) else B) \<and>
    (\<forall>s \<in> set ss'. live s \<subseteq>\<^sub>m (if e = None then B(x := None) else B))"
  using assms(1,3-)
proof (induction ss arbitrary: ss' e)
  case (Cons s ss)
  obtain s1 e1 where d: "op_Delete ops s key = (s1, e1)" by (cases "op_Delete ops s key")
  note f = delete_facts [OF x d]
  have s: "live s \<subseteq>\<^sub>m B" using Cons.prems(3) by simp
  show ?case
  proof (cases e1)
    case (Some err)
    with Cons.prems(1) d have "ss' = s1 # ss" "e \<noteq> None" by auto
    with f Some Cons.prems(3-) show ?thesis by (cases "ss = []") auto
  next
    case None
    show ?thesis
    proof (cases "ss = []")
      case True
      with Cons.prems None d f show ?thesis by (auto simp: map_le_def)
    next
      case False
      obtain ss2 where r: "deleteAll (\<lambda>st. op_Delete ops st key) msg ss = (ss2, e)" "ss' = s1 # ss2"
        using Cons.prems(1) d None by (auto split: prod.splits)
      have IH: "ss2 \<noteq> [] \<and> exact (last ss2) \<and> live (last ss2) = (if e = None then B(x := None) else B) \<and>
          (\<forall>s \<in> set ss2. live s \<subseteq>\<^sub>m (if e = None then B(x := None) else B))"
        using Cons.IH [OF r(1) False] Cons.prems(3-) False by simp
      have "live s1 \<subseteq>\<^sub>m B(x := None)" using f(3) [OF None] map_le_del [OF s] by (rule map_le_trans)
      moreover have "live s1 \<subseteq>\<^sub>m B" using f(2) s by (rule map_le_trans)
      ultimately show ?thesis using IH r(2) by simp
    qed
  qed
qed simp

lemma chain_Delete_law:
  assumes c: "coherent live exact mlive c" and x: "CastKeyToString ts key = Inr x"
    and del: "chain_Delete ops c key = (c', err)"
  shows "coherent live exact mlive c' \<and>
    backend live c' = (if err = None then (backend live c)(x := None) else backend live c)"
proof -
  obtain ss where w: "deleteAll (\<lambda>st. op_Delete ops st key) (''could not delete '' @ key_text key @ '' from kvstore: '') (chain c) = (ss, err)"
    and c': "c' = c\<lparr>chain := ss\<rparr>"
    using del unfolding chain_Delete_def by (auto split: prod.splits)
  have "ss \<noteq> [] \<and> exact (last ss) \<and>
      live (last ss) = (if err = None then (backend live c)(x := None) else backend live c) \<and>
      (\<forall>s \<in> set ss. live s \<subseteq>\<^sub>m (if err = None then (backend live c)(x := None) else backend live c))"
    by (rule deleteAll_law [OF w x]) (use c in \<open>simp_all add: coherent_def backend_def\<close>)
  with c c' show ?thesis by (auto simp: coherent_def backend_def)
qed

text \<open>The loop of \<open>GetBatch\<close> over the chain, for string keys.\<close>

lemma getFromChain_law:
  assumes "getFromChain ops ss (map KStr xs) (Val rm) = (ss', rd, rem, refills, i, e)"
    and "keyType rm = ''string''" and "ss \<noteq> []" and "\<forall>s \<in> set ss. live s \<subseteq>\<^sub>m B" and "live (last ss) = B"
  shows "map live ss' = map live ss \<and> map exact ss' = map exact ss \<and>
    (\<exists>rm'. rd = Val rm' \<and> reads B (set xs) rm rm' \<and>
      (e = None \<longrightarrow> set rem = KStr ` {x \<in> set xs. B x = None} \<and> reads_all B (set xs) rm' \<and>
         i \<le> length ss \<and> i \<le> length refills \<and> (\<forall>r \<in> set refills. set r \<subseteq> KStr ` set xs) \<and>
         (i = length ss \<longrightarrow> length refills = length ss \<and> last refills = rem)))"
  using assms
proof (induction ss arbitrary: xs rm ss' rd rem refills i e)
  case (Cons s ss)
  obtain s1 rd1 missing err where g: "op_GetBatch ops s (Val (map KStr xs)) (Val rm) = (s1, rd1, missing, err)"
    by (metis prod_cases4)
  have law: "live s1 = live s" "exact s1 = exact s"
    "\<exists>rm'. rd1 = Val rm' \<and> reads (live s) (set xs) rm rm' \<and>
         (err = None \<longrightarrow> set missing = KStr ` {x \<in> set xs. live s x = None} \<and> reads_all (live s) (set xs) rm')"
    using st.getBatch_law [OF g Cons.prems(2)] by simp_all
  then obtain rm1 where rm1: "rd1 = Val rm1" "reads (live s) (set xs) rm rm1"
    "err = None \<longrightarrow> set missing = KStr ` {x \<in> set xs. live s x = None} \<and> reads_all (live s) (set xs) rm1"
    by (elim exE conjE) 
  have sB: "live s \<subseteq>\<^sub>m B" using Cons.prems(4) by simp
  have r1: "reads B (set xs) rm rm1" using rm1(2) sB by (rule reads_mono)
  have string: "keyType rm1 = ''string''" using r1 Cons.prems(2) by (simp add: reads_def)
  define refill where "refill = (if err \<noteq> None then map KStr xs else missing)"
  have "set refill \<subseteq> KStr ` set xs" using rm1(3) by (auto simp: refill_def)
  then obtain ys where ys: "refill = map KStr ys" "set ys \<subseteq> set xs"
    by (smt (verit, best) ex_map_conv gokey.inject(1) image_iff in_mono list.set_map subsetI)
  have none: "{x \<in> set xs. B x = None} \<subseteq> set ys"
  proof
    fix x
    assume x: "x \<in> {x \<in> set xs. B x = None}"
    with sB have "live s x = None" by (metis (mono_tags, lifting) map_le_Some mem_Collect_eq not_None_eq option.distinct(1))
    with x rm1(3) have "KStr x \<in> set refill" by (auto simp: refill_def)
    with ys(1) show "x \<in> set ys" by auto
  qed
  have found: "reads_all B (set xs - set ys) rm1"
    unfolding reads_all_def
  proof (intro ballI impI)
    fix x
    assume x: "x \<in> set xs - set ys"
    then have nr: "KStr x \<notin> set refill" using ys(1) by auto
    with x have "err = None" by (auto simp: refill_def split: if_splits)
    moreover from this x rm1(3) nr have "live s x \<noteq> None" by (auto simp: refill_def)
    ultimately
    show "gm_get (mapValue rm1) (KStr x) = B x"
      using x rm1(3) sB by (auto simp: reads_all_def dest: map_le_Some)
  qed
  have step: "(if refill = [] then (s1 # ss, rd1, [], [refill], 0, None)
      else (case getFromChain ops ss refill rd1 of
              (ss', values'', rem, refills, i, e) \<Rightarrow> (s1 # ss', values'', rem, refill # refills, Suc i, e))) =
      (ss', rd, rem, refills, i, e)" if "\<not> (err \<noteq> None \<and> ss = [])"
    using Cons.prems(1) unfolding getFromChain.simps g refill_def Let_def prod.case by (simp only: that if_False)
  consider (fail) "err \<noteq> None" "ss = []" | (all) "\<not> (err \<noteq> None \<and> ss = [])" "refill = []"
    | (last) "\<not> (err \<noteq> None \<and> ss = [])" "refill \<noteq> []" "ss = []"
    | (more) "refill \<noteq> []" "ss \<noteq> []" by blast
  then show ?case
  proof cases
    case fail
    with Cons.prems(1) g have "ss' = [s1]" "rd = rd1" "e \<noteq> None" by auto
    with fail law(1,2) rm1(1) r1 show ?thesis by auto
  next
    case all
    with step have eq: "ss' = s1 # ss" "rd = rd1" "e = None" "rem = []" "refills = [[]]" "i = 0" by auto
    have "ys = []" using all(2) ys(1) by simp
    with none found have "{x \<in> set xs. B x = None} = {}" "reads_all B (set xs) rm1" by simp_all
    with eq law(1,2) rm1(1) r1 show ?thesis by auto
  next
    case last
    with step have eq: "ss' = [s1]" "rd = rd1" "e = None" "rem = refill" "refills = [refill]" "i = 1" by auto
    have "live s = B" "err = None" using last Cons.prems(5) by auto
    with rm1(3) have "set refill = KStr ` {x \<in> set xs. B x = None}" "reads_all B (set xs) rm1"
      by (simp_all add: refill_def)
    with eq last(3) law(1,2) rm1(1) r1 show ?thesis by auto
  next
    case more
    obtain ss2 rd2 rem2 refills2 i2 e2 where r: "getFromChain ops ss (map KStr ys) (Val rm1) = (ss2, rd2, rem2, refills2, i2, e2)"
      by (metis prod_cases6)
    have eq: "ss' = s1 # ss2" "rd = rd2" "e = e2" "rem = rem2" "refills = refill # refills2" "i = Suc i2"
      using step more r rm1(1) ys(1) by auto
    have IH: "map live ss2 = map live ss \<and> map exact ss2 = map exact ss \<and>
      (\<exists>rm'. rd2 = Val rm' \<and> reads B (set ys) rm1 rm' \<and>
        (e2 = None \<longrightarrow> set rem2 = KStr ` {x \<in> set ys. B x = None} \<and> reads_all B (set ys) rm' \<and>
           i2 \<le> length ss \<and> i2 \<le> length refills2 \<and> (\<forall>r \<in> set refills2. set r \<subseteq> KStr ` set ys) \<and>
           (i2 = length ss \<longrightarrow> length refills2 = length ss \<and> last refills2 = rem2)))"
      by (rule Cons.IH [OF r string]) (use more Cons.prems(4,5) in auto)
    then obtain rm2 where rm2: "rd2 = Val rm2" "reads B (set ys) rm1 rm2"
      "e2 = None \<longrightarrow> set rem2 = KStr ` {x \<in> set ys. B x = None} \<and> reads_all B (set ys) rm2 \<and>
           i2 \<le> length ss \<and> i2 \<le> length refills2 \<and> (\<forall>r \<in> set refills2. set r \<subseteq> KStr ` set ys) \<and>
           (i2 = length ss \<longrightarrow> length refills2 = length ss \<and> last refills2 = rem2)"
      by (elim exE conjE)
    have maps: "map live ss' = map live (s # ss)" "map exact ss' = map exact (s # ss)"
      using IH eq(1) law(1,2) by simp_all
    have all: "reads B (set xs) rm rm2" using r1 rm2(2) ys(2) by (rule reads_trans)
    have eqn: "{x \<in> set ys. B x = None} = {x \<in> set xs. B x = None}" using none ys(2) by auto
    have full: "reads_all B (set xs) rm2" if "reads_all B (set ys) rm2"
      using that reads_all_keep [OF found rm2(2)] by (auto simp: reads_all_def)
    have refs: "\<forall>r \<in> set refills. set r \<subseteq> KStr ` set xs" if "\<forall>r \<in> set refills2. set r \<subseteq> KStr ` set ys"
    proof
      fix r
      assume "r \<in> set refills"
      then have "set r \<subseteq> KStr ` set ys" using that eq(5) ys(1) by auto
      with ys(2) show "set r \<subseteq> KStr ` set xs" by blast
    qed
    have "set rem = KStr ` {x \<in> set xs. B x = None} \<and> reads_all B (set xs) rm2 \<and>
        i \<le> length (s # ss) \<and> i \<le> length refills \<and> (\<forall>r \<in> set refills. set r \<subseteq> KStr ` set xs) \<and>
        (i = length (s # ss) \<longrightarrow> length refills = length (s # ss) \<and> last refills = rem)" if "e = None"
    proof -
      have f: "set rem2 = KStr ` {x \<in> set ys. B x = None}" "reads_all B (set ys) rm2" "i2 \<le> length ss"
        "i2 \<le> length refills2" "\<forall>r \<in> set refills2. set r \<subseteq> KStr ` set ys"
        "i2 = length ss \<longrightarrow> length refills2 = length ss \<and> last refills2 = rem2"
        using rm2(3) that eq(3) by blast+
      have "i = length (s # ss) \<longrightarrow> length refills = length (s # ss) \<and> last refills = rem"
        using f(6) more(2) eq(4-6) by auto
      with full [OF f(2)] refs [OF f(5)] f(1,3,4) eqn eq(4-6) show ?thesis by simp
    qed
    with maps all rm2(1) eq(2) show ?thesis by blast
  qed
qed simp

lemma refillElement_below:
  assumes "live s \<subseteq>\<^sub>m B" and "set refill \<subseteq> range KStr"
    and "\<And>x v. KStr x \<in> set refill \<Longrightarrow> gm_get mii (KStr x) = Some v \<Longrightarrow> B x = Some v"
  shows "live (refillElement ops mii refill s) \<subseteq>\<^sub>m B" and "exact (refillElement ops mii refill s) = exact s"
proof -
  let ?r = "\<lparr>keyType = ''interface {}'', mapValue = missingInElement mii refill\<rparr>"
  obtain s' e where p: "op_PutBatch ops s (Val ?r) = (s', e)" by (metis surj_pair)
  have law: "exact s' = exact s \<and>
      (\<forall>x v. live s' x = Some v \<longrightarrow> live s x = Some v \<or> gm_get (mapValue ?r) (KStr x) = Some v)"
    using missingInElement_wf [of mii refill] missingInElement_keys [of mii refill] assms(2)
    by (intro st.putBatch_law [OF p]) auto
  have "live s' \<subseteq>\<^sub>m B"
    unfolding map_le_def
  proof
    fix x
    assume "x \<in> dom (live s')"
    then obtain v where v: "live s' x = Some v" by auto
    with law have "live s x = Some v \<or> KStr x \<in> set refill \<and> gm_get mii (KStr x) = Some v"
      by (auto simp: missingInElement_get split: if_splits)
    with assms(1,3) v show "live s' x = B x" by (auto dest: map_le_Some)
  qed
  with law p assms(1) show "live (refillElement ops mii refill s) \<subseteq>\<^sub>m B"
    "exact (refillElement ops mii refill s) = exact s"
    by (simp_all add: refillElement_def Let_def)
qed

lemma refillElement_same:
  assumes "\<And>k. k \<in> set refill \<Longrightarrow> gm_get mii k = None"
  shows "refillElement ops mii refill s = s"
proof -
  have "missingInElement mii refill = []"
    using missingInElement_get [of mii refill] assms gm_dom_conv [of "missingInElement mii refill"]
    by (cases "missingInElement mii refill") (auto split: if_splits, metis option.distinct(1))
  then show ?thesis by (simp add: refillElement_def)
qed

lemma storeMissing_below:
  assumes "\<forall>y. mlive m y \<noteq> None \<longrightarrow> B y = None" and "set todo = KStr ` {x \<in> xs. B x = None}"
  shows "\<forall>y. mlive (storeMissingKeys mops zero m todo) y \<noteq> None \<longrightarrow> B y = None"
proof -
  let ?r = "\<lparr>keyType = ''interface {}'', mapValue = fold (\<lambda>key mv. gm_set mv key zero) todo []\<rparr>"
  obtain m' e where p: "op_PutBatch mops m (Val ?r) = (m', e)" by (metis surj_pair)
  have "fst ` set (mapValue ?r) = set todo" by (simp add: zeroMap_keys)
  then have law: "\<forall>x v. mlive m' x = Some v \<longrightarrow> mlive m x = Some v \<or> gm_get (mapValue ?r) (KStr x) = Some v"
    using mc.putBatch_law [OF p] assms(2) by (auto simp: zeroMap_wf)
  then have "\<forall>y. mlive m' y \<noteq> None \<longrightarrow> B y = None"
    using assms by (fastforce simp: zeroMap_get split: if_splits)
  with p assms(1) show ?thesis by (simp add: storeMissingKeys_def)
qed

lemma chain_GetBatch_law:
  assumes c: "coherent live exact mlive c" and string: "keyType rm = ''string''"
    and fresh: "\<forall>x \<in> set xs. gm_get (mapValue rm) (KStr x) = None"
    and mok: "snd (snd (snd (op_GetBatch mops (missingCache c) (Val (map KStr xs))
      (Val \<lparr>keyType = ''string'', mapValue = []\<rparr>)))) = None"
    and get: "chain_GetBatch ops mops zero c (Val (map KStr xs)) (Val rm) = (c', rd, missing, None)"
  shows "coherent live exact mlive c' \<and> backend live c' = backend live c \<and>
    set missing = KStr ` {x \<in> set xs. backend live c x = None} \<and>
    (\<exists>rm'. rd = Val rm' \<and> reads (backend live c) (set xs) rm rm' \<and> reads_all (backend live c) (set xs) rm')"
proof -
  let ?B = "backend live c"
  obtain m mrd todo where m: "op_GetBatch mops (missingCache c) (Val (map KStr xs))
      (Val \<lparr>keyType = ''string'', mapValue = []\<rparr>) = (m, mrd, todo, None)"
    using mok by (cases "op_GetBatch mops (missingCache c) (Val (map KStr xs))
      (Val \<lparr>keyType = ''string'', mapValue = []\<rparr>)") auto
  have mlaw: "mlive m = mlive (missingCache c)"
    "\<exists>rm'. mrd = Val rm' \<and> reads (mlive (missingCache c)) (set xs) \<lparr>keyType = ''string'', mapValue = []\<rparr> rm' \<and>
       set todo = KStr ` {x \<in> set xs. mlive (missingCache c) x = None} \<and> reads_all (mlive (missingCache c)) (set xs) rm'"
    using mc.getBatch_law [OF m] by simp_all
  then obtain mm where mm: "mrd = Val mm" "reads (mlive (missingCache c)) (set xs) \<lparr>keyType = ''string'', mapValue = []\<rparr> mm"
    "set todo = KStr ` {x \<in> set xs. mlive (missingCache c) x = None}" "reads_all (mlive (missingCache c)) (set xs) mm"
    by (elim exE conjE)
  define cached where "cached = map fst (mapValue mm)"
  have mb: "\<forall>y. mlive m y \<noteq> None \<longrightarrow> ?B y = None" using c mlaw(1) by (simp add: coherent_def)
  have "k \<in> set cached \<longleftrightarrow> gm_has (mapValue mm) k" for k by (simp only: cached_def list.set_map gm_dom_conv)
  moreover have "gm_has (mapValue mm) k \<longleftrightarrow> (\<exists>x \<in> set xs. k = KStr x \<and> mlive (missingCache c) x \<noteq> None)" for k
    using reads_keep [OF mm(2), of k] mm(4) by (auto simp: reads_all_def)
  ultimately have cached: "set cached = KStr ` {x \<in> set xs. mlive (missingCache c) x \<noteq> None}" by auto
  have keys: "getKeysFromMissingCache mops (missingCache c) (map KStr xs) = (m, todo, cached)"
    by (simp add: getKeysFromMissingCache_def m mm(1) cached_def)
  obtain ys where ys: "todo = map KStr ys" "set ys = {x \<in> set xs. mlive (missingCache c) x = None}"
  proof -
    have "\<forall>k \<in> set todo. \<exists>x. k = KStr x" using mm(3) by auto
    then obtain ys where y: "todo = map KStr ys" by (metis ex_map_conv)
    with mm(3) have "KStr ` set ys = KStr ` {x \<in> set xs. mlive (missingCache c) x = None}" by simp
    then have "set ys = {x \<in> set xs. mlive (missingCache c) x = None}"
      by (simp add: inj_image_eq_iff inj_def)
    with y show ?thesis by (rule that)
  qed
  have in_ys: "{x \<in> set xs. ?B x \<noteq> None} \<subseteq> set ys" using mb mlaw(1) ys(2) by force
  show ?thesis
  proof (cases "ys = []")
    case True
    then have "c' = c\<lparr>missingCache := m\<rparr>" "rd = Val rm" "missing = cached"
      using get keys ys(1) by (simp_all add: chain_GetBatch_def InterfaceToInterfaceSlice_def)
    moreover have "{x \<in> set xs. ?B x = None} = {x \<in> set xs. mlive (missingCache c) x \<noteq> None}"
      using True in_ys ys(2) mb mlaw(1) by auto
    moreover have "reads_all ?B (set xs) rm" using True in_ys by (auto simp: reads_all_def)
    ultimately show ?thesis using c cached mb by (auto simp: coherent_def backend_def)
  next
    case False
    obtain ss rd1 rem refills i e where l: "getFromChain ops (chain c) (map KStr ys) (Val rm) = (ss, rd1, rem, refills, i, e)"
      by (metis prod_cases6)
    have ne: "chain c \<noteq> []" using c by (simp add: coherent_def)
    have "map live ss = map live (chain c) \<and> map exact ss = map exact (chain c) \<and>
        (\<exists>rm'. rd1 = Val rm' \<and> reads ?B (set ys) rm rm' \<and>
          (e = None \<longrightarrow> set rem = KStr ` {x \<in> set ys. ?B x = None} \<and> reads_all ?B (set ys) rm' \<and>
             i \<le> length (chain c) \<and> i \<le> length refills \<and> (\<forall>r \<in> set refills. set r \<subseteq> KStr ` set ys) \<and>
             (i = length (chain c) \<longrightarrow> length refills = length (chain c) \<and> last refills = rem)))"
      by (rule getFromChain_law [OF l string ne]) (use c in \<open>simp_all add: coherent_def backend_def\<close>)
    then obtain rm1 where sm: "map live ss = map live (chain c)" "map exact ss = map exact (chain c)"
      and rm1: "rd1 = Val rm1" "reads ?B (set ys) rm rm1"
      and law: "e = None \<longrightarrow> set rem = KStr ` {x \<in> set ys. ?B x = None} \<and> reads_all ?B (set ys) rm1 \<and>
             i \<le> length (chain c) \<and> i \<le> length refills \<and> (\<forall>r \<in> set refills. set r \<subseteq> KStr ` set ys) \<and>
             (i = length (chain c) \<longrightarrow> length refills = length (chain c) \<and> last refills = rem)"
      by (elim exE conjE)
    let ?ss = "propagateBatch ops (mapValue rm1) refills i ss"
    have "e = None" and c': "c' = c\<lparr>chain := ?ss, missingCache := storeMissingKeys mops zero m rem\<rparr>"
      "rd = Val rm1" "missing = rem @ cached"
      using get keys False l ys(1) rm1(1)
      by (auto simp: chain_GetBatch_def InterfaceToInterfaceSlice_def propagateToLowerCacheLevels_def
          InterfaceToMapInterfaceInterface_def Let_def split: if_splits)
    have len: "length ss = length (chain c)" using sm(1) by (metis length_map)
    have rem: "set rem = KStr ` {x \<in> set ys. ?B x = None}" "reads_all ?B (set ys) rm1" "i \<le> length ss"
      "i \<le> length refills" "\<forall>r \<in> set refills. set r \<subseteq> KStr ` set ys"
      "i = length ss \<longrightarrow> length refills = length ss \<and> last refills = rem"
      using law \<open>e = None\<close> len by simp_all
    have entry: "gm_get (mapValue rm1) (KStr x) = None \<or> gm_get (mapValue rm1) (KStr x) = ?B x" if "x \<in> set ys" for x
      using reads_keep [OF rm1(2), of "KStr x"] fresh that ys(2) by auto
    note same = same_content [OF sm ne]
    have ssB: "live (ss ! j) \<subseteq>\<^sub>m ?B" if "j < length ss" for j
    proof -
      have "\<forall>s \<in> set ss. live s \<subseteq>\<^sub>m ?B" unfolding same(4) using c by (simp add: coherent_def)
      with that show ?thesis by simp
    qed
    have below: "live (?ss ! j) \<subseteq>\<^sub>m ?B" if "j < length ss" for j
    proof (cases "j < i")
      case True
      then have "refills ! j \<in> set refills" using rem(4) by simp
      with rem(5) have sub: "set (refills ! j) \<subseteq> KStr ` set ys" by blast
      have "live (refillElement ops (mapValue rm1) (refills ! j) (ss ! j)) \<subseteq>\<^sub>m ?B"
      proof (rule refillElement_below(1))
        show "live (ss ! j) \<subseteq>\<^sub>m ?B" using that by (rule ssB)
        show "set (refills ! j) \<subseteq> range KStr" using sub by auto
        show "?B x = Some v" if "KStr x \<in> set (refills ! j)" "gm_get (mapValue rm1) (KStr x) = Some v" for x v
          using that sub entry [of x] by auto
      qed
      with True that rem(3) show ?thesis by (simp add: propagateBatch_nth)
    next
      case False
      with that rem(3) ssB show ?thesis by (simp add: propagateBatch_nth)
    qed
    have "?ss ! (length ss - 1) = ss ! (length ss - 1)"
    proof (cases "i = length ss")
      case True
      have "refills ! (length ss - 1) = rem"
        using rem(6) True same(1) by (metis last_conv_nth length_0_conv)
      moreover have "gm_get (mapValue rm1) k = None" if k: "k \<in> set rem" for k
      proof -
        obtain x where "k = KStr x" "x \<in> set ys" "?B x = None" using k rem(1) by auto
        with entry [of x] show ?thesis by simp
      qed
      ultimately show ?thesis using True same(1) by (simp add: propagateBatch_nth refillElement_same)
    next
      case False
      with rem(3) same(1) show ?thesis by (simp add: propagateBatch_nth flip: length_greater_0_conv) auto
    qed
    moreover have "?ss \<noteq> []" using same(1) by (metis length_propagateBatch length_0_conv)
    ultimately have last: "last ?ss = last ss" using same(1) by (simp add: last_conv_nth)
    have "\<forall>s \<in> set ?ss. live s \<subseteq>\<^sub>m ?B" using below by (metis in_set_conv_nth length_propagateBatch)
    moreover have "\<forall>y. mlive (storeMissingKeys mops zero m rem) y \<noteq> None \<longrightarrow> ?B y = None"
      using mb rem(1) by (rule storeMissing_below)
    moreover have "live (last ?ss) = ?B" "exact (last ?ss)"
      using last same(2,3) c by (simp_all add: coherent_def backend_def)
    ultimately have coh: "coherent live exact mlive c'" "backend live c' = ?B"
      using c' \<open>?ss \<noteq> []\<close> by (simp_all add: coherent_def backend_def)
    have "{x \<in> set xs. ?B x = None} = {x \<in> set ys. ?B x = None} \<union> {x \<in> set xs. mlive (missingCache c) x \<noteq> None}"
      using ys(2) mb mlaw(1) by auto
    then have "set missing = KStr ` {x \<in> set xs. ?B x = None}"
      using c'(3) rem(1) cached by (simp add: image_Un)
    moreover have "reads ?B (set xs) rm rm1"
      using reads_trans [OF reads_refl rm1(2)] ys(2) by auto
    moreover have "reads_all ?B (set xs) rm1" using rem(2) in_ys by (auto simp: reads_all_def)
    ultimately show ?thesis using coh c'(2) by blast
  qed
qed

end

end
