(* ===== verification/KvProps.thy ===== *)
theory KvProps
  imports KvChain
begin

text \<open>
  Properties of the key-value stores: the chain behaves like its last store as long as it is
  coherent, the metric store hides failed writes, two ways in which \<open>GetBatch\<close> of the chain
  goes wrong, and the bucket count of the in-memory store.
\<close>

section \<open>Instances\<close>

text \<open>In-memory stores over any cache that does what the third-party cache documents.\<close>

lemma mem_kv_chain:
  assumes "ccache_ok cc live" and "\<And>x. ts (KStr x) = Inr x" and "b \<Longrightarrow> ccache_exact cc live"
  shows "kv_chain ts (memOps ts cc zero) (mem_live live) (mem_exact b)
    (memOps ts cc zero) (mem_live live) (mem_exact b)"
  by (intro kv_chain.intro mem_kv_store [OF assms])

definition demo_ts :: toStringE where
  "demo_ts key = (case key of KOther t v \<Rightarrow> Inl (Opaque ''unable to cast'') | _ \<Rightarrow> Inr (key_text key))"

abbreviation demoOps :: "((string, int) gomap memStore, int) kvops" where
  "demoOps \<equiv> memOps demo_ts listCache 0"

lemma demo_kv_store: "kv_store demo_ts demoOps (mem_live gm_get) (mem_exact True)"
  by (rule mem_kv_store [OF listCache_ok _ listCache_exact]) (simp add: demo_ts_def)

interpretation memChain: kv_chain demo_ts demoOps "mem_live gm_get" "mem_exact True"
    demoOps "mem_live gm_get" "mem_exact True"
  by (intro kv_chain.intro demo_kv_store)

abbreviation demo_mem :: "(string, int) gomap \<Rightarrow> (string, int) gomap memStore" where
  "demo_mem m \<equiv> \<lparr>mem_cache = \<lparr>base = m, ttl = 60, notFoundTtl = 0\<rparr>, cacheSize = 0, BatchSize = 2\<rparr>"

text \<open>A cache level without entries in front of a store with one.\<close>

definition demo_chain :: "((string, int) gomap memStore, (string, int) gomap memStore) chainKvStore" where
  "demo_chain = AddStore (AddStore (NewChainKvStoreWithInterfaces (demo_mem [])) (demo_mem [])) (demo_mem [(''a'', 1)])"

lemma demo_coherent: "coherent (mem_live gm_get) (mem_exact True) (mem_live gm_get) demo_chain"
  by (simp add: coherent_def demo_chain_def AddStore_def NewChainKvStoreWithInterfaces_def backend_def
      mem_exact_def map_le_def)

section \<open>The chain\<close>

text \<open>
  C6. A read from a coherent chain is a read from its last store: whichever level answers, and
  whatever the levels before it return, a successful \<open>Get\<close> finds the key exactly when the
  last store holds it and returns that value. The read fills the lower levels and the cache
  of missing keys without changing the last store, and the chain stays coherent.
\<close>

theorem chain_Get_correct:
  assumes "kv_chain ts ops live exact mops mlive mexact" and "coherent live exact mlive c"
    and "CastKeyToString ts key = Inr x" and "chain_Get ops mops zero c key v = (c', v', found, err)"
  shows "coherent live exact mlive c' \<and> backend live c' = backend live c \<and> (err \<noteq> None \<longrightarrow> \<not> found) \<and>
    (err = None \<longrightarrow> (if found then backend live c x = Some v' else backend live c x = None))"
  using assms by (rule kv_chain.chain_Get_law)

theorem chain_Get_correct_witness:
  "\<exists>c' v' found err. chain_Get demoOps demoOps 0 demo_chain (KStr ''a'') 0 = (c', v', found, err) \<and>
     coherent (mem_live gm_get) (mem_exact True) (mem_live gm_get) c' \<and> (err = None \<longrightarrow> found \<longrightarrow> v' = 1)"
proof -
  obtain c' v' found err where g: "chain_Get demoOps demoOps 0 demo_chain (KStr ''a'') 0 = (c', v', found, err)"
    by (metis prod_cases4)
  have "CastKeyToString demo_ts (KStr ''a'') = Inr ''a''" by (simp add: demo_ts_def CastKeyToString_def)
  from chain_Get_correct [OF memChain.kv_chain_axioms demo_coherent this g] g
  show ?thesis
    by (auto simp: backend_def demo_chain_def AddStore_def NewChainKvStoreWithInterfaces_def split: if_splits)
qed

text \<open>
  A write is visible: when \<open>Put\<close> succeeds on every level, and the key could be removed from
  the cache of missing keys, the chain is coherent again and a later \<open>Get\<close> that succeeds
  returns the value just written; every other key keeps its value.
\<close>

theorem chain_Put_then_Get:
  assumes "kv_chain ts ops live exact mops mlive mexact" and "coherent live exact mlive c"
    and "CastKeyToString ts key = Inr x" and "chain_Put ops mops c key v = (c', None)"
    and "\<And>s. s \<in> set (chain c) \<Longrightarrow> snd (op_Put ops s key v) = None"
    and "snd (op_Delete mops (missingCache c) key) = None"
    and "chain_Get ops mops zero c' key w = (c'', v', found, None)"
  shows "found \<and> v' = v \<and> coherent live exact mlive c' \<and> backend live c' = (backend live c)(x \<mapsto> v)"
proof -
  have p: "coherent live exact mlive c' \<and> backend live c' = (backend live c)(x \<mapsto> v)"
    using assms(1-6) by (rule kv_chain.chain_Put_law)
  then show ?thesis
    using kv_chain.chain_Get_law [OF assms(1) _ assms(3,7)] by (auto split: if_splits)
qed

theorem chain_Put_then_Get_witness:
  "\<exists>c' c''. chain_Put demoOps demoOps demo_chain (KStr ''a'') 7 = (c', None) \<and>
     chain_Get demoOps demoOps 0 c' (KStr ''a'') 0 = (c'', 7, True, None)"
proof -
  have x: "CastKeyToString demo_ts (KStr ''a'') = Inr ''a''" by (simp add: demo_ts_def CastKeyToString_def)
  obtain c' e where p: "chain_Put demoOps demoOps demo_chain (KStr ''a'') 7 = (c', e)" by (metis surj_pair)
  have "snd (chain_Put demoOps demoOps demo_chain (KStr ''a'') 7) = None" by code_simp
  with p have "e = None" by simp
  obtain c'' v' found err where g: "chain_Get demoOps demoOps 0 c' (KStr ''a'') 0 = (c'', v', found, err)"
    by (metis prod_cases4)
  have "snd (snd (snd (chain_Get demoOps demoOps 0 (fst (chain_Put demoOps demoOps demo_chain (KStr ''a'') 7)) (KStr ''a'') 0))) = None"
    by code_simp
  with p g have "err = None" by simp
  have "found \<and> v' = 7"
    using chain_Put_then_Get [OF memChain.kv_chain_axioms demo_coherent x, of 7 c' 0 0 c'' v' found] p g
      \<open>e = None\<close> \<open>err = None\<close> by (auto simp: memOps_def mem_Put_def mem_Delete_def x)
  with p g \<open>e = None\<close> \<open>err = None\<close> show ?thesis by auto
qed

text \<open>
  A deletion removes the key from the last store, or leaves the last store as it was when
  it reports an error; either way the chain stays coherent, so no level serves a deleted value.
\<close>

theorem chain_Delete_correct:
  assumes "kv_chain ts ops live exact mops mlive mexact" and "coherent live exact mlive c"
    and "CastKeyToString ts key = Inr x" and "chain_Delete ops c key = (c', err)"
  shows "coherent live exact mlive c' \<and>
    backend live c' = (if err = None then (backend live c)(x := None) else backend live c)"
  using assms by (rule kv_chain.chain_Delete_law)

theorem chain_Delete_correct_witness:
  "\<exists>c' err. chain_Delete demoOps demo_chain (KStr ''a'') = (c', err) \<and>
     coherent (mem_live gm_get) (mem_exact True) (mem_live gm_get) c'"
proof -
  obtain c' err where d: "chain_Delete demoOps demo_chain (KStr ''a'') = (c', err)" by (metis surj_pair)
  have "CastKeyToString demo_ts (KStr ''a'') = Inr ''a''" by (simp add: demo_ts_def CastKeyToString_def)
  from chain_Delete_correct [OF memChain.kv_chain_axioms demo_coherent this d] d show ?thesis by blast
qed



section \<open>Batches\<close>

lemma uniqLoop_Inr:
  "uniqLoop ts ks seen acc = Inr us \<Longrightarrow>
     (\<forall>k \<in> set ks. \<exists>x. CastKeyToString ts k = Inr x) \<and>
     us = acc @ firsts (CastKeyToString ts) (Inr ` set seen) ks"
proof (induction ks arbitrary: seen acc)
  case (Cons k ks)
  then obtain x where x: "CastKeyToString ts k = Inr x" by (auto split: sum.splits)
  show ?case
  proof (cases "x \<in> set seen")
    case True
    with Cons.prems x have "uniqLoop ts ks seen acc = Inr us" by simp
    from Cons.IH [OF this] x True show ?thesis by auto
  next
    case False
    with Cons.prems x have "uniqLoop ts ks (x # seen) (acc @ [k]) = Inr us" by simp
    from Cons.IH [OF this] x False show ?thesis by auto
  qed
qed simp

text \<open>
  Every store is asked for every key once. For keys that all have a string form the
  de-duplicated list holds one key per string form, the first requested one, and the chunks
  handed to the store are non-empty, hold at most a batch of keys each, and are the
  de-duplicated list cut in order; one key without a string form fails the whole request.
\<close>

theorem batches_cover_keys_once:
  assumes "UniqKeys ts ks = Inr us" and "0 < n"
  shows "concat (keyChunks us n) = us \<and> (\<forall>chunk \<in> set (keyChunks us n). chunk \<noteq> [] \<and> length chunk \<le> n) \<and>
    distinct (map (CastKeyToString ts) us) \<and> CastKeyToString ts ` set us = CastKeyToString ts ` set ks \<and>
    (\<forall>u \<in> set us. \<exists>xs ys. ks = xs @ u # ys \<and> CastKeyToString ts u \<notin> CastKeyToString ts ` set xs) \<and>
    (\<forall>k \<in> set ks. \<exists>x. CastKeyToString ts k = Inr x)"
proof -
  have u: "(\<forall>k \<in> set ks. \<exists>x. CastKeyToString ts k = Inr x)" "us = firsts (CastKeyToString ts) {} ks"
    using uniqLoop_Inr [of ts ks "[]" "[]" us] assms(1) by (simp_all add: UniqKeys_def)
  have "\<exists>xs ys. ks = xs @ k # ys \<and> CastKeyToString ts k \<notin> CastKeyToString ts ` set xs" if "k \<in> set us" for k
    using firsts_first [of k "CastKeyToString ts" "{}" ks] that u(2) by auto
  moreover have "CastKeyToString ts ` set us = CastKeyToString ts ` set ks" "distinct (map (CastKeyToString ts) us)"
    using firsts_keys [of "CastKeyToString ts" "{}" ks] firsts_distinct u(2) by auto
  moreover have "\<forall>chunk \<in> set (keyChunks us n). chunk \<noteq> [] \<and> length chunk \<le> n"
    using keyChunks_length by blast
  ultimately show ?thesis using concat_keyChunks [OF assms(2), of us] u(1) by simp
qed

theorem batches_cover_keys_once_witness:
  "\<exists>us. UniqKeys demo_ts [KStr ''1'', KInt 1, KStr ''b''] = Inr us \<and> concat (keyChunks us 1) = us"
proof -
  have "UniqKeys demo_ts [KStr ''1'', KInt 1, KStr ''b''] = Inr [KStr ''1'', KStr ''b'']" by code_simp
  with batches_cover_keys_once [OF this, of 1] show ?thesis by auto
qed

section \<open>Where the stores go wrong\<close>

text \<open>
  The metric store hides failed writes. When the inner store cannot store a value, the
  chain in front of the bare store reports the failure, but with metrics enabled the same
  \<open>Put\<close> reports success and even drops the key from the cache of missing keys, although
  nothing was stored.
\<close>

theorem metric_store_hides_failed_Put:
  assumes "op_Put ops (inner s) key v = (i, Some e)"
  shows "snd (chain_Put ops mops \<lparr>chain = [inner s], missingCache = m\<rparr> key v) \<noteq> None \<and>
    chain_Put (metricOps ops) mops \<lparr>chain = [s], missingCache = m\<rparr> key v =
      (\<lparr>chain = [s\<lparr>inner := i\<rparr>], missingCache = fst (op_Delete mops m key)\<rparr>, None)"
  using assms by (simp add: chain_Put_def metricOps_def metric_Put_def Let_def)

theorem metric_store_hides_failed_Put_witness:
  "snd (chain_Put (metricOps demoOps) emptyOps
     \<lparr>chain = [\<lparr>inner = demo_mem [], m_reads = 0, m_hits = 0, m_writes = 0, m_deletes = 0\<rparr>], missingCache = ()\<rparr>
     (KOther ''struct'' ''x'') 5) = None"
proof -
  let ?s = "\<lparr>inner = demo_mem [], m_reads = 0, m_hits = 0, m_writes = 0, m_deletes = 0\<rparr>"
  obtain e where "op_Put demoOps (inner ?s) (KOther ''struct'' ''x'') 5 = (demo_mem [], Some e)"
    by (simp add: memOps_def mem_Put_def CastKeyToString_def demo_ts_def)
  from metric_store_hides_failed_Put [OF this, of emptyOps "()"] show ?thesis by simp
qed

text \<open>
  A key that has no string form makes a batch read disappear. With an in-memory cache of
  missing keys, reading that cache fails, the error is only logged, and the nil list of
  remaining keys ends \<open>GetBatch\<close>: it returns no values, no missing keys and no error, whatever
  the other keys are and whatever the stores hold. No store of the chain is asked.
\<close>

theorem GetBatch_drops_all_keys:
  assumes "k \<in> set ks" and "CastKeyToString ts k = Inl e"
  shows "chain_GetBatch ops (memOps ts cc zero) zero c (Val ks) (Val rm) = (c, Val rm, [], None)"
proof -
  have "\<exists>err. UniqKeys ts ks = Inl err"
    using uniqLoop_Inr [of ts ks "[]" "[]"] assms by (cases "UniqKeys ts ks") (force simp: UniqKeys_def)+
  then show ?thesis
    by (auto simp: chain_GetBatch_def InterfaceToInterfaceSlice_def getKeysFromMissingCache_def memOps_def
        mem_GetBatch_def getBatch_def)
qed

theorem GetBatch_drops_all_keys_witness:
  "chain_GetBatch demoOps demoOps 0 demo_chain (Val [KStr ''a'', KOther ''struct'' ''x''])
     (Val \<lparr>keyType = ''string'', mapValue = []\<rparr>) =
   (demo_chain, Val \<lparr>keyType = ''string'', mapValue = []\<rparr>, [], None)"
proof -
  have "\<exists>e. CastKeyToString demo_ts (KOther ''struct'' ''x'') = Inl e" by (simp add: CastKeyToString_def demo_ts_def)
  then obtain e where "CastKeyToString demo_ts (KOther ''struct'' ''x'') = Inl e" ..
  then show ?thesis by (intro GetBatch_drops_all_keys [where k = "KOther ''struct'' ''x''"]) simp_all
qed

text \<open>
  A batch read can write. When the caller's result map already has an entry at a requested
  key that no store holds, \<open>GetBatch\<close> takes that entry for a value found in the chain and puts it
  into the stores, the last one included, while it reports the key as missing and caches it
  as missing.
\<close>

theorem GetBatch_writes_callers_entries:
  "\<exists>c' rd. chain_GetBatch demoOps emptyOps 0 \<lparr>chain = [demo_mem []], missingCache = ()\<rparr> (Val [KStr x])
       (Val \<lparr>keyType = ''string'', mapValue = [(KStr x, w)]\<rparr>) = (c', rd, [KStr x], None) \<and>
     backend (mem_live gm_get) c' = [x \<mapsto> w]"
  by (auto simp: chain_GetBatch_def InterfaceToInterfaceSlice_def getKeysFromMissingCache_def memOps_def emptyOps_def
      empty_GetBatch_def mem_GetBatch_def getBatch_def UniqKeys_def CastKeyToString_def demo_ts_def MapOf_def
      mem_Get_def cache_Get_def listCache_def propagateToLowerCacheLevels_def InterfaceToMapInterfaceInterface_def
      refillElement_def missingInElement_def mem_PutBatch_def mem_Put_def cache_Set_def backend_def Let_def
      storeMissingKeys_def fun_eq_iff)

section \<open>The number of buckets\<close>

lemma length_filter_one:
  assumes "length (filter P xs) = 1" and "distinct xs"
  shows "\<exists>k \<in> set xs. \<forall>i \<in> set xs. P i \<longleftrightarrow> i = k"
proof -
  obtain k where k: "filter P xs = [k]" using assms(1) by (auto simp: length_Suc_conv)
  then have "set (filter P xs) = {k}" by simp
  then show ?thesis by auto
qed

lemma OnesCount32_one:
  assumes "OnesCount32 b = 1"
  shows "\<exists>k < 32. b = push_bit k 1"
proof -
  obtain k where k: "k < 32" "\<forall>i < 32. bit b i \<longleftrightarrow> i = k"
    using length_filter_one [OF assms [unfolded OnesCount32_def]] by auto
  have "b = push_bit k 1"
    by (rule bit_word_eqI) (use k in \<open>auto simp: bit_simps\<close>)
  with k(1) show ?thesis by blast
qed

text \<open>The exponent is the length of the binary representation.\<close>

lemma LeadingZeros32_top:
  assumes "b \<noteq> 0"
  defines "e \<equiv> 32 - LeadingZeros32 b"
  shows "0 < e" and "e \<le> 32" and "bit b (e - 1)" and "\<And>i. e \<le> i \<Longrightarrow> \<not> bit b i"
proof -
  let ?P = "\<lambda>i. \<not> bit b i"
  let ?t = "length (takeWhile ?P (rev [0..<32]))"
  have lt: "?t < 32"
  proof (rule ccontr)
    assume "\<not> ?t < 32"
    then have "takeWhile ?P (rev [0..<32]) = rev [0..<32]"
      by (metis length_rev length_upt diff_zero not_less takeWhile_eq_take take_all)
    then have "\<forall>i < 32. \<not> bit b i" by (metis atLeastLessThan_iff le0 set_rev set_upt takeWhile_eq_all_conv)
    then have "b = 0" by (intro bit_word_eqI) simp
    with assms(1) show False by simp
  qed
  have e: "e = 32 - ?t" by (simp add: e_def LeadingZeros32_def)
  show "0 < e" "e \<le> 32" using lt e by simp_all
  have "\<not> ?P (rev [0..<32] ! ?t)" using nth_length_takeWhile [of ?P "rev [0..<32]"] lt by simp
  then show "bit b (e - 1)" using lt e by (simp add: rev_nth)
  show "\<not> bit b i" if "e \<le> i" for i
  proof (cases "i < 32")
    case True
    then have "rev [0..<32] ! (31 - i) = i" by (simp add: rev_nth)
    moreover have "31 - i < ?t" using that True e lt by linarith
    ultimately show ?thesis using nth_mem [of "31 - i" "takeWhile ?P (rev [0..<32])"]
      by (metis set_takeWhileD takeWhile_nth)
  next
    case False
    then show ?thesis using bit_imp_le_length [of b i] by auto
  qed
qed

lemma unat_push_bit_one:
  assumes "e < 32"
  shows "unat (push_bit e (1 :: 32 word)) = 2 ^ e"
proof -
  have "(2::nat) ^ e < 2 ^ 32" using assms by (intro power_strict_increasing) simp_all
  then show ?thesis unfolding unsigned_push_bit_eq by (simp add: take_bit_eq_mod)
qed

text \<open>
  The number of buckets of the in-memory store is a power of two, whatever 32-bit number is
  configured, and never smaller than the configured number unless that exceeds the largest
  power of two that fits.
\<close>

theorem padBuckets_power_of_two:
  "\<exists>k < 32. padBuckets b = push_bit k 1 \<and> (b \<le> 2 ^ 31 \<longrightarrow> b \<le> padBuckets b)"
proof -
  consider (zero) "b = 0" | (one) "b \<noteq> 0" "OnesCount32 b = 1" | (pad) "b \<noteq> 0" "OnesCount32 b \<noteq> 1" by blast
  then show ?thesis
  proof cases
    case zero
    then show ?thesis by (intro exI [of _ 4]) (simp add: padBuckets_def push_bit_eq_mult)
  next
    case one
    with OnesCount32_one [OF one(2)] show ?thesis by (auto simp: padBuckets_def)
  next
    case pad
    define e where "e = 32 - LeadingZeros32 b"
    note top = LeadingZeros32_top [OF pad(1), folded e_def]
    show ?thesis
    proof (cases "e = 32")
      case True
      have "padBuckets b = push_bit 31 1" using pad True by (simp add: padBuckets_def Let_def flip: e_def)
      moreover have "b \<le> push_bit 31 1" if "b \<le> 2 ^ 31" using that by (simp add: push_bit_eq_mult)
      ultimately show ?thesis by (intro exI [of _ 31]) simp
    next
      case False
      then have e: "e < 32" using top(2) by simp
      have p: "padBuckets b = push_bit e 1" using pad False by (simp add: padBuckets_def Let_def flip: e_def)
      have "n < e" if "bit b n" for n using top(4) that not_le by blast
      then have "b = take_bit e b" by (intro bit_word_eqI) (auto simp: bit_simps)
      then have "unat b = unat b mod 2 ^ e" by (metis unsigned_take_bit_eq take_bit_eq_mod)
      then have "unat b < 2 ^ e" by (metis mod_less_divisor zero_less_numeral zero_less_power)
      moreover have "unat (push_bit e (1 :: 32 word)) = 2 ^ e"
        using e by (rule unat_push_bit_one)
      ultimately have "b \<le> padBuckets b" by (simp add: p word_le_nat_alt)
      with p e show ?thesis by blast
    qed
  qed
qed

theorem padBuckets_power_of_two_witness: "(5 :: 32 word) \<le> padBuckets 5"
proof -
  have "(5 :: 32 word) \<le> 2 ^ 31" by simp
  with padBuckets_power_of_two [of 5] show ?thesis by blast
qed

end
