(* ===== verification/Clock.thy ===== *)
theory Clock
  imports Prelude GoErrors
begin

text \<open>
  The fake clock, \<open>pkg/clock/fake_clock.go\<close>, \<open>fake_timer.go\<close> and \<open>fake_ticker.go\<close>.

  Times and durations are integers. The channels have room for one time, so a channel is an
  optional value; the channel of a sleeper outlives it and lives in \<open>fc_chans\<close> under its
  number, timers and tickers are never removed from the clock and keep their channel. A
  blocked call of \<open>BlockUntil\<close> waits for its channel, a number, to be closed. The clock's lock
  makes every operation atomic; sending to a full channel under the lock blocks for ever.
\<close>

section \<open>State\<close>

datatype 'a outcome = Done 'a | Panics goerr | Blocks

record fakeSleeper =
  sl_chan :: nat
  sl_remaining :: int

record fakeTimer =
  tm_chan :: "int option"
  tm_remaining :: int

record fakeTicker =
  tk_chan :: "int option"
  tk_remaining :: int
  tk_duration :: int

type_synonym blockerMap = "(int, nat list) gomap"

record fakeClock =
  fc_now :: int
  fc_sleepers :: "fakeSleeper list"
  fc_chans :: "int option list"
  fc_timers :: "fakeTimer list"
  fc_tickers :: "fakeTicker list"
  blockOnSleepers :: blockerMap
  blockOnTimers :: blockerMap
  blockOnTickers :: blockerMap
  fc_closed :: "nat list"
  fc_blockers :: nat
  nonBlockingSleep :: bool

definition NewFakeClockAt :: "int \<Rightarrow> (fakeClock \<Rightarrow> fakeClock) list \<Rightarrow> fakeClock" where
  "NewFakeClockAt t options = fold (\<lambda>opt c. opt c) options
     \<lparr>fc_now = t, fc_sleepers = [], fc_chans = [], fc_timers = [], fc_tickers = [], blockOnSleepers = [],
      blockOnTimers = [], blockOnTickers = [], fc_closed = [], fc_blockers = 0, nonBlockingSleep = False\<rparr>"

section \<open>Waiting for sleepers, timers and tickers\<close>

definition waitingSleepers :: "fakeClock \<Rightarrow> int" where
  "waitingSleepers f = fold (\<lambda>s r. if sl_remaining s > 0 then r + 1 else r) (fc_sleepers f) 0"

definition waitingTimers :: "fakeClock \<Rightarrow> int" where
  "waitingTimers f = fold (\<lambda>t r. if tm_remaining t > 0 then r + 1 else r) (fc_timers f) 0"

definition waitingTickers :: "fakeClock \<Rightarrow> int" where
  "waitingTickers f = fold (\<lambda>t r. if tk_duration t > 0 then r + 1 else r) (fc_tickers f) 0"

text \<open>\<open>notifyBlockers\<close>, to the remaining blockers and the channels it closes.\<close>

definition notifyBlockers :: "blockerMap \<Rightarrow> int \<Rightarrow> blockerMap \<times> nat list" where
  "notifyBlockers blockers waiting =
     fold (\<lambda>(waitingFor, waitingChannels) (result, closed).
         if waitingFor \<le> waiting then (result, closed @ waitingChannels)
         else (gm_set result waitingFor waitingChannels, closed))
       blockers ([], [])"

definition notifySleepers :: "fakeClock \<Rightarrow> fakeClock" where
  "notifySleepers f = (case notifyBlockers (blockOnSleepers f) (waitingSleepers f) of
     (b, closed) \<Rightarrow> f\<lparr>blockOnSleepers := b, fc_closed := fc_closed f @ closed\<rparr>)"

definition notifyTimers :: "fakeClock \<Rightarrow> fakeClock" where
  "notifyTimers f = (case notifyBlockers (blockOnTimers f) (waitingTimers f) of
     (b, closed) \<Rightarrow> f\<lparr>blockOnTimers := b, fc_closed := fc_closed f @ closed\<rparr>)"

definition notifyTickers :: "fakeClock \<Rightarrow> fakeClock" where
  "notifyTickers f = (case notifyBlockers (blockOnTickers f) (waitingTickers f) of
     (b, closed) \<Rightarrow> f\<lparr>blockOnTickers := b, fc_closed := fc_closed f @ closed\<rparr>)"

text \<open>The channel to wait for is \<open>None\<close> when the call returns at once.\<close>

definition addBlocker :: "blockerMap \<Rightarrow> int \<Rightarrow> nat \<Rightarrow> blockerMap" where
  "addBlocker b n ch = gm_set b n ((case gm_get b n of None \<Rightarrow> [] | Some chs \<Rightarrow> chs) @ [ch])"

definition BlockUntil :: "int \<Rightarrow> fakeClock \<Rightarrow> fakeClock \<times> nat option" where
  "BlockUntil n f =
     (if waitingSleepers f \<ge> n then (f, None)
      else (f\<lparr>blockOnSleepers := addBlocker (blockOnSleepers f) n (fc_blockers f), fc_blockers := fc_blockers f + 1\<rparr>,
            Some (fc_blockers f)))"

definition BlockUntilTimers :: "int \<Rightarrow> fakeClock \<Rightarrow> fakeClock \<times> nat option" where
  "BlockUntilTimers n f =
     (if waitingTimers f \<ge> n then (f, None)
      else (f\<lparr>blockOnTimers := addBlocker (blockOnTimers f) n (fc_blockers f), fc_blockers := fc_blockers f + 1\<rparr>,
            Some (fc_blockers f)))"

definition BlockUntilTickers :: "int \<Rightarrow> fakeClock \<Rightarrow> fakeClock \<times> nat option" where
  "BlockUntilTickers n f =
     (if waitingTickers f \<ge> n then (f, None)
      else (f\<lparr>blockOnTickers := addBlocker (blockOnTickers f) n (fc_blockers f), fc_blockers := fc_blockers f + 1\<rparr>,
            Some (fc_blockers f)))"

section \<open>Timers (fake\_timer.go)\<close>

definition sendTick :: "int \<Rightarrow> fakeTimer \<Rightarrow> fakeTimer" where
  "sendTick t tm = tm\<lparr>tm_chan := Some t\<rparr>"

definition timer_advance :: "int \<Rightarrow> int \<Rightarrow> fakeTimer \<Rightarrow> fakeTimer" where
  "timer_advance t d f =
     (if tm_remaining f > d then f\<lparr>tm_remaining := tm_remaining f - d\<rparr>
      else if tm_remaining f = 0 then f
      else sendTick t (f\<lparr>tm_remaining := 0\<rparr>))"

definition NewTimer :: "int \<Rightarrow> fakeClock \<Rightarrow> fakeClock" where
  "NewTimer d f =
     (let f = notifyTimers (f\<lparr>fc_timers := fc_timers f @ [\<lparr>tm_chan = None, tm_remaining = d\<rparr>]\<rparr>);
          i = length (fc_timers f) - 1
      in if d \<le> 0 then f\<lparr>fc_timers := (fc_timers f)[i := sendTick (fc_now f) (fc_timers f ! i)]\<rparr> else f)"

definition timer_Stop :: "nat \<Rightarrow> fakeClock \<Rightarrow> fakeClock \<times> bool" where
  "timer_Stop i f =
     (let oldRemaining = tm_remaining (fc_timers f ! i) in
      (f\<lparr>fc_timers := (fc_timers f)[i := (fc_timers f ! i)\<lparr>tm_remaining := 0\<rparr>]\<rparr>, oldRemaining \<noteq> 0))"

definition timer_Reset :: "nat \<Rightarrow> int \<Rightarrow> fakeClock \<Rightarrow> fakeClock" where
  "timer_Reset i d f =
     (let tm = (fc_timers f ! i)\<lparr>tm_remaining := d\<rparr>;
          tm = (if d \<le> 0 then sendTick (fc_now f) tm else tm)
      in notifyTimers (f\<lparr>fc_timers := (fc_timers f)[i := tm]\<rparr>))"

text \<open>A receive from the timer's channel, \<open>None\<close> while it is empty.\<close>

definition timer_receive :: "nat \<Rightarrow> fakeClock \<Rightarrow> fakeClock \<times> int option" where
  "timer_receive i f =
     (f\<lparr>fc_timers := (fc_timers f)[i := (fc_timers f ! i)\<lparr>tm_chan := None\<rparr>]\<rparr>, tm_chan (fc_timers f ! i))"

section \<open>Tickers (fake\_ticker.go)\<close>

definition NewTicker :: "int \<Rightarrow> fakeClock \<Rightarrow> fakeClock outcome" where
  "NewTicker d f =
     (if d \<le> 0 then Panics (Opaque ''non-positive interval for NewTicker'')
      else Done (notifyTickers
        (f\<lparr>fc_tickers := fc_tickers f @ [\<lparr>tk_chan = None, tk_remaining = d, tk_duration = d\<rparr>]\<rparr>)))"

definition ticker_Stop :: "nat \<Rightarrow> fakeClock \<Rightarrow> fakeClock" where
  "ticker_Stop i f =
     f\<lparr>fc_tickers := (fc_tickers f)[i := (fc_tickers f ! i)\<lparr>tk_remaining := 0, tk_duration := 0\<rparr>]\<rparr>"

definition ticker_Reset :: "nat \<Rightarrow> int \<Rightarrow> fakeClock \<Rightarrow> fakeClock outcome" where
  "ticker_Reset i d f =
     (if d \<le> 0 then Panics (Opaque ''non-positive interval for Reset'')
      else Done (notifyTickers
        (f\<lparr>fc_tickers := (fc_tickers f)[i := (fc_tickers f ! i)\<lparr>tk_remaining := d, tk_duration := d\<rparr>]\<rparr>)))"

definition ticker_advance :: "int \<Rightarrow> int \<Rightarrow> fakeTicker \<Rightarrow> fakeTicker" where
  "ticker_advance t d f =
     (if tk_duration f = 0 then f
      else if tk_remaining f > d then f\<lparr>tk_remaining := tk_remaining f - d\<rparr>
      else f\<lparr>tk_remaining := tk_duration f, tk_chan := Some t\<rparr>)"

section \<open>The clock (fake\_clock.go)\<close>

text \<open>
  \<open>fakeSleeper.advance\<close>, to the channels, the sleeper and whether to keep it; \<open>None\<close> when the
  send blocks.
\<close>

definition sleeper_advance ::
  "int \<Rightarrow> int \<Rightarrow> int option list \<Rightarrow> fakeSleeper \<Rightarrow> (int option list \<times> fakeSleeper \<times> bool) option" where
  "sleeper_advance t d chans s =
     (if sl_remaining s > d then Some (chans, s\<lparr>sl_remaining := sl_remaining s - d\<rparr>, True)
      else if sl_remaining s = 0 then Some (chans, s, False)
      else case chans ! sl_chan s of
        Some _ \<Rightarrow> None
      | None \<Rightarrow> Some (chans[sl_chan s := Some t], s\<lparr>sl_remaining := 0\<rparr>, False))"

fun advanceSleepers ::
  "int \<Rightarrow> int \<Rightarrow> int option list \<Rightarrow> fakeSleeper list \<Rightarrow> (int option list \<times> fakeSleeper list) option" where
  "advanceSleepers t d chans [] = Some (chans, [])"
| "advanceSleepers t d chans (s # ss) =
     (case sleeper_advance t d chans s of
        None \<Rightarrow> None
      | Some (chans', s', keep) \<Rightarrow>
          (case advanceSleepers t d chans' ss of
             None \<Rightarrow> None
           | Some (chans'', ss') \<Rightarrow> Some (chans'', if keep then s' # ss' else ss')))"

definition Advance :: "int \<Rightarrow> fakeClock \<Rightarrow> fakeClock outcome" where
  "Advance d f =
     (let f = f\<lparr>fc_now := fc_now f + d\<rparr> in
      case advanceSleepers (fc_now f) d (fc_chans f) (fc_sleepers f) of
        None \<Rightarrow> Blocks
      | Some (chans, newSleepers) \<Rightarrow>
          Done (f\<lparr>fc_chans := chans, fc_sleepers := newSleepers,
            fc_timers := map (timer_advance (fc_now f) d) (fc_timers f),
            fc_tickers := map (ticker_advance (fc_now f) d) (fc_tickers f)\<rparr>))"

definition Now :: "fakeClock \<Rightarrow> int" where "Now f = fc_now f"

definition Since :: "int \<Rightarrow> fakeClock \<Rightarrow> int" where "Since t f = Now f - t"

text \<open>\<open>After\<close> returns the number of the new channel.\<close>

definition After :: "int \<Rightarrow> fakeClock \<Rightarrow> fakeClock \<times> nat" where
  "After d f =
     (let c = length (fc_chans f);
          f = notifySleepers (f\<lparr>fc_chans := fc_chans f @ [None],
                fc_sleepers := fc_sleepers f @ [\<lparr>sl_chan = c, sl_remaining = d\<rparr>]\<rparr>)
      in (if d \<le> 0 then f\<lparr>fc_chans := (fc_chans f)[c := Some (fc_now f)]\<rparr> else f, c))"

text \<open>\<open>Sleep\<close> advances the clock, or waits for the channel whose number is returned.\<close>

definition Sleep :: "int \<Rightarrow> fakeClock \<Rightarrow> (fakeClock \<times> nat option) outcome" where
  "Sleep d f =
     (if nonBlockingSleep f
      then (case Advance d f of Done f' \<Rightarrow> Done (f', None) | Panics e \<Rightarrow> Panics e | Blocks \<Rightarrow> Blocks)
      else (case After d f of (f', c) \<Rightarrow> Done (f', Some c)))"

definition chan_receive :: "nat \<Rightarrow> fakeClock \<Rightarrow> fakeClock \<times> int option" where
  "chan_receive c f = (f\<lparr>fc_chans := (fc_chans f)[c := None]\<rparr>, fc_chans f ! c)"

section \<open>Operations as steps\<close>

datatype clockop =
    OAdvance int | OAfter int | OSleep int | OReceive nat
  | ONewTimer int | OStopTimer nat | OResetTimer nat int | OReceiveTimer nat
  | ONewTicker int | OStopTicker nat | OResetTicker nat int
  | OBlock int | OBlockTimers int | OBlockTickers int

definition done_of :: "'a outcome \<Rightarrow> 'a option" where
  "done_of r = (case r of Done x \<Rightarrow> Some x | _ \<Rightarrow> None)"

fun clock_step :: "clockop \<Rightarrow> fakeClock \<Rightarrow> fakeClock option" where
  "clock_step (OAdvance d) f = done_of (Advance d f)"
| "clock_step (OAfter d) f = Some (fst (After d f))"
| "clock_step (OSleep d) f = map_option fst (done_of (Sleep d f))"
| "clock_step (OReceive c) f = (if c < length (fc_chans f) then Some (fst (chan_receive c f)) else None)"
| "clock_step (ONewTimer d) f = Some (NewTimer d f)"
| "clock_step (OStopTimer i) f = (if i < length (fc_timers f) then Some (fst (timer_Stop i f)) else None)"
| "clock_step (OResetTimer i d) f = (if i < length (fc_timers f) then Some (timer_Reset i d f) else None)"
| "clock_step (OReceiveTimer i) f = (if i < length (fc_timers f) then Some (fst (timer_receive i f)) else None)"
| "clock_step (ONewTicker d) f = done_of (NewTicker d f)"
| "clock_step (OStopTicker i) f = (if i < length (fc_tickers f) then Some (ticker_Stop i f) else None)"
| "clock_step (OResetTicker i d) f = (if i < length (fc_tickers f) then done_of (ticker_Reset i d f) else None)"
| "clock_step (OBlock n) f = Some (fst (BlockUntil n f))"
| "clock_step (OBlockTimers n) f = Some (fst (BlockUntilTimers n f))"
| "clock_step (OBlockTickers n) f = Some (fst (BlockUntilTickers n f))"

fun clock_run :: "clockop list \<Rightarrow> fakeClock \<Rightarrow> fakeClock option" where
  "clock_run [] f = Some f"
| "clock_run (op # ops) f = (case clock_step op f of None \<Rightarrow> None | Some f' \<Rightarrow> clock_run ops f')"

section \<open>Counting what waits\<close>

lemma count_fold: "fold (\<lambda>x r. if P x then r + 1 else r) xs c = c + int (length (filter P xs))"
  by (induction xs arbitrary: c) auto

lemma waiting_eq:
  "waitingSleepers f = int (length (filter (\<lambda>s. sl_remaining s > 0) (fc_sleepers f)))"
  "waitingTimers f = int (length (filter (\<lambda>t. tm_remaining t > 0) (fc_timers f)))"
  "waitingTickers f = int (length (filter (\<lambda>t. tk_duration t > 0) (fc_tickers f)))"
  by (simp_all add: waitingSleepers_def waitingTimers_def waitingTickers_def count_fold)

lemma filter_map_le:
  "(\<And>x. P (g x) \<Longrightarrow> P x) \<Longrightarrow> length (filter P (map g xs)) \<le> length (filter P xs)"
  by (induction xs) (auto intro: le_SucI)

lemma filter_update_le:
  "i < length xs \<Longrightarrow> \<not> P y \<Longrightarrow> length (filter P (xs[i := y])) \<le> length (filter P xs)"
  by (induction xs arbitrary: i) (auto split: nat.split intro: le_SucI)

lemma notifyBlockers_spec:
  assumes "notifyBlockers b w = (b', closed)" and "gm_wf b"
  shows "gm_wf b' \<and> (\<forall>n. gm_get b' n = (if n \<le> w then None else gm_get b n)) \<and>
    (\<forall>n chs. gm_get b n = Some chs \<longrightarrow> n \<le> w \<longrightarrow> set chs \<subseteq> set closed)"
proof -
  have "fold (\<lambda>(waitingFor, waitingChannels) (result, closed).
         if waitingFor \<le> w then (result, closed @ waitingChannels)
         else (gm_set result waitingFor waitingChannels, closed)) b (r, c) = (b', closed) \<Longrightarrow>
      gm_wf r \<Longrightarrow> fst ` set r \<inter> fst ` set b = {} \<Longrightarrow>
      gm_wf b' \<and> (\<forall>n. gm_get b' n = (case gm_get b n of None \<Rightarrow> gm_get r n
          | Some v \<Rightarrow> if n \<le> w then gm_get r n else Some v)) \<and> set c \<subseteq> set closed \<and>
      (\<forall>n chs. gm_get b n = Some chs \<longrightarrow> n \<le> w \<longrightarrow> set chs \<subseteq> set closed)" if "gm_wf b" for b r c
    using that
  proof (induction b arbitrary: r c)
    case (Cons p b)
    obtain n chs where p: "p = (n, chs)" by (cases p)
    have fresh: "n \<notin> fst ` set b" "gm_wf b" "gm_get b n = None"
      using Cons.prems(4) by (simp_all add: p map_of_eq_None_iff)
    show ?case
    proof (cases "n \<le> w")
      case True
      have r: "fst ` set r \<inter> fst ` set b = {}" using Cons.prems(3) by (auto simp: p)
      have "gm_get r n = None" using Cons.prems(3) by (auto simp: p map_of_eq_None_iff)
      with Cons.IH [OF _ Cons.prems(2) r fresh(2), of "c @ chs"] Cons.prems(1) True fresh show ?thesis
        by (auto simp: p split: option.splits)
    next
      case False
      have r: "fst ` set (gm_set r n chs) \<inter> fst ` set b = {}"
        using Cons.prems(3) fresh(1) by (auto simp: p dom_update)
      from Cons.IH [OF _ gm_wf_set [OF Cons.prems(2)] r fresh(2), of c] Cons.prems(1) False fresh show ?thesis
        by (auto simp: p split: option.splits)
    qed
  qed simp
  from this [OF assms(2), of "[]" "[]"] assms(1) show ?thesis
    by (auto simp: notifyBlockers_def split: option.splits)
qed

section \<open>No lost wake-up\<close>

definition registered :: "blockerMap \<Rightarrow> nat \<Rightarrow> bool" where
  "registered b ch \<longleftrightarrow> (\<exists>n chs. gm_get b n = Some chs \<and> ch \<in> set chs)"

text \<open>Every registered waiter waits for more than there is.\<close>

definition waits :: "blockerMap \<Rightarrow> int \<Rightarrow> bool" where
  "waits b w \<longleftrightarrow> gm_wf b \<and> (\<forall>n. gm_has b n \<longrightarrow> w < n)"

definition clock_inv :: "fakeClock \<Rightarrow> bool" where
  "clock_inv f \<longleftrightarrow> waits (blockOnSleepers f) (waitingSleepers f) \<and> waits (blockOnTimers f) (waitingTimers f) \<and>
     waits (blockOnTickers f) (waitingTickers f) \<and>
     (\<forall>ch < fc_blockers f. ch \<in> set (fc_closed f) \<or> registered (blockOnSleepers f) ch \<or>
        registered (blockOnTimers f) ch \<or> registered (blockOnTickers f) ch)"

lemma waits_mono: "waits b w \<Longrightarrow> w' \<le> w \<Longrightarrow> waits b w'"
  by (force simp: waits_def)

lemma notify_waits:
  assumes "notifyBlockers b w = (b', closed)" and "gm_wf b"
  shows "waits b' w" and "registered b ch \<Longrightarrow> registered b' ch \<or> ch \<in> set closed"
proof -
  note spec = notifyBlockers_spec [OF assms]
  then show "waits b' w" by (auto simp: waits_def split: if_splits)
  show "registered b' ch \<or> ch \<in> set closed" if "registered b ch"
  proof -
    from that obtain n chs where n: "gm_get b n = Some chs" "ch \<in> set chs" by (auto simp: registered_def)
    show ?thesis
    proof (cases "n \<le> w")
      case True
      with spec n show ?thesis by blast
    next
      case False
      with spec n have "gm_get b' n = Some chs" by simp
      with n(2) show ?thesis by (auto simp: registered_def)
    qed
  qed
qed

lemma addBlocker_waits:
  assumes "waits b w" and "w < n"
  shows "waits (addBlocker b n ch) w" and "registered (addBlocker b n ch) ch"
    and "registered b c \<Longrightarrow> registered (addBlocker b n ch) c"
proof -
  show "waits (addBlocker b n ch) w" using assms by (auto simp: waits_def addBlocker_def)
  show "registered (addBlocker b n ch) ch" by (auto simp: registered_def addBlocker_def)
  show "registered (addBlocker b n ch) c" if "registered b c"
  proof -
    from that obtain m chs where m: "gm_get b m = Some chs" "c \<in> set chs" by (auto simp: registered_def)
    show ?thesis
      unfolding registered_def
      by (rule exI [of _ m], rule exI [of _ "if m = n then chs @ [ch] else chs"]) (use m in \<open>auto simp: addBlocker_def\<close>)
  qed
qed

lemmas notify_defs = notifySleepers_def notifyTimers_def notifyTickers_def

text \<open>The three notifications restore the invariant after an arbitrary change of their list.\<close>

lemma notifySleepers_inv:
  assumes "gm_wf (blockOnSleepers f)" and "waits (blockOnTimers f) (waitingTimers f)"
    and "waits (blockOnTickers f) (waitingTickers f)"
    and "\<forall>ch < fc_blockers f. ch \<in> set (fc_closed f) \<or> registered (blockOnSleepers f) ch \<or>
        registered (blockOnTimers f) ch \<or> registered (blockOnTickers f) ch"
  shows "clock_inv (notifySleepers f)"
proof -
  obtain b cl where n: "notifyBlockers (blockOnSleepers f) (waitingSleepers f) = (b, cl)" by (metis surj_pair)
  with notify_waits [OF n assms(1)] assms(2-) show ?thesis
    by (auto simp: clock_inv_def notifySleepers_def waiting_eq)
qed

lemma notifyTimers_inv:
  assumes "gm_wf (blockOnTimers f)" and "waits (blockOnSleepers f) (waitingSleepers f)"
    and "waits (blockOnTickers f) (waitingTickers f)"
    and "\<forall>ch < fc_blockers f. ch \<in> set (fc_closed f) \<or> registered (blockOnSleepers f) ch \<or>
        registered (blockOnTimers f) ch \<or> registered (blockOnTickers f) ch"
  shows "clock_inv (notifyTimers f)"
proof -
  obtain b cl where n: "notifyBlockers (blockOnTimers f) (waitingTimers f) = (b, cl)" by (metis surj_pair)
  with notify_waits [OF n assms(1)] assms(2-) show ?thesis
    by (auto simp: clock_inv_def notifyTimers_def waiting_eq)
qed

lemma notifyTickers_inv:
  assumes "gm_wf (blockOnTickers f)" and "waits (blockOnSleepers f) (waitingSleepers f)"
    and "waits (blockOnTimers f) (waitingTimers f)"
    and "\<forall>ch < fc_blockers f. ch \<in> set (fc_closed f) \<or> registered (blockOnSleepers f) ch \<or>
        registered (blockOnTimers f) ch \<or> registered (blockOnTickers f) ch"
  shows "clock_inv (notifyTickers f)"
proof -
  obtain b cl where n: "notifyBlockers (blockOnTickers f) (waitingTickers f) = (b, cl)" by (metis surj_pair)
  with notify_waits [OF n assms(1)] assms(2-) show ?thesis
    by (auto simp: clock_inv_def notifyTickers_def waiting_eq)
qed

lemma Advance_effect:
  assumes "Advance d f = Done f'"
  shows "fc_now f' = fc_now f + d" and "fc_timers f' = map (timer_advance (fc_now f + d) d) (fc_timers f)"
    and "fc_tickers f' = map (ticker_advance (fc_now f + d) d) (fc_tickers f)"
    and "blockOnSleepers f' = blockOnSleepers f" "blockOnTimers f' = blockOnTimers f"
    and "blockOnTickers f' = blockOnTickers f" "fc_closed f' = fc_closed f" "fc_blockers f' = fc_blockers f"
    and "\<exists>chans. advanceSleepers (fc_now f + d) d (fc_chans f) (fc_sleepers f) = Some (chans, fc_sleepers f')"
  using assms by (auto simp: Advance_def Let_def split: option.splits)

lemma advanceSleepers_count:
  assumes "advanceSleepers t d chans ss = Some (chans', ss')" and "0 \<le> d"
  shows "length (filter (\<lambda>s. sl_remaining s > 0) ss') \<le> length (filter (\<lambda>s. sl_remaining s > 0) ss)"
  using assms
proof (induction ss arbitrary: chans chans' ss')
  case (Cons s ss)
  then obtain c1 s1 k ss1 where s: "sleeper_advance t d chans s = Some (c1, s1, k)"
    "advanceSleepers t d c1 ss = Some (chans', ss1)" "ss' = (if k then s1 # ss1 else ss1)"
    by (auto split: option.splits)
  have "k \<Longrightarrow> sl_remaining s > 0" using s(1) Cons.prems(2) by (auto simp: sleeper_advance_def split: if_splits option.splits)
  with Cons.IH [OF s(2) Cons.prems(2)] s(3) show ?case by auto
qed simp

lemma Advance_inv:
  assumes "Advance d f = Done f'" and "0 \<le> d" and "clock_inv f"
  shows "clock_inv f'"
proof -
  note eff = Advance_effect [OF assms(1)]
  obtain chans where "advanceSleepers (fc_now f + d) d (fc_chans f) (fc_sleepers f) = Some (chans, fc_sleepers f')"
    using eff(9) by blast
  then have "waitingSleepers f' \<le> waitingSleepers f"
    using advanceSleepers_count assms(2) by (simp add: waiting_eq)
  moreover have "waitingTimers f' \<le> waitingTimers f"
    unfolding waiting_eq eff of_nat_le_iff
    by (rule filter_map_le) (use assms(2) in \<open>auto simp: timer_advance_def sendTick_def split: if_splits\<close>)
  moreover have "waitingTickers f' \<le> waitingTickers f"
    unfolding waiting_eq eff of_nat_le_iff
    by (rule filter_map_le) (auto simp: ticker_advance_def split: if_splits)
  ultimately show ?thesis
    using assms(3) waits_mono unfolding clock_inv_def eff by blast
qed

definition forward :: "clockop \<Rightarrow> bool" where
  "forward op = (case op of OAdvance d \<Rightarrow> 0 \<le> d | OSleep d \<Rightarrow> 0 \<le> d | _ \<Rightarrow> True)"

lemma After_inv:
  assumes "clock_inv f"
  shows "clock_inv (fst (After d f))"
proof -
  let ?f = "f\<lparr>fc_chans := fc_chans f @ [None],
    fc_sleepers := fc_sleepers f @ [\<lparr>sl_chan = length (fc_chans f), sl_remaining = d\<rparr>]\<rparr>"
  have "clock_inv (notifySleepers ?f)"
    by (rule notifySleepers_inv) (use assms in \<open>simp_all add: clock_inv_def waits_def waiting_eq\<close>)
  then show ?thesis by (simp add: After_def Let_def clock_inv_def waiting_eq)
qed

lemma timer_update_inv:
  assumes "clock_inv f" and "i < length (fc_timers f)" and "tm_remaining tm \<le> 0 \<or> tm_remaining tm = tm_remaining (fc_timers f ! i)"
  shows "clock_inv (f\<lparr>fc_timers := (fc_timers f)[i := tm]\<rparr>)"
proof -
  have "length (filter (\<lambda>t. tm_remaining t > 0) ((fc_timers f)[i := tm])) \<le>
      length (filter (\<lambda>t. tm_remaining t > 0) (fc_timers f))"
  proof (cases "tm_remaining tm \<le> 0")
    case True
    then show ?thesis using assms(2) by (intro filter_update_le) simp_all
  next
    case False
    then have eq: "tm_remaining tm = tm_remaining (fc_timers f ! i)" using assms(3) by simp
    have "map tm_remaining ((fc_timers f)[i := tm]) = map tm_remaining (fc_timers f)"
      by (simp add: map_update eq) (metis assms(2) list_update_id map_update nth_map)
    then have "length (filter (\<lambda>r. r > 0) (map tm_remaining ((fc_timers f)[i := tm]))) =
        length (filter (\<lambda>r. r > 0) (map tm_remaining (fc_timers f)))" by simp
    then show ?thesis by (simp add: filter_map o_def)
  qed
  then show ?thesis
    using assms(1) by (auto simp: clock_inv_def waiting_eq intro: waits_mono)
qed

lemma NewTimer_inv:
  assumes "clock_inv f"
  shows "clock_inv (NewTimer d f)"
proof -
  let ?f = "f\<lparr>fc_timers := fc_timers f @ [\<lparr>tm_chan = None, tm_remaining = d\<rparr>]\<rparr>"
  have inv: "clock_inv (notifyTimers ?f)"
    by (rule notifyTimers_inv) (use assms in \<open>simp_all add: clock_inv_def waits_def waiting_eq\<close>)
  have "fc_timers (notifyTimers ?f) = fc_timers ?f" by (simp add: notifyTimers_def split: prod.split)
  then show ?thesis
    using timer_update_inv [OF inv, of "length (fc_timers f)"] inv
    by (simp add: NewTimer_def Let_def sendTick_def)
qed

lemma clock_step_inv:
  assumes "clock_step op f = Some f'" and "forward op" and "clock_inv f"
  shows "clock_inv f'"
proof (cases op)
  case (OAdvance d)
  with assms show ?thesis
    by (auto simp: done_of_def forward_def split: outcome.splits intro: Advance_inv)
next
  case (OSleep d)
  with assms show ?thesis
    using After_inv [OF assms(3), of d]
    by (auto simp: done_of_def forward_def Sleep_def split: outcome.splits if_splits prod.splits intro: Advance_inv)
next
  case (OStopTimer i)
  with assms show ?thesis by (auto simp: timer_Stop_def Let_def split: if_splits intro: timer_update_inv)
next
  case (OReceiveTimer i)
  with assms show ?thesis by (auto simp: timer_receive_def split: if_splits intro: timer_update_inv)
next
  case (OResetTimer i d)
  let ?g = "\<lambda>tm. notifyTimers (f\<lparr>fc_timers := (fc_timers f)[i := tm]\<rparr>)"
  have "clock_inv (?g tm)" for tm
    by (rule notifyTimers_inv) (use assms(3) in \<open>simp_all add: clock_inv_def waits_def waiting_eq\<close>)
  with OResetTimer assms(1) show ?thesis by (auto simp: timer_Reset_def Let_def split: if_splits)
next
  case (ONewTicker d)
  have "clock_inv (notifyTickers (f\<lparr>fc_tickers := ts\<rparr>))" for ts
    by (rule notifyTickers_inv) (use assms(3) in \<open>simp_all add: clock_inv_def waits_def waiting_eq\<close>)
  with ONewTicker assms(1) show ?thesis by (auto simp: NewTicker_def done_of_def split: if_splits)
next
  case (OResetTicker i d)
  have "clock_inv (notifyTickers (f\<lparr>fc_tickers := ts\<rparr>))" for ts
    by (rule notifyTickers_inv) (use assms(3) in \<open>simp_all add: clock_inv_def waits_def waiting_eq\<close>)
  with OResetTicker assms(1) show ?thesis by (auto simp: ticker_Reset_def done_of_def split: if_splits)
next
  case (OStopTicker i)
  with assms(1) have i: "i < length (fc_tickers f)" "f' = ticker_Stop i f" by (auto split: if_splits)
  then have "waitingTickers f' \<le> waitingTickers f"
    unfolding waiting_eq ticker_Stop_def by (simp add: filter_update_le)
  moreover have "waitingTimers f' = waitingTimers f" "waitingSleepers f' = waitingSleepers f"
    by (simp_all add: i waiting_eq ticker_Stop_def)
  ultimately show ?thesis
    using assms(3) i(2) by (auto simp: clock_inv_def ticker_Stop_def intro: waits_mono)
next
  case (OBlock n)
  then show ?thesis
    using assms(1,3) addBlocker_waits [where b = "blockOnSleepers f" and w = "waitingSleepers f" and n = n and ch = "fc_blockers f"]
    by (auto simp: BlockUntil_def clock_inv_def waiting_eq less_Suc_eq split: if_splits)
next
  case (OBlockTimers n)
  then show ?thesis
    using assms(1,3) addBlocker_waits [where b = "blockOnTimers f" and w = "waitingTimers f" and n = n and ch = "fc_blockers f"]
    by (auto simp: BlockUntilTimers_def clock_inv_def waiting_eq less_Suc_eq split: if_splits)
next
  case (OBlockTickers n)
  then show ?thesis
    using assms(1,3) addBlocker_waits [where b = "blockOnTickers f" and w = "waitingTickers f" and n = n and ch = "fc_blockers f"]
    by (auto simp: BlockUntilTickers_def clock_inv_def waiting_eq less_Suc_eq split: if_splits)
next
  case (OReceive c)
  with assms(1) have "f' = fst (chan_receive c f)" by (auto split: if_splits)
  with assms(3) show ?thesis by (simp add: chan_receive_def clock_inv_def waiting_eq)
qed (use assms in \<open>auto simp: After_inv NewTimer_inv\<close>)

section \<open>Properties\<close>

text \<open>
  C15. No wake-up is lost. After any sequence of operations that never moves the clock
  backwards, every call of \<open>BlockUntil\<close>, \<open>BlockUntilTimers\<close> or \<open>BlockUntilTickers\<close> that had to wait
  either has been woken or still waits for more sleepers, timers or tickers than there are.
\<close>

theorem no_lost_wakeup:
  assumes "clock_run ops (NewFakeClockAt t []) = Some f" and "\<forall>op \<in> set ops. forward op" and "ch < fc_blockers f"
  shows "ch \<in> set (fc_closed f) \<or>
    (\<exists>n chs. ch \<in> set chs \<and>
      (gm_get (blockOnSleepers f) n = Some chs \<and> waitingSleepers f < n \<or>
       gm_get (blockOnTimers f) n = Some chs \<and> waitingTimers f < n \<or>
       gm_get (blockOnTickers f) n = Some chs \<and> waitingTickers f < n))"
proof -
  have "clock_run ops g = Some f \<Longrightarrow> clock_inv g \<Longrightarrow> \<forall>op \<in> set ops. forward op \<Longrightarrow> clock_inv f" for g
    by (induction ops arbitrary: g) (auto split: option.splits intro: clock_step_inv)
  moreover have "clock_inv (NewFakeClockAt t [])"
    by (simp add: clock_inv_def waits_def NewFakeClockAt_def)
  ultimately have "clock_inv f" using assms(1,2) by blast
  then show ?thesis
    using assms(3) unfolding clock_inv_def registered_def waits_def by (metis option.distinct(1))
qed

theorem no_lost_wakeup_witness:
  "\<exists>f. clock_run [OBlockTimers 2, ONewTimer 5, OAdvance 5, ONewTimer 3, OResetTimer 0 4] (NewFakeClockAt 0 []) = Some f \<and>
     0 \<in> set (fc_closed f)"
proof -
  let ?ops = "[OBlockTimers 2, ONewTimer 5, OAdvance 5, ONewTimer 3, OResetTimer 0 4]"
  have run: "case clock_run ?ops (NewFakeClockAt 0 []) of None \<Rightarrow> False
      | Some f \<Rightarrow> 0 < fc_blockers f \<and> blockOnSleepers f = [] \<and> blockOnTimers f = [] \<and> blockOnTickers f = []"
    by code_simp
  then obtain f where f: "clock_run ?ops (NewFakeClockAt 0 []) = Some f" "0 < fc_blockers f"
    "blockOnSleepers f = []" "blockOnTimers f = []" "blockOnTickers f = []"
    by (auto split: option.splits)
  with no_lost_wakeup [OF f(1) _ f(2)] show ?thesis by (simp add: forward_def)
qed

lemma done_of_Some: "done_of r = Some x \<longleftrightarrow> r = Done x"
  by (cases r) (simp_all add: done_of_def)

text \<open>The effect of a sequence of advances on one timer.\<close>

lemma advances_timer:
  assumes "clock_run (map OAdvance ds) f = Some f'" and "\<forall>d \<in> set ds. 0 \<le> d" and "i < length (fc_timers f)"
    and "0 < tm_remaining (fc_timers f ! i)"
  shows "fc_now f' = fc_now f + sum_list ds \<and> i < length (fc_timers f') \<and>
    (if sum_list ds < tm_remaining (fc_timers f ! i)
     then tm_remaining (fc_timers f' ! i) = tm_remaining (fc_timers f ! i) - sum_list ds \<and>
       tm_chan (fc_timers f' ! i) = tm_chan (fc_timers f ! i)
     else tm_remaining (fc_timers f' ! i) = 0 \<and>
       (\<exists>k \<le> length ds. tm_remaining (fc_timers f ! i) \<le> sum_list (take k ds) \<and>
          (\<forall>j < k. sum_list (take j ds) < tm_remaining (fc_timers f ! i)) \<and>
          tm_chan (fc_timers f' ! i) = Some (fc_now f + sum_list (take k ds))))"
  using assms
proof (induction ds arbitrary: f' rule: rev_induct)
  case (snoc d ds)
  have run: "clock_run (ops @ ops') g = Option.bind (clock_run ops g) (clock_run ops')" for ops ops' g
    by (induction ops arbitrary: g) (auto split: option.splits)
  from snoc.prems(1) obtain g where g: "clock_run (map OAdvance ds) f = Some g" "Advance d g = Done f'"
    by (auto simp: run done_of_Some bind_eq_Some_conv split: option.splits)
  note eff = Advance_effect [OF g(2)]
  have d: "0 \<le> d" "\<forall>d \<in> set ds. 0 \<le> d" using snoc.prems(2) by simp_all
  let ?r = "tm_remaining (fc_timers f ! i)"
  note IH = snoc.IH [OF g(1) d(2) snoc.prems(3,4)]
  have i: "i < length (fc_timers g)" "fc_now g = fc_now f + sum_list ds" using IH by simp_all
  have nth: "fc_timers f' ! i = timer_advance (fc_now g + d) d (fc_timers g ! i)" using eff(2) i(1) by simp
  have now: "fc_now f' = fc_now f + sum_list (ds @ [d])" "i < length (fc_timers f')" using eff(1,2) i by simp_all
  show ?case
  proof (cases "sum_list ds < ?r")
    case True
    then have tm: "tm_remaining (fc_timers g ! i) = ?r - sum_list ds" "tm_chan (fc_timers g ! i) = tm_chan (fc_timers f ! i)"
      using IH by simp_all
    show ?thesis
    proof (cases "sum_list ds + d < ?r")
      case True
      then show ?thesis using tm now by (simp add: nth timer_advance_def)
    next
      case False
      have "sum_list (take j (ds @ [d])) < ?r" if "j < length (ds @ [d])" for j
      proof -
        have "sum_list ds = sum_list (take j ds) + sum_list (drop j ds)" by (metis append_take_drop_id sum_list_append)
        moreover have "0 \<le> sum_list (drop j ds)" using d(2) by (intro sum_list_nonneg) (auto dest: in_set_dropD)
        ultimately show ?thesis using that \<open>sum_list ds < ?r\<close> by simp
      qed
      moreover have "tm_remaining (fc_timers f' ! i) = 0"
        "tm_chan (fc_timers f' ! i) = Some (fc_now f + sum_list (ds @ [d]))"
        using False \<open>sum_list ds < ?r\<close> tm i(2) by (simp_all add: nth timer_advance_def sendTick_def)
      ultimately show ?thesis
        using False now by (auto intro!: exI [of _ "Suc (length ds)"])
    qed
  next
    case False
    then obtain k where k: "k \<le> length ds" "?r \<le> sum_list (take k ds)" "\<forall>j < k. sum_list (take j ds) < ?r"
      "tm_chan (fc_timers g ! i) = Some (fc_now f + sum_list (take k ds))" "tm_remaining (fc_timers g ! i) = 0"
      using IH by auto
    have "fc_timers f' ! i = fc_timers g ! i" using k(5) d(1) by (simp add: nth timer_advance_def)
    moreover have "\<not> sum_list (ds @ [d]) < ?r" using False d(1) by simp
    ultimately show ?thesis using k now by (auto intro!: exI [of _ k])
  qed
qed simp

text \<open>
  C16. A timer fires once and on time. Under any sequence of non-negative advances a running
  timer stays silent as long as less than its duration has passed, and then holds exactly the
  time of the first advance that reached its deadline, whatever follows, until it is reset.
\<close>

theorem timer_fires_once:
  assumes "clock_run (map OAdvance ds) f = Some f'" and "\<forall>d \<in> set ds. 0 \<le> d" and "i < length (fc_timers f)"
    and "0 < tm_remaining (fc_timers f ! i)"
  shows "if sum_list ds < tm_remaining (fc_timers f ! i)
     then tm_chan (fc_timers f' ! i) = tm_chan (fc_timers f ! i)
     else \<exists>k \<le> length ds. tm_remaining (fc_timers f ! i) \<le> sum_list (take k ds) \<and>
          (\<forall>j < k. sum_list (take j ds) < tm_remaining (fc_timers f ! i)) \<and>
          tm_chan (fc_timers f' ! i) = Some (fc_now f + sum_list (take k ds))"
  using advances_timer [OF assms] by (auto split: if_splits)

theorem timer_fires_once_witness:
  "\<exists>f'. clock_run (map OAdvance [3, 4, 5]) (NewTimer 6 (NewFakeClockAt 100 [])) = Some f' \<and>
     tm_chan (fc_timers f' ! 0) \<noteq> None"
proof -
  have t: "fc_timers (NewTimer 6 (NewFakeClockAt 100 [])) = [\<lparr>tm_chan = None, tm_remaining = 6\<rparr>]"
    by (simp add: NewTimer_def NewFakeClockAt_def Let_def notifyTimers_def notifyBlockers_def)
  have "clock_run (map OAdvance [3, 4, 5]) (NewTimer 6 (NewFakeClockAt 100 [])) \<noteq> None" by code_simp
  then obtain f' where f': "clock_run (map OAdvance [3, 4, 5]) (NewTimer 6 (NewFakeClockAt 100 [])) = Some f'"
    by auto
  from timer_fires_once [OF this, of 0] f' show ?thesis by (auto simp: t)
qed

text \<open>
  A negative duration is not handled like an expired one. A timer created with a negative
  duration fires at once, and fires a second time on the next advance, although it was
  already read; and after \<open>After\<close> with a negative duration the next advance blocks for ever on
  the full channel while it holds the lock of the clock.
\<close>

theorem negative_duration_misfires:
  assumes "d < 0" and "0 \<le> e"
  shows "tm_chan (fc_timers (NewTimer d (NewFakeClockAt t [])) ! 0) = Some t \<and>
    (\<exists>f. clock_run [ONewTimer d, OReceiveTimer 0, OAdvance e] (NewFakeClockAt t []) = Some f \<and>
       tm_chan (fc_timers f ! 0) = Some (t + e)) \<and>
    Advance e (fst (After d (NewFakeClockAt t []))) = Blocks"
  using assms
  by (auto simp: NewTimer_def NewFakeClockAt_def Let_def notifyTimers_def notifyBlockers_def sendTick_def
      timer_receive_def Advance_def timer_advance_def done_of_def After_def notifySleepers_def sleeper_advance_def)

theorem negative_duration_misfires_witness:
  "Advance 1 (fst (After (- 5) (NewFakeClockAt 0 []))) = Blocks"
  using negative_duration_misfires [of "- 5" 1 0] by simp

end
