(* ===== verification/ProducerDaemon.thy ===== *)
theory ProducerDaemon
  imports Complex_Main Prelude GoErrors
begin

text \<open>
  The producer daemon of \<open>pkg/stream\<close>: batching (\<open>producer_daemon_batcher.go\<close>), aggregation
  (\<open>producer_daemon_aggregator.go\<close>, \<open>producer_daemon_noop_aggregator.go\<close>,
  \<open>producer_daemon_partitioned_aggregator.go\<close>), the output channel (\<open>output_channel.go\<close>) and
  the daemon itself (\<open>producer_daemon.go\<close>). Bytes are characters.

  \<open>daemon_env\<close> holds what the code calls outside: \<open>json.Marshal\<close> of a message, the bytes a gzip
  writer has put into its buffer after some writes and after closing it, base64, rounding to
  \<open>float32\<close>, md5 and the random source. Writers to memory do not fail. The daemon's lock makes
  every operation atomic; metrics and logs leave no trace.
\<close>

section \<open>Messages and settings\<close>

record Message =
  Attributes :: "(string, string) gomap"
  Body :: string

datatype WritableMessage = Msg Message | OtherWritable string

record rawJsonMessage =
  raw_attributes :: "(string, string) gomap"
  raw_body :: string

record ProducerDaemonSettings =
  BatchSize :: int
  BatchMaxSize :: int
  AggregationSize :: int
  AggregationMaxSize :: int
  PartitionBucketCount :: int
  MessageAttributes :: "(string, string) gomap"

record daemon_env =
  marshal :: "Message \<Rightarrow> goerr + string"
  gzipBuffer :: "string list \<Rightarrow> string"
  gzipClosed :: "string list \<Rightarrow> string"
  base64Encode :: "string \<Rightarrow> string"
  float32 :: "rat \<Rightarrow> rat"
  md5Sum :: "string \<Rightarrow> nat"
  randIntn :: "nat \<Rightarrow> nat \<Rightarrow> nat"

definition setAttributes :: "(string, string) gomap \<Rightarrow> (string, string) gomap \<Rightarrow> (string, string) gomap" where
  "setAttributes attrs m = fold (\<lambda>(k, v) m. gm_set m k v) attrs m"

definition NewMessage :: "string \<Rightarrow> (string, string) gomap list \<Rightarrow> Message" where
  "NewMessage body attributes = \<lparr>Attributes = fold setAttributes attributes [], Body = body\<rparr>"

definition BuildAggregateMessage :: "string \<Rightarrow> (string, string) gomap list \<Rightarrow> Message" where
  "BuildAggregateMessage aggregateBody attributes =
     NewMessage aggregateBody (attributes @ [[(''goso.aggregate'', ''true'')]])"

section \<open>The batcher\<close>

record producerDaemonBatcher =
  b_maxMessages :: int
  b_maxBytes :: int
  b_messages :: "rawJsonMessage list"
  b_size :: int
  withJsonEncoding :: bool

definition NewProducerDaemonBatcher :: "ProducerDaemonSettings \<Rightarrow> producerDaemonBatcher" where
  "NewProducerDaemonBatcher settings = \<lparr>b_maxMessages = BatchSize settings, b_maxBytes = BatchMaxSize settings,
     b_messages = [], b_size = 0, withJsonEncoding = True\<rparr>"

definition NewProducerDaemonBatcherWithoutJsonEncoding :: "ProducerDaemonSettings \<Rightarrow> producerDaemonBatcher" where
  "NewProducerDaemonBatcherWithoutJsonEncoding settings =
     \<lparr>b_maxMessages = BatchSize settings, b_maxBytes = BatchMaxSize settings,
      b_messages = [], b_size = 0, withJsonEncoding = False\<rparr>"

definition batcher_needsFlush :: "producerDaemonBatcher \<Rightarrow> int \<Rightarrow> bool" where
  "batcher_needsFlush b nextSize =
     (let newSize = b_size b + nextSize in
      int (length (b_messages b)) \<ge> b_maxMessages b \<or> (b_maxBytes b \<noteq> 0 \<and> newSize \<ge> b_maxBytes b))"

definition batcher_Flush :: "producerDaemonBatcher \<Rightarrow> producerDaemonBatcher \<times> rawJsonMessage list" where
  "batcher_Flush b = (b\<lparr>b_messages := [], b_size := 0\<rparr>, b_messages b)"

definition batcher_encode :: "daemon_env \<Rightarrow> producerDaemonBatcher \<Rightarrow> Message \<Rightarrow> goerr + string" where
  "batcher_encode env b msg =
     (if withJsonEncoding b
      then (case marshal env msg of
              Inl err \<Rightarrow> Inl (errorf_w ''failed to encode message for batch: '' err '''')
            | Inr encodedMessage \<Rightarrow> Inr encodedMessage)
      else Inr (Body msg))"

definition batcher_Append ::
  "daemon_env \<Rightarrow> producerDaemonBatcher \<Rightarrow> Message \<Rightarrow> producerDaemonBatcher \<times> (goerr + rawJsonMessage list)" where
  "batcher_Append env b msg =
     (case batcher_encode env b msg of
        Inl err \<Rightarrow> (b, Inl err)
      | Inr body \<Rightarrow>
          (let (b, result) = (if batcher_needsFlush b (int (length body) - 1) then batcher_Flush b else (b, []));
               b = b\<lparr>b_messages := b_messages b @ [\<lparr>raw_attributes = Attributes msg, raw_body = body\<rparr>],
                     b_size := b_size b + int (length body)\<rparr>
           in if batcher_needsFlush b 0
              then (case batcher_Flush b of (b, flushed) \<Rightarrow> (b, Inr (result @ flushed)))
              else (b, Inr result)))"

section \<open>The aggregator\<close>

datatype CompressionType = CompressionNone | CompressionGZip | CompressionOther string

record AggregateFlush =
  af_Attributes :: "(string, string) gomap"
  af_Body :: string
  MessageCount :: int

text \<open>\<open>ag_written\<close> lists the chunks written to the writer since the last reset.\<close>

record producerDaemonAggregator =
  ag_maxMessages :: int
  ag_maxBytes :: int
  ag_compression :: CompressionType
  ag_attributes :: "(string, string) gomap"
  encodeBase64 :: bool
  ag_written :: "string list"
  messageCount :: int
  uncompressedBytes :: int
  expectedCompressionRatio :: rat

definition gzipMaxExpectedBuffer :: int where "gzipMaxExpectedBuffer = 8192"

definition ag_write_chunk :: "string \<Rightarrow> producerDaemonAggregator \<Rightarrow> producerDaemonAggregator" where
  "ag_write_chunk s a = a\<lparr>ag_written := ag_written a @ [s],
     uncompressedBytes := uncompressedBytes a + int (length s)\<rparr>"

definition ag_reset :: "producerDaemonAggregator \<Rightarrow> producerDaemonAggregator" where
  "ag_reset a = ag_write_chunk ''['' (a\<lparr>messageCount := 0, uncompressedBytes := 0, ag_written := []\<rparr>)"

definition bufferBytes :: "daemon_env \<Rightarrow> producerDaemonAggregator \<Rightarrow> string" where
  "bufferBytes env a =
     (if ag_compression a = CompressionGZip then gzipBuffer env (ag_written a) else concat (ag_written a))"

definition NewProducerDaemonAggregator ::
  "ProducerDaemonSettings \<Rightarrow> CompressionType \<Rightarrow> (string, string) gomap list \<Rightarrow> goerr + producerDaemonAggregator" where
  "NewProducerDaemonAggregator settings compression attributeSets =
     (let a = \<lparr>ag_maxMessages = AggregationSize settings, ag_maxBytes = AggregationMaxSize settings,
            ag_compression = compression,
            ag_attributes = fold setAttributes attributeSets [(''encoding'', ''application/json'')],
            encodeBase64 = False, ag_written = [], messageCount = 0, uncompressedBytes = 0,
            expectedCompressionRatio = 1\<rparr>
      in case compression of
           CompressionGZip \<Rightarrow>
             (let a = a\<lparr>encodeBase64 := True\<rparr>;
                  a = (if ag_maxBytes a > gzipMaxExpectedBuffer
                       then a\<lparr>ag_maxBytes := ag_maxBytes a - gzipMaxExpectedBuffer\<rparr> else a)
              in Inr (ag_reset (a\<lparr>ag_attributes := gm_set (ag_attributes a) ''compression'' ''application/gzip''\<rparr>)))
         | CompressionNone \<Rightarrow> Inr (ag_reset (a\<lparr>encodeBase64 := False\<rparr>))
         | CompressionOther c \<Rightarrow> Inl (Opaque (''unhandled compression type: '' @ c)))"

definition getCurrentSize :: "daemon_env \<Rightarrow> producerDaemonAggregator \<Rightarrow> int \<Rightarrow> int" where
  "getCurrentSize env a newMessageSize =
     (let currentSize = int (length (bufferBytes env a)) + newMessageSize + 1 in
      if encodeBase64 a then currentSize * 4 div 3 else currentSize)"

definition ag_write :: "string \<Rightarrow> producerDaemonAggregator \<Rightarrow> producerDaemonAggregator" where
  "ag_write encodedMessage a =
     (let a = (if messageCount a > 0 then ag_write_chunk '','' a else a);
          a = ag_write_chunk encodedMessage a
      in a\<lparr>messageCount := messageCount a + 1\<rparr>)"

definition ag_Flush :: "daemon_env \<Rightarrow> producerDaemonAggregator \<Rightarrow> producerDaemonAggregator \<times> AggregateFlush list" where
  "ag_Flush env a =
     (let a = ag_write_chunk '']'' a;
          count = messageCount a;
          bytes = (if ag_compression a = CompressionGZip then gzipClosed env (ag_written a) else concat (ag_written a));
          body = (if encodeBase64 a then base64Encode env bytes else bytes);
          a = (if count > 0
               then a\<lparr>expectedCompressionRatio := float32 env (float32 env (of_nat (length body)) /
                      float32 env (of_int (uncompressedBytes a)))\<rparr>
               else a);
          a = ag_reset a
      in (a, [\<lparr>af_Attributes = setAttributes (ag_attributes a) [(''goso.aggregate.count'', itoa count)],
               af_Body = body, MessageCount = count\<rparr>]))"

definition ag_Write ::
  "daemon_env \<Rightarrow> producerDaemonAggregator \<Rightarrow> Message \<Rightarrow> producerDaemonAggregator \<times> (goerr + AggregateFlush list)" where
  "ag_Write env a msg =
     (case marshal env msg of
        Inl err \<Rightarrow> (a, Inl (errorf_w ''failed to encode message for aggregate: '' err ''''))
      | Inr encodedMessage \<Rightarrow>
          (let expectedMessageSize = \<lfloor>float32 env (float32 env (of_nat (length encodedMessage)) * expectedCompressionRatio a)\<rfloor>;
               (a, flushes) =
                 (if messageCount a > 0 \<and> ag_maxBytes a \<noteq> 0 \<and> getCurrentSize env a expectedMessageSize \<ge> ag_maxBytes a
                  then ag_Flush env a else (a, []));
               a = ag_write encodedMessage a
           in if messageCount a \<ge> ag_maxMessages a \<or> (ag_maxBytes a \<noteq> 0 \<and> getCurrentSize env a 0 \<ge> ag_maxBytes a)
              then (case ag_Flush env a of (a, flush) \<Rightarrow> (a, Inr (flushes @ flush)))
              else (a, Inr flushes)))"

section \<open>The partitioned aggregator\<close>

text \<open>
  The hash key of a bucket. \<open>big.Int.SetString\<close> reads an optional sign and decimal digits; the
  division of two positive numbers is exact integer division and \<open>Mod\<close> is Euclidean.
\<close>

definition incrementStep :: "nat \<Rightarrow> int" where
  "incrementStep buckets = (2 ^ 128 - 1) div int buckets"

definition explicitHashKeyOf :: "nat \<Rightarrow> nat \<Rightarrow> int" where
  "explicitHashKeyOf buckets bucket = int bucket * incrementStep buckets + incrementStep buckets div 2"

definition is_digit :: "char \<Rightarrow> bool" where
  "is_digit c \<longleftrightarrow> (48 :: nat) \<le> of_char c \<and> (of_char c :: nat) \<le> 57"

definition SetString :: "string \<Rightarrow> int option" where
  "SetString s =
     (let (neg, ds) = (case s of
            c # cs \<Rightarrow> if c = CHR ''-'' then (True, cs) else if c = CHR ''+'' then (False, cs) else (False, s)
          | [] \<Rightarrow> (False, []))
      in if ds \<noteq> [] \<and> list_all is_digit ds then Some (if neg then - int (atou ds) else int (atou ds)) else None)"

definition getExplicitHashKeyForMessage :: "daemon_env \<Rightarrow> Message \<Rightarrow> goerr + int option" where
  "getExplicitHashKeyForMessage env msg =
     (case gm_get (Attributes msg) ''gosoline.kinesis.explicitHashKey'' of
        Some s \<Rightarrow> (case SetString s of
            None \<Rightarrow> Inl (Opaque (''invalid explicit hash key: '' @ s))
          | Some k \<Rightarrow> Inr (Some k))
      | None \<Rightarrow>
          (case gm_get (Attributes msg) ''gosoline.kinesis.partitionKey'' of
             Some partitionKey \<Rightarrow> Inr (Some (int (md5Sum env partitionKey)))
           | None \<Rightarrow> Inr None))"

definition bucketIndex :: "daemon_env \<Rightarrow> nat \<Rightarrow> nat \<Rightarrow> Message \<Rightarrow> nat" where
  "bucketIndex env draw buckets msg =
     (case getExplicitHashKeyForMessage env msg of
        Inr (Some k) \<Rightarrow> nat (k mod int buckets)
      | _ \<Rightarrow> randIntn env draw buckets)"

fun createBuckets ::
  "ProducerDaemonSettings \<Rightarrow> CompressionType \<Rightarrow> nat \<Rightarrow> nat list \<Rightarrow> goerr + producerDaemonAggregator list" where
  "createBuckets settings compression buckets [] = Inr []"
| "createBuckets settings compression buckets (bucket # bs) =
     (case NewProducerDaemonAggregator settings compression
             [[(''gosoline.kinesis.explicitHashKey'', itoa (explicitHashKeyOf buckets bucket))]] of
        Inl err \<Rightarrow> Inl (errorf_w ''failed to create aggregator for bucket: '' err '''')
      | Inr a \<Rightarrow> (case createBuckets settings compression buckets bs of Inl err \<Rightarrow> Inl err | Inr as \<Rightarrow> Inr (a # as)))"

definition NewProducerDaemonPartitionedAggregator ::
  "ProducerDaemonSettings \<Rightarrow> CompressionType \<Rightarrow> goerr + producerDaemonAggregator list" where
  "NewProducerDaemonPartitionedAggregator settings compression =
     (let n = nat (PartitionBucketCount settings) in createBuckets settings compression n [0..<n])"

text \<open>The three implementations of the interface; \<open>draws\<close> counts the random numbers drawn.\<close>

datatype aggregator =
    Single producerDaemonAggregator
  | Noop
  | Partitioned (draws: nat) (buckets: "producerDaemonAggregator list")

definition part_Write ::
  "daemon_env \<Rightarrow> nat \<Rightarrow> producerDaemonAggregator list \<Rightarrow> Message \<Rightarrow> aggregator \<times> (goerr + AggregateFlush list)" where
  "part_Write env n bs msg =
     (let i = bucketIndex env n (length bs) msg in
      case ag_Write env (bs ! i) msg of
        (a, result) \<Rightarrow> (Partitioned (n + 1) (bs[i := a]), result))"

fun part_Flush :: "daemon_env \<Rightarrow> producerDaemonAggregator list \<Rightarrow> producerDaemonAggregator list \<times> AggregateFlush list" where
  "part_Flush env [] = ([], [])"
| "part_Flush env (a # as) =
     (case ag_Flush env a of (a', flush) \<Rightarrow>
        (case part_Flush env as of (as', result) \<Rightarrow> (a' # as', flush @ result)))"

fun aggregator_Write :: "daemon_env \<Rightarrow> aggregator \<Rightarrow> Message \<Rightarrow> aggregator \<times> (goerr + AggregateFlush list)" where
  "aggregator_Write env (Single a) msg = (case ag_Write env a msg of (a', r) \<Rightarrow> (Single a', r))"
| "aggregator_Write env Noop msg =
     (Noop, Inr [\<lparr>af_Attributes = Attributes msg, af_Body = Body msg, MessageCount = 1\<rparr>])"
| "aggregator_Write env (Partitioned n bs) msg = part_Write env n bs msg"

fun aggregator_Flush :: "daemon_env \<Rightarrow> aggregator \<Rightarrow> aggregator \<times> AggregateFlush list" where
  "aggregator_Flush env (Single a) = (case ag_Flush env a of (a', r) \<Rightarrow> (Single a', r))"
| "aggregator_Flush env Noop = (Noop, [])"
| "aggregator_Flush env (Partitioned n bs) = (case part_Flush env bs of (bs', r) \<Rightarrow> (Partitioned n bs', r))"

section \<open>The daemon\<close>

text \<open>
  \<open>outCh\<close> lists the batches written to the current output channel in order, whether or not a
  runner has read them yet; \<open>dropped\<close> the ones refused by a closed channel.
\<close>

record producerDaemon =
  d_aggregator :: aggregator
  d_batcher :: producerDaemonBatcher
  outCh :: "rawJsonMessage list list"
  outClosed :: bool
  dropped :: "rawJsonMessage list list"
  d_ticker :: bool
  tickerResets :: nat
  d_settings :: ProducerDaemonSettings
  stopped :: bool
  supportsAggregation :: bool
  d_name :: string

definition outCh_Write :: "rawJsonMessage list \<Rightarrow> producerDaemon \<Rightarrow> producerDaemon" where
  "outCh_Write batch d =
     (if outClosed d then d\<lparr>dropped := dropped d @ [batch]\<rparr> else d\<lparr>outCh := outCh d @ [batch]\<rparr>)"

definition outCh_Close :: "producerDaemon \<Rightarrow> producerDaemon" where
  "outCh_Close d = d\<lparr>outClosed := True\<rparr>"

definition NewProducerDaemonWithInterfaces ::
  "aggregator \<Rightarrow> producerDaemonBatcher \<Rightarrow> string \<Rightarrow> ProducerDaemonSettings \<Rightarrow> bool \<Rightarrow> producerDaemon" where
  "NewProducerDaemonWithInterfaces aggregator batcher name settings supportsAggr =
     \<lparr>d_aggregator = aggregator, d_batcher = batcher, outCh = [], outClosed = False, dropped = [],
      d_ticker = False, tickerResets = 0, d_settings = settings, stopped = False,
      supportsAggregation = supportsAggr, d_name = name\<rparr>"

definition restart :: "producerDaemon \<Rightarrow> producerDaemon" where
  "restart d = (if outClosed d then d\<lparr>outCh := [], outClosed := False, stopped := False\<rparr> else d\<lparr>stopped := False\<rparr>)"

definition buildReady :: "producerDaemon \<Rightarrow> AggregateFlush \<Rightarrow> Message" where
  "buildReady d r =
     (if \<not> supportsAggregation d
      then NewMessage (af_Body r) [MessageAttributes (d_settings d), af_Attributes r]
      else BuildAggregateMessage (af_Body r) [MessageAttributes (d_settings d), af_Attributes r])"

definition notAMessage :: "string \<Rightarrow> goerr" where
  "notAMessage t = Opaque (''are you writing to the daemon directly? expected a stream.Message to be '' @
     ''written to the producer daemon, got '' @ t @ '' instead'')"

fun castMessages :: "WritableMessage list \<Rightarrow> goerr + Message list" where
  "castMessages [] = Inr []"
| "castMessages (Msg m # ms) = (case castMessages ms of Inl e \<Rightarrow> Inl e | Inr r \<Rightarrow> Inr (m # r))"
| "castMessages (OtherWritable t # ms) = Inl (notAMessage t)"

fun aggregateAll ::
  "daemon_env \<Rightarrow> producerDaemon \<Rightarrow> WritableMessage list \<Rightarrow> Message list \<Rightarrow> producerDaemon \<times> (goerr + Message list)" where
  "aggregateAll env d [] result = (d, Inr result)"
| "aggregateAll env d (OtherWritable t # ms) result = (d, Inl (notAMessage t))"
| "aggregateAll env d (Msg m # ms) result =
     (case aggregator_Write env (d_aggregator d) m of
        (a, Inl err) \<Rightarrow> (d\<lparr>d_aggregator := a\<rparr>, Inl err)
      | (a, Inr ready) \<Rightarrow> aggregateAll env (d\<lparr>d_aggregator := a\<rparr>) ms (result @ map (buildReady d) ready))"

definition applyAggregation ::
  "daemon_env \<Rightarrow> producerDaemon \<Rightarrow> WritableMessage list \<Rightarrow> producerDaemon \<times> (goerr + Message list)" where
  "applyAggregation env d batch =
     (if AggregationSize (d_settings d) \<le> 1 then (d, castMessages batch) else aggregateAll env d batch [])"

text \<open>\<open>resetTicker\<close> is true in \<open>Write\<close>, where a flushed batch restarts the interval.\<close>

fun appendAll :: "daemon_env \<Rightarrow> bool \<Rightarrow> producerDaemon \<Rightarrow> Message list \<Rightarrow> producerDaemon \<times> error" where
  "appendAll env resetTicker d [] = (d, None)"
| "appendAll env resetTicker d (msg # msgs) =
     (case batcher_Append env (d_batcher d) msg of
        (b, Inl err) \<Rightarrow> (d\<lparr>d_batcher := b\<rparr>, Some (errorf_w ''can not append message to batch: '' err ''''))
      | (b, Inr flushedBatch) \<Rightarrow>
          (let d = d\<lparr>d_batcher := b\<rparr>;
               d = (if length flushedBatch > 0
                    then outCh_Write flushedBatch
                      (if resetTicker \<and> d_ticker d then d\<lparr>tickerResets := tickerResets d + 1\<rparr> else d)
                    else d)
           in appendAll env resetTicker d msgs))"

definition daemon_Write :: "daemon_env \<Rightarrow> producerDaemon \<Rightarrow> WritableMessage list \<Rightarrow> producerDaemon \<times> error" where
  "daemon_Write env d batch =
     (if stopped d
      then (d, Some (Opaque (''can't write messages as the producer daemon '' @ d_name d @ '' is not running'')))
      else case applyAggregation env d batch of
        (d, Inl err) \<Rightarrow> (d, Some (errorf_w (''can not apply aggregation in producer '' @ d_name d @ '': '') err ''''))
      | (d, Inr aggregated) \<Rightarrow> appendAll env True d aggregated)"

definition WriteOne :: "daemon_env \<Rightarrow> producerDaemon \<Rightarrow> WritableMessage \<Rightarrow> producerDaemon \<times> error" where
  "WriteOne env d msg = daemon_Write env d [msg]"

definition flushAggregate :: "daemon_env \<Rightarrow> producerDaemon \<Rightarrow> producerDaemon \<times> Message list" where
  "flushAggregate env d =
     (case aggregator_Flush env (d_aggregator d) of (a, aggregates) \<Rightarrow>
        (d\<lparr>d_aggregator := a\<rparr>, map (buildReady d) (filter (\<lambda>r. MessageCount r \<noteq> 0) aggregates)))"

definition flushBatch :: "producerDaemon \<Rightarrow> producerDaemon" where
  "flushBatch d =
     (case batcher_Flush (d_batcher d) of (b, readyBatch) \<Rightarrow>
        let d = d\<lparr>d_batcher := b\<rparr> in if length readyBatch = 0 then d else outCh_Write readyBatch d)"

definition flushAll :: "daemon_env \<Rightarrow> producerDaemon \<Rightarrow> producerDaemon \<times> error" where
  "flushAll env d =
     (case flushAggregate env d of (d, readyBatches) \<Rightarrow>
        (case appendAll env False d readyBatches of
           (d, Some err) \<Rightarrow> (d, Some err)
         | (d, None) \<Rightarrow> (flushBatch d, None)))"

text \<open>A tick of the ticker loop, the start of \<open>Run\<close>, \<open>close\<close>, and the end of \<open>Run\<close>.\<close>

definition daemon_tick :: "daemon_env \<Rightarrow> producerDaemon \<Rightarrow> producerDaemon" where
  "daemon_tick env d = fst (flushAll env d)"

definition daemon_start :: "producerDaemon \<Rightarrow> producerDaemon" where
  "daemon_start d = d\<lparr>d_ticker := True\<rparr>"

definition daemon_close :: "daemon_env \<Rightarrow> producerDaemon \<Rightarrow> producerDaemon \<times> error" where
  "daemon_close env d = (case flushAll env d of (d, err) \<Rightarrow> (outCh_Close d, err))"

definition daemon_stop :: "producerDaemon \<Rightarrow> producerDaemon" where
  "daemon_stop d = d\<lparr>stopped := True\<rparr>"

end
