(* ===== verification/StreamProps.thy ===== *)
theory StreamProps
  imports ProducerDaemon
begin

text \<open>
  What the producer daemon does to the messages it is given: the batcher and the aggregator keep
  every message exactly once and in order and respect their limits, the hash keys of the buckets
  spread over the key space, and the daemon hands everything it accepted to its output channel by
  the time it is closed.
\<close>

section \<open>The batcher\<close>

text \<open>The body the batcher stores for a message, and the entry it makes of it.\<close>

definition encodes :: "daemon_env \<Rightarrow> producerDaemonBatcher \<Rightarrow> Message \<Rightarrow> bool" where
  "encodes env b msg \<longleftrightarrow> (\<exists>body. batcher_encode env b msg = Inr body)"

definition bodyOf :: "daemon_env \<Rightarrow> bool \<Rightarrow> Message \<Rightarrow> string" where
  "bodyOf env json msg = (if json then projr (marshal env msg) else Body msg)"

definition rawOf :: "daemon_env \<Rightarrow> bool \<Rightarrow> Message \<Rightarrow> rawJsonMessage" where
  "rawOf env json msg = \<lparr>raw_attributes = Attributes msg, raw_body = bodyOf env json msg\<rparr>"

definition bytesOf :: "rawJsonMessage list \<Rightarrow> int" where
  "bytesOf ms = (\<Sum>m\<leftarrow>ms. int (length (raw_body m)))"

lemma bytesOf_simps [simp]:
  "bytesOf [] = 0" "bytesOf (m # ms) = int (length (raw_body m)) + bytesOf ms"
  "bytesOf (xs @ ys) = bytesOf xs + bytesOf ys"
  by (simp_all add: bytesOf_def)

lemma bytesOf_nonneg [simp]: "0 \<le> bytesOf ms"
  by (induction ms) simp_all

definition batcher_inv :: "producerDaemonBatcher \<Rightarrow> bool" where
  "batcher_inv b \<longleftrightarrow> b_size b = bytesOf (b_messages b) \<and> b_maxMessages b \<ge> 1 \<and> b_maxBytes b \<ge> 0 \<and>
     int (length (b_messages b)) < b_maxMessages b \<and> (b_maxBytes b \<noteq> 0 \<longrightarrow> b_size b < b_maxBytes b)"

lemma batcher_inv_new:
  assumes "BatchSize s \<ge> 1" and "BatchMaxSize s \<ge> 0"
  shows "batcher_inv (NewProducerDaemonBatcher s)"
    and "batcher_inv (NewProducerDaemonBatcherWithoutJsonEncoding s)"
  using assms by (auto simp: batcher_inv_def NewProducerDaemonBatcher_def NewProducerDaemonBatcherWithoutJsonEncoding_def)

lemma batcher_encode_cases:
  assumes "batcher_encode env b msg = Inr body"
  shows "body = bodyOf env (withJsonEncoding b) msg"
  using assms by (auto simp: batcher_encode_def bodyOf_def split: if_splits sum.splits)

lemma batcher_Append_parts:
  assumes "batcher_Append env b msg = (b', Inr r)"
  shows "r @ b_messages b' = b_messages b @ [rawOf env (withJsonEncoding b) msg]"
    and "withJsonEncoding b' = withJsonEncoding b" and "b_maxMessages b' = b_maxMessages b"
    and "b_maxBytes b' = b_maxBytes b"
  using assms batcher_encode_cases [of env b msg]
  by (auto simp: batcher_Append_def Let_def batcher_Flush_def rawOf_def split: sum.splits if_splits prod.splits)

lemma batcher_Append_error:
  assumes "batcher_Append env b msg = (b', Inl e)"
  shows "b' = b"
  using assms by (auto simp: batcher_Append_def Let_def split: sum.splits if_splits prod.splits)

lemma batcher_Append_ok:
  assumes "encodes env b msg"
  obtains b' r where "batcher_Append env b msg = (b', Inr r)"
proof -
  from assms obtain body where "batcher_encode env b msg = Inr body" by (auto simp: encodes_def)
  then have "\<exists>b' r. batcher_Append env b msg = (b', Inr r)"
    by (simp add: batcher_Append_def Let_def batcher_Flush_def split: prod.splits if_splits)
  then show ?thesis using that by blast
qed

lemma batcher_Append_inv:
  assumes "batcher_inv b" and "batcher_Append env b msg = (b', r)"
  shows "batcher_inv b'"
  using assms
  by (auto simp: batcher_Append_def Let_def batcher_Flush_def batcher_inv_def batcher_needsFlush_def
      split: sum.splits if_splits prod.splits)

lemma batcher_Append_limits:
  assumes inv: "batcher_inv b" and app: "batcher_Append env b msg = (b', Inr r)"
  shows "int (length r) \<le> b_maxMessages b"
    and "b_maxBytes b \<noteq> 0 \<Longrightarrow> int (length (bodyOf env (withJsonEncoding b) msg)) < b_maxBytes b \<Longrightarrow> bytesOf r \<le> b_maxBytes b"
proof -
  let ?raw = "rawOf env (withJsonEncoding b) msg"
  let ?body = "bodyOf env (withJsonEncoding b) msg"
  from app obtain body where "batcher_encode env b msg = Inr body"
    by (auto simp: batcher_Append_def split: sum.splits)
  then have enc: "batcher_encode env b msg = Inr ?body" using batcher_encode_cases by metis
  show "int (length r) \<le> b_maxMessages b"
    using inv app
    by (auto simp: enc batcher_Append_def Let_def batcher_Flush_def batcher_inv_def split: if_splits)
  assume m: "b_maxBytes b \<noteq> 0" and l: "int (length ?body) < b_maxBytes b"
  show "bytesOf r \<le> b_maxBytes b"
  proof (cases "batcher_needsFlush b (int (length ?body) - 1)")
    case True
    have "b_messages b = [] \<or> b_maxMessages b > 1" using inv by (cases "b_messages b") (auto simp: batcher_inv_def)
    then have "r = b_messages b \<or> b_messages b = []"
      using app True m l by (auto simp: enc batcher_Append_def Let_def batcher_Flush_def batcher_needsFlush_def split: if_splits)
    moreover have "b_messages b \<noteq> []"
      using True inv m l by (auto simp: batcher_needsFlush_def batcher_inv_def)
    ultimately show ?thesis using inv m by (auto simp: batcher_inv_def)
  next
    case False
    then have "r = [] \<or> r = b_messages b @ [?raw]"
      using app by (auto simp: enc batcher_Append_def Let_def batcher_Flush_def rawOf_def split: if_splits)
    then show ?thesis using False inv m by (auto simp: batcher_needsFlush_def batcher_inv_def rawOf_def)
  qed
qed

text \<open>A sequence of appends: the batches it hands out, until the first error.\<close>

fun appends :: "daemon_env \<Rightarrow> producerDaemonBatcher \<Rightarrow> Message list \<Rightarrow> producerDaemonBatcher \<times> rawJsonMessage list list" where
  "appends env b [] = (b, [])"
| "appends env b (msg # msgs) =
     (case batcher_Append env b msg of
        (b', Inl e) \<Rightarrow> (b', [])
      | (b', Inr r) \<Rightarrow> (case appends env b' msgs of (b'', rs) \<Rightarrow> (b'', r # rs)))"

lemma appends_no_loss:
  assumes "\<forall>m \<in> set msgs. encodes env b m" and "appends env b msgs = (b', rs)"
  shows "concat rs @ b_messages b' = b_messages b @ map (rawOf env (withJsonEncoding b)) msgs"
  using assms
proof (induction msgs arbitrary: b b' rs)
  case (Cons m msgs)
  from Cons.prems(1) obtain b1 r where b1: "batcher_Append env b m = (b1, Inr r)"
    by (auto elim: batcher_Append_ok)
  note parts = batcher_Append_parts [OF b1]
  from Cons.prems(2) b1 obtain rs' where rs': "appends env b1 msgs = (b', rs')" "rs = r # rs'"
    by (auto split: prod.splits)
  have "\<forall>m \<in> set msgs. encodes env b1 m"
    using Cons.prems(1) parts(2) by (simp add: encodes_def batcher_encode_def)
  from Cons.IH [OF this rs'(1)] parts rs'(2) show ?case by simp
qed simp

lemma appends_each:
  assumes "batcher_inv b" and "appends env b msgs = (b', rs)" and "r \<in> set rs"
  shows "\<exists>b1 b2 m. m \<in> set msgs \<and> batcher_inv b1 \<and> b_maxMessages b1 = b_maxMessages b \<and> b_maxBytes b1 = b_maxBytes b \<and>
    withJsonEncoding b1 = withJsonEncoding b \<and> batcher_Append env b1 m = (b2, Inr r)"
  using assms
proof (induction msgs arbitrary: b b' rs)
  case (Cons m msgs)
  from Cons.prems(2,3) obtain b1 r1 where b1: "batcher_Append env b m = (b1, Inr r1)"
    by (auto split: prod.splits sum.splits)
  with Cons.prems(2) obtain rs' where rs': "appends env b1 msgs = (b', rs')" "rs = r1 # rs'"
    by (auto split: prod.splits)
  show ?case
  proof (cases "r = r1")
    case True
    with b1 Cons.prems(1) show ?thesis by auto
  next
    case False
    with rs'(2) Cons.prems(3) have "r \<in> set rs'" by simp
    from Cons.IH [OF batcher_Append_inv [OF Cons.prems(1) b1] rs'(1) this] batcher_Append_parts(2-4) [OF b1]
    show ?thesis by auto
  qed
qed simp

lemma appends_limits:
  assumes "batcher_inv b" and "appends env b msgs = (b', rs)" and "r \<in> set rs"
  shows "int (length r) \<le> b_maxMessages b"
    and "b_maxBytes b \<noteq> 0 \<Longrightarrow> \<forall>m \<in> set msgs. int (length (bodyOf env (withJsonEncoding b) m)) < b_maxBytes b \<Longrightarrow>
      bytesOf r \<le> b_maxBytes b"
proof -
  from appends_each [OF assms] obtain b1 b2 m where m: "m \<in> set msgs" "batcher_inv b1" "b_maxMessages b1 = b_maxMessages b"
    "b_maxBytes b1 = b_maxBytes b" "withJsonEncoding b1 = withJsonEncoding b" "batcher_Append env b1 m = (b2, Inr r)"
    by blast
  note lim = batcher_Append_limits [OF m(2,6), unfolded m(3,4,5)]
  show "int (length r) \<le> b_maxMessages b" by (rule lim(1))
  show "b_maxBytes b \<noteq> 0 \<Longrightarrow> \<forall>m \<in> set msgs. int (length (bodyOf env (withJsonEncoding b) m)) < b_maxBytes b \<Longrightarrow>
      bytesOf r \<le> b_maxBytes b"
    using lim(2) m(1) by blast
qed

section \<open>The aggregator without compression\<close>

text \<open>
  What the code relies on of \<open>float32\<close>: natural numbers below 2 to the 24 are represented exactly
  and no positive number is rounded to zero.
\<close>

definition float32_ok :: "daemon_env \<Rightarrow> bool" where
  "float32_ok env \<longleftrightarrow> (\<forall>n < 2 ^ 24. float32 env (of_nat n) = of_nat n) \<and> (\<forall>n > 0. float32 env (of_nat n) \<noteq> 0)"

abbreviation encOf :: "daemon_env \<Rightarrow> Message \<Rightarrow> string" where
  "encOf env m \<equiv> projr (marshal env m)"

text \<open>The body of an aggregate: the JSON array of the encoded messages.\<close>

definition arrayOf :: "daemon_env \<Rightarrow> Message list \<Rightarrow> string" where
  "arrayOf env ms = ''['' @ str_join '','' (map (encOf env) ms) @ '']''"

definition flushOf :: "daemon_env \<Rightarrow> (string, string) gomap \<Rightarrow> Message list \<Rightarrow> AggregateFlush" where
  "flushOf env attrs ms = \<lparr>af_Attributes = setAttributes attrs [(''goso.aggregate.count'', itoa (int (length ms)))],
     af_Body = arrayOf env ms, MessageCount = int (length ms)\<rparr>"

lemma flushOf_simps [simp]:
  "af_Body (flushOf env attrs ms) = arrayOf env ms" "MessageCount (flushOf env attrs ms) = int (length ms)"
  by (simp_all add: flushOf_def)

lemma str_join_snoc:
  "str_join sep (xs @ [x]) = (if xs = [] then x else str_join sep xs @ sep @ x)"
  by (induction sep xs rule: str_join.induct) auto

text \<open>\<open>ag_inv env a ms\<close>: the aggregator holds the messages \<open>ms\<close> and its estimate is exact.\<close>

definition ag_inv :: "daemon_env \<Rightarrow> producerDaemonAggregator \<Rightarrow> Message list \<Rightarrow> bool" where
  "ag_inv env a ms \<longleftrightarrow>
     ag_compression a = CompressionNone \<and> \<not> encodeBase64 a \<and>
     concat (ag_written a) = ''['' @ str_join '','' (map (encOf env) ms) \<and>
     messageCount a = int (length ms) \<and>
     uncompressedBytes a = int (length (concat (ag_written a))) \<and>
     expectedCompressionRatio a = 1 \<and>
     (ms \<noteq> [] \<and> ag_maxBytes a \<noteq> 0 \<longrightarrow> int (length (arrayOf env ms)) < ag_maxBytes a)"

lemmas ag_defs = ag_Flush_def ag_write_def ag_write_chunk_def ag_reset_def Let_def

lemma ag_inv_new:
  assumes "NewProducerDaemonAggregator s CompressionNone attrs = Inr a"
  shows "ag_inv env a [] \<and> ag_maxMessages a = AggregationSize s \<and> ag_maxBytes a = AggregationMaxSize s"
  using assms by (auto simp: NewProducerDaemonAggregator_def ag_inv_def ag_defs)

lemma ag_written_array:
  assumes "concat (ag_written a) = ''['' @ str_join '','' (map (encOf env) ms)"
  shows "concat (ag_written a @ ['']'']) = arrayOf env ms"
  using assms by (simp add: arrayOf_def)

lemma ag_Flush_ok:
  assumes ok: "float32_ok env" and written: "concat (ag_written a) = ''['' @ str_join '','' (map (encOf env) ms)"
    and a: "ag_compression a = CompressionNone" "\<not> encodeBase64 a" "messageCount a = int (length ms)"
    "uncompressedBytes a = int (length (concat (ag_written a)))" "expectedCompressionRatio a = 1"
    and flush: "ag_Flush env a = (a', fl)"
  shows "ag_inv env a' [] \<and> fl = [flushOf env (ag_attributes a) ms] \<and>
    ag_attributes a' = ag_attributes a \<and> ag_maxMessages a' = ag_maxMessages a \<and> ag_maxBytes a' = ag_maxBytes a"
proof -
  let ?n = "length (arrayOf env ms)"
  have n: "?n = Suc (length (concat (ag_written a)))" by (simp add: arrayOf_def written)
  have "float32 env (of_nat ?n) \<noteq> 0" using ok n by (simp add: float32_ok_def del: of_nat_Suc)
  then have one: "float32 env (float32 env (of_nat ?n) / float32 env (of_int (int ?n))) = 1"
    using ok by (simp add: float32_ok_def) (metis of_nat_1 one_less_numeral_iff one_less_power semiring_norm(76) zero_less_numeral)
  have u: "uncompressedBytes a + 1 = int ?n" using a(4) n by simp
  define a1 where "a1 = ag_write_chunk '']'' a"
  have a1: "ag_compression a1 = CompressionNone" "\<not> encodeBase64 a1" "messageCount a1 = int (length ms)"
    "uncompressedBytes a1 = int ?n" "concat (ag_written a1) = arrayOf env ms" "expectedCompressionRatio a1 = 1"
    "ag_maxMessages a1 = ag_maxMessages a" "ag_maxBytes a1 = ag_maxBytes a" "ag_attributes a1 = ag_attributes a"
    using a ag_written_array [OF written] u by (simp_all add: a1_def ag_write_chunk_def)
  define a2 where "a2 = (if messageCount a1 > 0 then a1\<lparr>expectedCompressionRatio := float32 env (float32 env (of_nat ?n) /
                      float32 env (of_int (uncompressedBytes a1)))\<rparr> else a1)"
  have a2: "ag_compression a2 = CompressionNone" "\<not> encodeBase64 a2" "expectedCompressionRatio a2 = 1"
    "ag_maxMessages a2 = ag_maxMessages a" "ag_maxBytes a2 = ag_maxBytes a" "ag_attributes a2 = ag_attributes a"
    using a1 one unfolding a2_def by simp_all
  have "ag_Flush env a = (ag_reset a2, [flushOf env (ag_attributes a2) ms])"
    unfolding ag_Flush_def Let_def a1_def [symmetric] a2_def using a1
    by (simp add: ag_reset_def ag_write_chunk_def flushOf_def)
  with flush a2 show ?thesis
    by (auto simp: ag_inv_def ag_reset_def ag_write_chunk_def)
qed

lemma ag_write_ok:
  assumes "ag_inv env a ms" and "marshal env m = Inr e"
  shows "concat (ag_written (ag_write e a)) = ''['' @ str_join '','' (map (encOf env) (ms @ [m]))"
    and "messageCount (ag_write e a) = int (length (ms @ [m]))"
    and "uncompressedBytes (ag_write e a) = int (length (concat (ag_written (ag_write e a))))"
    and "ag_compression (ag_write e a) = CompressionNone" and "\<not> encodeBase64 (ag_write e a)"
    and "expectedCompressionRatio (ag_write e a) = 1"
    and "ag_maxMessages (ag_write e a) = ag_maxMessages a" and "ag_maxBytes (ag_write e a) = ag_maxBytes a"
    and "ag_attributes (ag_write e a) = ag_attributes a"
  using assms by (auto simp: ag_inv_def ag_defs str_join_snoc)

lemma getCurrentSize_none:
  assumes "ag_compression a = CompressionNone" and "\<not> encodeBase64 a"
    and "concat (ag_written a) = ''['' @ str_join '','' (map (encOf env) ms)"
  shows "getCurrentSize env a k = int (length (arrayOf env ms)) + k"
  using assms by (simp add: getCurrentSize_def bufferBytes_def arrayOf_def)


text \<open>
  A write hands out complete groups of messages, in order, each of them as one array; a group that
  is larger than the limit is a single message.
\<close>

definition ag_out ::
  "daemon_env \<Rightarrow> (string, string) gomap \<Rightarrow> int \<Rightarrow> AggregateFlush list \<Rightarrow> Message list list \<Rightarrow> bool" where
  "ag_out env attrs maxBytes fl gs \<longleftrightarrow> fl = map (flushOf env attrs) gs \<and>
     [] \<notin> set gs \<and> (\<forall>g \<in> set gs. maxBytes \<noteq> 0 \<longrightarrow> length g = 1 \<or> int (length (arrayOf env g)) \<le> maxBytes)"

lemma ag_out_append: "ag_out env ats k fl gs \<Longrightarrow> ag_out env ats k fl' gs' \<Longrightarrow> ag_out env ats k (fl @ fl') (gs @ gs')"
  by (auto simp: ag_out_def)

lemma ag_out_Nil: "ag_out env ats k [] []"
  by (simp add: ag_out_def)

lemma arrayOf_snoc:
  "length (arrayOf env (ms @ [m])) = (if ms = [] then length (encOf env m) + 2 else length (arrayOf env ms) + length (encOf env m) + 1)"
  by (simp add: arrayOf_def str_join_snoc)

lemma ag_inv_Flush:
  assumes ok: "float32_ok env" and inv: "ag_inv env a ms" and flush: "ag_Flush env a = (a', fl)"
  shows "ag_inv env a' []" and "ag_maxMessages a' = ag_maxMessages a" and "ag_maxBytes a' = ag_maxBytes a"
    and "ag_attributes a' = ag_attributes a" and "fl = [flushOf env (ag_attributes a) ms]"
    and "ms \<noteq> [] \<Longrightarrow> ag_out env (ag_attributes a) (ag_maxBytes a) fl [ms]"
  using ag_Flush_ok [OF ok _ _ _ _ _ _ flush, of ms] inv by (auto simp: ag_inv_def ag_out_def)

lemma ag_Write_groups:
  assumes ok: "float32_ok env" and inv: "ag_inv env a ms" and m: "marshal env m = Inr e" "length e < 2 ^ 24"
    and max: "ag_maxMessages a \<ge> 1" and "ag_Write env a m = (a', r)"
  shows "\<exists>fl gs ms'. r = Inr fl \<and> ag_inv env a' ms' \<and> concat gs @ ms' = ms @ [m] \<and> ag_out env (ag_attributes a) (ag_maxBytes a) fl gs \<and>
    ag_maxMessages a' = ag_maxMessages a \<and> ag_maxBytes a' = ag_maxBytes a \<and> ag_attributes a' = ag_attributes a \<and> int (length ms') < ag_maxMessages a"
proof -
  have enc: "encOf env m = e" using m by simp
  have f32: "float32 env (of_nat (length e)) = of_nat (length e)" using ok m(2) by (simp add: float32_ok_def)
  have size: "\<lfloor>float32 env (float32 env (of_nat (length e)) * expectedCompressionRatio a)\<rfloor> = int (length e)"
    using inv by (simp add: ag_inv_def f32)
  define c where "c \<longleftrightarrow> messageCount a > 0 \<and> ag_maxBytes a \<noteq> 0 \<and> getCurrentSize env a (int (length e)) \<ge> ag_maxBytes a"
  obtain a1 fl1 where a1: "(if c then ag_Flush env a else (a, [])) = (a1, fl1)" by fastforce
  define ms1 where "ms1 = (if c then [] else ms)"
  have g1: "ag_out env (ag_attributes a) (ag_maxBytes a) fl1 (if c then [ms] else [])"
  proof (cases c)
    case True
    then have "ms \<noteq> []" using inv by (auto simp: c_def ag_inv_def)
    with ag_inv_Flush(6) [OF ok inv, of a1 fl1] a1 True show ?thesis by simp
  next
    case False
    with a1 show ?thesis by (simp add: ag_out_Nil)
  qed
  have inv1: "ag_inv env a1 ms1" and k1: "ag_maxMessages a1 = ag_maxMessages a" "ag_maxBytes a1 = ag_maxBytes a"
    and k1': "ag_attributes a1 = ag_attributes a"
    by (cases c; use a1 ag_inv_Flush(1-4) [OF ok inv, of a1 fl1] inv in \<open>simp add: ms1_def\<close>)+
  define a2 where "a2 = ag_write e a1"
  note w = ag_write_ok [OF inv1 m(1), folded a2_def]
  define full where "full \<longleftrightarrow> messageCount a2 \<ge> ag_maxMessages a2 \<or> (ag_maxBytes a2 \<noteq> 0 \<and> getCurrentSize env a2 0 \<ge> ag_maxBytes a2)"
  have W: "ag_Write env a m = (if full then (case ag_Flush env a2 of (a, flush) \<Rightarrow> (a, Inr (fl1 @ flush))) else (a2, Inr fl1))"
    unfolding ag_Write_def m(1) sum.case Let_def size c_def [symmetric] a1 prod.case full_def a2_def ..
  have bound: "length (ms1 @ [m]) = 1 \<or> int (length (arrayOf env (ms1 @ [m]))) \<le> ag_maxBytes a" if "ag_maxBytes a \<noteq> 0"
  proof (cases "ms1 = []")
    case False
    then have "\<not> c" "ms1 = ms" by (auto simp: ms1_def split: if_splits)
    moreover have "messageCount a > 0" using inv False \<open>ms1 = ms\<close> by (simp add: ag_inv_def)
    moreover have "getCurrentSize env a (int (length e)) = int (length (arrayOf env ms)) + int (length e)"
      using inv by (intro getCurrentSize_none) (auto simp: ag_inv_def)
    ultimately show ?thesis using that False by (simp add: c_def arrayOf_snoc enc)
  qed simp
  have cat: "concat (if c then [ms] else []) @ ms1 @ [m] = ms @ [m]" by (simp add: ms1_def)
  show ?thesis
  proof (cases full)
    case True
    obtain a3 fl2 where a3: "ag_Flush env a2 = (a3, fl2)" by fastforce
    from ag_Flush_ok [OF ok w(1) w(4) w(5) w(2) w(3) w(6) a3] bound
    have a3': "ag_inv env a3 []" "ag_out env (ag_attributes a) (ag_maxBytes a) fl2 [ms1 @ [m]]"
      "ag_maxMessages a3 = ag_maxMessages a" "ag_maxBytes a3 = ag_maxBytes a" "ag_attributes a3 = ag_attributes a"
      by (auto simp: ag_out_def w(7-9) k1 k1')
    have "ag_out env (ag_attributes a) (ag_maxBytes a) (fl1 @ fl2) ((if c then [ms] else []) @ [ms1 @ [m]])"
      by (rule ag_out_append [OF g1 a3'(2)])
    moreover have "a' = a3" "r = Inr (fl1 @ fl2)" using W True a3 assms(6) by auto
    moreover have "concat ((if c then [ms] else []) @ [ms1 @ [m]]) @ [] = ms @ [m]" using cat by (simp add: ms1_def)
    ultimately show ?thesis using a3' max
      by (intro exI [of _ "fl1 @ fl2"] exI [of _ "(if c then [ms] else []) @ [ms1 @ [m]]"] exI [of _ "[]"]) simp
  next
    case False
    then have "ag_inv env a2 (ms1 @ [m])"
      using w getCurrentSize_none [OF w(4,5,1), of 0] unfolding ag_inv_def full_def by linarith
    moreover have "int (length (ms1 @ [m])) < ag_maxMessages a" using False w k1 by (simp add: full_def)
    moreover have "a' = a2" "r = Inr fl1" using W False assms(6) by auto
    ultimately show ?thesis using g1 cat w(7-9) k1 k1'
      by (intro exI [of _ fl1] exI [of _ "if c then [ms] else []"] exI [of _ "ms1 @ [m]"]) simp
  qed
qed


text \<open>A sequence of writes: the aggregates handed out, until the first error.\<close>

fun ag_Writes :: "daemon_env \<Rightarrow> producerDaemonAggregator \<Rightarrow> Message list \<Rightarrow> producerDaemonAggregator \<times> AggregateFlush list" where
  "ag_Writes env a [] = (a, [])"
| "ag_Writes env a (m # ms) =
     (case ag_Write env a m of
        (a', Inl e) \<Rightarrow> (a', [])
      | (a', Inr fl) \<Rightarrow> (case ag_Writes env a' ms of (a'', fls) \<Rightarrow> (a'', fl @ fls)))"

definition sendable :: "daemon_env \<Rightarrow> Message \<Rightarrow> bool" where
  "sendable env m \<longleftrightarrow> (\<exists>e. marshal env m = Inr e \<and> length e < 2 ^ 24)"

lemma ag_Writes_groups:
  assumes "float32_ok env" and "ag_inv env a ps" and "\<forall>m \<in> set ms. sendable env m"
    and "ag_maxMessages a \<ge> 1" and "ag_Writes env a ms = (a', fls)"
  shows "\<exists>gs ps'. ag_inv env a' ps' \<and> concat gs @ ps' = ps @ ms \<and> ag_out env (ag_attributes a) (ag_maxBytes a) fls gs \<and>
    ag_maxMessages a' = ag_maxMessages a \<and> ag_maxBytes a' = ag_maxBytes a \<and> ag_attributes a' = ag_attributes a"
  using assms(2-)
proof (induction ms arbitrary: a ps a' fls)
  case Nil
  then show ?case by (intro exI [of _ "[]"] exI [of _ ps]) (simp add: ag_out_Nil)
next
  case (Cons m ms)
  from Cons.prems(2) obtain e where e: "marshal env m = Inr e" "length e < 2 ^ 24" by (auto simp: sendable_def)
  obtain a1 r where a1: "ag_Write env a m = (a1, r)" by fastforce
  from ag_Write_groups [OF assms(1) Cons.prems(1) e Cons.prems(3) a1] obtain fl gs ps1 where
    1: "r = Inr fl" "ag_inv env a1 ps1" "concat gs @ ps1 = ps @ [m]" "ag_out env (ag_attributes a) (ag_maxBytes a) fl gs"
    "ag_maxMessages a1 = ag_maxMessages a" "ag_maxBytes a1 = ag_maxBytes a" "ag_attributes a1 = ag_attributes a"
    by blast
  from Cons.prems(4) a1 1(1) obtain fls' where 2: "ag_Writes env a1 ms = (a', fls')" "fls = fl @ fls'"
    by (auto split: prod.splits)
  have prems: "\<forall>m \<in> set ms. sendable env m" "ag_maxMessages a1 \<ge> 1" using Cons.prems 1 by auto
  from Cons.IH [OF 1(2) prems 2(1)] obtain gs' ps' where
    3: "ag_inv env a' ps'" "concat gs' @ ps' = ps1 @ ms" "ag_out env (ag_attributes a) (ag_maxBytes a) fls' gs'"
    "ag_maxMessages a' = ag_maxMessages a" "ag_maxBytes a' = ag_maxBytes a" "ag_attributes a' = ag_attributes a"
    using 1 by auto
  have "concat (gs @ gs') @ ps' = ps @ m # ms" using 1(3) 3(2) by (metis append.assoc append_Cons append_Nil concat_append)
  with 3 2(2) ag_out_append [OF 1(4) 3(3)] show ?case by blast
qed

section \<open>The daemon\<close>

text \<open>
  \<open>sent env d out\<close>: what has been written to the open channel, followed by what the batcher
  holds, are the encodings of \<open>out\<close>; no batch is larger than the limit.
\<close>

definition sent :: "daemon_env \<Rightarrow> producerDaemon \<Rightarrow> Message list \<Rightarrow> bool" where
  "sent env d out \<longleftrightarrow> \<not> outClosed d \<and> dropped d = [] \<and>
     concat (outCh d) @ b_messages (d_batcher d) = map (rawOf env (withJsonEncoding (d_batcher d))) out \<and>
     batcher_inv (d_batcher d) \<and>
     (\<forall>batch \<in> set (outCh d). batch \<noteq> [] \<and> int (length batch) \<le> b_maxMessages (d_batcher d))"

text \<open>The fields that writing to the batcher and the channel leaves alone.\<close>

definition same_daemon :: "producerDaemon \<Rightarrow> producerDaemon \<Rightarrow> bool" where
  "same_daemon d d' \<longleftrightarrow> d_aggregator d' = d_aggregator d \<and> d_settings d' = d_settings d \<and> stopped d' = stopped d \<and>
     supportsAggregation d' = supportsAggregation d \<and> d_name d' = d_name d \<and>
     withJsonEncoding (d_batcher d') = withJsonEncoding (d_batcher d) \<and>
     b_maxMessages (d_batcher d') = b_maxMessages (d_batcher d)"

lemma same_daemon_trans: "same_daemon d d1 \<Longrightarrow> same_daemon d1 d2 \<Longrightarrow> same_daemon d d2"
  by (simp add: same_daemon_def)

lemma appendAll_sent:
  assumes "sent env d out" and "\<forall>m \<in> set msgs. encodes env (d_batcher d) m"
  shows "\<exists>d'. appendAll env rt d msgs = (d', None) \<and> sent env d' (out @ msgs) \<and> same_daemon d d'"
  using assms
proof (induction msgs arbitrary: d out)
  case Nil
  then show ?case by (simp add: same_daemon_def)
next
  case (Cons m msgs)
  obtain b r where b: "batcher_Append env (d_batcher d) m = (b, Inr r)"
    using Cons.prems(2) by (auto elim: batcher_Append_ok)
  note parts = batcher_Append_parts [OF b]
  have inv: "batcher_inv (d_batcher d)" using Cons.prems(1) by (simp add: sent_def)
  define d0 where "d0 = d\<lparr>d_batcher := b\<rparr>"
  define d1 where "d1 = (if length r > 0 then outCh_Write r (if rt \<and> d_ticker d0 then d0\<lparr>tickerResets := tickerResets d0 + 1\<rparr> else d0) else d0)"
  have step: "appendAll env rt d (m # msgs) = appendAll env rt d1 msgs"
    by (simp add: b d1_def d0_def Let_def)
  have same: "same_daemon d d1"
    using parts(2,3) by (auto simp: same_daemon_def d1_def d0_def outCh_Write_def)
  have out: "outClosed d1 = outClosed d" "d_batcher d1 = b" "dropped d1 = dropped d"
    "outCh d1 = (if r = [] then outCh d else outCh d @ [r])" if "\<not> outClosed d"
    using that by (auto simp: d1_def d0_def outCh_Write_def)
  have "concat (outCh d1) @ b_messages b = map (rawOf env (withJsonEncoding b)) (out @ [m])"
  proof -
    have "concat (outCh d1) @ b_messages b = concat (outCh d) @ (r @ b_messages b)"
      using out Cons.prems(1) by (simp add: sent_def)
    also have "\<dots> = map (rawOf env (withJsonEncoding b)) (out @ [m])"
      unfolding parts(1) using Cons.prems(1) by (simp add: sent_def parts(2) flip: append_assoc)
    finally show ?thesis .
  qed
  then have "sent env d1 (out @ [m])"
    using out Cons.prems(1) batcher_Append_inv [OF inv b] batcher_Append_limits(1) [OF inv b] parts(3)
    by (simp add: sent_def)
  moreover have "\<forall>m \<in> set msgs. encodes env (d_batcher d1) m"
    using Cons.prems same by (simp add: encodes_def batcher_encode_def same_daemon_def)
  ultimately obtain d' where "appendAll env rt d1 msgs = (d', None)" "sent env d' ((out @ [m]) @ msgs)" "same_daemon d1 d'"
    using Cons.IH by blast
  then show ?case using step same_daemon_trans [OF same] by auto
qed

lemma flushBatch_sent:
  assumes "sent env d out"
  shows "sent env (flushBatch d) out" and "same_daemon d (flushBatch d)" and "b_messages (d_batcher (flushBatch d)) = []"
  using assms
  by (auto simp: flushBatch_def batcher_Flush_def outCh_Write_def sent_def same_daemon_def batcher_inv_def Let_def)

lemma castMessages_Msg: "castMessages (map Msg ms) = Inr ms"
  by (induction ms) auto

text \<open>The operations the clients and the ticker perform between start and close.\<close>

datatype daemon_op = DWrite "Message list" | DTick

fun daemon_ops :: "daemon_env \<Rightarrow> producerDaemon \<Rightarrow> daemon_op list \<Rightarrow> producerDaemon \<times> error list" where
  "daemon_ops env d [] = (d, [])"
| "daemon_ops env d (DWrite ms # ops) =
     (case daemon_Write env d (map Msg ms) of (d', err) \<Rightarrow>
        (case daemon_ops env d' ops of (d'', errs) \<Rightarrow> (d'', err # errs)))"
| "daemon_ops env d (DTick # ops) = daemon_ops env (daemon_tick env d) ops"

fun written :: "daemon_op list \<Rightarrow> Message list" where
  "written [] = []"
| "written (DWrite ms # ops) = ms @ written ops"
| "written (DTick # ops) = written ops"

text \<open>The message the daemon builds of a group.\<close>

definition aggMsg :: "daemon_env \<Rightarrow> ProducerDaemonSettings \<Rightarrow> (string, string) gomap \<Rightarrow> Message list \<Rightarrow> Message" where
  "aggMsg env s attrs g = BuildAggregateMessage (arrayOf env g) [MessageAttributes s, af_Attributes (flushOf env attrs g)]"

lemma buildReady_flushOf:
  "supportsAggregation d \<Longrightarrow> buildReady d (flushOf env attrs g) = aggMsg env (d_settings d) attrs g"
  by (simp add: buildReady_def aggMsg_def)

definition marshals :: "daemon_env \<Rightarrow> bool" where
  "marshals env \<longleftrightarrow> (\<forall>m. \<exists>e. marshal env m = Inr e)"

lemma marshals_encodes: "marshals env \<Longrightarrow> encodes env b m"
  by (cases "marshal env m") (auto simp: marshals_def encodes_def batcher_encode_def split: sum.splits, metis Inl_Inr_False)

text \<open>With aggregation: \<open>gs\<close> are the groups sent, \<open>ps\<close> the messages still in the aggregator.\<close>

definition aggregating :: "daemon_env \<Rightarrow> producerDaemon \<Rightarrow> producerDaemonAggregator \<Rightarrow> Message list list \<Rightarrow> Message list \<Rightarrow> bool" where
  "aggregating env d a gs ps \<longleftrightarrow> \<not> stopped d \<and> supportsAggregation d \<and> AggregationSize (d_settings d) > 1 \<and>
     d_aggregator d = Single a \<and> ag_inv env a ps \<and> ag_maxMessages a \<ge> 1 \<and>
     sent env d (map (aggMsg env (d_settings d) (ag_attributes a)) gs) \<and>
     [] \<notin> set gs \<and> (\<forall>g \<in> set gs. ag_maxBytes a \<noteq> 0 \<longrightarrow> length g = 1 \<or> int (length (arrayOf env g)) \<le> ag_maxBytes a)"

definition same_ag :: "producerDaemonAggregator \<Rightarrow> producerDaemonAggregator \<Rightarrow> bool" where
  "same_ag a a' \<longleftrightarrow> ag_attributes a' = ag_attributes a \<and> ag_maxBytes a' = ag_maxBytes a \<and> ag_maxMessages a' = ag_maxMessages a"

lemma same_ag_trans: "same_ag a b \<Longrightarrow> same_ag b c \<Longrightarrow> same_ag a c"
  by (simp add: same_ag_def)

lemma sent_aggregator: "sent env (d\<lparr>d_aggregator := g\<rparr>) out = sent env d out"
  by (simp add: sent_def)

lemma aggregateAll_groups:
  assumes "float32_ok env" and "d_aggregator d = Single a" and "ag_inv env a ps" and "ag_maxMessages a \<ge> 1"
    and "supportsAggregation d" and "\<forall>m \<in> set ms. sendable env m"
  shows "\<exists>a' gs ps'. aggregateAll env d (map Msg ms) res =
      (d\<lparr>d_aggregator := Single a'\<rparr>, Inr (res @ map (aggMsg env (d_settings d) (ag_attributes a)) gs)) \<and>
    ag_inv env a' ps' \<and> concat gs @ ps' = ps @ ms \<and> same_ag a a' \<and>
    ag_out env (ag_attributes a) (ag_maxBytes a) (map (flushOf env (ag_attributes a)) gs) gs"
  using assms(2-)
proof (induction ms arbitrary: d a ps res)
  case Nil
  have "d\<lparr>d_aggregator := Single a\<rparr> = d" using Nil.prems(1) by simp
  then show ?case using Nil.prems
    by (intro exI [of _ a] exI [of _ "[]"] exI [of _ ps]) (simp add: same_ag_def ag_out_Nil)
next
  case (Cons m ms)
  from Cons.prems(5) obtain e where e: "marshal env m = Inr e" "length e < 2 ^ 24" by (auto simp: sendable_def)
  obtain a1 r where a1: "ag_Write env a m = (a1, r)" by fastforce
  from ag_Write_groups [OF assms(1) Cons.prems(2) e Cons.prems(3) a1] obtain fl gs ps1 where
    1: "r = Inr fl" "ag_inv env a1 ps1" "concat gs @ ps1 = ps @ [m]" "ag_out env (ag_attributes a) (ag_maxBytes a) fl gs"
    "same_ag a a1"
    by (auto simp: same_ag_def)
  define d1 where "d1 = d\<lparr>d_aggregator := Single a1\<rparr>"
  define res1 where "res1 = res @ map (aggMsg env (d_settings d) (ag_attributes a)) gs"
  have "map (buildReady d) fl = map (aggMsg env (d_settings d) (ag_attributes a)) gs"
    using 1(4) Cons.prems(4) by (simp add: ag_out_def buildReady_flushOf)
  then have step: "aggregateAll env d (map Msg (m # ms)) res = aggregateAll env d1 (map Msg ms) res1"
    by (simp add: Cons.prems(1) a1 1(1) d1_def res1_def)
  have d1: "d_aggregator d1 = Single a1" "supportsAggregation d1" "d_settings d1 = d_settings d"
    using Cons.prems by (simp_all add: d1_def)
  have "ag_maxMessages a1 \<ge> 1" "\<forall>m \<in> set ms. sendable env m" using Cons.prems 1(5) by (auto simp: same_ag_def)
  from Cons.IH [OF d1(1) 1(2) this(1) d1(2) this(2), of res1] obtain a' gs' ps' where
    2: "aggregateAll env d1 (map Msg ms) res1 =
      (d1\<lparr>d_aggregator := Single a'\<rparr>, Inr (res1 @ map (aggMsg env (d_settings d) (ag_attributes a)) gs'))"
      "ag_inv env a' ps'" "concat gs' @ ps' = ps1 @ ms" "same_ag a1 a'"
      "ag_out env (ag_attributes a) (ag_maxBytes a) (map (flushOf env (ag_attributes a)) gs') gs'"
    using 1(5) unfolding d1(3) by (auto simp: same_ag_def)
  have "concat (gs @ gs') @ ps' = ps @ m # ms" using 1(3) 2(3) by (metis append.assoc append_Cons append_Nil concat_append)
  moreover have "d1\<lparr>d_aggregator := Single a'\<rparr> = d\<lparr>d_aggregator := Single a'\<rparr>" by (simp add: d1_def)
  moreover have "ag_out env (ag_attributes a) (ag_maxBytes a) (map (flushOf env (ag_attributes a)) (gs @ gs')) (gs @ gs')"
    using 1(4) 2(5) by (auto simp: ag_out_def)
  ultimately show ?case
    using step 2(1,2) same_ag_trans [OF 1(5) 2(4)]
    by (intro exI [of _ a'] exI [of _ "gs @ gs'"] exI [of _ ps']) (simp add: res1_def)
qed

lemma aggregating_Write:
  assumes "float32_ok env" and "marshals env" and ag: "aggregating env d a gs ps" and "\<forall>m \<in> set ms. sendable env m"
  shows "\<exists>d' a' gs' ps'. daemon_Write env d (map Msg ms) = (d', None) \<and> aggregating env d' a' gs' ps' \<and>
    concat gs' @ ps' = (concat gs @ ps) @ ms \<and> same_ag a a' \<and> same_daemon (d\<lparr>d_aggregator := Single a'\<rparr>) d'"
proof -
  have d: "d_aggregator d = Single a" "ag_inv env a ps" "ag_maxMessages a \<ge> 1" "supportsAggregation d"
    "\<not> stopped d" "AggregationSize (d_settings d) > 1"
    using ag by (auto simp: aggregating_def)
  from aggregateAll_groups [OF assms(1) d(1-4) assms(4), of "[]"] obtain a' gs1 ps' where
    1: "aggregateAll env d (map Msg ms) [] =
      (d\<lparr>d_aggregator := Single a'\<rparr>, Inr (map (aggMsg env (d_settings d) (ag_attributes a)) gs1))"
    "ag_inv env a' ps'" "concat gs1 @ ps' = ps @ ms" "same_ag a a'"
    "ag_out env (ag_attributes a) (ag_maxBytes a) (map (flushOf env (ag_attributes a)) gs1) gs1"
    by auto
  define d1 where "d1 = d\<lparr>d_aggregator := Single a'\<rparr>"
  have "sent env d1 (map (aggMsg env (d_settings d) (ag_attributes a)) gs)"
    using ag by (simp add: aggregating_def d1_def sent_aggregator)
  from appendAll_sent [OF this, of "map (aggMsg env (d_settings d) (ag_attributes a)) gs1" True]
  obtain d' where 2: "appendAll env True d1 (map (aggMsg env (d_settings d) (ag_attributes a)) gs1) = (d', None)"
    "sent env d' (map (aggMsg env (d_settings d) (ag_attributes a)) (gs @ gs1))" "same_daemon d1 d'"
    using marshals_encodes [OF assms(2)] by auto
  have "daemon_Write env d (map Msg ms) = (d', None)"
    using d 1(1) 2(1) by (simp add: daemon_Write_def applyAggregation_def d1_def)
  moreover have "aggregating env d' a' (gs @ gs1) ps'"
    using ag 1 2(2,3) by (auto simp: aggregating_def same_daemon_def d1_def same_ag_def ag_out_def)
  moreover have "concat (gs @ gs1) @ ps' = (concat gs @ ps) @ ms" using 1(3) by simp
  ultimately show ?thesis using 1(4) 2(3) unfolding d1_def by blast
qed

lemma aggregating_flushAll:
  assumes "float32_ok env" and "marshals env" and ag: "aggregating env d a gs ps"
  shows "\<exists>d' a' gs'. flushAll env d = (d', None) \<and> aggregating env d' a' gs' [] \<and>
    concat gs' = concat gs @ ps \<and> same_ag a a' \<and> same_daemon (d\<lparr>d_aggregator := Single a'\<rparr>) d' \<and> b_messages (d_batcher d') = []"
proof -
  have d: "d_aggregator d = Single a" "ag_inv env a ps" "supportsAggregation d"
    using ag by (auto simp: aggregating_def)
  obtain a1 fl where a1: "ag_Flush env a = (a1, fl)" by fastforce
  note f = ag_inv_Flush [OF assms(1) d(2) a1]
  have same: "same_ag a a1" using f by (simp add: same_ag_def)
  define gs1 where "gs1 = (if ps = [] then [] else [ps])"
  define d1 where "d1 = d\<lparr>d_aggregator := Single a1\<rparr>"
  have sup: "supportsAggregation d1" "d_settings d1 = d_settings d" using d(3) by (simp_all add: d1_def)
  have fa: "flushAggregate env d = (d1, map (aggMsg env (d_settings d) (ag_attributes a)) gs1)"
    using buildReady_flushOf [OF d(3)] by (auto simp: flushAggregate_def d(1) a1 f(5) gs1_def d1_def buildReady_def)
  have "sent env d1 (map (aggMsg env (d_settings d) (ag_attributes a)) gs)"
    using ag by (simp add: aggregating_def d1_def sent_aggregator)
  from appendAll_sent [OF this, of "map (aggMsg env (d_settings d) (ag_attributes a)) gs1" False]
  obtain d2 where 2: "appendAll env False d1 (map (aggMsg env (d_settings d) (ag_attributes a)) gs1) = (d2, None)"
    "sent env d2 (map (aggMsg env (d_settings d) (ag_attributes a)) (gs @ gs1))" "same_daemon d1 d2"
    using marshals_encodes [OF assms(2)] by auto
  note fb = flushBatch_sent [OF 2(2)]
  have same2: "same_daemon d1 (flushBatch d2)" by (rule same_daemon_trans [OF 2(3) fb(2)])
  have "flushAll env d = (flushBatch d2, None)" by (simp add: flushAll_def fa 2(1))
  moreover have "aggregating env (flushBatch d2) a1 (gs @ gs1) []"
    using ag f(1) same same2 fb(1) f(6)
    by (auto simp: aggregating_def same_daemon_def d1_def same_ag_def ag_out_def gs1_def split: if_splits)
  moreover have "concat (gs @ gs1) = concat gs @ ps" by (simp add: gs1_def)
  ultimately show ?thesis using same same2 fb(3) unfolding d1_def by blast
qed

lemma daemon_ops_aggregating:
  assumes "float32_ok env" and "marshals env" and "aggregating env d a gs ps"
    and "\<forall>m \<in> set (written ops). sendable env m" and "daemon_ops env d ops = (d', errs)"
  shows "\<exists>a' gs' ps'. aggregating env d' a' gs' ps' \<and> concat gs' @ ps' = (concat gs @ ps) @ written ops \<and> same_ag a a' \<and>
    same_daemon (d\<lparr>d_aggregator := Single a'\<rparr>) d' \<and> (\<forall>e \<in> set errs. e = None)"
  using assms(3-)
proof (induction ops arbitrary: d a gs ps errs rule: written.induct)
  case 1
  have "d\<lparr>d_aggregator := Single a\<rparr> = d" using 1 by (simp add: aggregating_def)
  with 1 show ?case by (intro exI [of _ a] exI [of _ gs] exI [of _ ps]) (simp add: same_ag_def same_daemon_def)
next
  case (2 ms ops)
  have "\<forall>m \<in> set ms. sendable env m" using 2(3) by simp
  from aggregating_Write [OF assms(1,2) 2(2) this] obtain d1 a1 gs1 ps1 where
    w: "daemon_Write env d (map Msg ms) = (d1, None)" "aggregating env d1 a1 gs1 ps1"
    "concat gs1 @ ps1 = (concat gs @ ps) @ ms" "same_ag a a1" "same_daemon (d\<lparr>d_aggregator := Single a1\<rparr>) d1"
    by blast
  from 2(4) w(1) obtain errs' where o: "daemon_ops env d1 ops = (d', errs')" "errs = None # errs'"
    by (auto split: prod.splits)
  from 2(1) [OF w(2) _ o(1)] 2(3) obtain a' gs' ps' where
    r: "aggregating env d' a' gs' ps'" "concat gs' @ ps' = (concat gs1 @ ps1) @ written ops" "same_ag a1 a'"
    "same_daemon (d1\<lparr>d_aggregator := Single a'\<rparr>) d'" "\<forall>e \<in> set errs'. e = None"
    by auto
  have "same_daemon (d\<lparr>d_aggregator := Single a'\<rparr>) d'" using w(5) r(4) by (simp add: same_daemon_def)
  then show ?case using r w(3) o(2) same_ag_trans [OF w(4) r(3)] by auto
next
  case (3 ops)
  from aggregating_flushAll [OF assms(1,2) 3(2)] obtain d1 a1 gs1 where
    w: "flushAll env d = (d1, None)" "aggregating env d1 a1 gs1 []" "concat gs1 = concat gs @ ps" "same_ag a a1"
    "same_daemon (d\<lparr>d_aggregator := Single a1\<rparr>) d1"
    by blast
  have o: "daemon_ops env d1 ops = (d', errs)" using 3(4) w(1) by (simp add: daemon_tick_def)
  from 3(1) [OF w(2) _ o] 3(3) obtain a' gs' ps' where
    r: "aggregating env d' a' gs' ps'" "concat gs' @ ps' = (concat gs1 @ []) @ written ops" "same_ag a1 a'"
    "same_daemon (d1\<lparr>d_aggregator := Single a'\<rparr>) d'" "\<forall>e \<in> set errs. e = None"
    by auto
  have "same_daemon (d\<lparr>d_aggregator := Single a'\<rparr>) d'" using w(5) r(4) by (simp add: same_daemon_def)
  then show ?case using r w(3) same_ag_trans [OF w(4) r(3)] by auto
qed

text \<open>Without aggregation the daemon only batches.\<close>

definition batching :: "daemon_env \<Rightarrow> producerDaemon \<Rightarrow> producerDaemonAggregator \<Rightarrow> Message list \<Rightarrow> bool" where
  "batching env d a out \<longleftrightarrow> \<not> stopped d \<and> AggregationSize (d_settings d) \<le> 1 \<and>
     d_aggregator d = Single a \<and> ag_inv env a [] \<and> sent env d out"

lemma batching_Write:
  assumes "marshals env" and b: "batching env d a out"
  shows "\<exists>d'. daemon_Write env d (map Msg ms) = (d', None) \<and> batching env d' a (out @ ms) \<and> same_daemon d d'"
proof -
  from b have "sent env d out" by (simp add: batching_def)
  from appendAll_sent [OF this, of ms True] marshals_encodes [OF assms(1)] obtain d' where
    "appendAll env True d ms = (d', None)" "sent env d' (out @ ms)" "same_daemon d d'" by blast
  with b show ?thesis
    by (auto simp: daemon_Write_def applyAggregation_def castMessages_Msg batching_def same_daemon_def)
qed

lemma batching_flushAll:
  assumes "float32_ok env" and "marshals env" and b: "batching env d a out"
  shows "\<exists>d' a'. flushAll env d = (d', None) \<and> batching env d' a' out \<and>
    same_daemon (d\<lparr>d_aggregator := Single a'\<rparr>) d' \<and> b_messages (d_batcher d') = []"
proof -
  have d: "d_aggregator d = Single a" "ag_inv env a []" using b by (auto simp: batching_def)
  obtain a1 fl where a1: "ag_Flush env a = (a1, fl)" by fastforce
  note f = ag_inv_Flush [OF assms(1) d(2) a1]
  define d1 where "d1 = d\<lparr>d_aggregator := Single a1\<rparr>"
  have fa: "flushAggregate env d = (d1, [])" by (simp add: flushAggregate_def d(1) a1 f(5) d1_def)
  have "sent env d1 out" using b by (simp add: batching_def d1_def sent_aggregator)
  note fb = flushBatch_sent [OF this]
  have "flushAll env d = (flushBatch d1, None)" by (simp add: flushAll_def fa)
  moreover have "batching env (flushBatch d1) a1 out"
    using b f(1) fb by (auto simp: batching_def same_daemon_def d1_def)
  ultimately show ?thesis using fb unfolding d1_def by blast
qed

lemma daemon_ops_batching:
  assumes "float32_ok env" and "marshals env" and "batching env d a out" and "daemon_ops env d ops = (d', errs)"
  shows "\<exists>a'. batching env d' a' (out @ written ops) \<and> same_daemon (d\<lparr>d_aggregator := Single a'\<rparr>) d' \<and> (\<forall>e \<in> set errs. e = None)"
  using assms(3-)
proof (induction ops arbitrary: d a out errs rule: written.induct)
  case 1
  then show ?case by (intro exI [of _ a]) (simp add: same_daemon_def batching_def)
next
  case (2 ms ops)
  from batching_Write [OF assms(2) 2(2)] obtain d1 where
    w: "daemon_Write env d (map Msg ms) = (d1, None)" "batching env d1 a (out @ ms)" "same_daemon d d1" by blast
  from 2(3) w(1) obtain errs' where o: "daemon_ops env d1 ops = (d', errs')" "errs = None # errs'"
    by (auto split: prod.splits)
  from 2(1) [OF w(2) o(1)] show ?case using w(3) o(2) by (auto simp: same_daemon_def)
next
  case (3 ops)
  from batching_flushAll [OF assms(1,2) 3(2)] obtain d1 a1 where
    w: "flushAll env d = (d1, None)" "batching env d1 a1 out" "same_daemon (d\<lparr>d_aggregator := Single a1\<rparr>) d1" by blast
  have o: "daemon_ops env d1 ops = (d', errs)" using 3(3) w(1) by (simp add: daemon_tick_def)
  from 3(1) [OF w(2) o] show ?case using w(3) by (auto simp: same_daemon_def)
qed

lemma sent_new:
  assumes "BatchSize s \<ge> 1" and "BatchMaxSize s \<ge> 0"
  shows "sent env (daemon_start (NewProducerDaemonWithInterfaces g (NewProducerDaemonBatcher s) name s sa)) []"
  using batcher_inv_new(1) [OF assms]
  by (simp add: sent_def daemon_start_def NewProducerDaemonWithInterfaces_def NewProducerDaemonBatcher_def)

lemmas new_daemon_simps = daemon_start_def NewProducerDaemonWithInterfaces_def NewProducerDaemonBatcher_def

section \<open>Properties\<close>

text \<open>An environment for the witnesses: a message encodes to its body and numbers are exact.\<close>

definition demo_env :: daemon_env where
  "demo_env = \<lparr>marshal = (\<lambda>m. Inr (Body m)), gzipBuffer = concat, gzipClosed = concat, base64Encode = id,
     float32 = id, md5Sum = length, randIntn = (\<lambda>_ _. 0)\<rparr>"

definition demo_daemon_settings :: "int \<Rightarrow> ProducerDaemonSettings" where
  "demo_daemon_settings n = \<lparr>BatchSize = 2, BatchMaxSize = 4, AggregationSize = n, AggregationMaxSize = 0,
     PartitionBucketCount = 3, MessageAttributes = []\<rparr>"

abbreviation demo_msg :: "string \<Rightarrow> Message" where
  "demo_msg s \<equiv> \<lparr>Attributes = [], Body = s\<rparr>"

lemma demo_env_ok: "float32_ok demo_env" "marshals demo_env" "encodes demo_env b m"
  by (simp_all add: float32_ok_def marshals_def demo_env_def encodes_def batcher_encode_def)

lemma demo_sendable: "length (Body m) < 2 ^ 24 \<Longrightarrow> sendable demo_env m"
  by (simp add: sendable_def demo_env_def)



text \<open>
  A daemon without aggregation hands every written message to its output channel exactly once
  and in order by the time it is closed, in batches no larger than the configured size.
\<close>

lemma daemon_batches_no_loss:
  assumes "float32_ok env" and "marshals env"
    and "AggregationSize s \<le> 1" and "BatchSize s \<ge> 1" and "BatchMaxSize s \<ge> 0"
    and "NewProducerDaemonAggregator s CompressionNone [] = Inr a"
    and "daemon_ops env (daemon_start (NewProducerDaemonWithInterfaces (Single a) (NewProducerDaemonBatcher s) name s True)) ops = (d1, errs)"
    and "daemon_close env d1 = (d2, err)"
  shows "concat (outCh d2) = map (rawOf env True) (written ops) \<and>
    (\<forall>batch \<in> set (outCh d2). batch \<noteq> [] \<and> int (length batch) \<le> BatchSize s) \<and>
    dropped d2 = [] \<and> err = None \<and> (\<forall>e \<in> set errs. e = None)"
proof -
  let ?d = "daemon_start (NewProducerDaemonWithInterfaces (Single a) (NewProducerDaemonBatcher s) name s True)"
  note a = ag_inv_new [OF assms(6)]
  have "batching env ?d a []"
    using a assms(3) sent_new [OF assms(4,5)] by (simp add: batching_def new_daemon_simps)
  from daemon_ops_batching [OF assms(1,2) this assms(7)] obtain a1 where
    1: "batching env d1 a1 (written ops)" "same_daemon (?d\<lparr>d_aggregator := Single a1\<rparr>) d1" "\<forall>e \<in> set errs. e = None"
    by auto
  from batching_flushAll [OF assms(1,2) 1(1)] obtain d3 a3 where
    2: "flushAll env d1 = (d3, None)" "batching env d3 a3 (written ops)"
    "same_daemon (d1\<lparr>d_aggregator := Single a3\<rparr>) d3" "b_messages (d_batcher d3) = []"
    by blast
  have s: "withJsonEncoding (d_batcher d3)" "b_maxMessages (d_batcher d3) = BatchSize s"
    using 1(2) 2(3) by (auto simp: same_daemon_def new_daemon_simps)
  have "d2 = outCh_Close d3" "err = None" using 2(1) assms(8) by (simp_all add: daemon_close_def)
  then show ?thesis
    using 1(3) 2(2,4) s by (auto simp: batching_def sent_def outCh_Close_def)
qed

lemma daemon_batches_no_loss_witness:
  "let a = projr (NewProducerDaemonAggregator (demo_daemon_settings 1) CompressionNone []);
       d = daemon_start (NewProducerDaemonWithInterfaces (Single a) (NewProducerDaemonBatcher (demo_daemon_settings 1)) ''d'' (demo_daemon_settings 1) True);
       d1 = fst (daemon_ops demo_env d [DWrite [demo_msg ''a'', demo_msg ''b'', demo_msg ''c''], DTick, DWrite [demo_msg ''d'']])
   in concat (outCh (fst (daemon_close demo_env d1))) =
       map (rawOf demo_env True) [demo_msg ''a'', demo_msg ''b'', demo_msg ''c'', demo_msg ''d'']"
proof -
  let ?s = "demo_daemon_settings 1"
  have s: "AggregationSize ?s \<le> 1" "BatchSize ?s \<ge> 1" "BatchMaxSize ?s \<ge> 0" by (simp_all add: demo_daemon_settings_def)
  have a: "NewProducerDaemonAggregator ?s CompressionNone [] = Inr (projr (NewProducerDaemonAggregator ?s CompressionNone []))"
    by (simp add: NewProducerDaemonAggregator_def)
  show ?thesis
    using daemon_batches_no_loss [OF demo_env_ok(1,2) s a surjective_pairing surjective_pairing, of "''d''"
      "[DWrite [demo_msg ''a'', demo_msg ''b'', demo_msg ''c''], DTick, DWrite [demo_msg ''d'']]"]
    unfolding Let_def by auto
qed

text \<open>
  The batcher neither loses, repeats nor reorders messages: over any sequence of appends the
  batches handed out followed by a final flush are the encoded messages. A batch has at most
  \<open>BatchSize\<close> messages, and at most \<open>BatchMaxSize\<close> bytes when every message is smaller than that.
\<close>

lemma batcher_no_loss:
  assumes "BatchSize s \<ge> 1" and "BatchMaxSize s \<ge> 0"
    and "\<forall>m \<in> set msgs. encodes env (NewProducerDaemonBatcher s) m"
    and "appends env (NewProducerDaemonBatcher s) msgs = (b, batches)"
  shows "concat batches @ snd (batcher_Flush b) = map (rawOf env True) msgs \<and>
    (\<forall>r \<in> set batches. int (length r) \<le> BatchSize s) \<and>
    (BatchMaxSize s > 0 \<longrightarrow> (\<forall>m \<in> set msgs. int (length (bodyOf env True m)) < BatchMaxSize s) \<longrightarrow>
      (\<forall>r \<in> set batches. bytesOf r \<le> BatchMaxSize s))"
proof -
  let ?b = "NewProducerDaemonBatcher s"
  have b: "withJsonEncoding ?b" "b_messages ?b = []" "b_maxMessages ?b = BatchSize s" "b_maxBytes ?b = BatchMaxSize s"
    by (simp_all add: NewProducerDaemonBatcher_def)
  note inv = batcher_inv_new(1) [OF assms(1,2)]
  show ?thesis
    using appends_no_loss [OF assms(3,4)] appends_limits [OF inv assms(4)] b
    by (auto simp: batcher_Flush_def)
qed

lemma batcher_no_loss_witness:
  "let (b, batches) = appends demo_env (NewProducerDaemonBatcher (demo_daemon_settings 1)) [demo_msg ''ab'', demo_msg ''abc'', demo_msg ''a'']
   in concat batches @ snd (batcher_Flush b) = map (rawOf demo_env True) [demo_msg ''ab'', demo_msg ''abc'', demo_msg ''a''] \<and>
     (\<forall>r \<in> set batches. bytesOf r \<le> 4)"
proof -
  let ?s = "demo_daemon_settings 1"
  let ?ms = "[demo_msg ''ab'', demo_msg ''abc'', demo_msg ''a'']"
  have s: "BatchSize ?s \<ge> 1" "BatchMaxSize ?s \<ge> 0" "BatchMaxSize ?s = 4" by (simp_all add: demo_daemon_settings_def)
  have m: "\<forall>m \<in> set ?ms. encodes demo_env (NewProducerDaemonBatcher ?s) m" by (simp add: demo_env_ok)
  have small: "\<forall>m \<in> set ?ms. int (length (bodyOf demo_env True m)) < 4"
    by (simp add: bodyOf_def demo_env_def)
  show ?thesis
    using batcher_no_loss [OF s(1,2) m surjective_pairing] small unfolding s(3) by (auto simp: case_prod_beta)
qed

text \<open>
  When a batch with some bytes is pending and a message of exactly \<open>BatchMaxSize\<close> bytes
  follows, \<open>Append\<close> hands both out as one batch, which is larger than the limit although every
  message fits it.
\<close>

lemma batcher_joins_two_batches:
  assumes "BatchSize s \<ge> 2"
    and "marshal env m1 = Inr e1" and "0 < length e1" and "int (length e1) < BatchMaxSize s"
    and "marshal env m2 = Inr e2" and "int (length e2) = BatchMaxSize s"
  shows "\<exists>r. snd (appends env (NewProducerDaemonBatcher s) [m1, m2]) = [[], r] \<and> length r = 2 \<and> bytesOf r > BatchMaxSize s"
  using assms
  by (simp add: NewProducerDaemonBatcher_def batcher_Append_def batcher_encode_def Let_def batcher_Flush_def batcher_needsFlush_def)

lemma batcher_joins_two_batches_witness:
  "\<exists>r. snd (appends demo_env (NewProducerDaemonBatcher (demo_daemon_settings 1)) [demo_msg ''abc'', demo_msg ''abcd'']) = [[], r] \<and>
     length r = 2 \<and> bytesOf r > 4"
proof -
  let ?s = "demo_daemon_settings 1"
  have s: "BatchSize ?s \<ge> 2" "BatchMaxSize ?s = 4" by (simp_all add: demo_daemon_settings_def)
  have e: "marshal demo_env (demo_msg ''abc'') = Inr ''abc''" "marshal demo_env (demo_msg ''abcd'') = Inr ''abcd''"
    by (simp_all add: demo_env_def)
  show ?thesis using batcher_joins_two_batches [OF s(1) e(1) _ _ e(2)] unfolding s(2) by simp
qed

lemma ag_Write_full:
  assumes ok: "float32_ok env" and inv: "ag_inv env a ps" and m: "sendable env m"
    and max: "ag_maxBytes a = 0" "ag_maxMessages a \<le> int (length ps) + 1"
  shows "\<exists>a'. ag_Write env a m = (a', Inr [flushOf env (ag_attributes a) (ps @ [m])]) \<and> ag_inv env a' [] \<and> same_ag a a'"
proof -
  from m obtain e where e: "marshal env m = Inr e" by (auto simp: sendable_def)
  note w = ag_write_ok [OF inv e]
  obtain a' fl where a': "ag_Flush env (ag_write e a) = (a', fl)" by fastforce
  have "ag_Write env a m = (a', Inr fl)"
    using max w(2,7,8) a' by (simp add: ag_Write_def e Let_def)
  with ag_Flush_ok [OF ok w(1) w(4) w(5) w(2) w(3) w(6) a'] w(7-9) show ?thesis by (auto simp: same_ag_def)
qed

text \<open>
  A batch that fails half way loses messages of earlier, successful writes: when its first
  message completes the pending aggregate and its second is not a message, \<open>Write\<close> returns an
  error and drops the finished aggregate. After close the channel holds only what had been sent
  before; the accepted messages \<open>ps\<close> are gone.
\<close>

lemma failed_write_drops_aggregate:
  assumes "float32_ok env" and "marshals env" and "aggregating env d a gs ps" and "sendable env m"
    and "ag_maxBytes a = 0" and "ag_maxMessages a = int (length ps) + 1"
  shows "\<exists>d' e. daemon_Write env d [Msg m, OtherWritable t] = (d', Some e) \<and>
    concat (outCh (fst (daemon_close env d'))) =
      map (rawOf env (withJsonEncoding (d_batcher d))) (map (aggMsg env (d_settings d) (ag_attributes a)) gs)"
proof -
  have d: "d_aggregator d = Single a" "ag_inv env a ps" using assms(3) by (auto simp: aggregating_def)
  from ag_Write_full [OF assms(1) d(2) assms(4,5)] assms(6) obtain a' where
    a': "ag_Write env a m = (a', Inr [flushOf env (ag_attributes a) (ps @ [m])])" "ag_inv env a' []" "same_ag a a'"
    by auto
  define d' where "d' = d\<lparr>d_aggregator := Single a'\<rparr>"
  have "\<exists>e. daemon_Write env d [Msg m, OtherWritable t] = (d', Some e)"
    using assms(3) by (simp add: daemon_Write_def applyAggregation_def d(1) a'(1) d'_def aggregating_def)
  moreover have "concat (outCh (fst (daemon_close env d'))) =
      map (rawOf env (withJsonEncoding (d_batcher d))) (map (aggMsg env (d_settings d) (ag_attributes a)) gs)"
  proof -
    obtain af fl where af: "ag_Flush env a' = (af, fl)" by fastforce
    define d3 where "d3 = d\<lparr>d_aggregator := Single af\<rparr>"
    have f: "flushAll env d' = (flushBatch d3, None)"
      by (simp add: flushAll_def flushAggregate_def d'_def af ag_inv_Flush(5) [OF assms(1) a'(2) af] d3_def)
    have "sent env d3 (map (aggMsg env (d_settings d) (ag_attributes a)) gs)" "d_batcher d3 = d_batcher d"
      using assms(3) by (simp_all add: aggregating_def d3_def sent_aggregator)
    with flushBatch_sent [OF this(1)] show ?thesis
      by (auto simp: daemon_close_def f outCh_Close_def sent_def same_daemon_def)
  qed
  ultimately show ?thesis by blast
qed

lemma failed_write_drops_aggregate_witness:
  "let a = ag_write ''x'' (projr (NewProducerDaemonAggregator (demo_daemon_settings 2) CompressionNone []));
       d = NewProducerDaemonWithInterfaces (Single a) (NewProducerDaemonBatcher (demo_daemon_settings 2)) ''d'' (demo_daemon_settings 2) True
   in \<exists>d' e. daemon_Write demo_env d [Msg (demo_msg ''y''), OtherWritable ''int''] = (d', Some e) \<and>
        concat (outCh (fst (daemon_close demo_env d'))) = []"
proof -
  let ?s = "demo_daemon_settings 2"
  let ?fresh = "projr (NewProducerDaemonAggregator ?s CompressionNone [])"
  let ?a = "ag_write ''x'' ?fresh"
  let ?d = "NewProducerDaemonWithInterfaces (Single ?a) (NewProducerDaemonBatcher ?s) ''d'' ?s True"
  have s: "BatchSize ?s \<ge> 1" "BatchMaxSize ?s \<ge> 0" "AggregationSize ?s = 2" "AggregationMaxSize ?s = 0"
    by (simp_all add: demo_daemon_settings_def)
  have a0: "ag_inv demo_env ?fresh []" "ag_maxMessages ?fresh = 2" "ag_maxBytes ?fresh = 0"
    using ag_inv_new [of ?s "[]" ?fresh] by (simp_all add: NewProducerDaemonAggregator_def s)
  have x: "marshal demo_env (demo_msg ''x'') = Inr ''x''" by (simp add: demo_env_def)
  note w = ag_write_ok [OF a0(1) x]
  have "aggregating demo_env ?d ?a [] [demo_msg ''x'']"
    using w a0 sent_new [OF s(1,2)] s
    by (simp add: aggregating_def new_daemon_simps ag_inv_def sent_def)
  moreover have "sendable demo_env (demo_msg ''y'')" by (rule demo_sendable) simp
  moreover have "ag_maxBytes ?a = 0" "ag_maxMessages ?a = int (length [demo_msg ''x'']) + 1" using w a0 by simp_all
  ultimately show ?thesis
    using failed_write_drops_aggregate [OF demo_env_ok(1,2), of ?d ?a "[]" "[demo_msg ''x'']" "demo_msg ''y''" "''int''"]
    unfolding Let_def by simp
qed

lemma createBuckets_nth:
  assumes "createBuckets s c n bs = Inr as"
  shows "length as = length bs" and "i < length bs \<Longrightarrow>
    gm_get (ag_attributes (as ! i)) ''gosoline.kinesis.explicitHashKey'' = Some (itoa (explicitHashKeyOf n (bs ! i)))"
  using assms
proof (induction bs arbitrary: as i)
  case (Cons b bs)
  { case 1
    then show ?case using Cons.IH(1) by (auto split: sum.splits)
  next
    case 2
    then show ?case using Cons.IH(2)
      by (cases i) (auto simp: NewProducerDaemonAggregator_def setAttributes_def ag_defs split: sum.splits CompressionType.splits) }
qed simp_all


lemma createBuckets_new:
  assumes "createBuckets s CompressionNone n bs = Inr as" and "i < length as"
  shows "ag_inv env (as ! i) [] \<and> ag_maxMessages (as ! i) = AggregationSize s"
  using assms
proof (induction bs arbitrary: as i)
  case (Cons b bs)
  from Cons.prems(1) obtain a as' where a: "NewProducerDaemonAggregator s CompressionNone
      [[(''gosoline.kinesis.explicitHashKey'', itoa (explicitHashKeyOf n b))]] = Inr a"
    "createBuckets s CompressionNone n bs = Inr as'" "as = a # as'"
    by (auto split: sum.splits)
  show ?case using Cons.IH [OF a(2)] ag_inv_new [OF a(1)] Cons.prems(2) a(3) by (cases i) auto
qed simp

lemma step_bounds:
  assumes "0 < n" and "n < 2 ^ 63"
  shows "incrementStep n > 0" and "int n * incrementStep n < 2 ^ 128"
proof -
  have "int n \<le> 2 ^ 128 - 1" using assms(2) by simp
  then show "incrementStep n > 0" using assms(1) by (simp add: incrementStep_def pos_imp_zdiv_pos_iff)
  have "int n * incrementStep n + (2 ^ 128 - 1) mod int n = 2 ^ 128 - 1"
    unfolding incrementStep_def by (rule mult_div_mod_eq)
  moreover have "0 \<le> ((2 ^ 128 - 1) :: int) mod int n" using assms(1) by (intro pos_mod_sign) simp
  ultimately have "int n * incrementStep n \<le> 2 ^ 128 - 1" by linarith
  then show "int n * incrementStep n < 2 ^ 128" by simp
qed

lemma explicitHashKeyOf_interval:
  assumes "0 < n" and "n < 2 ^ 63"
  shows "int i * incrementStep n \<le> explicitHashKeyOf n i" and "explicitHashKeyOf n i < int (i + 1) * incrementStep n"
  using step_bounds(1) [OF assms] by (simp_all add: explicitHashKeyOf_def algebra_simps)

text \<open>
  C14. Every bucket of a partitioned aggregator carries its own explicit hash key: the key lies in
  the bucket's interval of the 128 bit key space, so the keys grow strictly with the bucket.
\<close>

lemma bucket_hash_keys:
  assumes "NewProducerDaemonPartitionedAggregator s c = Inr bs" and "PartitionBucketCount s = int n"
    and "0 < n" and "n < 2 ^ 63"
  shows "length bs = n \<and>
    (\<forall>i < n. gm_get (ag_attributes (bs ! i)) ''gosoline.kinesis.explicitHashKey'' = Some (itoa (explicitHashKeyOf n i)) \<and>
       int i * incrementStep n \<le> explicitHashKeyOf n i \<and> explicitHashKeyOf n i < int (i + 1) * incrementStep n \<and>
       explicitHashKeyOf n i < 2 ^ 128) \<and>
    (\<forall>i j. i < j \<longrightarrow> explicitHashKeyOf n i < explicitHashKeyOf n j)"
proof -
  from assms(1,2) have cb: "createBuckets s c n [0..<n] = Inr bs"
    by (simp add: NewProducerDaemonPartitionedAggregator_def Let_def)
  have mono: "int i * incrementStep n \<le> int j * incrementStep n" if "i \<le> j" for i j
    using that step_bounds(1) [OF assms(3,4)] by (simp add: mult_right_mono)
  have "explicitHashKeyOf n i < 2 ^ 128" if "i < n" for i
    using explicitHashKeyOf_interval(2) [OF assms(3,4), of i] mono [of "i + 1" n] that step_bounds(2) [OF assms(3,4)] by linarith
  moreover have "explicitHashKeyOf n i < explicitHashKeyOf n j" if "i < j" for i j
    using explicitHashKeyOf_interval(2) [OF assms(3,4), of i] explicitHashKeyOf_interval(1) [OF assms(3,4), of j]
      mono [of "i + 1" j] that by linarith
  ultimately show ?thesis
    using createBuckets_nth [OF cb] explicitHashKeyOf_interval [OF assms(3,4)] by simp
qed

lemma bucket_hash_keys_witness:
  "let bs = projr (NewProducerDaemonPartitionedAggregator (demo_daemon_settings 2) CompressionNone)
   in length bs = 3 \<and> gm_get (ag_attributes (bs ! 2)) ''gosoline.kinesis.explicitHashKey'' = Some (itoa (explicitHashKeyOf 3 2)) \<and>
     explicitHashKeyOf 3 2 < 2 ^ 128"
proof -
  let ?s = "demo_daemon_settings 2"
  have n: "PartitionBucketCount ?s = int 3" by (simp add: demo_daemon_settings_def)
  have e: "NewProducerDaemonPartitionedAggregator ?s CompressionNone =
      Inr (projr (NewProducerDaemonPartitionedAggregator ?s CompressionNone))"
    by (simp add: NewProducerDaemonPartitionedAggregator_def n numeral_3_eq_3 NewProducerDaemonAggregator_def)
  show ?thesis using bucket_hash_keys [OF e n] unfolding Let_def by simp
qed

section \<open>Writing to buckets\<close>

text \<open>
  A keyed message is one whose bucket does not depend on the random source: it has a valid explicit
  hash key or a partition key. \<open>ts\<close> below lists the groups handed out with their bucket.
\<close>

definition keyed :: "daemon_env \<Rightarrow> Message \<Rightarrow> bool" where
  "keyed env m \<longleftrightarrow> (\<exists>k. getExplicitHashKeyForMessage env m = Inr (Some k))"

definition bucketOf :: "daemon_env \<Rightarrow> nat \<Rightarrow> Message \<Rightarrow> nat" where
  "bucketOf env n m = bucketIndex env 0 n m"

lemma bucketIndex_keyed: "keyed env m \<Longrightarrow> bucketIndex env draw n m = bucketOf env n m"
  by (auto simp: keyed_def bucketOf_def bucketIndex_def)

lemma bucketOf_less: "keyed env m \<Longrightarrow> 0 < n \<Longrightarrow> bucketOf env n m < n"
  by (auto simp: keyed_def bucketOf_def bucketIndex_def nat_less_iff)

fun part_Writes :: "daemon_env \<Rightarrow> aggregator \<Rightarrow> Message list \<Rightarrow> aggregator \<times> AggregateFlush list" where
  "part_Writes env g [] = (g, [])"
| "part_Writes env g (m # ms) =
     (case aggregator_Write env g m of
        (g', Inl e) \<Rightarrow> (g', [])
      | (g', Inr fl) \<Rightarrow> (case part_Writes env g' ms of (g'', fls) \<Rightarrow> (g'', fl @ fls)))"

definition ofBucket :: "nat \<Rightarrow> (nat \<times> Message list) list \<Rightarrow> Message list" where
  "ofBucket i ts = concat (map snd (filter (\<lambda>(j, g). j = i) ts))"

lemma ofBucket_append [simp]: "ofBucket i (ts @ us) = ofBucket i ts @ ofBucket i us"
  by (simp add: ofBucket_def)

lemma ofBucket_tag [simp]: "ofBucket i (map (Pair j) gs) = (if i = j then concat gs else [])"
  by (induction gs) (auto simp: ofBucket_def)

lemma ofBucket_upt: "i < n \<Longrightarrow> ofBucket i (map (\<lambda>j. (j, f j)) [0..<n]) = f i"
proof (induction n)
  case (Suc n)
  have none: "ofBucket i (map (\<lambda>j. (j, f j)) [0..<m]) = []" if "m \<le> i" for m
    using that by (auto simp: ofBucket_def filter_empty_conv)
  show ?case
  proof (cases "i = n")
    case True
    then show ?thesis using none [of n] by (simp add: ofBucket_def)
  next
    case False
    with Suc show ?thesis by (simp add: ofBucket_def)
  qed
qed simp

definition taggedFlush :: "daemon_env \<Rightarrow> producerDaemonAggregator list \<Rightarrow> nat \<times> Message list \<Rightarrow> AggregateFlush" where
  "taggedFlush env bs t = flushOf env (ag_attributes (bs ! fst t)) (snd t)"

definition part_inv :: "daemon_env \<Rightarrow> producerDaemonAggregator list \<Rightarrow> (nat \<Rightarrow> Message list) \<Rightarrow> bool" where
  "part_inv env bs pend \<longleftrightarrow> (\<forall>i < length bs. ag_inv env (bs ! i) (pend i) \<and> ag_maxMessages (bs ! i) \<ge> 1)"

definition same_attrs :: "producerDaemonAggregator list \<Rightarrow> producerDaemonAggregator list \<Rightarrow> bool" where
  "same_attrs bs bs' \<longleftrightarrow> length bs' = length bs \<and> (\<forall>i < length bs. ag_attributes (bs' ! i) = ag_attributes (bs ! i))"

lemma taggedFlush_same: "same_attrs bs bs' \<Longrightarrow> \<forall>t \<in> set ts. fst t < length bs \<Longrightarrow>
    map (taggedFlush env bs') ts = map (taggedFlush env bs) ts"
  by (auto simp: taggedFlush_def same_attrs_def)

lemma part_Write_groups:
  assumes "float32_ok env" and inv: "part_inv env bs pend" and "bs \<noteq> []" and m: "sendable env m" "keyed env m"
  shows "\<exists>bs' pend' ts. part_Write env k bs m = (Partitioned (k + 1) bs', Inr (map (taggedFlush env bs) ts)) \<and>
    part_inv env bs' pend' \<and> same_attrs bs bs' \<and> (\<forall>t \<in> set ts. fst t < length bs) \<and>
    (\<forall>i < length bs. ofBucket i ts @ pend' i = pend i @ filter (\<lambda>m. bucketOf env (length bs) m = i) [m])"
proof -
  let ?j = "bucketOf env (length bs) m"
  have j: "?j < length bs" using bucketOf_less [OF m(2)] assms(3) by simp
  obtain a' r where w: "ag_Write env (bs ! ?j) m = (a', r)" by fastforce
  from m(1) obtain e where e: "marshal env m = Inr e" "length e < 2 ^ 24" by (auto simp: sendable_def)
  have aj: "ag_inv env (bs ! ?j) (pend ?j)" "ag_maxMessages (bs ! ?j) \<ge> 1" using inv j by (auto simp: part_inv_def)
  from ag_Write_groups [OF assms(1) aj(1) e aj(2) w] obtain fl gs ms' where
    1: "r = Inr fl" "ag_inv env a' ms'" "concat gs @ ms' = pend ?j @ [m]"
    "fl = map (flushOf env (ag_attributes (bs ! ?j))) gs" "ag_maxMessages a' = ag_maxMessages (bs ! ?j)"
    "ag_attributes a' = ag_attributes (bs ! ?j)"
    by (auto simp: ag_out_def)
  show ?thesis
  proof (intro exI conjI)
    show "part_Write env k bs m = (Partitioned (k + 1) (bs[?j := a']), Inr (map (taggedFlush env bs) (map (Pair ?j) gs)))"
      by (simp add: part_Write_def bucketIndex_keyed [OF m(2)] w 1(1,4) taggedFlush_def Let_def)
    show "part_inv env (bs[?j := a']) (pend(?j := ms'))"
      using inv 1(2,5) aj(2) j by (auto simp: part_inv_def nth_list_update)
    show "same_attrs bs (bs[?j := a'])" unfolding same_attrs_def
      using 1(6) j by (metis length_list_update nth_list_update_eq nth_list_update_neq)
    show "\<forall>t \<in> set (map (Pair ?j) gs). fst t < length bs" using j by auto
    show "\<forall>i < length bs. ofBucket i (map (Pair ?j) gs) @ (pend(?j := ms')) i =
        pend i @ filter (\<lambda>m. bucketOf env (length bs) m = i) [m]"
      using 1(3) by auto
  qed
qed

lemma part_Writes_groups:
  assumes "float32_ok env" and "part_inv env bs pend" and "bs \<noteq> []" and "\<forall>m \<in> set ms. sendable env m \<and> keyed env m"
  shows "\<exists>k' bs' pend' ts. part_Writes env (Partitioned k bs) ms = (Partitioned k' bs', map (taggedFlush env bs) ts) \<and>
    part_inv env bs' pend' \<and> same_attrs bs bs' \<and> (\<forall>t \<in> set ts. fst t < length bs) \<and>
    (\<forall>i < length bs. ofBucket i ts @ pend' i = pend i @ filter (\<lambda>m. bucketOf env (length bs) m = i) ms)"
  using assms(2-)
proof (induction ms arbitrary: k bs pend)
  case Nil
  then show ?case
    by (intro exI [of _ k] exI [of _ bs] exI [of _ pend] exI [of _ "[]"]) (simp add: same_attrs_def ofBucket_def)
next
  case (Cons m ms)
  have m: "sendable env m" "keyed env m" using Cons.prems(3) by auto
  from part_Write_groups [OF assms(1) Cons.prems(1,2) m, of k] obtain bs1 pend1 ts1 where
    1: "part_Write env k bs m = (Partitioned (k + 1) bs1, Inr (map (taggedFlush env bs) ts1))"
    "part_inv env bs1 pend1" "same_attrs bs bs1" "\<forall>t \<in> set ts1. fst t < length bs"
    "\<forall>i < length bs. ofBucket i ts1 @ pend1 i = pend i @ filter (\<lambda>m. bucketOf env (length bs) m = i) [m]"
    by blast
  have ne: "bs1 \<noteq> []" and len: "length bs1 = length bs" using 1(3) Cons.prems(2) by (auto simp: same_attrs_def)
  from Cons.IH [OF 1(2) ne, of "k + 1"] Cons.prems(3) obtain k' bs' pend' ts where
    2: "part_Writes env (Partitioned (k + 1) bs1) ms = (Partitioned k' bs', map (taggedFlush env bs1) ts)"
    "part_inv env bs' pend'" "same_attrs bs1 bs'" "\<forall>t \<in> set ts. fst t < length bs"
    "\<forall>i < length bs. ofBucket i ts @ pend' i = pend1 i @ filter (\<lambda>m. bucketOf env (length bs) m = i) ms"
    unfolding len by auto
  have "ofBucket i (ts1 @ ts) @ pend' i = pend i @ filter (\<lambda>m. bucketOf env (length bs) m = i) (m # ms)" if "i < length bs" for i
  proof -
    have "ofBucket i (ts1 @ ts) @ pend' i = (ofBucket i ts1 @ pend1 i) @ filter (\<lambda>m. bucketOf env (length bs) m = i) ms"
      using 2(5) that by simp
    also have "\<dots> = pend i @ filter (\<lambda>m. bucketOf env (length bs) m = i) ([m] @ ms)"
      using 1(5) that by (simp only: filter_append append_assoc [symmetric])
    finally show ?thesis by simp
  qed
  moreover have "part_Writes env (Partitioned k bs) (m # ms) = (Partitioned k' bs', map (taggedFlush env bs) (ts1 @ ts))"
    using 1(1) 2(1) taggedFlush_same [OF 1(3) 2(4)] by simp
  moreover have "same_attrs bs bs'" using 1(3) 2(3) by (simp add: same_attrs_def)
  ultimately show ?case using 1(4) 2(2,4)
    by (intro exI [of _ k'] exI [of _ bs'] exI [of _ pend'] exI [of _ "ts1 @ ts"]) auto
qed

lemma part_Flush_all:
  assumes "float32_ok env" and "\<forall>i < length bs. ag_inv env (bs ! i) (pend i)"
  shows "snd (part_Flush env bs) = map (\<lambda>i. flushOf env (ag_attributes (bs ! i)) (pend i)) [0..<length bs]"
  using assms(2)
proof (induction bs arbitrary: pend)
  case (Cons a bs)
  have "ag_inv env a (pend 0)" using Cons.prems by force
  with ag_inv_Flush(5) [OF assms(1) this] have "snd (ag_Flush env a) = [flushOf env (ag_attributes a) (pend 0)]"
    by (metis prod.collapse)
  moreover have "snd (part_Flush env bs) = map (\<lambda>i. flushOf env (ag_attributes (bs ! i)) (pend (Suc i))) [0..<length bs]"
    using Cons.IH [of "\<lambda>i. pend (Suc i)"] Cons.prems by force
  ultimately show ?case
    by (simp add: case_prod_beta map_upt_Suc del: upt_Suc)
qed simp




end
