(* ===== verification/TextPattern.thy ===== *)
theory TextPattern
  imports Prelude GoErrors "HOL-Library.Sublist"
begin

text \<open>
  The parts of Go's \<open>strings\<close> and \<open>regexp\<close> packages that the naming code uses: replacing, searching
  and trimming, the expression \<open>\{([^\}]+)\}\<close> that finds placeholders, and anchored expressions made
  of quoted text and groups \<open>([^c]+)\<close>, matched the way \<open>regexp\<close> does (a group takes as much as it
  can and gives back only as much as it must). A character is a code point below 256.
\<close>

section \<open>strings\<close>

text \<open>\<open>strings.ReplaceAll\<close> for a non-empty old string, \<open>strings.Index\<close>, \<open>HasPrefix\<close> and \<open>TrimPrefix\<close>.\<close>

function ReplaceAll :: "string \<Rightarrow> string \<Rightarrow> string \<Rightarrow> string" where
  "ReplaceAll old new [] = []"
| "ReplaceAll old new (c # cs) =
     (if old \<noteq> [] \<and> prefix old (c # cs) then new @ ReplaceAll old new (drop (length old) (c # cs))
      else c # ReplaceAll old new cs)"
  by pat_completeness auto
termination by (relation "measure (\<lambda>(old, new, s). length s)") auto

fun strIndex :: "string \<Rightarrow> string \<Rightarrow> nat option" where
  "strIndex [] sub = (if sub = [] then Some 0 else None)"
| "strIndex (c # cs) sub = (if prefix sub (c # cs) then Some 0 else map_option Suc (strIndex cs sub))"

abbreviation HasPrefix :: "string \<Rightarrow> string \<Rightarrow> bool" where
  "HasPrefix s p \<equiv> prefix p s"

definition TrimPrefix :: "string \<Rightarrow> string \<Rightarrow> string" where
  "TrimPrefix s p = (if HasPrefix s p then drop (length p) s else s)"

definition is_space :: "char \<Rightarrow> bool" where
  "is_space c \<longleftrightarrow> (of_char c :: nat) \<in> {9, 10, 11, 12, 13, 32, 133, 160}"

definition TrimSpace :: "string \<Rightarrow> string" where
  "TrimSpace s = rev (dropWhile is_space (rev (dropWhile is_space s)))"

lemma TrimPrefix_append [simp]: "TrimPrefix (p @ s) p = s"
  by (simp add: TrimPrefix_def)

section \<open>Placeholders\<close>

text \<open>The expression after its opening brace: a non-empty text up to the next closing brace.\<close>

definition placeholderAt :: "string \<Rightarrow> (string \<times> string) option" where
  "placeholderAt cs =
     (let body = takeWhile (\<lambda>c. c \<noteq> CHR ''}'') cs; rest = dropWhile (\<lambda>c. c \<noteq> CHR ''}'') cs in
      if body \<noteq> [] \<and> rest \<noteq> [] then Some (body, tl rest) else None)"

lemma placeholderAt_length:
  assumes "placeholderAt cs = Some (b, r)"
  shows "length r < length cs"
proof -
  let ?rest = "dropWhile (\<lambda>c. c \<noteq> CHR ''}'') cs"
  have "r = tl ?rest" "?rest \<noteq> []" using assms by (auto simp: placeholderAt_def Let_def split: if_splits)
  then have "length r < length ?rest" by simp
  also have "\<dots> \<le> length cs" by (rule length_dropWhile_le)
  finally show ?thesis .
qed

function FindAllPlaceholders :: "string \<Rightarrow> string list" where
  "FindAllPlaceholders [] = []"
| "FindAllPlaceholders (c # cs) =
     (case (if c = CHR ''{'' then placeholderAt cs else None) of
        Some (body, rest) \<Rightarrow> body # FindAllPlaceholders rest
      | None \<Rightarrow> FindAllPlaceholders cs)"
  by pat_completeness auto
termination
  by (relation "measure length") (auto split: if_splits dest: placeholderAt_length)

definition braced :: "string \<Rightarrow> string" where
  "braced p = ''{'' @ p @ ''}''"

text \<open>
  A clean pattern: placeholders, each after a static text, and a static tail, with no brace but
  the ones around the placeholders.
\<close>

definition no_open :: "string \<Rightarrow> bool" where
  "no_open s \<longleftrightarrow> CHR ''{'' \<notin> set s"

definition plain :: "string \<Rightarrow> bool" where
  "plain s \<longleftrightarrow> CHR ''{'' \<notin> set s \<and> CHR ''}'' \<notin> set s"

definition patternOf :: "(string \<times> string) list \<Rightarrow> string \<Rightarrow> string" where
  "patternOf ps tail = concat (map (\<lambda>(l, p). l @ braced p) ps) @ tail"

definition clean :: "(string \<times> string) list \<Rightarrow> string \<Rightarrow> bool" where
  "clean ps tail \<longleftrightarrow> (\<forall>(l, p) \<in> set ps. plain l \<and> plain p \<and> p \<noteq> []) \<and> plain tail"

text \<open>The pattern with every placeholder replaced by its value.\<close>

definition expand :: "(string \<Rightarrow> string) \<Rightarrow> (string \<times> string) list \<Rightarrow> string \<Rightarrow> string" where
  "expand f ps tail = concat (map (\<lambda>(l, p). l @ f p) ps) @ tail"

lemma patternOf_expand: "patternOf ps tail = expand braced ps tail"
  by (simp add: patternOf_def expand_def)

lemma plain_no_open: "plain s \<Longrightarrow> no_open s"
  by (simp add: plain_def no_open_def)

lemma no_open_simps [simp]:
  "no_open []" "no_open (c # s) \<longleftrightarrow> c \<noteq> CHR ''{'' \<and> no_open s" "no_open (s @ t) \<longleftrightarrow> no_open s \<and> no_open t"
  by (auto simp: no_open_def)

lemma clean_Cons [simp]: "clean ((l, p) # ps) tail \<longleftrightarrow> plain l \<and> plain p \<and> p \<noteq> [] \<and> clean ps tail"
  by (auto simp: clean_def)

lemma clean_tail: "clean ps tail \<Longrightarrow> plain tail"
  by (simp add: clean_def)

lemma expand_simps [simp]:
  "expand f [] tail = tail" "expand f ((l, p) # ps) tail = l @ f p @ expand f ps tail"
  by (simp_all add: expand_def)

lemma expand_cong: "(\<And>p. p \<in> snd ` set ps \<Longrightarrow> f p = g p) \<Longrightarrow> expand f ps tail = expand g ps tail"
  by (induction ps) (auto simp: expand_def)

lemma placeholderAt_plain: "plain p \<Longrightarrow> p \<noteq> [] \<Longrightarrow> placeholderAt (p @ CHR ''}'' # r) = Some (p, r)"
  by (auto simp: placeholderAt_def plain_def takeWhile_append dropWhile_append)

lemma FindAll_no_open: "no_open s \<Longrightarrow> FindAllPlaceholders (s @ t) = FindAllPlaceholders t"
  by (induction s) auto

lemma FindAll_patternOf:
  assumes "clean ps tail"
  shows "FindAllPlaceholders (patternOf ps tail) = map snd ps"
  using assms unfolding patternOf_expand
proof (induction ps)
  case Nil
  then show ?case
    using FindAll_no_open [of tail "[]"] plain_no_open clean_tail by fastforce
next
  case (Cons x ps)
  obtain l p where x: "x = (l, p)" by fastforce
  have "FindAllPlaceholders (l @ braced p @ expand braced ps tail) = p # FindAllPlaceholders (expand braced ps tail)"
    using Cons.prems x by (simp add: FindAll_no_open plain_no_open braced_def placeholderAt_plain)
  with Cons x show ?case by simp
qed

section \<open>Replacing placeholders\<close>

lemma ReplaceAll_no_open:
  assumes "no_open s" and "old = CHR ''{'' # o'"
  shows "ReplaceAll old new (s @ t) = s @ ReplaceAll old new t"
  using assms by (induction s) auto

lemma ReplaceAll_hit: "old \<noteq> [] \<Longrightarrow> ReplaceAll old new (old @ t) = new @ ReplaceAll old new t"
  by (cases old) simp_all

lemma ReplaceAll_miss:
  assumes "plain p" and "plain q" and "p \<noteq> q"
  shows "ReplaceAll (braced q) new (braced p @ t) = braced p @ ReplaceAll (braced q) new t"
proof -
  have ex: "takeWhile (\<lambda>c. c \<noteq> CHR ''}'') (x @ CHR ''}'' # r) = x" if "plain x" for x r
    using that by (auto simp: plain_def takeWhile_append)
  have "\<not> prefix (braced q) (braced p @ t)"
  proof
    assume "prefix (braced q) (braced p @ t)"
    then obtain r where "q @ CHR ''}'' # r = p @ CHR ''}'' # t" by (auto simp: braced_def prefix_def)
    then have "q = p" using ex [OF assms(1)] ex [OF assms(2)] by metis
    with assms(3) show False by simp
  qed
  moreover have "no_open (p @ ''}'')" using assms(1) by (auto simp: no_open_def plain_def)
  from ReplaceAll_no_open [OF this] have "ReplaceAll (braced q) new ((p @ ''}'') @ t) = (p @ ''}'') @ ReplaceAll (braced q) new t"
    by (simp add: braced_def)
  ultimately show ?thesis by (simp add: braced_def)
qed

text \<open>Replacing one placeholder in a partly expanded pattern, and all of them one after the other.\<close>

lemma ReplaceAll_expand:
  assumes "clean ps tail" and "plain q" and "f q = braced q"
    and "\<forall>(l, p) \<in> set ps. f p = braced p \<or> no_open (f p)"
  shows "ReplaceAll (braced q) v (expand f ps tail) = expand (f(q := v)) ps tail"
  using assms
proof (induction ps)
  case Nil
  then have "no_open tail" using clean_tail plain_no_open by blast
  then show ?case using ReplaceAll_no_open [of tail "braced q" "q @ ''}''" v "[]"] by (simp add: braced_def)
next
  case (Cons x ps)
  obtain l p where x: "x = (l, p)" by fastforce
  have l: "ReplaceAll (braced q) v (l @ t) = l @ ReplaceAll (braced q) v t" for t
    using Cons.prems(1) x by (intro ReplaceAll_no_open) (auto simp: plain_no_open braced_def)
  have "ReplaceAll (braced q) v (f p @ t) = (f(q := v)) p @ ReplaceAll (braced q) v t" for t
  proof (cases "p = q")
    case True
    then show ?thesis using Cons.prems(3) ReplaceAll_hit [of "braced q"] by (simp add: braced_def)
  next
    case False
    with Cons.prems x consider "f p = braced p" | "no_open (f p)" by auto
    then show ?thesis
    proof cases
      case 1
      then show ?thesis using False Cons.prems(1,2) x by (simp add: ReplaceAll_miss)
    next
      case 2
      then show ?thesis using False ReplaceAll_no_open [OF 2, of "braced q" "q @ ''}''"] by (simp add: braced_def)
    qed
  qed
  with Cons l x show ?case by simp
qed

lemma ReplaceAll_done:
  assumes "clean ps tail" and "plain q" and "q \<notin> snd ` set ps \<or> (f q = v \<and> no_open v)"
    and "\<forall>(l, p) \<in> set ps. f p = braced p \<or> no_open (f p)"
  shows "ReplaceAll (braced q) v (expand f ps tail) = expand f ps tail"
  using assms
proof (induction ps)
  case Nil
  then have "no_open tail" using clean_tail plain_no_open by blast
  then show ?case using ReplaceAll_no_open [of tail "braced q" "q @ ''}''" v "[]"] by (simp add: braced_def)
next
  case (Cons x ps)
  obtain l p where x: "x = (l, p)" by fastforce
  have l: "ReplaceAll (braced q) v (l @ t) = l @ ReplaceAll (braced q) v t" for t
    using Cons.prems(1) x by (intro ReplaceAll_no_open) (auto simp: plain_no_open braced_def)
  have "ReplaceAll (braced q) v (f p @ t) = f p @ ReplaceAll (braced q) v t" for t
  proof (cases "no_open (f p)")
    case True
    then show ?thesis using ReplaceAll_no_open [OF True, of "braced q" "q @ ''}''"] by (simp add: braced_def)
  next
    case False
    then have "f p = braced p" "p \<noteq> q" using Cons.prems x by auto
    then show ?thesis using Cons.prems(1,2) x by (simp add: ReplaceAll_miss)
  qed
  moreover have "ReplaceAll (braced q) v (expand f ps tail) = expand f ps tail"
    using Cons.prems x by (intro Cons.IH) auto
  ultimately show ?case using l x by simp
qed

text \<open>The loop both packages run over the placeholders of a pattern.\<close>

definition replaceStep :: "(string \<Rightarrow> string) \<Rightarrow> string \<Rightarrow> string \<Rightarrow> string" where
  "replaceStep val p result = ReplaceAll (braced p) (val p) result"

lemma fold_replace_expand:
  assumes "clean ps tail" and "set qs \<subseteq> snd ` set ps" and "\<forall>q \<in> set qs. no_open (val q)"
    and "\<forall>p \<in> D. no_open (val p)"
  shows "fold (replaceStep val) qs (expand (\<lambda>p. if p \<in> D then val p else braced p) ps tail) =
    expand (\<lambda>p. if p \<in> D \<union> set qs then val p else braced p) ps tail"
  using assms(2-)
proof (induction qs arbitrary: D)
  case (Cons q qs)
  let ?f = "\<lambda>D p. if p \<in> D then val p else braced p"
  have "plain q" using Cons.prems(1) assms(1) by (auto simp: clean_def)
  have inv: "\<forall>(l, p) \<in> set ps. ?f D p = braced p \<or> no_open (?f D p)" using Cons.prems(3) by auto
  have "replaceStep val q (expand (?f D) ps tail) = expand (?f (insert q D)) ps tail"
  proof (cases "q \<in> D")
    case True
    have "ReplaceAll (braced q) (val q) (expand (?f D) ps tail) = expand (?f D) ps tail"
      by (rule ReplaceAll_done [OF assms(1) \<open>plain q\<close> _ inv]) (use True Cons.prems(3) in auto)
    with True show ?thesis by (simp add: replaceStep_def insert_absorb)
  next
    case False
    have "ReplaceAll (braced q) (val q) (expand (?f D) ps tail) = expand ((?f D)(q := val q)) ps tail"
      by (rule ReplaceAll_expand [OF assms(1) \<open>plain q\<close> _ inv]) (use False in simp)
    moreover have "(?f D)(q := val q) = ?f (insert q D)" by auto
    ultimately show ?thesis by (simp add: replaceStep_def)
  qed
  moreover have "fold (replaceStep val) qs (expand (?f (insert q D)) ps tail) = expand (?f (insert q D \<union> set qs)) ps tail"
    using Cons.prems by (intro Cons.IH) auto
  ultimately show ?case by (simp add: insert_commute)
qed simp

theorem fold_replace_pattern:
  assumes "clean ps tail" and "\<forall>p \<in> snd ` set ps. no_open (val p)"
  shows "fold (replaceStep val) (map snd ps) (patternOf ps tail) = expand val ps tail"
proof -
  have "fold (replaceStep val) (map snd ps) (expand (\<lambda>p. if p \<in> {} then val p else braced p) ps tail) =
      expand (\<lambda>p. if p \<in> {} \<union> set (map snd ps) then val p else braced p) ps tail"
    by (rule fold_replace_expand [OF assms(1)]) (use assms(2) in auto)
  moreover have "\<dots> = expand val ps tail" by (rule expand_cong) simp
  ultimately show ?thesis by (simp add: patternOf_expand)
qed

section \<open>Anchored expressions\<close>

text \<open>A quoted text, or a group of one or more characters other than the given one.\<close>

datatype rx = RLit string | RNot char

fun rx_match :: "rx list \<Rightarrow> string \<Rightarrow> string list option" where
  "rx_match [] s = (if s = [] then Some [] else None)"
| "rx_match (RLit l # ts) s = (if prefix l s then rx_match ts (drop (length l) s) else None)"
| "rx_match (RNot c # ts) s =
     first_some (\<lambda>n. map_option ((#) (take n s)) (rx_match ts (drop n s)))
       (rev [1..<Suc (length (takeWhile (\<lambda>d. d \<noteq> c) s))])"

fun rx_render :: "rx list \<Rightarrow> string list \<Rightarrow> string" where
  "rx_render [] vs = []"
| "rx_render (RLit l # ts) vs = l @ rx_render ts vs"
| "rx_render (RNot c # ts) [] = []"
| "rx_render (RNot c # ts) (v # vs) = v @ rx_render ts vs"

fun rx_fits :: "rx list \<Rightarrow> string list \<Rightarrow> bool" where
  "rx_fits [] vs \<longleftrightarrow> vs = []"
| "rx_fits (RLit l # ts) vs \<longleftrightarrow> rx_fits ts vs"
| "rx_fits (RNot c # ts) [] \<longleftrightarrow> False"
| "rx_fits (RNot c # ts) (v # vs) \<longleftrightarrow> v \<noteq> [] \<and> c \<notin> set v \<and> rx_fits ts vs"

text \<open>What matches is what the groups render to.\<close>

lemma rx_match_sound: "rx_match ts s = Some vs \<Longrightarrow> rx_fits ts vs \<and> rx_render ts vs = s"
proof (induction ts arbitrary: s vs)
  case (Cons t ts)
  show ?case
  proof (cases t)
    case (RLit l)
    with Cons show ?thesis by (auto simp: prefix_def split: if_splits)
  next
    case (RNot c)
    let ?k = "length (takeWhile (\<lambda>d. d \<noteq> c) s)"
    have "\<exists>n \<in> set (rev [1..<Suc ?k]). map_option ((#) (take n s)) (rx_match ts (drop n s)) = Some vs"
      using Cons.prems unfolding RNot rx_match.simps by (rule first_some_Some)
    then obtain n ws where n: "n \<in> {1..?k}" "rx_match ts (drop n s) = Some ws" "vs = take n s # ws"
      unfolding set_rev set_upt atLeastLessThanSuc_atLeastAtMost by (auto simp del: set_upt upt_Suc)
    have "take n s = take n (takeWhile (\<lambda>d. d \<noteq> c) s)"
      using n(1) by (metis atLeastAtMost_iff take_append append_take_drop_id takeWhile_eq_take take_take min.absorb1)
    then have "c \<notin> set (take n s)" by (auto dest: in_set_takeD set_takeWhileD)
    moreover have "take n s \<noteq> []" using n(1) by auto
    ultimately show ?thesis using RNot n Cons.IH [OF n(2)] by simp
  qed
qed (simp split: if_splits)

text \<open>
  When every group is followed by its excluded character or by the end, the match is the only one.
\<close>

fun rx_separated :: "rx list \<Rightarrow> bool" where
  "rx_separated [] \<longleftrightarrow> True"
| "rx_separated (RLit l # ts) \<longleftrightarrow> rx_separated ts"
| "rx_separated (RNot c # ts) \<longleftrightarrow> rx_separated ts \<and>
     (case ts of [] \<Rightarrow> True | RLit l # _ \<Rightarrow> l \<noteq> [] \<and> hd l = c | RNot _ # _ \<Rightarrow> False)"

lemma rx_match_complete:
  "rx_separated ts \<Longrightarrow> rx_fits ts vs \<Longrightarrow> rx_match ts (rx_render ts vs) = Some vs"
proof (induction ts vs rule: rx_fits.induct)
  case (4 c ts v vs)
  have rest: "rx_render ts vs = [] \<or> (rx_render ts vs \<noteq> [] \<and> hd (rx_render ts vs) = c)"
    using 4(2) by (auto split: list.splits rx.splits simp: hd_append)
  have "takeWhile (\<lambda>d. d \<noteq> c) (v @ rx_render ts vs) = v"
  proof (cases "rx_render ts vs")
    case Nil
    then show ?thesis using 4(3) by (auto simp: takeWhile_eq_all_conv)
  next
    case (Cons d ds)
    with rest 4(3) show ?thesis by (auto simp: takeWhile_append)
  qed
  moreover obtain n where n: "length v = Suc n" using 4(3) by (cases v) auto
  moreover have "rx_match ts (rx_render ts vs) = Some vs" using 4 by simp
  ultimately show ?case by simp
qed simp_all

end
