(* ===== verification/Identity.thy ===== *)
theory Identity
  imports TextPattern Funk
begin

text \<open>
  The application identity of \<open>pkg/cfg\<close> (\<open>identity.go\<close>, \<open>resource_identifier.go\<close>): filling it
  from the configuration and formatting naming patterns with it.

  \<open>nconfig\<close> is the configuration provider, \<open>cast.ToStringE\<close> and the quoted print of a value; an optional default of a read is the
  second argument. Quoted texts in error messages are put between double quotes.
\<close>

section \<open>The configuration\<close>

record 'a nconfig =
  cfgGet :: "string \<Rightarrow> 'a option \<Rightarrow> goerr + 'a"
  cfgGetString :: "string \<Rightarrow> goerr + string"
  cfgGetStringMap :: "string \<Rightarrow> goerr + (string, 'a) gomap"
  cfgGetStringMapString :: "string \<Rightarrow> (string, string) gomap \<Rightarrow> goerr + (string, string) gomap"
  ToStringE :: "'a \<Rightarrow> goerr + string"
  anyString :: "string \<Rightarrow> 'a"
  anyQuoted :: "'a \<Rightarrow> string"

definition quoted :: "string \<Rightarrow> string" where
  "quoted s = CHR 0x22 # s @ [CHR 0x22]"

section \<open>The identity\<close>

record Identity =
  id_Env :: string
  id_Name :: string
  id_Tags :: "(string, string) gomap"
  id_Namespace :: string
  namespaceParts :: "string list"

text \<open>The matches of \<open>\{[^}]+\}|[^.]+\<close>: a placeholder, or else everything up to the next dot.\<close>

function namespaceFindAll :: "string \<Rightarrow> string list" where
  "namespaceFindAll [] = []"
| "namespaceFindAll (c # cs) =
     (case (if c = CHR ''{'' then placeholderAt cs else None) of
        Some (body, rest) \<Rightarrow> braced body # namespaceFindAll rest
      | None \<Rightarrow>
          if c = CHR ''.'' then namespaceFindAll cs
          else takeWhile (\<lambda>d. d \<noteq> CHR ''.'') (c # cs) # namespaceFindAll (dropWhile (\<lambda>d. d \<noteq> CHR ''.'') cs))"
  by pat_completeness auto
termination
  by (relation "measure length") (auto split: if_splits dest: placeholderAt_length simp: le_imp_less_Suc length_dropWhile_le)

definition formatStep :: "string \<Rightarrow> (string, string) gomap \<Rightarrow> string \<Rightarrow> string \<Rightarrow> goerr + string" where
  "formatStep pattern args result key =
     (case gm_get args key of
        None \<Rightarrow> Inl (Opaque (''unknown placeholder '' @ braced key @ '' in pattern '' @ quoted pattern))
      | Some value \<Rightarrow>
          if value = [] then Inl (Opaque (''placeholder '' @ braced key @ '' resolved to an empty value in pattern '' @ quoted pattern))
          else Inr (ReplaceAll (braced key) value result))"

definition identity_format :: "string \<Rightarrow> (string, string) gomap \<Rightarrow> goerr + string" where
  "identity_format pattern args = foldres (formatStep pattern args) pattern (FindAllPlaceholders pattern)"

definition identityValues :: "Identity \<Rightarrow> (string, string) gomap list \<Rightarrow> (string, string) gomap" where
  "identityValues i args =
     fold (\<lambda>a values. MergeMaps [values, a]) args
       (fold (\<lambda>(key, value) values. gm_set values (''app.tags.'' @ key) value) (id_Tags i)
         [(''app.name'', id_Name i), (''app.env'', id_Env i)])"

definition ToPlaceholders :: "Identity \<Rightarrow> string \<Rightarrow> (string, string) gomap list \<Rightarrow> goerr + (string, string) gomap" where
  "ToPlaceholders i delimiter args =
     (let values = identityValues i args in
      case identity_format (str_join delimiter (namespaceParts i)) values of
        Inl err \<Rightarrow> Inl (errorf_w ''failed to format app.namespace: '' err '''')
      | Inr ns \<Rightarrow> Inr (gm_set values ''app.namespace'' ns))"

definition Identity_Format :: "Identity \<Rightarrow> string \<Rightarrow> string \<Rightarrow> (string, string) gomap list \<Rightarrow> goerr + string" where
  "Identity_Format i pattern delimiter args =
     (case ToPlaceholders i delimiter args of
        Inl err \<Rightarrow> Inl (errorf_w ''failed to get placeholders: '' err '''')
      | Inr values \<Rightarrow>
          (case identity_format pattern values of
             Inl err \<Rightarrow> Inl err
           | Inr result \<Rightarrow>
               (let result = TrimSpace result in
                if result = [] then Inl (Opaque (''formatted result is empty for pattern '' @ quoted pattern))
                else Inr result)))"

definition FormatNamespace :: "Identity \<Rightarrow> string \<Rightarrow> (string, string) gomap list \<Rightarrow> goerr + string" where
  "FormatNamespace i delimiter args =
     (case ToPlaceholders i delimiter args of
        Inl err \<Rightarrow> Inl (errorf_w ''failed to get placeholders: '' err '''')
      | Inr values \<Rightarrow> Inr (case gm_get values ''app.namespace'' of Some v \<Rightarrow> v | None \<Rightarrow> []))"

text \<open>Reading a required text: \<open>app.name\<close> and \<open>app.env\<close>.\<close>

definition padField :: "'a nconfig \<Rightarrow> string \<Rightarrow> string \<Rightarrow> goerr + string" where
  "padField config key value =
     (if value \<noteq> [] then Inr value
      else case cfgGetString config key of
        Inl err \<Rightarrow> Inl (errorf_w (key @ '': '') err '''')
      | Inr v \<Rightarrow> (let v = TrimSpace v in if v = [] then Inl (Opaque (key @ '': value is empty'')) else Inr v))"

definition padNamespace :: "'a nconfig \<Rightarrow> string \<Rightarrow> goerr + string" where
  "padNamespace config value =
     (if value \<noteq> [] then Inr value
      else case cfgGet config ''app.namespace'' (Some (anyString config '''')) of
        Inl err \<Rightarrow> Inl (errorf_w ''can not get app.namespace from config: '' err '''')
      | Inr namespace \<Rightarrow>
          (case ToStringE config namespace of
             Inl err \<Rightarrow> Inl (errorf_w (''app.namespace '' @ anyQuoted config namespace @ '' is not a string: '') err '''')
           | Inr v \<Rightarrow> Inr v))"

definition Identity_PadFromConfig :: "'a nconfig \<Rightarrow> Identity \<Rightarrow> goerr + Identity" where
  "Identity_PadFromConfig config i =
     (case padField config ''app.name'' (id_Name i) of Inl err \<Rightarrow> Inl err | Inr name \<Rightarrow>
     (case padField config ''app.env'' (id_Env i) of Inl err \<Rightarrow> Inl err | Inr env \<Rightarrow>
     (case cfgGetStringMapString config ''app.tags'' [] of
        Inl err \<Rightarrow> Inl (errorf_w ''app.tags: '' err '''')
      | Inr tags \<Rightarrow>
     (case padNamespace config (id_Namespace i) of Inl err \<Rightarrow> Inl err | Inr ns \<Rightarrow>
        Inr (i\<lparr>id_Name := name, id_Env := env, id_Tags := MergeMaps [tags, id_Tags i],
               id_Namespace := ns, namespaceParts := namespaceFindAll ns\<rparr>)))))"

definition GetAppIdentity :: "'a nconfig \<Rightarrow> goerr + Identity" where
  "GetAppIdentity config =
     (case Identity_PadFromConfig config
             \<lparr>id_Env = [], id_Name = [], id_Tags = [], id_Namespace = [], namespaceParts = []\<rparr> of
        Inl err \<Rightarrow> Inl (errorf_w ''failed to pad app identity from config: '' err '''')
      | Inr identity \<Rightarrow> Inr identity)"

section \<open>Resource identifiers\<close>

record ResourceIdentifier =
  ri_Env :: string
  ri_Application :: string
  ri_Tags :: "(string, string) gomap"

definition ResourceIdentifier_PadFromConfig :: "'a nconfig \<Rightarrow> ResourceIdentifier \<Rightarrow> goerr + ResourceIdentifier" where
  "ResourceIdentifier_PadFromConfig config r =
     (case padField config ''app.name'' (ri_Application r) of Inl err \<Rightarrow> Inl err | Inr application \<Rightarrow>
     (case padField config ''app.env'' (ri_Env r) of Inl err \<Rightarrow> Inl err | Inr env \<Rightarrow>
     (case cfgGetStringMapString config ''app.tags'' [] of
        Inl err \<Rightarrow> Inl (errorf_w ''app.tags: '' err '''')
      | Inr tags \<Rightarrow>
        Inr (r\<lparr>ri_Application := application, ri_Env := env, ri_Tags := MergeMaps [tags, ri_Tags r]\<rparr>))))"

definition ToIdentity :: "ResourceIdentifier \<Rightarrow> Identity" where
  "ToIdentity r = \<lparr>id_Env = ri_Env r, id_Name = ri_Application r, id_Tags = ri_Tags r,
     id_Namespace = [], namespaceParts = []\<rparr>"

section \<open>Formatting\<close>

definition known :: "(string, string) gomap \<Rightarrow> string \<Rightarrow> bool" where
  "known values p \<longleftrightarrow> (\<exists>v. gm_get values p = Some v \<and> v \<noteq> [])"

definition valueOf :: "(string, string) gomap \<Rightarrow> string \<Rightarrow> string" where
  "valueOf values p = (case gm_get values p of Some v \<Rightarrow> v | None \<Rightarrow> [])"

lemma formatStep_known:
  "known args p \<Longrightarrow> formatStep pattern args s p = Inr (replaceStep (valueOf args) p s)"
  by (auto simp: formatStep_def known_def valueOf_def replaceStep_def)

lemma formatStep_unknown: "\<not> known args p \<Longrightarrow> \<exists>e. formatStep pattern args s p = Inl e"
  by (auto simp: formatStep_def known_def split: option.splits)

lemma format_known:
  "\<forall>p \<in> set ps. known args p \<Longrightarrow> foldres (formatStep pattern args) s ps = Inr (fold (replaceStep (valueOf args)) ps s)"
  by (induction ps arbitrary: s) (auto simp: formatStep_known)

lemma format_unknown:
  "\<not> (\<forall>p \<in> set ps. known args p) \<Longrightarrow> \<exists>e. foldres (formatStep pattern args) s ps = Inl e"
proof (induction ps arbitrary: s)
  case (Cons p ps)
  show ?case
  proof (cases "known args p")
    case True
    with Cons show ?thesis by (auto simp: formatStep_known)
  next
    case False
    from formatStep_unknown [OF this, of pattern s] show ?thesis by auto
  qed
qed simp

lemma identity_format_clean:
  assumes "clean ps tail" and "\<forall>p \<in> snd ` set ps. no_open (valueOf args p)"
  shows "identity_format (patternOf ps tail) args = Inr r \<longleftrightarrow>
    (\<forall>p \<in> snd ` set ps. known args p) \<and> r = expand (valueOf args) ps tail"
proof (cases "\<forall>p \<in> snd ` set ps. known args p")
  case True
  then have "identity_format (patternOf ps tail) args = Inr (expand (valueOf args) ps tail)"
    using format_known [of "map snd ps" args "patternOf ps tail" "patternOf ps tail"] fold_replace_pattern [OF assms]
    by (simp add: identity_format_def FindAll_patternOf [OF assms(1)])
  with True show ?thesis by auto
next
  case False
  then have "\<not> (\<forall>p \<in> set (map snd ps). known args p)" by simp
  from format_unknown [OF this, of "patternOf ps tail" "patternOf ps tail"] False show ?thesis
    by (auto simp: identity_format_def FindAll_patternOf [OF assms(1)])
qed

lemma namespaceFindAll_placeholder:
  "plain p \<Longrightarrow> p \<noteq> [] \<Longrightarrow> namespaceFindAll (braced p @ s) = braced p # namespaceFindAll s"
  by (simp add: braced_def placeholderAt_plain)

lemma namespaceFindAll_text:
  assumes "l \<noteq> []" and "plain l" and "CHR ''.'' \<notin> set l"
  shows "namespaceFindAll (l @ CHR ''.'' # s) = l # namespaceFindAll s" and "namespaceFindAll l = [l]"
proof -
  obtain c cs where l: "l = c # cs" using assms(1) by (cases l) auto
  have c: "c \<noteq> CHR ''{''" "c \<noteq> CHR ''.''" "\<forall>d \<in> set cs. d \<noteq> CHR ''.''" using assms l by (auto simp: plain_def)
  then have "takeWhile (\<lambda>d. d \<noteq> CHR ''.'') (cs @ CHR ''.'' # s) = cs"
    "dropWhile (\<lambda>d. d \<noteq> CHR ''.'') (cs @ CHR ''.'' # s) = CHR ''.'' # s"
    "takeWhile (\<lambda>d. d \<noteq> CHR ''.'') cs = cs" "dropWhile (\<lambda>d. d \<noteq> CHR ''.'') cs = []"
    by (auto simp: takeWhile_append dropWhile_append takeWhile_eq_all_conv dropWhile_eq_Nil_conv)
  note tw = this
  from l c show "namespaceFindAll (l @ CHR ''.'' # s) = l # namespaceFindAll s" by (simp add: tw)
  from l c show "namespaceFindAll l = [l]" by (simp add: tw(3,4) del: dropWhile_eq_Nil_conv takeWhile_eq_all_conv)
qed

section \<open>Properties\<close>

text \<open>
  \<open>Format\<close> fills in every placeholder or fails: for a pattern of placeholders with static text
  between them and values without braces it succeeds exactly when the namespace can be formatted,
  every placeholder has a non-empty value and the result is not blank, and it then returns the
  trimmed pattern with every placeholder replaced by its value.
\<close>

lemma Identity_Format_complete:
  assumes "clean ps tail" and "ToPlaceholders i delimiter args = Inr values"
    and "\<forall>p \<in> snd ` set ps. no_open (valueOf values p)"
  shows "Identity_Format i (patternOf ps tail) delimiter args = Inr r \<longleftrightarrow>
    (\<forall>p \<in> snd ` set ps. known values p) \<and> r = TrimSpace (expand (valueOf values) ps tail) \<and> r \<noteq> []"
proof (cases "\<forall>p \<in> snd ` set ps. known values p")
  case True
  then have "identity_format (patternOf ps tail) values = Inr (expand (valueOf values) ps tail)"
    using identity_format_clean [OF assms(1,3)] by blast
  with True assms(2) show ?thesis by (auto simp: Identity_Format_def Let_def)
next
  case False
  then have "identity_format (patternOf ps tail) values \<noteq> Inr x" for x
    using identity_format_clean [OF assms(1,3)] by blast
  then obtain e where "identity_format (patternOf ps tail) values = Inl e" by (metis sum.exhaust)
  with False assms(2) show ?thesis by (simp add: Identity_Format_def Let_def)
qed

definition demo_identity :: "string \<Rightarrow> Identity" where
  "demo_identity ns = \<lparr>id_Env = ''test'', id_Name = ''shop'', id_Tags = [(''project'', ''web'')], id_Namespace = ns,
     namespaceParts = namespaceFindAll ns\<rparr>"

lemma Identity_Format_complete_witness:
  "Identity_Format (demo_identity ''{app.env}.{app.name}'') ''x-{app.namespace}-{app.tags.project}'' ''_'' [] = Inr ''x-test_shop-web''"
proof -
  let ?i = "demo_identity ''{app.env}.{app.name}''"
  let ?ps = "[(''x-'', ''app.namespace''), (''-'', ''app.tags.project'')]"
  have v: "ToPlaceholders ?i ''_'' [] =
      Inr [(''app.name'', ''shop''), (''app.env'', ''test''), (''app.tags.project'', ''web''), (''app.namespace'', ''test_shop'')]"
    by code_simp
  have c: "clean ?ps ''''" by (simp add: clean_def plain_def)
  have p: "patternOf ?ps '''' = ''x-{app.namespace}-{app.tags.project}''" by (simp add: patternOf_def braced_def)
  let ?vals = "[(''app.name'', ''shop''), (''app.env'', ''test''), (''app.tags.project'', ''web''), (''app.namespace'', ''test_shop'')]"
  have o: "\<forall>p \<in> snd ` set ?ps. no_open (valueOf ?vals p)" by (simp add: valueOf_def no_open_def)
  have "Identity_Format ?i (patternOf ?ps '''') ''_'' [] = Inr ''x-test_shop-web''"
    by (rule iffD2 [OF Identity_Format_complete [OF c v o]]) (simp add: valueOf_def known_def TrimSpace_def is_space_def)
  then show ?thesis by (simp only: p)
qed

text \<open>
  A namespace segment with text before its placeholder is torn apart: the expression that splits
  the namespace ends such a segment at the dot inside the braces, so with any delimiter but a
  dot the joined pattern names placeholders that do not exist and every \<open>Format\<close> fails.
\<close>

lemma namespace_with_prefix_fails:
  assumes "namespaceParts i = namespaceFindAll (l @ braced ''app.env'')"
    and "l \<noteq> []" and "plain l" and "CHR ''.'' \<notin> set l" and "d \<noteq> CHR ''.''" and "plain [d]"
    and "\<not> gm_has (identityValues i args) (''app'' @ d # ''env'')"
  shows "\<exists>e. FormatNamespace i [d] args = Inl e"
proof -
  have split: "namespaceFindAll (l @ braced ''app.env'') = [l @ ''{app'', ''env}'']"
  proof -
    obtain c cs where l: "l = c # cs" using assms(2) by (cases l) auto
    have c: "c \<noteq> CHR ''{''" "c \<noteq> CHR ''.''" "\<forall>x \<in> set cs. x \<noteq> CHR ''.''" using assms(3,4) l by (auto simp: plain_def)
    then have "takeWhile (\<lambda>d. d \<noteq> CHR ''.'') (cs @ ''{app.env}'') = cs @ ''{app''"
      "dropWhile (\<lambda>d. d \<noteq> CHR ''.'') (cs @ ''{app.env}'') = ''.env}''"
      by (simp_all add: takeWhile_append2 dropWhile_append2)
    with l c show ?thesis by (simp add: braced_def)
  qed
  have ns: "str_join [d] (namespaceParts i) = patternOf [(l, ''app'' @ d # ''env'')] ''''"
    unfolding assms(1) split by (simp add: patternOf_def braced_def)
  have cl: "clean [(l, ''app'' @ d # ''env'')] ''''" using assms(3,6) by (auto simp: clean_def plain_def)
  have "identity_format (patternOf [(l, ''app'' @ d # ''env'')] '''') (identityValues i args) \<noteq> Inr r" for r
    unfolding identity_format_def FindAll_patternOf [OF cl] using assms(7) by (simp add: formatStep_def)
  then obtain e where "identity_format (patternOf [(l, ''app'' @ d # ''env'')] '''') (identityValues i args) = Inl e"
    by (metis sum.exhaust)
  then show ?thesis by (simp add: FormatNamespace_def ToPlaceholders_def Let_def ns)
qed

lemma namespace_with_prefix_fails_witness:
  "\<exists>e. FormatNamespace (demo_identity ''team-{app.env}'') ''-'' [] = Inl e"
proof -
  have "namespaceParts (demo_identity ''team-{app.env}'') = namespaceFindAll (''team-'' @ braced ''app.env'')"
    by (simp add: demo_identity_def braced_def)
  from namespace_with_prefix_fails [OF this, of "CHR ''-''" "[]"] show ?thesis
    by (simp add: plain_def identityValues_def demo_identity_def)
qed

text \<open>The tags of a padded identity: the configured ones, overwritten by the ones set before.\<close>

lemma padField_nonempty:
  assumes "padField config key value = Inr v"
  shows "v \<noteq> []" and "value \<noteq> [] \<Longrightarrow> v = value"
  using assms by (auto simp: padField_def Let_def split: if_splits sum.splits)

lemma Identity_Pad_fields:
  assumes "Identity_PadFromConfig config i = Inr i'" and "gm_wf (id_Tags i)"
    and "\<And>key d m. cfgGetStringMapString config key d = Inr m \<Longrightarrow> gm_wf m"
  shows "id_Name i' \<noteq> [] \<and> id_Env i' \<noteq> [] \<and>
    (\<forall>k v. gm_get (id_Tags i) k = Some v \<longrightarrow> gm_get (id_Tags i') k = Some v) \<and>
    namespaceParts i' = namespaceFindAll (id_Namespace i')"
proof -
  from assms(1) obtain name env tags ns where
    1: "padField config ''app.name'' (id_Name i) = Inr name" "padField config ''app.env'' (id_Env i) = Inr env"
    "cfgGetStringMapString config ''app.tags'' [] = Inr tags"
    "i' = i\<lparr>id_Name := name, id_Env := env, id_Tags := MergeMaps [tags, id_Tags i],
               id_Namespace := ns, namespaceParts := namespaceFindAll ns\<rparr>"
    by (auto simp: Identity_PadFromConfig_def split: sum.splits)
  have "gm_get (MergeMaps [tags, id_Tags i]) = gm_get tags ++ gm_get (id_Tags i)"
    using assms(2,3) 1(3) by (simp add: MergeMaps_get)
  then show ?thesis using 1 padField_nonempty(1) by (auto simp: map_add_Some_iff)
qed

end
