(* ===== verification/ModelIds.thy ===== *)
theory ModelIds
  imports Identity
begin

text \<open>
  Model identifiers of \<open>pkg/mdl\<close> (\<open>model_id.go\<close>, \<open>parse.go\<close>): filling them from the configuration,
  printing them with the domain pattern and parsing the printed form back. The text of the regular
  expression in one error message is left out.
\<close>

section \<open>The identifier\<close>

definition PlaceholderAppEnv :: string where "PlaceholderAppEnv = ''app.env''"
definition PlaceholderAppName :: string where "PlaceholderAppName = ''app.name''"
definition PlaceholderAppTags :: string where "PlaceholderAppTags = ''app.tags.''"
definition placeholderGroupModelName :: string where "placeholderGroupModelName = ''__model_name__''"

lemmas placeholder_names =
  PlaceholderAppEnv_def PlaceholderAppName_def PlaceholderAppTags_def placeholderGroupModelName_def

lemma placeholder_names_distinct [simp]:
  "PlaceholderAppEnv \<noteq> PlaceholderAppName" "PlaceholderAppName \<noteq> PlaceholderAppEnv"
  "PlaceholderAppEnv \<noteq> placeholderGroupModelName" "PlaceholderAppName \<noteq> placeholderGroupModelName"
  "placeholderGroupModelName \<noteq> PlaceholderAppEnv" "placeholderGroupModelName \<noteq> PlaceholderAppName"
  "\<not> prefix PlaceholderAppTags PlaceholderAppEnv" "\<not> prefix PlaceholderAppTags PlaceholderAppName"
  "\<not> prefix PlaceholderAppTags placeholderGroupModelName"
  by (simp_all add: placeholder_names)

lemma tag_placeholder_distinct [simp]:
  "PlaceholderAppTags @ k \<noteq> PlaceholderAppEnv" "PlaceholderAppTags @ k \<noteq> PlaceholderAppName"
  "PlaceholderAppTags @ k \<noteq> placeholderGroupModelName"
  "PlaceholderAppEnv \<noteq> PlaceholderAppTags @ k" "PlaceholderAppName \<noteq> PlaceholderAppTags @ k"
  "placeholderGroupModelName \<noteq> PlaceholderAppTags @ k"
  using placeholder_names_distinct(7-9) by (metis prefixI)+

record ModelId =
  m_Name :: string
  m_Env :: string
  m_Application :: string
  m_Tags :: "(string, string) gomap"
  DomainPattern :: string

definition ToMap :: "ModelId \<Rightarrow> (string, string) gomap" where
  "ToMap i = fold (\<lambda>(key, value) mss. gm_set mss (''app.tags.'' @ key) value) (m_Tags i)
     [(''name'', m_Name i), (''app.name'', m_Application i), (''app.env'', m_Env i)]"

text \<open>The value of a placeholder; \<open>None\<close> is the default branch, which leaves it in place.\<close>

definition placeholderValue :: "ModelId \<Rightarrow> string \<Rightarrow> string option" where
  "placeholderValue m placeholder =
     (if placeholder = PlaceholderAppEnv then Some (m_Env m)
      else if placeholder = PlaceholderAppName then Some (m_Application m)
      else if HasPrefix placeholder PlaceholderAppTags
      then Some (case gm_get (m_Tags m) (TrimPrefix placeholder PlaceholderAppTags) of Some v \<Rightarrow> v | None \<Rightarrow> [])
      else None)"

definition formatDomain :: "ModelId \<Rightarrow> string \<Rightarrow> string" where
  "formatDomain m domainPattern =
     fold (\<lambda>placeholder result. case placeholderValue m placeholder of
             Some value \<Rightarrow> ReplaceAll (braced placeholder) value result
           | None \<Rightarrow> result)
       (FindAllPlaceholders domainPattern) domainPattern"

definition modelId_format :: "ModelId \<Rightarrow> string \<Rightarrow> string" where
  "modelId_format m domainPattern = formatDomain m domainPattern @ ''.'' @ m_Name m"

definition ModelId_String :: "ModelId \<Rightarrow> string" where
  "ModelId_String m = modelId_format m (DomainPattern m)"

definition DomainString :: "ModelId \<Rightarrow> string" where
  "DomainString m = formatDomain m (DomainPattern m)"

section \<open>Filling it from the configuration\<close>

definition padEnvFromConfig :: "'a nconfig \<Rightarrow> ModelId \<Rightarrow> goerr + ModelId" where
  "padEnvFromConfig config m =
     (if m_Env m \<noteq> [] then Inr m
      else case cfgGetString config ''app.env'' of
        Inl err \<Rightarrow> Inl (errorf_w ''failed to read app.env from config: '' err '''')
      | Inr env \<Rightarrow>
          (let env = TrimSpace env in
           if env = [] then Inl (Opaque ''environment (app.env) is required to be not empty'')
           else Inr (m\<lparr>m_Env := env\<rparr>)))"

definition padApplicationFromConfig :: "'a nconfig \<Rightarrow> ModelId \<Rightarrow> goerr + ModelId" where
  "padApplicationFromConfig config m =
     (if m_Application m \<noteq> [] then Inr m
      else case cfgGetString config ''app.name'' of
        Inl err \<Rightarrow> Inl (errorf_w ''failed to read app.name from config: '' err '''')
      | Inr name \<Rightarrow>
          (let name = TrimSpace name in
           if name = [] then Inl (Opaque ''app name (app.name) is required to be not empty'')
           else Inr (m\<lparr>m_Application := name\<rparr>)))"

definition addTag :: "'a nconfig \<Rightarrow> (string, string) gomap \<Rightarrow> string \<times> 'a \<Rightarrow> goerr + (string, string) gomap" where
  "addTag config tags kv =
     (if gm_has tags (fst kv) then Inr tags
      else case ToStringE config (snd kv) of
        Inl err \<Rightarrow> Inl (errorf_w (''failed to cast app.tags.'' @ fst kv @ '' to string: '') err '''')
      | Inr v \<Rightarrow> Inr (gm_set tags (fst kv) v))"

definition mergeTagsFromConfig :: "'a nconfig \<Rightarrow> ModelId \<Rightarrow> goerr + ModelId" where
  "mergeTagsFromConfig config m =
     (let configTags = (case cfgGetStringMap config ''app.tags'' of Inl err \<Rightarrow> [] | Inr tags \<Rightarrow> tags) in
      case foldres (addTag config) (m_Tags m) configTags of
        Inl err \<Rightarrow> Inl err
      | Inr tags \<Rightarrow> Inr (m\<lparr>m_Tags := tags\<rparr>))"

definition loadDomainPatternFromConfig :: "'a nconfig \<Rightarrow> ModelId \<Rightarrow> goerr + ModelId" where
  "loadDomainPatternFromConfig config m =
     (if DomainPattern m \<noteq> [] then Inr m
      else case cfgGet config ''app.model_id.domain_pattern'' None of
        Inl err \<Rightarrow> Inl (errorf_w ''failed to read app.model_id.domain_pattern from config: '' err '''')
      | Inr val \<Rightarrow>
          (case ToStringE config val of
             Inl err \<Rightarrow> Inl (errorf_w ''failed to cast app.model_id.domain_pattern to string: '' err '''')
           | Inr domainPattern \<Rightarrow>
               if domainPattern = [] then Inl (Opaque ''model id domain pattern is empty'')
               else Inr (m\<lparr>DomainPattern := domainPattern\<rparr>)))"

definition extractPlaceholders :: "string \<Rightarrow> string list" where
  "extractPlaceholders pattern = filter (\<lambda>p. p \<noteq> []) (FindAllPlaceholders pattern)"

fun missingTag :: "(string, string) gomap \<Rightarrow> string list \<Rightarrow> string option" where
  "missingTag tags [] = None"
| "missingTag tags (ph # phs) =
     (if HasPrefix ph PlaceholderAppTags \<and> \<not> gm_has tags (TrimPrefix ph PlaceholderAppTags)
      then Some (TrimPrefix ph PlaceholderAppTags) else missingTag tags phs)"

definition validatePatternTagsPresent :: "string \<Rightarrow> (string, string) gomap \<Rightarrow> error" where
  "validatePatternTagsPresent domainPattern tags =
     (case missingTag tags (extractPlaceholders domainPattern) of
        None \<Rightarrow> None
      | Some tagKey \<Rightarrow> Some (Opaque (''tag '' @ quoted tagKey @ '' is required by domain pattern '' @
          quoted domainPattern @ '' but not set in tags'')))"

definition ModelId_PadFromConfig :: "'a nconfig \<Rightarrow> ModelId \<Rightarrow> goerr + ModelId" where
  "ModelId_PadFromConfig config m =
     (case padEnvFromConfig config m of Inl err \<Rightarrow> Inl err | Inr m \<Rightarrow>
     (case padApplicationFromConfig config m of Inl err \<Rightarrow> Inl err | Inr m \<Rightarrow>
     (case mergeTagsFromConfig config m of Inl err \<Rightarrow> Inl err | Inr m \<Rightarrow>
     (case loadDomainPatternFromConfig config m of Inl err \<Rightarrow> Inl err | Inr m \<Rightarrow>
     (case validatePatternTagsPresent (DomainPattern m) (m_Tags m) of
        Some err \<Rightarrow> Inl (errorf_w ''invalid app.model_id.domain_pattern: '' err '''')
      | None \<Rightarrow> Inr m)))))"

section \<open>Parsing\<close>

text \<open>The first placeholder that is not allowed, as an error.\<close>

fun checkPlaceholders :: "string list \<Rightarrow> error" where
  "checkPlaceholders [] = None"
| "checkPlaceholders (ph # phs) =
     (if ph = PlaceholderAppEnv \<or> ph = PlaceholderAppName then checkPlaceholders phs
      else if HasPrefix ph PlaceholderAppTags
      then (if TrimPrefix ph PlaceholderAppTags = [] then Some (Opaque (''tag key is empty for placeholder '' @ braced ph))
            else checkPlaceholders phs)
      else Some (Opaque (''unknown placeholder '' @ braced ph @ '' in domain pattern'')))"

definition validateModelIdDomainPattern :: "string \<Rightarrow> error" where
  "validateModelIdDomainPattern domainPattern =
     (if domainPattern = [] then Some (Opaque ''pattern cannot be empty'')
      else checkPlaceholders (extractPlaceholders domainPattern))"

text \<open>The loop of \<open>buildParseRegex\<close>: the expression and the names of its groups so far, and the rest of the pattern.\<close>

fun buildLoop :: "string list \<Rightarrow> string \<Rightarrow> rx list \<Rightarrow> string list \<Rightarrow> goerr + rx list \<times> string list \<times> string" where
  "buildLoop [] remaining regex names = Inr (regex, names, remaining)"
| "buildLoop (ph # phs) remaining regex names =
     (case strIndex remaining (braced ph) of
        None \<Rightarrow> Inl (Opaque (''placeholder '' @ braced ph @ '' not found in remaining pattern '' @ quoted remaining))
      | Some idx \<Rightarrow>
          buildLoop phs (drop (idx + length (braced ph)) remaining)
            (regex @ (if idx > 0 then [RLit (take idx remaining)] else []) @ [RNot CHR ''.''])
            (names @ [ph]))"

definition buildParseRegex :: "string \<Rightarrow> goerr + rx list \<times> string list" where
  "buildParseRegex domainPattern =
     (let placeholders = extractPlaceholders domainPattern in
      if placeholders = [] then Inr ([RNot CHR 0x0A], [placeholderGroupModelName])
      else case buildLoop placeholders domainPattern [] [] of
        Inl err \<Rightarrow> Inl err
      | Inr (regex, names, remaining) \<Rightarrow>
          Inr (regex @ (if remaining \<noteq> [] then [RLit remaining] else []) @ [RLit ''.'', RNot CHR 0x0A],
               names @ [placeholderGroupModelName]))"

definition setGroup :: "string \<times> string \<Rightarrow> ModelId \<Rightarrow> ModelId" where
  "setGroup nv m =
     (case nv of (name, value) \<Rightarrow>
        if name = placeholderGroupModelName then m\<lparr>m_Name := value\<rparr>
        else if name = PlaceholderAppEnv then m\<lparr>m_Env := value\<rparr>
        else if name = PlaceholderAppName then m\<lparr>m_Application := value\<rparr>
        else if HasPrefix name PlaceholderAppTags then m\<lparr>m_Tags := gm_set (m_Tags m) (TrimPrefix name PlaceholderAppTags) value\<rparr>
        else m)"

definition emptyModelId :: ModelId where
  "emptyModelId = \<lparr>m_Name = [], m_Env = [], m_Application = [], m_Tags = [], DomainPattern = []\<rparr>"

definition modelIdFromStringWithDomainPattern :: "string \<Rightarrow> string \<Rightarrow> goerr + ModelId" where
  "modelIdFromStringWithDomainPattern domainPattern str =
     (case validateModelIdDomainPattern domainPattern of
        Some err \<Rightarrow> Inl (errorf_w ''invalid pattern: '' err '''')
      | None \<Rightarrow>
     (case buildParseRegex domainPattern of
        Inl err \<Rightarrow> Inl (errorf_w (''failed to build parse regex for pattern '' @ quoted domainPattern @ '': '') err '''')
      | Inr (parseRegex, groupNames) \<Rightarrow>
     (case rx_match parseRegex str of
        None \<Rightarrow> Inl (Opaque (''string '' @ quoted str @ '' does not match domain pattern '' @ quoted domainPattern))
      | Some match \<Rightarrow> Inr (fold setGroup (zip groupNames match) emptyModelId))))"

definition ParseModelId :: "'a nconfig \<Rightarrow> string \<Rightarrow> goerr + ModelId" where
  "ParseModelId config s =
     (case cfgGet config ''app.model_id.domain_pattern'' None of
        Inl err \<Rightarrow> Inl (errorf_w ''app.model_id.domain_pattern must be set: '' err '''')
      | Inr val \<Rightarrow>
     (case ToStringE config val of
        Inl err \<Rightarrow> Inl (errorf_w ''failed to cast app.model_id.domain_pattern to string: '' err '''')
      | Inr domainPattern \<Rightarrow>
          if domainPattern = [] then Inl (Opaque ''app.model_id.domain_pattern must not be empty'')
          else (case validateModelIdDomainPattern domainPattern of
            Some err \<Rightarrow> Inl (errorf_w ''invalid app.model_id.domain_pattern: '' err '''')
          | None \<Rightarrow>
              (case modelIdFromStringWithDomainPattern domainPattern s of
                 Inl err \<Rightarrow> Inl (errorf_w (''failed to parse model id '' @ quoted s @ '' with domain pattern '' @
                   quoted domainPattern @ '': '') err '''')
               | Inr mid \<Rightarrow> Inr (mid\<lparr>DomainPattern := domainPattern\<rparr>)))))"

section \<open>Identifiers with dashes\<close>

definition UuidWithDashes :: "string option \<Rightarrow> string option \<times> error" where
  "UuidWithDashes uuid =
     (case uuid of
        None \<Rightarrow> (None, Some (Opaque ''the uuid should not be nil''))
      | Some u \<Rightarrow>
          if str_contains u ''-'' then (Some u, None)
          else if length u \<noteq> 32
          then (Some u, Some (Opaque (''the uuid should be exactly 32 bytes long, but was: '' @ itoa (int (length u)))))
          else (Some (take 8 u @ ''-'' @ take 4 (drop 8 u) @ ''-'' @ take 4 (drop 12 u) @ ''-'' @ take 4 (drop 16 u) @ ''-'' @
                  drop 20 u), None))"

section \<open>Patterns made of known placeholders\<close>

definition admissible :: "string \<Rightarrow> bool" where
  "admissible p \<longleftrightarrow> p = PlaceholderAppEnv \<or> p = PlaceholderAppName \<or> (\<exists>k. k \<noteq> [] \<and> p = PlaceholderAppTags @ k)"

definition fieldOf :: "ModelId \<Rightarrow> string \<Rightarrow> string" where
  "fieldOf m p = the (placeholderValue m p)"

lemma admissible_iff:
  "admissible p \<longleftrightarrow> p = PlaceholderAppEnv \<or> p = PlaceholderAppName \<or>
     (HasPrefix p PlaceholderAppTags \<and> TrimPrefix p PlaceholderAppTags \<noteq> [])"
  unfolding admissible_def prefix_def by (metis TrimPrefix_append)

lemma checkPlaceholders_None: "checkPlaceholders phs = None \<longleftrightarrow> (\<forall>p \<in> set phs. admissible p)"
  by (induction phs) (auto simp: admissible_iff)

lemma admissible_value: "admissible p \<Longrightarrow> placeholderValue m p = Some (fieldOf m p)"
  by (auto simp: admissible_def placeholderValue_def fieldOf_def)

lemma admissible_nonempty: "admissible p \<Longrightarrow> p \<noteq> []"
  by (auto simp: admissible_def placeholder_names)

lemma extract_patternOf: "clean ps tail \<Longrightarrow> extractPlaceholders (patternOf ps tail) = map snd ps"
  by (auto simp: extractPlaceholders_def FindAll_patternOf filter_id_conv clean_def)

lemma formatDomain_clean:
  assumes "clean ps tail" and "\<forall>p \<in> snd ` set ps. admissible p \<and> no_open (fieldOf m p)"
  shows "formatDomain m (patternOf ps tail) = expand (fieldOf m) ps tail"
proof -
  let ?f = "\<lambda>placeholder result. case placeholderValue m placeholder of
      Some value \<Rightarrow> ReplaceAll (braced placeholder) value result | None \<Rightarrow> result"
  have "fold ?f qs s = fold (replaceStep (fieldOf m)) qs s" if "\<forall>p \<in> set qs. admissible p" for qs s
    using that by (induction qs arbitrary: s) (auto simp: admissible_value replaceStep_def)
  then have "formatDomain m (patternOf ps tail) = fold (replaceStep (fieldOf m)) (map snd ps) (patternOf ps tail)"
    using assms by (simp add: formatDomain_def FindAll_patternOf)
  also have "\<dots> = expand (fieldOf m) ps tail" by (rule fold_replace_pattern) (use assms in auto)
  finally show ?thesis .
qed

section \<open>The expression built from a pattern\<close>

definition rxOf :: "(string \<times> string) list \<Rightarrow> rx list" where
  "rxOf ps = concat (map (\<lambda>(l, p). (if l \<noteq> [] then [RLit l] else []) @ [RNot CHR ''.'']) ps)"

definition rxTail :: "string \<Rightarrow> rx list" where
  "rxTail tail = (if tail \<noteq> [] then [RLit tail] else []) @ [RLit ''.'', RNot CHR 0x0A]"

lemma strIndex_braced:
  assumes "no_open l"
  shows "strIndex (l @ braced p @ r) (braced p) = Some (length l)"
  using assms
proof (induction l)
  case Nil
  show ?case by (cases "braced p @ r") (auto simp: braced_def)
next
  case (Cons c l)
  then show ?case by (auto simp: braced_def)
qed

lemma buildLoop_clean:
  assumes "clean ps tail"
  shows "buildLoop (map snd ps) (patternOf ps tail) regex names = Inr (regex @ rxOf ps, names @ map snd ps, tail)"
  using assms unfolding patternOf_expand
proof (induction ps arbitrary: regex names)
  case (Cons x ps)
  obtain l p where x: "x = (l, p)" by fastforce
  have "strIndex (l @ braced p @ expand braced ps tail) (braced p) = Some (length l)"
    using Cons.prems x by (intro strIndex_braced) (simp add: plain_no_open)
  with Cons x show ?case by (simp add: rxOf_def)
qed (simp add: rxOf_def)

lemma buildParseRegex_clean:
  assumes "clean ps tail" and "ps \<noteq> []"
  shows "buildParseRegex (patternOf ps tail) = Inr (rxOf ps @ rxTail tail, map snd ps @ [placeholderGroupModelName])"
  using buildLoop_clean [OF assms(1), of "[]" "[]"] assms
  by (simp add: buildParseRegex_def Let_def extract_patternOf rxTail_def)

lemma rxOf_Cons: "rxOf ((l, p) # ps) = (if l \<noteq> [] then [RLit l] else []) @ RNot CHR ''.'' # rxOf ps"
  by (simp add: rxOf_def)

lemma rx_render_pattern:
  assumes "length ws = length ps"
  shows "rx_render (rxOf ps @ rxTail tail) (ws @ [nm]) = concat (map2 (\<lambda>(l, p) w. l @ w) ps ws) @ tail @ ''.'' @ nm"
  using assms
proof (induction ps arbitrary: ws)
  case (Cons x ps)
  obtain l p where x: "x = (l, p)" by fastforce
  from Cons.prems obtain w ws' where ws: "ws = w # ws'" by (cases ws) auto
  from Cons show ?case by (simp add: x ws rxOf_Cons)
qed (simp add: rxOf_def rxTail_def)

lemma rx_fits_pattern:
  "rx_fits (rxOf ps @ rxTail tail) vs \<longleftrightarrow>
     (\<exists>ws nm. vs = ws @ [nm] \<and> length ws = length ps \<and> nm \<noteq> [] \<and> CHR 0x0A \<notin> set nm \<and>
        (\<forall>w \<in> set ws. w \<noteq> [] \<and> CHR ''.'' \<notin> set w))"
proof (induction ps arbitrary: vs)
  case Nil
  show ?case by (cases vs; cases "tl vs") (auto simp: rxOf_def rxTail_def)
next
  case (Cons x ps)
  obtain l p where x: "x = (l, p)" by fastforce
  show ?case
  proof (cases vs)
    case Nil
    then show ?thesis by (simp add: x rxOf_Cons)
  next
    case (Cons v vs')
    have "rx_fits (rxOf (x # ps) @ rxTail tail) vs \<longleftrightarrow> v \<noteq> [] \<and> CHR ''.'' \<notin> set v \<and> rx_fits (rxOf ps @ rxTail tail) vs'"
      by (simp add: x rxOf_Cons Cons)
    also have "\<dots> \<longleftrightarrow> (\<exists>ws nm. vs = ws @ [nm] \<and> length ws = length (x # ps) \<and> nm \<noteq> [] \<and> CHR 0x0A \<notin> set nm \<and>
        (\<forall>w \<in> set ws. w \<noteq> [] \<and> CHR ''.'' \<notin> set w))"
      unfolding Cons.IH
    proof (safe, goal_cases)
      case (1 ws nm)
      then show ?case using Cons by (intro exI [of _ "v # ws"] exI [of _ nm]) auto
    next
      case (2 ws nm)
      then show ?case using Cons by (cases ws) auto
    next
      case (3 ws nm)
      then show ?case using Cons by (cases ws) auto
    next
      case (4 ws nm)
      then show ?case using Cons by (cases ws) (auto intro!: exI [of _ "tl ws"] exI [of _ nm])
    qed
    finally show ?thesis .
  qed
qed

section \<open>The groups of a match\<close>

lemma setGroup_field:
  assumes "admissible q" and "admissible p"
  shows "fieldOf (setGroup (q, w) m) p = (if p = q then w else fieldOf m p)"
  using assms
  by (auto simp: admissible_def fieldOf_def placeholderValue_def setGroup_def split: if_splits)

lemma setGroup_name:
  "admissible q \<Longrightarrow> m_Name (setGroup (q, w) m) = m_Name m" "m_Name (setGroup (placeholderGroupModelName, w) m) = w"
  by (auto simp: admissible_def setGroup_def)

lemma setGroup_name_field: "admissible p \<Longrightarrow> fieldOf (setGroup (placeholderGroupModelName, w) m) p = fieldOf m p"
  by (auto simp: admissible_def fieldOf_def placeholderValue_def setGroup_def)

lemma fold_setGroup_field:
  assumes "length ws = length qs" and "\<forall>q \<in> set qs. admissible q" and "admissible p"
  shows "fieldOf (fold setGroup (zip qs ws) m) p =
    (case map_of (rev (zip qs ws)) p of Some w \<Rightarrow> w | None \<Rightarrow> fieldOf m p)"
  using assms
proof (induction qs ws arbitrary: m rule: list_induct2')
  case (4 q qs w ws)
  then show ?case by (auto simp: setGroup_field map_add_def split: option.splits)
qed simp_all

lemma fold_setGroup_name:
  assumes "\<forall>q \<in> set qs. admissible q"
  shows "m_Name (fold setGroup (zip qs ws) m) = m_Name m"
  using assms by (induction qs ws arbitrary: m rule: list_induct2') (auto simp: setGroup_name)

definition matched :: "string list \<Rightarrow> string list \<Rightarrow> string \<Rightarrow> ModelId" where
  "matched qs ws nm = fold setGroup (zip (qs @ [placeholderGroupModelName]) (ws @ [nm])) emptyModelId"

lemma matched_fields:
  assumes "length ws = length qs" and "\<forall>q \<in> set qs. admissible q"
  shows "m_Name (matched qs ws nm) = nm"
    and "admissible p \<Longrightarrow> fieldOf (matched qs ws nm) p =
      (case map_of (rev (zip qs ws)) p of Some w \<Rightarrow> w | None \<Rightarrow> fieldOf emptyModelId p)"
  using assms by (simp_all add: matched_def setGroup_name setGroup_name_field fold_setGroup_field)

lemma map_of_rev_zip_distinct:
  assumes "distinct qs" and "length ws = length qs" and "i < length qs"
  shows "map_of (rev (zip qs ws)) (qs ! i) = Some (ws ! i)"
proof -
  have "distinct (map fst (rev (zip qs ws)))" using assms by (simp add: rev_map [symmetric])
  moreover have "(qs ! i, ws ! i) \<in> set (rev (zip qs ws))" using assms by (auto simp: set_zip)
  ultimately show ?thesis by (rule map_of_is_SomeI)
qed

lemma map_of_rev_zip_map:
  assumes "p \<in> set qs"
  shows "map_of (rev (zip qs (map f qs))) p = Some (f p)"
proof -
  have "zip qs (map f qs) = map (\<lambda>q. (q, f q)) qs" by (simp add: zip_map2 zip_same_conv_map)
  then have "map_of (rev (zip qs (map f qs))) = map_of (map (\<lambda>q. (q, f q)) (rev qs))" by (simp add: rev_map)
  with assms show ?thesis by (simp add: map_of_map_restrict)
qed

lemma expand_matched:
  assumes "length ws = length ps" and "\<forall>i < length ps. f (snd (ps ! i)) = ws ! i"
  shows "expand f ps tail = concat (map2 (\<lambda>(l, p) w. l @ w) ps ws) @ tail"
proof -
  have "map (\<lambda>(l, p). l @ f p) ps = map2 (\<lambda>(l, p) w. l @ w) ps ws"
    using assms by (intro nth_equalityI) (auto simp: case_prod_beta)
  then show ?thesis by (simp add: expand_def)
qed

section \<open>Properties\<close>

lemma ParseModelId_pattern:
  assumes "cfgGet config ''app.model_id.domain_pattern'' None = Inr v" and "ToStringE config v = Inr pattern"
    and "pattern \<noteq> []"
  shows "ParseModelId config s = Inr mid \<longleftrightarrow>
    (\<exists>i. validateModelIdDomainPattern pattern = None \<and> modelIdFromStringWithDomainPattern pattern s = Inr i \<and>
      mid = i\<lparr>DomainPattern := pattern\<rparr>)"
  using assms by (auto simp: ParseModelId_def split: option.splits sum.splits)

lemma parse_clean:
  assumes "clean ps tail" and "ps \<noteq> []"
  shows "modelIdFromStringWithDomainPattern (patternOf ps tail) s = Inr i \<longleftrightarrow>
    (\<forall>p \<in> snd ` set ps. admissible p) \<and>
    (\<exists>vs. rx_match (rxOf ps @ rxTail tail) s = Some vs \<and>
       i = fold setGroup (zip (map snd ps @ [placeholderGroupModelName]) vs) emptyModelId)"
proof -
  have "patternOf ps tail \<noteq> []" using assms(2) by (cases ps) (auto simp: patternOf_def braced_def)
  then have "validateModelIdDomainPattern (patternOf ps tail) = None \<longleftrightarrow> (\<forall>p \<in> snd ` set ps. admissible p)"
    by (simp add: validateModelIdDomainPattern_def extract_patternOf [OF assms(1)] checkPlaceholders_None)
  then show ?thesis
    by (auto simp: modelIdFromStringWithDomainPattern_def buildParseRegex_clean [OF assms] split: option.splits)
qed

lemma fieldOf_DomainPattern [simp]: "fieldOf (m\<lparr>DomainPattern := d\<rparr>) p = fieldOf m p"
  by (simp add: fieldOf_def placeholderValue_def)


definition demo_nconfig :: "string \<Rightarrow> string nconfig" where
  "demo_nconfig pattern = \<lparr>cfgGet = (\<lambda>key d. if key = ''app.model_id.domain_pattern'' then Inr pattern else Inr ''''),
     cfgGetString = (\<lambda>key. Inr (if key = ''app.env'' then ''test'' else '' shop '')),
     cfgGetStringMap = (\<lambda>key. Inr [(''project'', ''web'')]), cfgGetStringMapString = (\<lambda>key d. Inr [(''project'', ''web'')]),
     ToStringE = Inr, anyString = id, anyQuoted = quoted\<rparr>"


text \<open>Patterns whose groups all end at a dot or at the end of the domain.\<close>

definition dotted :: "(string \<times> string) list \<Rightarrow> string \<Rightarrow> bool" where
  "dotted ps tail \<longleftrightarrow> (\<forall>(l, p) \<in> set (tl ps). l \<noteq> [] \<and> hd l = CHR ''.'') \<and> (tail = [] \<or> hd tail = CHR ''.'')"

lemma rx_separated_pattern:
  "dotted ps tail \<Longrightarrow> rx_separated (rxOf ps @ rxTail tail)"
proof (induction ps)
  case (Cons x ps)
  obtain l p where x: "x = (l, p)" by fastforce
  have "dotted ps tail" using Cons.prems by (cases ps) (auto simp: dotted_def)
  with Cons.IH have sep: "rx_separated (rxOf ps @ rxTail tail)" by blast
  have "case rxOf ps @ rxTail tail of [] \<Rightarrow> True | RLit l # _ \<Rightarrow> l \<noteq> [] \<and> hd l = CHR ''.'' | RNot _ # _ \<Rightarrow> False"
  proof (cases ps)
    case Nil
    with Cons.prems show ?thesis by (auto simp: rxOf_def rxTail_def dotted_def)
  next
    case (Cons y ys)
    obtain l' p' where y: "y = (l', p')" by fastforce
    with Cons.prems Cons show ?thesis by (auto simp: rxOf_Cons dotted_def)
  qed
  with sep show ?case by (simp add: x rxOf_Cons)
qed (auto simp: rxOf_def rxTail_def)



text \<open>
  For a pattern without placeholders the two operations do not agree: \<open>ParseModelId\<close> takes the
  whole text for the name, and \<open>String\<close> puts the pattern in front of it.
\<close>

lemma static_pattern_not_inverse:
  assumes "cfgGet config ''app.model_id.domain_pattern'' None = Inr v" and "ToStringE config v = Inr pattern"
    and "plain pattern" and "pattern \<noteq> []" and "s \<noteq> []" and "CHR 0x0A \<notin> set s"
  shows "\<exists>mid. ParseModelId config s = Inr mid \<and> m_Name mid = s \<and> ModelId_String mid = pattern @ ''.'' @ s"
proof -
  have c: "clean [] pattern" "patternOf [] pattern = pattern" using assms(3) by (simp_all add: clean_def patternOf_def)
  have e: "extractPlaceholders pattern = []" using extract_patternOf [OF c(1)] c(2) by simp
  have "rx_match [RNot CHR 0x0A] s = Some [s]"
    using rx_match_complete [of "[RNot CHR 0x0A]" "[s]"] assms(5,6) by simp
  then have "modelIdFromStringWithDomainPattern pattern s = Inr (setGroup (placeholderGroupModelName, s) emptyModelId)"
    using assms(4)
    by (simp add: modelIdFromStringWithDomainPattern_def validateModelIdDomainPattern_def e buildParseRegex_def del: rx_match.simps)
  moreover have "validateModelIdDomainPattern pattern = None" using assms(4) by (simp add: validateModelIdDomainPattern_def e)
  moreover have "formatDomain m pattern = pattern" for m
    using formatDomain_clean [OF c(1), of m] c(2) by simp
  ultimately show ?thesis
    unfolding ParseModelId_pattern [OF assms(1,2,4)]
    by (intro exI [of _ "setGroup (placeholderGroupModelName, s) emptyModelId\<lparr>DomainPattern := pattern\<rparr>"])
      (simp add: ModelId_String_def modelId_format_def setGroup_def)
qed

lemma static_pattern_not_inverse_witness:
  "\<exists>mid. ParseModelId (demo_nconfig ''static.domain'') ''static.domain.user'' = Inr mid \<and>
     ModelId_String mid = ''static.domain.static.domain.user''"
proof -
  have "\<exists>mid. ParseModelId (demo_nconfig ''static.domain'') ''static.domain.user'' = Inr mid \<and>
      m_Name mid = ''static.domain.user'' \<and> ModelId_String mid = ''static.domain'' @ ''.'' @ ''static.domain.user''"
    by (rule static_pattern_not_inverse [where v = "''static.domain''"]) (simp_all add: demo_nconfig_def plain_def)
  then show ?thesis by auto
qed


lemma missingTag_None:
  "missingTag tags phs = None \<longleftrightarrow>
     (\<forall>ph \<in> set phs. \<forall>k. ph = PlaceholderAppTags @ k \<longrightarrow> gm_has tags k)"
proof (induction phs)
  case (Cons ph phs)
  show ?case
  proof (cases "HasPrefix ph PlaceholderAppTags")
    case True
    then obtain k where "ph = PlaceholderAppTags @ k" by (auto simp: prefix_def)
    with Cons show ?thesis by auto
  next
    case False
    then have "ph \<noteq> PlaceholderAppTags @ k" for k by auto
    with False Cons show ?thesis by auto
  qed
qed simp

lemma addTag_step:
  assumes "addTag config tags kv = Inr t"
  shows "gm_get tags k = Some v \<Longrightarrow> gm_get t k = Some v" and "gm_has t k \<longleftrightarrow> gm_has tags k \<or> k = fst kv"
  using assms by (auto simp: addTag_def split: if_splits sum.splits)

lemma addTag_tags:
  "foldres (addTag config) tags kvs = Inr tags' \<Longrightarrow> gm_get tags k = Some v \<Longrightarrow> gm_get tags' k = Some v"
  by (induction kvs arbitrary: tags) (auto split: sum.splits dest: addTag_step(1))



text \<open>With no pattern set, \<open>String\<close> returns a text; no error is reported.\<close>

lemma String_without_pattern: "DomainPattern m = [] \<Longrightarrow> ModelId_String m = ''.'' @ m_Name m"
  by (simp add: ModelId_String_def modelId_format_def formatDomain_def)

lemma UuidWithDashes_shape:
  assumes "length u = 32" and "\<not> str_contains u ''-''"
  shows "\<exists>d. UuidWithDashes (Some u) = (Some d, None) \<and> length d = 36 \<and> filter (\<lambda>c. c \<noteq> CHR ''-'') d = u"
proof -
  have no: "CHR ''-'' \<notin> set u"
    using assms(2) unfolding str_contains_iff by (metis append_Cons append_Nil in_set_conv_decomp)
  have f: "filter (\<lambda>c. c \<noteq> CHR ''-'') w = w" if "set w \<subseteq> set u" for w
    using that no by (auto simp: filter_id_conv)
  define a b c d e where "a = take 8 u" and "b = take 4 (drop 8 u)" and "c = take 4 (drop 12 u)"
    and "d = take 4 (drop 16 u)" and "e = drop 20 u"
  note parts = this
  have sub: "set a \<subseteq> set u" "set b \<subseteq> set u" "set c \<subseteq> set u" "set d \<subseteq> set u" "set e \<subseteq> set u"
    unfolding parts by (auto dest: in_set_takeD in_set_dropD)
  have len: "length a = 8" "length b = 4" "length c = 4" "length d = 4" "length e = 12"
    unfolding parts using assms(1) by simp_all
  have cat: "take i xs @ drop i xs = xs" "take 4 (drop i u) @ drop (i + 4) u = drop i u" for i and xs :: string
    by (simp, metis add.commute append_take_drop_id drop_drop)
  have "a @ b @ c @ d @ e = u"
    unfolding parts using cat(2) [of 16] cat(2) [of 12] cat(2) [of 8] cat(1) [of 8 u] by simp
  moreover have "UuidWithDashes (Some u) = (Some (a @ ''-'' @ b @ ''-'' @ c @ ''-'' @ d @ ''-'' @ e), None)"
    using assms by (simp add: UuidWithDashes_def parts)
  ultimately show ?thesis using len by (simp add: f [OF sub(1)] f [OF sub(2)] f [OF sub(3)] f [OF sub(4)] f [OF sub(5)])
qed

end
