(* ===== verification/KinesisMeta.thy ===== *)
theory KinesisMeta
  imports Prelude GoErrors "HOL-Library.Char_ord" "HOL-Library.List_Lexorder"
begin

text \<open>
  Ownership of the shards of a stream: the metadata repository and the checkpoints of
  \<open>pkg/cloud/aws/kinesis\<close> (\<open>metadata_repository.go\<close>, \<open>checkpoint.go\<close>) with the poisoned lock of
  \<open>pkg/conc\<close>.

  The DynamoDB table is a map from hash and range key to a record; a write carries a condition on
  the stored record and is atomic, as DynamoDB documents it. A request has a \<open>fault\<close>: it goes
  through, it fails before the table is changed, or it fails after the change was made. Times are
  nanoseconds; an absent owner is \<open>None\<close> (the attribute is omitted when empty). The operations of
  a repository are given the clock readings they take. Logging is left out.
\<close>

section \<open>The table\<close>

datatype fault = Fine | FailsBefore goerr | FailsAfter goerr

text \<open>\<open>ddbWrite\<close> returns the new content and whether the condition failed.\<close>

definition ddbWrite :: "fault \<Rightarrow> ('r option \<Rightarrow> bool) \<Rightarrow> ('r option \<Rightarrow> 'r option) \<Rightarrow> 'r option \<Rightarrow> 'r option \<times> (goerr + bool)" where
  "ddbWrite f cond change row =
     (case f of
        FailsBefore e \<Rightarrow> (row, Inl e)
      | FailsAfter e \<Rightarrow> ((if cond row then change row else row), Inl e)
      | Fine \<Rightarrow> if cond row then (change row, Inr False) else (row, Inr True))"

definition ddbRead :: "fault \<Rightarrow> 'r \<Rightarrow> goerr + 'r" where
  "ddbRead f x = (case f of Fine \<Rightarrow> Inr x | FailsBefore e \<Rightarrow> Inl e | FailsAfter e \<Rightarrow> Inl e)"

definition second :: int where "second = 1000000000"

definition ShardTimeout :: int where "ShardTimeout = 3600 * second * 24 * 8"

definition Unix :: "int \<Rightarrow> int" where "Unix t = t div second"

definition ErrCheckpointNoLongerOwned :: goerr where
  "ErrCheckpointNoLongerOwned = Sentinel ''kinesis.ErrCheckpointNoLongerOwned''
     ''can not persist checkpoint which is no longer owned''"

definition ErrCheckpointAlreadyReleased :: goerr where
  "ErrCheckpointAlreadyReleased = Sentinel ''kinesis.ErrCheckpointAlreadyReleased''
     ''failed to release checkpoint, it was already released''"

definition ErrShardAlreadyFinished :: goerr where
  "ErrShardAlreadyFinished = Sentinel ''kinesis.ErrShardAlreadyFinished'' ''shard was alread finished''"

record CheckpointRecord =
  UpdatedAt :: int
  Ttl :: int
  OwningClientId :: "string option"
  cr_SequenceNumber :: string
  LastShardIterator :: string
  cr_FinishedAt :: "int option"

section \<open>The poisoned lock\<close>

definition ErrAlreadyPoisoned :: goerr where
  "ErrAlreadyPoisoned = Sentinel ''conc.ErrAlreadyPoisoned'' ''lock was already poisoned''"

text \<open>
  The lock is held for the whole of an operation, so only whether it is poisoned remains.
\<close>

definition TryLock :: "bool \<Rightarrow> error" where
  "TryLock poisoned = (if poisoned then Some ErrAlreadyPoisoned else None)"

definition Poison :: "bool \<Rightarrow> bool \<times> error" where
  "Poison poisoned = (if poisoned then (True, Some ErrAlreadyPoisoned) else (True, None))"

definition PoisonIf :: "bool \<Rightarrow> bool \<times> error \<Rightarrow> bool \<times> error" where
  "PoisonIf poisoned f =
     (case TryLock poisoned of
        Some err \<Rightarrow> (poisoned, Some err)
      | None \<Rightarrow> (case f of (shouldPoison, err) \<Rightarrow> (shouldPoison, err)))"

section \<open>Checkpoints\<close>

record checkpoint =
  ck_poisoned :: bool
  owningClientId :: string
  sequenceNumber :: string
  shardIterator :: string
  finalSequenceNumber :: string
  finishedAt :: "int option"

definition ck_Advance :: "string \<Rightarrow> string \<Rightarrow> checkpoint \<Rightarrow> checkpoint \<times> error" where
  "ck_Advance sn it c =
     (case TryLock (ck_poisoned c) of
        Some err \<Rightarrow> (c, Some (errorf_w ''can not advance already released checkpoint: '' err ''''))
      | None \<Rightarrow> (c\<lparr>sequenceNumber := sn, shardIterator := it\<rparr>, None))"

definition ck_Done :: "int \<Rightarrow> string \<Rightarrow> checkpoint \<Rightarrow> checkpoint \<times> error" where
  "ck_Done now sn c =
     (case TryLock (ck_poisoned c) of
        Some err \<Rightarrow> (c, Some (errorf_w ''can not mark already released checkpoint as done: '' err ''''))
      | None \<Rightarrow> (c\<lparr>finishedAt := Some now, finalSequenceNumber := sn\<rparr>, None))"

definition persistRecord :: "int \<Rightarrow> checkpoint \<Rightarrow> CheckpointRecord" where
  "persistRecord now c =
     \<lparr>UpdatedAt = now, Ttl = Unix (now + ShardTimeout), OwningClientId = Some (owningClientId c),
      cr_SequenceNumber = sequenceNumber c, LastShardIterator = shardIterator c,
      cr_FinishedAt = (if sequenceNumber c \<noteq> finalSequenceNumber c \<and> finalSequenceNumber c \<noteq> [] then None else finishedAt c)\<rparr>"

definition ownedBy :: "string \<Rightarrow> CheckpointRecord option \<Rightarrow> bool" where
  "ownedBy client row = (case row of None \<Rightarrow> False | Some r \<Rightarrow> OwningClientId r = Some client)"

definition ck_Persist ::
  "fault \<Rightarrow> int \<Rightarrow> checkpoint \<Rightarrow> CheckpointRecord option \<Rightarrow> CheckpointRecord option \<times> (goerr + bool)" where
  "ck_Persist f now c row =
     (case TryLock (ck_poisoned c) of
        Some err \<Rightarrow> (row, Inl (errorf_w ''can not persist already released checkpoint: '' err ''''))
      | None \<Rightarrow>
          (let record = persistRecord now c in
           case ddbWrite f (ownedBy (owningClientId c)) (\<lambda>_. Some record) row of
             (row', Inl err) \<Rightarrow> (row', Inl (errorf_w ''failed to persist checkpoint: '' err ''''))
           | (row', Inr True) \<Rightarrow> (row', Inl ErrCheckpointNoLongerOwned)
           | (row', Inr False) \<Rightarrow> (row', Inr (cr_FinishedAt record \<noteq> None))))"

definition releaseRecord :: "int \<Rightarrow> checkpoint \<Rightarrow> CheckpointRecord \<Rightarrow> CheckpointRecord" where
  "releaseRecord now c r = r\<lparr>OwningClientId := None, UpdatedAt := now, Ttl := Unix (now + ShardTimeout),
     cr_SequenceNumber := sequenceNumber c, LastShardIterator := shardIterator c\<rparr>"

definition ck_Release ::
  "fault \<Rightarrow> int \<Rightarrow> checkpoint \<Rightarrow> CheckpointRecord option \<Rightarrow> CheckpointRecord option \<times> checkpoint \<times> error" where
  "ck_Release f now c row =
     (if ck_poisoned c then (row, c, Some ErrAlreadyPoisoned)
      else case ddbWrite f (ownedBy (owningClientId c)) (map_option (releaseRecord now c)) row of
        (row', result) \<Rightarrow>
          (case PoisonIf (ck_poisoned c)
                  (case result of
                     Inl err \<Rightarrow> (False, Some (errorf_w ''failed to release checkpoint: '' err ''''))
                   | Inr True \<Rightarrow> (True, Some ErrCheckpointAlreadyReleased)
                   | Inr False \<Rightarrow> (True, None)) of
             (p, err) \<Rightarrow> (row', c\<lparr>ck_poisoned := p\<rparr>, err)))"

section \<open>The metadata repository\<close>

record KinsumerTimes =
  DiscoverFrequency :: int
  ClientExpirationPeriods :: int
  PersistFrequency :: int
  CheckpointTimeoutPeriods :: int

record metadataRepository =
  mr_namespace :: string
  mr_stream :: string
  clientId :: string
  clientTimeout :: int
  checkpointTimeout :: int
  finishedMap :: "(string, bool) gomap"

definition NewMetadataRepositoryWithInterfaces :: "string \<Rightarrow> string \<Rightarrow> KinsumerTimes \<Rightarrow> string \<Rightarrow> metadataRepository" where
  "NewMetadataRepositoryWithInterfaces stream client settings namespace =
     (let ct = DiscoverFrequency settings * ClientExpirationPeriods settings;
          ct = (if ct < 60 * second then 60 * second else ct);
          kt = PersistFrequency settings * CheckpointTimeoutPeriods settings;
          kt = (if kt < 60 * second then 60 * second else kt)
      in \<lparr>mr_namespace = namespace, mr_stream = stream, clientId = client, clientTimeout = ct,
          checkpointTimeout = kt, finishedMap = []\<rparr>)"

definition getClientNamespace :: "metadataRepository \<Rightarrow> string" where
  "getClientNamespace m = ''client:'' @ mr_namespace m @ '':'' @ mr_stream m"

definition getCheckpointNamespace :: "metadataRepository \<Rightarrow> string" where
  "getCheckpointNamespace m = ''checkpoint:'' @ mr_namespace m @ '':'' @ mr_stream m"

text \<open>
  The client records of one namespace: client id to the time it was written and its ttl. A query
  returns them sorted by the range key.
\<close>

type_synonym clientTable = "(string, int \<times> int) gomap"

fun clientIndexIn :: "string \<Rightarrow> nat \<Rightarrow> string list \<Rightarrow> nat option" where
  "clientIndexIn c i [] = None"
| "clientIndexIn c i (r # rs) = (if r = c then Some i else clientIndexIn c (i + 1) rs)"

definition RegisterClient ::
  "fault \<Rightarrow> fault \<Rightarrow> int \<Rightarrow> metadataRepository \<Rightarrow> clientTable \<Rightarrow> clientTable \<times> (goerr + nat \<times> nat)" where
  "RegisterClient putFault queryFault now m clients =
     (let written = gm_set clients (clientId m) (now, Unix (now + clientTimeout m));
          (clients', put) = (case putFault of
              Fine \<Rightarrow> (written, None)
            | FailsBefore e \<Rightarrow> (clients, Some e)
            | FailsAfter e \<Rightarrow> (written, Some e))
      in case put of
           Some err \<Rightarrow> (clients', Inl (errorf_w ''failed to register client: '' err ''''))
         | None \<Rightarrow>
             (case ddbRead queryFault (sort (map fst clients')) of
                Inl err \<Rightarrow> (clients', Inl (errorf_w ''failed to list clients: '' err ''''))
              | Inr listed \<Rightarrow>
                  (case clientIndexIn (clientId m) 0 listed of
                     Some i \<Rightarrow> (clients', Inr (i, length listed))
                   | None \<Rightarrow> (clients', Inl (Opaque ''failed to find client just written to ddb'')))))"

definition DeregisterClient :: "fault \<Rightarrow> metadataRepository \<Rightarrow> clientTable \<Rightarrow> clientTable \<times> error" where
  "DeregisterClient f m clients =
     (case f of
        Fine \<Rightarrow> (gm_del clients (clientId m), None)
      | FailsBefore e \<Rightarrow> (clients, Some (errorf_w ''failed to deregister client: '' e ''''))
      | FailsAfter e \<Rightarrow> (gm_del clients (clientId m), Some (errorf_w ''failed to deregister client: '' e '''')))"

definition IsShardFinished ::
  "fault \<Rightarrow> CheckpointRecord option \<Rightarrow> string \<Rightarrow> metadataRepository \<Rightarrow> metadataRepository \<times> (goerr + bool)" where
  "IsShardFinished f row shardId m =
     (if gm_get (finishedMap m) shardId = Some True then (m, Inr True)
      else case ddbRead f row of
        Inl err \<Rightarrow> (m, Inl (errorf_w ''failed to check if shard is finished: '' err ''''))
      | Inr found \<Rightarrow>
          (case found of
             Some record \<Rightarrow>
               if cr_FinishedAt record \<noteq> None
               then (m\<lparr>finishedMap := gm_set (finishedMap m) shardId True\<rparr>, Inr True)
               else (m, Inr False)
           | None \<Rightarrow> (m, Inr False)))"

text \<open>\<open>AcquireShard\<close> in its parts, which other clients may interleave with: reading the record, writing it, and
  giving it back when the context was cancelled meanwhile.\<close>

definition timedOutBefore :: "metadataRepository \<Rightarrow> int \<Rightarrow> int" where
  "timedOutBefore m now = now - checkpointTimeout m"

definition handleExistingRecord ::
  "metadataRepository \<Rightarrow> int \<Rightarrow> CheckpointRecord \<Rightarrow> int \<Rightarrow> goerr + CheckpointRecord option" where
  "handleExistingRecord m now record tob =
     (if OwningClientId record \<noteq> None \<and> UpdatedAt record > tob then Inr None
      else if cr_FinishedAt record \<noteq> None then Inl ErrShardAlreadyFinished
      else Inr (Some (record\<lparr>OwningClientId := Some (clientId m), UpdatedAt := now, Ttl := Unix (now + ShardTimeout)\<rparr>)))"

definition acquireRead ::
  "fault \<Rightarrow> metadataRepository \<Rightarrow> int \<Rightarrow> int \<Rightarrow> CheckpointRecord option \<Rightarrow> goerr + CheckpointRecord option" where
  "acquireRead f m now tob row =
     (case ddbRead f row of
        Inl err \<Rightarrow> Inl (errorf_w ''failed to read checkpoint record: '' err '''')
      | Inr None \<Rightarrow>
          Inr (Some \<lparr>UpdatedAt = now, Ttl = Unix (now + ShardTimeout), OwningClientId = Some (clientId m),
                     cr_SequenceNumber = '''', LastShardIterator = '''', cr_FinishedAt = None\<rparr>)
      | Inr (Some record) \<Rightarrow> handleExistingRecord m now record tob)"

definition acquirable :: "int \<Rightarrow> CheckpointRecord option \<Rightarrow> bool" where
  "acquirable tob row = (case row of None \<Rightarrow> True | Some r \<Rightarrow> OwningClientId r = None \<or> UpdatedAt r \<le> tob)"

definition acquireWrite ::
  "fault \<Rightarrow> int \<Rightarrow> CheckpointRecord \<Rightarrow> CheckpointRecord option \<Rightarrow> CheckpointRecord option \<times> (goerr + bool)" where
  "acquireWrite f tob record row =
     (case ddbWrite f (acquirable tob) (\<lambda>_. Some record) row of
        (row', Inl err) \<Rightarrow> (row', Inl (errorf_w ''failed to write checkpoint record: '' err ''''))
      | (row', Inr failed) \<Rightarrow> (row', Inr (\<not> failed)))"

definition acquireCancelled ::
  "fault \<Rightarrow> metadataRepository \<Rightarrow> int \<Rightarrow> goerr \<Rightarrow> CheckpointRecord \<Rightarrow> CheckpointRecord option \<Rightarrow>
     CheckpointRecord option \<times> error" where
  "acquireCancelled f m now ctxErr record row =
     (let record = record\<lparr>OwningClientId := None, UpdatedAt := now, Ttl := Unix (now + ShardTimeout)\<rparr> in
      case ddbWrite f (ownedBy (clientId m)) (\<lambda>_. Some record) row of
        (row', Inl err) \<Rightarrow> (row', Some (errorf_w ''failed to release checkpoint record: '' err ''''))
      | (row', Inr True) \<Rightarrow> (row', None)
      | (row', Inr False) \<Rightarrow> (row', Some ctxErr))"

definition newCheckpoint :: "metadataRepository \<Rightarrow> CheckpointRecord \<Rightarrow> checkpoint" where
  "newCheckpoint m record =
     \<lparr>ck_poisoned = False, owningClientId = clientId m, sequenceNumber = cr_SequenceNumber record,
      shardIterator = LastShardIterator record,
      finalSequenceNumber = (if cr_FinishedAt record = None then '''' else cr_SequenceNumber record),
      finishedAt = cr_FinishedAt record\<rparr>"

text \<open>Without interference \<open>AcquireShard\<close> runs these parts one after the other.\<close>

definition AcquireShard ::
  "fault \<Rightarrow> fault \<Rightarrow> fault \<Rightarrow> goerr option \<Rightarrow> metadataRepository \<Rightarrow> int \<Rightarrow> CheckpointRecord option \<Rightarrow>
     CheckpointRecord option \<times> (goerr + checkpoint option)" where
  "AcquireShard f1 f2 f3 cancelled m now row =
     (let tob = timedOutBefore m now in
      case acquireRead f1 m now tob row of
        Inl err \<Rightarrow> (row, Inl err)
      | Inr None \<Rightarrow> (row, Inr None)
      | Inr (Some record) \<Rightarrow>
          (case acquireWrite f2 tob record row of
             (row, Inl err) \<Rightarrow> (row, Inl err)
           | (row, Inr False) \<Rightarrow> (row, Inr None)
           | (row, Inr True) \<Rightarrow>
               (case cancelled of
                  Some ctxErr \<Rightarrow>
                    (case acquireCancelled f3 m now ctxErr record row of
                       (row, Some err) \<Rightarrow> (row, Inl err)
                     | (row, None) \<Rightarrow> (row, Inr None))
                | None \<Rightarrow> (row, Inr (Some (newCheckpoint m record))))))"

end
