(* ===== verification/KinesisLease.thy ===== *)
theory KinesisLease
  imports KinesisMeta
begin

text \<open>
  Many clients and one shard: the parts of \<open>AcquireShard\<close> and the operations of the checkpoints of
  all clients, interleaved in any order. A client reads its own clock, which is off from the
  common time by a fixed amount; requests may fail before or after they take effect.
\<close>

section \<open>The system\<close>

text \<open>
  \<open>Started\<close> and \<open>HasRead\<close> are the two points inside \<open>AcquireShard\<close>, \<open>Acquired\<close> the point after the write where
  a cancelled context is noticed. \<open>Owns ck u\<close>: the client holds a checkpoint, and \<open>u\<close> is the reading
  of its clock in the last of its writes that it knows to have succeeded.
\<close>

datatype cstate = Idle | Started int | HasRead int CheckpointRecord | Acquired CheckpointRecord int | Owns checkpoint int

record sys =
  row :: "CheckpointRecord option"
  pc :: "string \<Rightarrow> cstate"
  now :: int

record leaseEnv =
  repoOf :: "string \<Rightarrow> metadataRepository"
  skew :: "string \<Rightarrow> int"

datatype act =
    ATick nat
  | AStart string
  | ARead string fault
  | AWrite string fault
  | AKeep string
  | AGiveBack string fault
  | AAdvance string string string
  | ADone string string
  | APersist string fault
  | ARelease string fault

definition clockOf :: "leaseEnv \<Rightarrow> sys \<Rightarrow> string \<Rightarrow> int" where
  "clockOf env s c = now s + skew env c"

definition setPc :: "string \<Rightarrow> cstate \<Rightarrow> sys \<Rightarrow> sys" where
  "setPc c p s = s\<lparr>pc := (pc s)(c := p)\<rparr>"

fun lstep :: "leaseEnv \<Rightarrow> act \<Rightarrow> sys \<Rightarrow> sys option" where
  "lstep env (ATick n) s = Some (s\<lparr>now := now s + int n\<rparr>)"
| "lstep env (AStart c) s =
     (case pc s c of
        Idle \<Rightarrow> Some (setPc c (Started (timedOutBefore (repoOf env c) (clockOf env s c))) s)
      | _ \<Rightarrow> None)"
| "lstep env (ARead c f) s =
     (case pc s c of
        Started tob \<Rightarrow>
          (case acquireRead f (repoOf env c) (clockOf env s c) tob (row s) of
             Inr (Some rcd) \<Rightarrow> Some (setPc c (HasRead tob rcd) s)
           | _ \<Rightarrow> Some (setPc c Idle s))
      | _ \<Rightarrow> None)"
| "lstep env (AWrite c f) s =
     (case pc s c of
        HasRead tob rcd \<Rightarrow>
          (case acquireWrite f tob rcd (row s) of
             (r, Inr True) \<Rightarrow> Some (setPc c (Acquired rcd (UpdatedAt rcd)) (s\<lparr>row := r\<rparr>))
           | (r, _) \<Rightarrow> Some (setPc c Idle (s\<lparr>row := r\<rparr>)))
      | _ \<Rightarrow> None)"
| "lstep env (AKeep c) s =
     (case pc s c of
        Acquired rcd u \<Rightarrow> Some (setPc c (Owns (newCheckpoint (repoOf env c) rcd) u) s)
      | _ \<Rightarrow> None)"
| "lstep env (AGiveBack c f) s =
     (case pc s c of
        Acquired rcd u \<Rightarrow>
          Some (setPc c Idle (s\<lparr>row := fst (acquireCancelled f (repoOf env c) (clockOf env s c) (Opaque ''context canceled'') rcd (row s))\<rparr>))
      | _ \<Rightarrow> None)"
| "lstep env (AAdvance c sn it) s =
     (case pc s c of Owns ck u \<Rightarrow> Some (setPc c (Owns (fst (ck_Advance sn it ck)) u) s) | _ \<Rightarrow> None)"
| "lstep env (ADone c sn) s =
     (case pc s c of Owns ck u \<Rightarrow> Some (setPc c (Owns (fst (ck_Done (clockOf env s c) sn ck)) u) s) | _ \<Rightarrow> None)"
| "lstep env (APersist c f) s =
     (case pc s c of
        Owns ck u \<Rightarrow>
          (case ck_Persist f (clockOf env s c) ck (row s) of
             (r, Inr _) \<Rightarrow> Some (setPc c (Owns ck (clockOf env s c)) (s\<lparr>row := r\<rparr>))
           | (r, Inl _) \<Rightarrow> Some (s\<lparr>row := r\<rparr>))
      | _ \<Rightarrow> None)"
| "lstep env (ARelease c f) s =
     (case pc s c of
        Owns ck u \<Rightarrow> Some (setPc c Idle (s\<lparr>row := fst (ck_Release f (clockOf env s c) ck (row s))\<rparr>))
      | _ \<Rightarrow> None)"

fun lrun :: "leaseEnv \<Rightarrow> act list \<Rightarrow> sys \<Rightarrow> sys option" where
  "lrun env [] s = Some s"
| "lrun env (a # as) s = (case lstep env a s of None \<Rightarrow> None | Some s' \<Rightarrow> lrun env as s')"

definition initial :: "CheckpointRecord option \<Rightarrow> int \<Rightarrow> sys" where
  "initial r t = \<lparr>row = r, pc = (\<lambda>_. Idle), now = t\<rparr>"

section \<open>The lease\<close>

text \<open>All clients use the same timeout \<open>T\<close>, under their own names, and their clocks differ by at most \<open>E\<close>.\<close>

definition lease_ok :: "leaseEnv \<Rightarrow> int \<Rightarrow> int \<Rightarrow> bool" where
  "lease_ok env T E \<longleftrightarrow> (\<forall>c. clientId (repoOf env c) = c \<and> checkpointTimeout (repoOf env c) = T \<and>
     \<bar>skew env c\<bar> \<le> E)"

definition holds :: "string \<Rightarrow> int \<Rightarrow> sys \<Rightarrow> bool" where
  "holds c u s \<longleftrightarrow> (\<exists>r. row s = Some r \<and> OwningClientId r = Some c \<and> u \<le> UpdatedAt r)"

definition client_inv :: "leaseEnv \<Rightarrow> int \<Rightarrow> int \<Rightarrow> sys \<Rightarrow> string \<Rightarrow> cstate \<Rightarrow> bool" where
  "client_inv env T E s c p \<longleftrightarrow>
     (case p of
        Idle \<Rightarrow> True
      | Started tob \<Rightarrow> tob \<le> now s + E - T
      | HasRead tob rcd \<Rightarrow> tob \<le> now s + E - T \<and> OwningClientId rcd = Some c \<and> UpdatedAt rcd \<le> clockOf env s c
      | Acquired rcd u \<Rightarrow> u \<le> clockOf env s c \<and> (holds c u s \<or> u \<le> now s + E - T)
      | Owns ck u \<Rightarrow> owningClientId ck = c \<and> u \<le> clockOf env s c \<and> (holds c u s \<or> u \<le> now s + E - T))"

definition lease_inv :: "leaseEnv \<Rightarrow> int \<Rightarrow> int \<Rightarrow> sys \<Rightarrow> bool" where
  "lease_inv env T E s \<longleftrightarrow> (\<forall>c. client_inv env T E s c (pc s c))"

text \<open>
  What a step may do to the record while another client holds it: leave it, or take it over when
  it has timed out.
\<close>

definition others_ok :: "int \<Rightarrow> int \<Rightarrow> string \<Rightarrow> sys \<Rightarrow> sys \<Rightarrow> bool" where
  "others_ok T E c s s' \<longleftrightarrow> now s \<le> now s' \<and>
     (\<forall>d u. d \<noteq> c \<longrightarrow> holds d u s \<longrightarrow> holds d u s' \<or> u \<le> now s' + E - T)"

lemma client_inv_other:
  assumes "client_inv env T E s d p" and "others_ok T E c s s'" and "d \<noteq> c"
  shows "client_inv env T E s' d p"
proof -
  have mono: "now s \<le> now s'" and keep: "\<And>u. holds d u s \<Longrightarrow> holds d u s' \<or> u \<le> now s' + E - T"
    using assms(2,3) by (auto simp: others_ok_def)
  from mono have "clockOf env s d \<le> clockOf env s' d" by (simp add: clockOf_def)
  then have up: "u \<le> clockOf env s d \<Longrightarrow> u \<le> clockOf env s' d" "tob \<le> now s + E - T \<Longrightarrow> tob \<le> now s' + E - T" for u tob
    using mono by simp_all
  show ?thesis
  proof (cases p)
    case (Acquired rcd u)
    with assms(1) up keep [of u] show ?thesis by (simp add: client_inv_def) blast
  next
    case (Owns ck u)
    with assms(1) up keep [of u] show ?thesis by (simp add: client_inv_def) blast
  qed (use assms(1) up in \<open>simp_all add: client_inv_def\<close>)
qed

lemma lease_inv_step:
  assumes "lease_inv env T E s" and "others_ok T E c s s'" and "\<And>d. d \<noteq> c \<Longrightarrow> pc s' d = pc s d"
    and "client_inv env T E s' c (pc s' c)"
  shows "lease_inv env T E s'"
  unfolding lease_inv_def
proof
  fix d
  show "client_inv env T E s' d (pc s' d)"
  proof (cases "d = c")
    case False
    then have "client_inv env T E s d (pc s d)" using assms(1) by (simp add: lease_inv_def)
    with client_inv_other [OF _ assms(2) False] assms(3) [OF False] show ?thesis by simp
  qed (use assms(4) in simp)
qed

lemma setPc_simps [simp]:
  "row (setPc c p s) = row s" "now (setPc c p s) = now s" "pc (setPc c p s) c = p"
  "d \<noteq> c \<Longrightarrow> pc (setPc c p s) d = pc s d" "holds d u (setPc c p s) = holds d u s"
  "clockOf env (setPc c p s) d = clockOf env s d"
  by (simp_all add: setPc_def holds_def clockOf_def)

lemma same_row_ok: "row s' = row s \<Longrightarrow> now s \<le> now s' \<Longrightarrow> others_ok T E c s s'"
  by (simp add: others_ok_def holds_def)

lemma owned_write_ok:
  assumes "row s' = fst (ddbWrite f (ownedBy c) change (row s))" and "now s \<le> now s'"
  shows "others_ok T E c s s'"
  using assms by (auto simp: others_ok_def holds_def ddbWrite_def ownedBy_def split: fault.splits option.splits if_splits)

lemma acquire_write_ok:
  assumes "row s' = fst (ddbWrite f (acquirable tob) change (row s))" and "now s \<le> now s'" and "tob \<le> now s + E - T"
  shows "others_ok T E c s s'"
  using assms by (auto simp: others_ok_def holds_def ddbWrite_def acquirable_def split: fault.splits option.splits if_splits)

lemma ck_Persist_row:
  "fst (ck_Persist f t c r) = (if ck_poisoned c then r else fst (ddbWrite f (ownedBy (owningClientId c)) (\<lambda>_. Some (persistRecord t c)) r))"
  by (auto simp: ck_Persist_def TryLock_def Let_def split: prod.splits sum.splits bool.splits)

lemma ck_Release_row:
  "fst (ck_Release f t c r) = (if ck_poisoned c then r else fst (ddbWrite f (ownedBy (owningClientId c)) (map_option (releaseRecord t c)) r))"
  by (auto simp: ck_Release_def split: prod.splits)

lemma acquireCancelled_row:
  "\<exists>r'. fst (acquireCancelled f m t e rcd r) = fst (ddbWrite f (ownedBy (clientId m)) (\<lambda>_. Some r') r)"
  by (intro exI [of _ "rcd\<lparr>OwningClientId := None, UpdatedAt := t, Ttl := Unix (t + ShardTimeout)\<rparr>"])
    (auto simp: acquireCancelled_def Let_def split: prod.splits sum.splits bool.splits)

lemma acquireWrite_row: "fst (acquireWrite f tob rcd r) = fst (ddbWrite f (acquirable tob) (\<lambda>_. Some rcd) r)"
  by (auto simp: acquireWrite_def split: prod.splits sum.splits)

lemma acquireRead_record:
  assumes "acquireRead f m t tob r = Inr (Some rcd)"
  shows "OwningClientId rcd = Some (clientId m) \<and> UpdatedAt rcd = t"
  using assms by (auto simp: acquireRead_def handleExistingRecord_def split: sum.splits option.splits if_splits)

lemma acquireWrite_success:
  assumes "acquireWrite f tob rcd r = (r', Inr True)"
  shows "r' = Some rcd"
  using assms by (auto simp: acquireWrite_def ddbWrite_def split: fault.splits if_splits)

lemma ck_Persist_success:
  assumes "ck_Persist f t c r = (r', Inr b)"
  shows "r' = Some (persistRecord t c)"
  using assms by (auto simp: ck_Persist_def TryLock_def ddbWrite_def Let_def split: fault.splits if_splits)

lemma lstep_inv:
  assumes ok: "lease_ok env T E" and inv: "lease_inv env T E s" and step: "lstep env a s = Some s'"
  shows "lease_inv env T E s'"
proof -
  have env: "clientId (repoOf env c) = c" "checkpointTimeout (repoOf env c) = T" "skew env c \<le> E" for c
    using ok by (auto simp: lease_ok_def abs_le_iff)
  have cinv: "client_inv env T E s c (pc s c)" for c using inv by (simp add: lease_inv_def)
  show ?thesis
  proof (cases a)
    case (ATick n)
    then have "others_ok T E c s s'" "pc s' = pc s" for c using step by (auto intro: same_row_ok)
    then have "client_inv env T E s' d (pc s' d)" for d
      using client_inv_other [OF cinv] by (metis list.distinct(1))
    then show ?thesis by (simp add: lease_inv_def)
  next
    case (AStart c)
    with step have s': "s' = setPc c (Started (timedOutBefore (repoOf env c) (clockOf env s c))) s" by (auto split: cstate.splits)
    show ?thesis
      by (rule lease_inv_step [OF inv same_row_ok, where c = c])
        (use env [of c] in \<open>simp_all add: s' client_inv_def timedOutBefore_def clockOf_def\<close>)
  next
    case (ARead c f)
    with step obtain tob where p: "pc s c = Started tob" by (auto split: cstate.splits)
    have s': "s' = setPc c Idle s \<or> (\<exists>rcd. s' = setPc c (HasRead tob rcd) s \<and>
        acquireRead f (repoOf env c) (clockOf env s c) tob (row s) = Inr (Some rcd))"
      using step p ARead by (auto split: sum.splits option.splits)
    have "tob \<le> now s + E - T" using cinv [of c] by (simp add: p client_inv_def)
    then have "client_inv env T E s' c (pc s' c)"
      using s' acquireRead_record [of f "repoOf env c"] env(1) by (auto simp: client_inv_def)
    then show ?thesis
      using s' by (intro lease_inv_step [OF inv same_row_ok, where c = c]) auto
  next
    case (AWrite c f)
    with step obtain tob rcd where p: "pc s c = HasRead tob rcd" by (auto split: cstate.splits)
    obtain r res where w: "acquireWrite f tob rcd (row s) = (r, res)" by fastforce
    have s': "s' = setPc c (if res = Inr True then Acquired rcd (UpdatedAt rcd) else Idle) (s\<lparr>row := r\<rparr>)"
      using step p AWrite w by (auto split: sum.splits bool.splits)
    have h: "tob \<le> now s + E - T" "OwningClientId rcd = Some c" "UpdatedAt rcd \<le> clockOf env s c"
      using cinv [of c] by (simp_all add: p client_inv_def)
    have "row s' = fst (ddbWrite f (acquirable tob) (\<lambda>_. Some rcd) (row s))"
      using acquireWrite_row [of f tob rcd "row s"] w s' by simp
    then have "others_ok T E c s s'" by (rule acquire_write_ok) (use s' h(1) in simp_all)
    then show ?thesis
    proof (rule lease_inv_step [OF inv])
      show "client_inv env T E s' c (pc s' c)"
      proof (cases "res = Inr True")
        case True
        with w have "r = Some rcd" by (auto intro: acquireWrite_success)
        then have "holds c (UpdatedAt rcd) s'" using s' h(2) by (simp add: holds_def)
        with h(3) show ?thesis by (simp add: s' True client_inv_def clockOf_def)
      next
        case False
        then show ?thesis by (simp add: s' client_inv_def)
      qed
    qed (simp add: s' setPc_def)
  next
    case (AKeep c)
    with step obtain rcd u where p: "pc s c = Acquired rcd u" by (auto split: cstate.splits)
    then have s': "s' = setPc c (Owns (newCheckpoint (repoOf env c) rcd) u) s" using step AKeep by simp
    show ?thesis
      by (rule lease_inv_step [OF inv same_row_ok, where c = c])
        (use cinv [of c] env(1) p in \<open>auto simp: s' client_inv_def newCheckpoint_def\<close>)
  next
    case (AGiveBack c f)
    with step obtain rcd u where p: "pc s c = Acquired rcd u" by (auto split: cstate.splits)
    then have s': "s' = setPc c Idle (s\<lparr>row := fst (acquireCancelled f (repoOf env c) (clockOf env s c) (Opaque ''context canceled'') rcd (row s))\<rparr>)"
      using step AGiveBack by simp
    obtain r' where "row s' = fst (ddbWrite f (ownedBy c) (\<lambda>_. Some r') (row s))"
      using acquireCancelled_row [of f "repoOf env c" "clockOf env s c" "Opaque ''context canceled''" rcd "row s"]
      unfolding env(1) by (auto simp: s')
    then have "others_ok T E c s s'" by (rule owned_write_ok) (simp add: s')
    then show ?thesis by (rule lease_inv_step [OF inv]) (simp_all add: s' setPc_def client_inv_def)
  next
    case (AAdvance c sn it)
    with step obtain ck u where p: "pc s c = Owns ck u" by (auto split: cstate.splits)
    then have s': "s' = setPc c (Owns (fst (ck_Advance sn it ck)) u) s" using step AAdvance by simp
    show ?thesis
      by (rule lease_inv_step [OF inv same_row_ok, where c = c])
        (use cinv [of c] p in \<open>auto simp: s' client_inv_def ck_Advance_def split: option.splits\<close>)
  next
    case (ADone c sn)
    with step obtain ck u where p: "pc s c = Owns ck u" by (auto split: cstate.splits)
    then have s': "s' = setPc c (Owns (fst (ck_Done (clockOf env s c) sn ck)) u) s" using step ADone by simp
    show ?thesis
      by (rule lease_inv_step [OF inv same_row_ok, where c = c])
        (use cinv [of c] p in \<open>auto simp: s' client_inv_def ck_Done_def split: option.splits\<close>)
  next
    case (APersist c f)
    with step obtain ck u where p: "pc s c = Owns ck u" by (auto split: cstate.splits)
    obtain r res where w: "ck_Persist f (clockOf env s c) ck (row s) = (r, res)" by fastforce
    have s': "s' = (case res of Inr b \<Rightarrow> setPc c (Owns ck (clockOf env s c)) (s\<lparr>row := r\<rparr>) | Inl e \<Rightarrow> s\<lparr>row := r\<rparr>)"
      using step p APersist w by (auto split: sum.splits)
    have own: "owningClientId ck = c" "u \<le> clockOf env s c" "holds c u s \<or> u \<le> now s + E - T"
      using cinv [of c] by (simp_all add: p client_inv_def)
    have "row s' = r" "now s' = now s" using s' by (auto split: sum.splits)
    then have row: "row s' = (if ck_poisoned ck then row s else fst (ddbWrite f (ownedBy c) (\<lambda>_. Some (persistRecord (clockOf env s c) ck)) (row s)))"
      using ck_Persist_row [of f "clockOf env s c" ck "row s"] w own(1) by simp
    have others: "others_ok T E c s s'"
      using row \<open>now s' = now s\<close> by (cases "ck_poisoned ck") (auto intro: same_row_ok owned_write_ok)
    have keep: "holds c u s'" if "holds c u s"
      using that row own(1,2)
      by (auto simp: holds_def ddbWrite_def ownedBy_def persistRecord_def split: fault.splits if_splits)
    show ?thesis
    proof (rule lease_inv_step [OF inv others])
      show "client_inv env T E s' c (pc s' c)"
        using s' p own keep w ck_Persist_success [of f "clockOf env s c" ck "row s" r]
        by (auto simp: client_inv_def holds_def persistRecord_def clockOf_def setPc_def split: sum.splits)
    qed (use s' in \<open>auto split: sum.splits\<close>)
  next
    case (ARelease c f)
    with step obtain ck u where p: "pc s c = Owns ck u" by (auto split: cstate.splits)
    then have s': "s' = setPc c Idle (s\<lparr>row := fst (ck_Release f (clockOf env s c) ck (row s))\<rparr>)" using step ARelease by simp
    have "owningClientId ck = c" using cinv [of c] by (simp add: p client_inv_def)
    then have "others_ok T E c s s'"
      using s' ck_Release_row [of f "clockOf env s c" ck "row s"]
      by (cases "ck_poisoned ck") (auto intro: same_row_ok owned_write_ok)
    then show ?thesis by (rule lease_inv_step [OF inv]) (simp_all add: s' setPc_def client_inv_def)
  qed
qed

lemma lrun_inv:
  "lease_ok env T E \<Longrightarrow> lrun env as s = Some s' \<Longrightarrow> lease_inv env T E s \<Longrightarrow> lease_inv env T E s'"
  by (induction as arbitrary: s) (auto split: option.splits intro: lstep_inv)

lemma initial_inv: "lease_inv env T E (initial r t)"
  by (simp add: lease_inv_def initial_def client_inv_def)

section \<open>Properties\<close>

text \<open>
  C20. A shard has one consumer at a time. In every state any interleaving of any number of clients can
  reach, with requests that fail before or after taking effect, a client whose last successful
  write is younger than the checkpoint timeout (less the clock difference) is the recorded owner,
  its next write succeeds, and no other client has such a checkpoint.
\<close>

theorem lease_exclusive:
  assumes "lease_ok env T E" and "lrun env as (initial r t) = Some s"
    and "pc s c = Owns ck u" and "now s + E < u + T"
  shows "holds c u s \<and>
    (\<forall>d ck' u'. d \<noteq> c \<and> pc s d = Owns ck' u' \<longrightarrow> \<not> now s + E < u' + T) \<and>
    (\<not> ck_poisoned ck \<longrightarrow> (\<exists>b. ck_Persist Fine (clockOf env s c) ck (row s) =
       (Some (persistRecord (clockOf env s c) ck), Inr b)))"
proof -
  have inv: "lease_inv env T E s" by (rule lrun_inv [OF assms(1,2) initial_inv])
  have cinv: "client_inv env T E s d (pc s d)" for d using inv by (simp add: lease_inv_def)
  have c: "holds c u s" "owningClientId ck = c" using cinv [of c] assms(3,4) by (auto simp: client_inv_def)
  have "\<not> now s + E < u' + T" if "d \<noteq> c" "pc s d = Owns ck' u'" for d ck' u'
  proof
    assume "now s + E < u' + T"
    then have "holds d u' s" using cinv [of d] that(2) by (auto simp: client_inv_def)
    with c(1) that(1) show False by (auto simp: holds_def)
  qed
  moreover have "\<exists>b. ck_Persist Fine (clockOf env s c) ck (row s) = (Some (persistRecord (clockOf env s c) ck), Inr b)"
    if "\<not> ck_poisoned ck"
    using that c by (auto simp: ck_Persist_def TryLock_def ddbWrite_def ownedBy_def holds_def Let_def)
  ultimately show ?thesis using c(1) by blast
qed

definition demo_lease :: leaseEnv where
  "demo_lease = \<lparr>repoOf = (\<lambda>c. \<lparr>mr_namespace = ''ns'', mr_stream = ''s'', clientId = c, clientTimeout = 60, checkpointTimeout = 60,
     finishedMap = []\<rparr>), skew = (\<lambda>_. 0)\<rparr>"

theorem lease_exclusive_witness:
  "\<exists>s. lrun demo_lease [AStart ''a'', ARead ''a'' Fine, AStart ''b'', ARead ''b'' Fine, AWrite ''b'' Fine, AKeep ''b'',
      AWrite ''a'' Fine, ATick 20] (initial None 1000) = Some s \<and> holds ''b'' 1000 s"
proof -
  let ?as = "[AStart ''a'', ARead ''a'' Fine, AStart ''b'', ARead ''b'' Fine, AWrite ''b'' Fine, AKeep ''b'',
      AWrite ''a'' Fine, ATick 20]"
  have ok: "lease_ok demo_lease 60 0" by (simp add: lease_ok_def demo_lease_def)
  have "case lrun demo_lease ?as (initial None 1000) of None \<Rightarrow> False
      | Some s \<Rightarrow> now s = 1020 \<and> (case pc s ''b'' of Owns ck u \<Rightarrow> u = 1000 | _ \<Rightarrow> False)"
    by code_simp
  then obtain s ck where s: "lrun demo_lease ?as (initial None 1000) = Some s" "now s = 1020" "pc s ''b'' = Owns ck 1000"
    by (auto split: option.splits cstate.splits)
  with lease_exclusive [OF ok s(1,3)] show ?thesis by simp
qed

text \<open>
  What \<open>AcquireShard\<close> does when no other client interferes and no request fails: an unknown shard
  is taken from its start, a shard another client still works on is left alone, a finished one
  is reported, and an abandoned one is taken over at the position it was left at.
\<close>

theorem AcquireShard_outcome:
  assumes "checkpointTimeout m > 0"
  shows "(\<exists>r ck. AcquireShard Fine Fine f None m t None = (Some r, Inr (Some ck)) \<and> OwningClientId r = Some (clientId m) \<and>
      owningClientId ck = clientId m \<and> sequenceNumber ck = '''') \<and>
    (if OwningClientId r \<noteq> None \<and> UpdatedAt r > t - checkpointTimeout m
     then AcquireShard Fine Fine f None m t (Some r) = (Some r, Inr None)
     else if cr_FinishedAt r \<noteq> None
     then AcquireShard Fine Fine f None m t (Some r) = (Some r, Inl ErrShardAlreadyFinished)
     else \<exists>r' ck. AcquireShard Fine Fine f None m t (Some r) = (Some r', Inr (Some ck)) \<and> OwningClientId r' = Some (clientId m) \<and>
        owningClientId ck = clientId m \<and> sequenceNumber ck = cr_SequenceNumber r \<and> shardIterator ck = LastShardIterator r \<and>
        \<not> ck_poisoned ck)"
  using assms
  by (auto simp: AcquireShard_def Let_def acquireRead_def ddbRead_def handleExistingRecord_def timedOutBefore_def
      acquireWrite_def ddbWrite_def acquirable_def newCheckpoint_def)

theorem AcquireShard_outcome_witness:
  "AcquireShard Fine Fine Fine None (repoOf demo_lease ''a'') 100
     (Some \<lparr>UpdatedAt = 90, Ttl = 0, OwningClientId = Some ''b'', cr_SequenceNumber = ''5'', LastShardIterator = '''', cr_FinishedAt = None\<rparr>) =
   (Some \<lparr>UpdatedAt = 90, Ttl = 0, OwningClientId = Some ''b'', cr_SequenceNumber = ''5'', LastShardIterator = '''', cr_FinishedAt = None\<rparr>,
    Inr None)"
proof -
  have "checkpointTimeout (repoOf demo_lease ''a'') > 0" by (simp add: demo_lease_def)
  from AcquireShard_outcome [OF this, of Fine 100 "\<lparr>UpdatedAt = 90, Ttl = 0, OwningClientId = Some ''b'', cr_SequenceNumber = ''5'',
      LastShardIterator = '''', cr_FinishedAt = None\<rparr>"]
  show ?thesis by (simp add: demo_lease_def)
qed

definition rewind_row :: CheckpointRecord where
  "rewind_row = \<lparr>UpdatedAt = 0, Ttl = 0, OwningClientId = None, cr_SequenceNumber = ''5'', LastShardIterator = '''', cr_FinishedAt = None\<rparr>"

text \<open>
  Handing a shard over keeps the position: when a client persists and releases its checkpoint and
  the shard is not finished, the next client that acquires it continues after the same sequence
  number.
\<close>

theorem handover_keeps_position:
  assumes "ownedBy (owningClientId ck) rw" and "\<not> ck_poisoned ck" and "finishedAt ck = None"
  shows "case ck_Persist Fine t ck rw of (row1, persisted) \<Rightarrow>
      case ck_Release Fine t' ck row1 of (row2, ck', err) \<Rightarrow>
        persisted = Inr False \<and> err = None \<and> ck_poisoned ck' \<and>
        (\<exists>row3 ckd. AcquireShard Fine Fine f None d t'' row2 = (Some row3, Inr (Some ckd)) \<and>
           sequenceNumber ckd = sequenceNumber ck \<and> shardIterator ckd = shardIterator ck \<and>
           OwningClientId row3 = Some (clientId d))"
  using assms
  by (auto simp: ck_Persist_def TryLock_def ddbWrite_def Let_def ck_Release_def ownedBy_def persistRecord_def PoisonIf_def
      releaseRecord_def AcquireShard_def acquireRead_def ddbRead_def handleExistingRecord_def acquireWrite_def acquirable_def
      newCheckpoint_def)

theorem handover_keeps_position_witness:
  "let ck = \<lparr>ck_poisoned = False, owningClientId = ''a'', sequenceNumber = ''7'', shardIterator = ''it'', finalSequenceNumber = '''', finishedAt = None\<rparr>;
       (row1, _) = ck_Persist Fine 10 ck (Some (rewind_row\<lparr>OwningClientId := Some ''a''\<rparr>));
       (row2, _, _) = ck_Release Fine 11 ck row1
   in \<exists>row3 ckd. AcquireShard Fine Fine Fine None (repoOf demo_lease ''b'') 12 row2 = (Some row3, Inr (Some ckd)) \<and>
     sequenceNumber ckd = ''7''"
proof -
  let ?ck = "\<lparr>ck_poisoned = False, owningClientId = ''a'', sequenceNumber = ''7'', shardIterator = ''it'', finalSequenceNumber = '''', finishedAt = None\<rparr>"
  have "ownedBy (owningClientId ?ck) (Some (rewind_row\<lparr>OwningClientId := Some ''a''\<rparr>))" "\<not> ck_poisoned ?ck" "finishedAt ?ck = None"
    by (simp_all add: ownedBy_def)
  from handover_keeps_position [OF this, where t = 10 and t' = 11 and f = Fine and d = "repoOf demo_lease ''b''" and t'' = 12]
  show ?thesis unfolding Let_def case_prod_beta by auto
qed

text \<open>
  A slow client can undo the progress of another one. Between its read and its conditional write
  another client may acquire, finish and release the shard; the condition only asks that nobody
  owns it, so the write puts the old sequence number back and removes the finish time.
\<close>

theorem stale_acquire_rewinds:
  "\<exists>s s'. lrun demo_lease [AStart ''a'', ARead ''a'' Fine, AStart ''b'', ARead ''b'' Fine, AWrite ''b'' Fine, AKeep ''b'',
        AAdvance ''b'' ''9'' '''', ADone ''b'' ''9'', APersist ''b'' Fine, ARelease ''b'' Fine] (initial (Some rewind_row) 1000) = Some s \<and>
     lstep demo_lease (AWrite ''a'' Fine) s = Some s' \<and>
     map_option cr_SequenceNumber (row s) = Some ''9'' \<and> map_option cr_FinishedAt (row s) = Some (Some 1000) \<and>
     map_option cr_SequenceNumber (row s') = Some ''5'' \<and> map_option cr_FinishedAt (row s') = Some None"
proof -
  let ?as = "[AStart ''a'', ARead ''a'' Fine, AStart ''b'', ARead ''b'' Fine, AWrite ''b'' Fine, AKeep ''b'',
        AAdvance ''b'' ''9'' '''', ADone ''b'' ''9'', APersist ''b'' Fine, ARelease ''b'' Fine]"
  have "case lrun demo_lease ?as (initial (Some rewind_row) 1000) of None \<Rightarrow> False
      | Some s \<Rightarrow> (case lstep demo_lease (AWrite ''a'' Fine) s of None \<Rightarrow> False
        | Some s' \<Rightarrow> map_option cr_SequenceNumber (row s) = Some ''9'' \<and> map_option cr_FinishedAt (row s) = Some (Some 1000) \<and>
            map_option cr_SequenceNumber (row s') = Some ''5'' \<and> map_option cr_FinishedAt (row s') = Some None)"
    by code_simp
  then show ?thesis by (auto split: option.splits)
qed

end
