(* ===== verification/Kinsumer.thy ===== *)
theory Kinsumer
  imports KinesisMeta KernelBuild
begin

text \<open>
  Which shards a client consumes (\<open>kinsumer.go\<close>, \<open>errors.go\<close> of \<open>pkg/cloud/aws/kinesis\<close>): listing the
  shards of the stream, leaving out the finished ones and those whose parent is not finished, and
  dividing the rest among the registered clients. The Kinesis client is a parameter: \<open>ListShards\<close> maps
  the token of the next page to a page. The goroutines that are started are not modelled, only
  for which shards; \<open>None\<close> is a loop that does not end.
\<close>

section \<open>Errors\<close>

definition NewStreamBusyError :: "string \<Rightarrow> goerr" where
  "NewStreamBusyError stream = Sentinel (''kinesis.StreamBusyError:'' @ stream) (''Stream is busy: '' @ stream)"

definition NewNoSuchStreamError :: "string \<Rightarrow> goerr" where
  "NewNoSuchStreamError stream = Sentinel (''kinesis.NoSuchStreamError:'' @ stream) (''No such stream: '' @ stream)"

section \<open>Listing the shards\<close>

record shardInfo =
  finished :: bool
  parent :: string

record shard =
  sh_ShardId :: "string option"
  sh_ParentShardId :: "string option"
  sh_AdjacentParentShardId :: "string option"

record shardPage =
  Shards :: "shard list"
  NextToken :: "string option"

record kinsumer =
  fullStreamName :: string
  KeepShardOrder :: bool
  ListShards :: "string option \<Rightarrow> goerr + shardPage"
  rows :: "string \<Rightarrow> CheckpointRecord option"
  rowFaults :: "string \<Rightarrow> fault"

definition EmptyIfNil :: "string option \<Rightarrow> string" where
  "EmptyIfNil s = (case s of None \<Rightarrow> '''' | Some v \<Rightarrow> v)"

definition shardWanted :: "bool \<Rightarrow> (string, shardInfo) gomap \<Rightarrow> shardInfo \<Rightarrow> bool" where
  "shardWanted keepOrder shardMap info =
     (if finished info then False
      else let p = (if gm_has shardMap (parent info) then parent info else '''') in
        p = '''' \<or> (case gm_get shardMap p of Some i \<Rightarrow> finished i | None \<Rightarrow> False) \<or> \<not> keepOrder)"

definition getSortedShardIds :: "bool \<Rightarrow> (string, shardInfo) gomap \<Rightarrow> string list" where
  "getSortedShardIds keepOrder shardMap =
     sort (map fst (filter (\<lambda>(shardId, info). shardWanted keepOrder shardMap info) shardMap))"

fun addShards ::
  "kinsumer \<Rightarrow> shard list \<Rightarrow> metadataRepository \<Rightarrow> (string, shardInfo) gomap \<Rightarrow>
     metadataRepository \<times> (goerr + (string, shardInfo) gomap)" where
  "addShards k [] m shardMap = (m, Inr shardMap)"
| "addShards k (s # ss) m shardMap =
     (let shardId = EmptyIfNil (sh_ShardId s) in
      case IsShardFinished (rowFaults k shardId) (rows k shardId) shardId m of
        (m', Inl err) \<Rightarrow> (m', Inl (errorf_w ''could not check if shard is already finished: '' err ''''))
      | (m', Inr fin) \<Rightarrow>
          addShards k ss m' (gm_set shardMap shardId \<lparr>finished = fin, parent = EmptyIfNil (sh_ParentShardId s)\<rparr>))"

definition listError :: "kinsumer \<Rightarrow> goerr \<Rightarrow> goerr" where
  "listError k err =
     (if as_typed ''types.ResourceInUseException'' err \<noteq> None then NewStreamBusyError (fullStreamName k)
      else if as_typed ''types.ResourceNotFoundException'' err \<noteq> None then NewNoSuchStreamError (fullStreamName k)
      else errorf_w ''failed to list shards of stream: '' err '''')"

partial_function (option) listLoop ::
  "kinsumer \<Rightarrow> string option \<Rightarrow> metadataRepository \<Rightarrow> (string, shardInfo) gomap \<Rightarrow>
     (metadataRepository \<times> (goerr + (string, shardInfo) gomap)) option" where
  "listLoop k nextToken m shardMap =
     (case ListShards k nextToken of
        Inl err \<Rightarrow> Some (m, Inl (listError k err))
      | Inr res \<Rightarrow>
          (case addShards k (Shards res) m shardMap of
             (m', Inl err) \<Rightarrow> Some (m', Inl err)
           | (m', Inr shardMap') \<Rightarrow>
               if NextToken res = None then Some (m', Inr shardMap')
               else listLoop k (NextToken res) m' shardMap'))"

definition listShardIds :: "kinsumer \<Rightarrow> metadataRepository \<Rightarrow> (metadataRepository \<times> (goerr + string list)) option" where
  "listShardIds k m =
     map_option (\<lambda>(m', r). (m', map_sum id (getSortedShardIds (KeepShardOrder k)) r)) (listLoop k None m [])"

section \<open>The runtime context\<close>

record runtimeContext =
  clientIndex :: nat
  totalClients :: nat
  shardIds :: "string list"

definition refreshShards ::
  "fault \<Rightarrow> fault \<Rightarrow> int \<Rightarrow> kinsumer \<Rightarrow> metadataRepository \<Rightarrow> clientTable \<Rightarrow> runtimeContext \<Rightarrow>
     (metadataRepository \<times> clientTable \<times> runtimeContext \<times> (goerr + bool)) option" where
  "refreshShards f1 f2 now k m clients rc =
     (case RegisterClient f1 f2 now m clients of
        (clients, Inl err) \<Rightarrow> Some (m, clients, rc, Inl (errorf_w ''failed to register as client: '' err ''''))
      | (clients, Inr (index, cnt)) \<Rightarrow>
          (case listShardIds k m of
             None \<Rightarrow> None
           | Some (m, Inl err) \<Rightarrow> Some (m, clients, rc, Inl (errorf_w ''failed to load shards from kinesis: '' err ''''))
           | Some (m, Inr ids) \<Rightarrow>
               (let changed = (cnt \<noteq> totalClients rc \<or> index \<noteq> clientIndex rc \<or> ids \<noteq> shardIds rc)
                in Some (m, clients,
                     \<lparr>clientIndex = index, totalClients = cnt, shardIds = (if changed then ids else shardIds rc)\<rparr>, Inr changed))))"

text \<open>The shards for which \<open>startConsumers\<close> starts a reader.\<close>

partial_function (option) assignLoop :: "nat \<Rightarrow> nat \<Rightarrow> string list \<Rightarrow> string list option" where
  "assignLoop i cnt ids =
     (if i < length ids
      then Option.bind (assignLoop (i + cnt) cnt ids) (\<lambda>rest. Some (ids ! i # rest))
      else Some [])"

definition startConsumers :: "runtimeContext \<Rightarrow> string list option" where
  "startConsumers rc = assignLoop (clientIndex rc) (totalClients rc) (shardIds rc)"

section \<open>Running\<close>

text \<open>
  The loop of \<open>Run\<close>: an event is a tick of the discovery ticker, with what the requests of that
  round meet, or the failure of a shard reader, which ends the coffin. The end of the list is the
  cancellation of the context. \<open>started\<close> collects the shards of every round of consumers; a new
  round starts when the old one has ended.
\<close>

datatype kinEvent = KTick fault fault int kinsumer | KConsumerFailed goerr

fun kinLoop ::
  "RequestCanceledCheck list \<Rightarrow> kinEvent list \<Rightarrow> metadataRepository \<Rightarrow> clientTable \<Rightarrow> runtimeContext \<Rightarrow>
     string list list \<Rightarrow> (clientTable \<times> runtimeContext \<times> string list list \<times> error) option" where
  "kinLoop checks [] m clients rc started = Some (clients, rc, started, None)"
| "kinLoop checks (KConsumerFailed err # evs) m clients rc started =
     Some (clients, rc, started, Some (errorf_w ''failed to consume from shard: '' err ''''))"
| "kinLoop checks (KTick f1 f2 now k # evs) m clients rc started =
     (case refreshShards f1 f2 now k m clients rc of
        None \<Rightarrow> None
      | Some (m, clients, rc, Inl err) \<Rightarrow>
          Some (clients, rc, started, if IsRequestCanceled checks (Some err) then None
            else Some (errorf_w ''failed to refresh shards: '' err ''''))
      | Some (m, clients, rc, Inr False) \<Rightarrow> kinLoop checks evs m clients rc started
      | Some (m, clients, rc, Inr True) \<Rightarrow>
          (case startConsumers rc of
             None \<Rightarrow> None
           | Some ids \<Rightarrow> kinLoop checks evs m clients rc (started @ [ids])))"

definition noContext :: runtimeContext where
  "noContext = \<lparr>clientIndex = 0, totalClients = 0, shardIds = []\<rparr>"

definition kinBody ::
  "RequestCanceledCheck list \<Rightarrow> fault \<Rightarrow> fault \<Rightarrow> int \<Rightarrow> kinsumer \<Rightarrow> kinEvent list \<Rightarrow> metadataRepository \<Rightarrow> clientTable \<Rightarrow>
     (clientTable \<times> runtimeContext \<times> string list list \<times> error) option" where
  "kinBody checks f1 f2 now k evs m clients =
     (case refreshShards f1 f2 now k m clients noContext of
        None \<Rightarrow> None
      | Some (m, clients, rc, Inl err) \<Rightarrow>
          Some (clients, rc, [], if IsRequestCanceled checks (Some err) then None
            else Some (errorf_w ''failed to load first list of shard ids and register as client: '' err ''''))
      | Some (m, clients, rc, Inr changed) \<Rightarrow>
          (case startConsumers rc of
             None \<Rightarrow> None
           | Some ids \<Rightarrow> kinLoop checks evs m clients rc [ids]))"

definition kinsumer_Run ::
  "(goerr list \<Rightarrow> string) \<Rightarrow> RequestCanceledCheck list \<Rightarrow> fault \<Rightarrow> fault \<Rightarrow> int \<Rightarrow> kinsumer \<Rightarrow> kinEvent list \<Rightarrow> fault \<Rightarrow>
     metadataRepository \<Rightarrow> clientTable \<Rightarrow> (clientTable \<times> runtimeContext \<times> string list list \<times> error) option" where
  "kinsumer_Run multiText checks f1 f2 now k evs f3 m clients =
     map_option (\<lambda>(clients, rc, started, finalErr).
         case DeregisterClient f3 m clients of
           (clients, None) \<Rightarrow> (clients, rc, started, finalErr)
         | (clients, Some err) \<Rightarrow>
             (clients, rc, started,
              multierror_Append multiText finalErr (errorf_w ''failed to deregister client: '' err '''')))
       (kinBody checks f1 f2 now k evs m clients)"

text \<open>
  \<open>Stop\<close> and \<open>setStop\<close> may come in either order; the stop function, here a number, is called when the
  second component names it.
\<close>

record stopState =
  stopFn :: "nat option"
  stopped :: bool

definition kin_Stop :: "stopState \<Rightarrow> stopState \<times> nat option" where
  "kin_Stop s = (s\<lparr>stopFn := None, stopped := True\<rparr>, stopFn s)"

definition kin_setStop :: "nat \<Rightarrow> stopState \<Rightarrow> stopState \<times> nat option" where
  "kin_setStop f s = (if stopped s then (s, Some f) else (s\<lparr>stopFn := Some f\<rparr>, None))"

section \<open>The division of the shards\<close>

lemma assignLoop_total:
  assumes "cnt > 0"
  shows "assignLoop i cnt ids = Some (map ((!) ids) (filter (\<lambda>j. i \<le> j \<and> (j - i) mod cnt = 0) [0..<length ids]))"
proof (induction "length ids - i" arbitrary: i rule: less_induct)
  case less
  let ?F = "\<lambda>i. filter (\<lambda>j. i \<le> j \<and> (j - i) mod cnt = 0) [0..<length ids]"
  show ?case
  proof (cases "i < length ids")
    case False
    then have "?F i = []" by (auto simp: filter_empty_conv)
    with False show ?thesis by (simp add: assignLoop.simps)
  next
    case True
    then have "assignLoop (i + cnt) cnt ids = Some (map ((!) ids) (?F (i + cnt)))"
      using assms by (intro less) simp
    moreover have "?F i = i # ?F (i + cnt)"
    proof -
      have up: "[0..<length ids] = [0..<i] @ i # [Suc i..<length ids]"
      proof -
        have "[0..<length ids] = [0..<i] @ [i..<length ids]"
          using upt_add_eq_append [of 0 i "length ids - i"] True by simp
        then show ?thesis using True by (simp add: upt_conv_Cons)
      qed
      have low: "filter (\<lambda>j. i \<le> j \<and> (j - i) mod cnt = 0) [0..<i] = []" by (auto simp: filter_empty_conv)
      have low': "filter (\<lambda>j. i + cnt \<le> j \<and> (j - (i + cnt)) mod cnt = 0) [0..<i] = []" by (auto simp: filter_empty_conv)
      have iff: "(i \<le> j \<and> (j - i) mod cnt = 0) \<longleftrightarrow> (i + cnt \<le> j \<and> (j - (i + cnt)) mod cnt = 0)" if "i < j" for j
      proof (cases "i + cnt \<le> j")
        case True
        then obtain d where "j = i + cnt + d" by (metis le_iff_add)
        then show ?thesis by simp
      next
        case False
        then have "0 < j - i" "j - i < cnt" using that by auto
        then show ?thesis using False by simp
      qed
      have "filter (\<lambda>j. i \<le> j \<and> (j - i) mod cnt = 0) [Suc i..<length ids] =
          filter (\<lambda>j. i + cnt \<le> j \<and> (j - (i + cnt)) mod cnt = 0) [Suc i..<length ids]"
        by (rule filter_cong) (use iff in auto)
      then show ?thesis unfolding up using low low' assms by simp
    qed
    ultimately show ?thesis using True by (subst assignLoop.simps) simp
  qed
qed

lemma assigned_iff:
  assumes "cnt > 0" and "i < cnt"
  shows "\<exists>xs. assignLoop i cnt ids = Some xs \<and> (\<forall>s. s \<in> set xs \<longleftrightarrow> (\<exists>j < length ids. ids ! j = s \<and> j mod cnt = i))"
proof -
  have "(i \<le> j \<and> (j - i) mod cnt = 0) \<longleftrightarrow> j mod cnt = i" for j
  proof
    assume a: "i \<le> j \<and> (j - i) mod cnt = 0"
    then obtain q where "j - i = cnt * q" by auto
    with a have "j = i + cnt * q" by simp
    with assms(2) show "j mod cnt = i" by simp
  next
    assume "j mod cnt = i"
    moreover have "j = cnt * (j div cnt) + j mod cnt" by simp
    ultimately have "j - i = cnt * (j div cnt)" "i \<le> j" by (simp, metis mod_less_eq_dividend)
    then show "i \<le> j \<and> (j - i) mod cnt = 0" by simp
  qed
  then show ?thesis using assignLoop_total [OF assms(1), of i ids] by auto
qed

section \<open>Which shards are listed\<close>

lemma shardWanted_iff:
  "shardWanted keepOrder m info \<longleftrightarrow>
     \<not> finished info \<and> (keepOrder \<longrightarrow> parent info = '''' \<or> (\<forall>p. gm_get m (parent info) = Some p \<longrightarrow> finished p))"
  by (cases "gm_get m (parent info)") (auto simp: shardWanted_def Let_def)

lemma shardWanted_perm: "mset m' = mset m \<Longrightarrow> gm_wf m \<Longrightarrow> shardWanted keepOrder m' = shardWanted keepOrder m"
  by (rule ext) (metis gm_get_perm shardWanted_iff)

text \<open>
  The list of shards to consume holds exactly the shards that are not finished and, when the
  order of shards is kept, whose parent is unknown or finished; it is sorted without duplicates and
  does not depend on the order in which the map is iterated.
\<close>

theorem getSortedShardIds_correct:
  assumes "gm_wf m"
  shows "sorted (getSortedShardIds keepOrder m) \<and> distinct (getSortedShardIds keepOrder m) \<and>
    (\<forall>s. s \<in> set (getSortedShardIds keepOrder m) \<longleftrightarrow>
       (\<exists>info. gm_get m s = Some info \<and> \<not> finished info \<and>
          (keepOrder \<longrightarrow> parent info = '''' \<or> (\<forall>p. gm_get m (parent info) = Some p \<longrightarrow> finished p)))) \<and>
    (\<forall>m'. mset m' = mset m \<longrightarrow> getSortedShardIds keepOrder m' = getSortedShardIds keepOrder m)"
proof (intro conjI allI impI)
  show "sorted (getSortedShardIds keepOrder m)" by (simp add: getSortedShardIds_def)
  show "distinct (getSortedShardIds keepOrder m)"
    using assms by (simp add: getSortedShardIds_def gm_wf_def distinct_map_filter)
  fix s
  have "s \<in> set (getSortedShardIds keepOrder m) \<longleftrightarrow> (\<exists>info. gm_get m s = Some info \<and> shardWanted keepOrder m info)"
    using gm_get_in_set [OF assms] by (force simp: getSortedShardIds_def)
  then show "s \<in> set (getSortedShardIds keepOrder m) \<longleftrightarrow>
      (\<exists>info. gm_get m s = Some info \<and> \<not> finished info \<and>
         (keepOrder \<longrightarrow> parent info = '''' \<or> (\<forall>p. gm_get m (parent info) = Some p \<longrightarrow> finished p)))"
    by (simp only: shardWanted_iff)
next
  fix m' assume p: "mset m' = mset m"
  then have "mset (map fst (filter (\<lambda>(s, i). shardWanted keepOrder m i) m')) =
      mset (map fst (filter (\<lambda>(s, i). shardWanted keepOrder m i) m))"
    by (simp add: mset_filter)
  then show "getSortedShardIds keepOrder m' = getSortedShardIds keepOrder m"
    unfolding getSortedShardIds_def shardWanted_perm [OF p assms]
    by (intro properties_for_sort) (simp_all add: sorted_sort)
qed

theorem getSortedShardIds_correct_witness:
  "''c'' \<in> set (getSortedShardIds True [(''c'', \<lparr>finished = False, parent = ''p''\<rparr>), (''p'', \<lparr>finished = True, parent = ''''\<rparr>)])"
proof -
  let ?m = "[(''c'', \<lparr>finished = False, parent = ''p''\<rparr>), (''p'', \<lparr>finished = True, parent = ''''\<rparr>)]"
  have "gm_wf ?m" by simp
  from getSortedShardIds_correct [OF this, of True]
  have "''c'' \<in> set (getSortedShardIds True ?m) \<longleftrightarrow>
      (\<exists>info. gm_get ?m ''c'' = Some info \<and> \<not> finished info \<and>
         (True \<longrightarrow> parent info = '''' \<or> (\<forall>p. gm_get ?m (parent info) = Some p \<longrightarrow> finished p)))"
    by (elim conjE) (erule spec)
  then show ?thesis by simp
qed

text \<open>
  A shard that merged two others names the second one as its adjacent parent, which the listing does
  not look at: the merged shard is listed while that parent still has records.
\<close>

lemma merged_shard_listed_early:
  fixes m :: metadataRepository
  assumes "finishedMap m = []"
  shows "\<exists>k. KeepShardOrder k \<and>
    ListShards k None = Inr \<lparr>Shards =
      [\<lparr>sh_ShardId = Some ''b'', sh_ParentShardId = None, sh_AdjacentParentShardId = None\<rparr>,
       \<lparr>sh_ShardId = Some ''c'', sh_ParentShardId = Some ''a'', sh_AdjacentParentShardId = Some ''b''\<rparr>], NextToken = None\<rparr> \<and>
    (\<forall>s. rows k s = None \<and> rowFaults k s = Fine) \<and>
    (\<exists>m'. listShardIds k m = Some (m', Inr [''b'', ''c'']))"
  by (rule exI [of _ "\<lparr>fullStreamName = '''', KeepShardOrder = True, ListShards = (\<lambda>_. Inr \<lparr>Shards =
      [\<lparr>sh_ShardId = Some ''b'', sh_ParentShardId = None, sh_AdjacentParentShardId = None\<rparr>,
       \<lparr>sh_ShardId = Some ''c'', sh_ParentShardId = Some ''a'', sh_AdjacentParentShardId = Some ''b''\<rparr>], NextToken = None\<rparr>),
      rows = (\<lambda>_. None), rowFaults = (\<lambda>_. Fine)\<rparr>"])
    (simp add: listShardIds_def listLoop.simps IsShardFinished_def ddbRead_def assms EmptyIfNil_def Let_def
      getSortedShardIds_def shardWanted_def)

section \<open>Every shard has one reader\<close>

lemma clientIndexIn_nth:
  "clientIndexIn c i xs = Some j \<Longrightarrow> i \<le> j \<and> j < i + length xs \<and> xs ! (j - i) = c"
proof (induction xs arbitrary: i)
  case (Cons x xs)
  show ?case
  proof (cases "x = c")
    case False
    with Cons.prems have "clientIndexIn c (i + 1) xs = Some j" by simp
    from Cons.IH [OF this] have "i + 1 \<le> j" "j < i + 1 + length xs" "xs ! (j - (i + 1)) = c" by auto
    moreover from \<open>i + 1 \<le> j\<close> have "j - i = Suc (j - (i + 1))" by simp
    ultimately show ?thesis by simp
  qed (use Cons.prems in auto)
qed simp

lemma clientIndexIn_mem: "c \<in> set xs \<Longrightarrow> clientIndexIn c i xs \<noteq> None"
  by (induction xs arbitrary: i) auto

lemma RegisterClient_known:
  assumes "gm_has clients (clientId m)"
  shows "\<exists>i. snd (RegisterClient Fine Fine now m clients) = Inr (i, length clients) \<and> i < length clients \<and>
    sort (map fst clients) ! i = clientId m"
proof -
  have k: "map fst (gm_set clients (clientId m) r) = map fst clients" for r using assms by (rule gm_keys_set)
  have l: "length (gm_set clients (clientId m) r) = length clients" for r using k [of r] by (metis length_map)
  have "clientId m \<in> set (sort (map fst clients))" using assms by (metis gm_dom_conv list.set_map set_sort)
  from clientIndexIn_mem [OF this, of 0] obtain i where i: "clientIndexIn (clientId m) 0 (sort (map fst clients)) = Some i"
    by auto
  from clientIndexIn_nth [OF i] have "i < length clients \<and> sort (map fst clients) ! i = clientId m" by simp
  with i show ?thesis by (simp add: RegisterClient_def Let_def ddbRead_def k l)
qed

lemma nth_mod_unique:
  assumes "distinct xs" and "length xs = n" and "n > 0"
  shows "\<exists>!c. c \<in> set xs \<and> (\<exists>i < n. xs ! i = c \<and> (j::nat) mod n = i)"
  using assms by (intro ex1I [of _ "xs ! (j mod n)"]) auto

lemma reader_index:
  assumes "gm_wf clients" and "gm_has clients c" and "distinct ids" and "j < length ids"
  shows "(\<exists>i n xs. snd (RegisterClient Fine Fine now (m\<lparr>clientId := c\<rparr>) clients) = Inr (i, n) \<and>
       startConsumers \<lparr>clientIndex = i, totalClients = n, shardIds = ids\<rparr> = Some xs \<and> ids ! j \<in> set xs) \<longleftrightarrow>
      (\<exists>i < length clients. sort (map fst clients) ! i = c \<and> j mod length clients = i)"
    (is "?L \<longleftrightarrow> ?R")
proof -
  let ?S = "sort (map fst clients)" and ?n = "length clients"
  have d: "distinct ?S" using assms(1) by (simp add: gm_wf_def)
  from RegisterClient_known [of clients "m\<lparr>clientId := c\<rparr>" now] assms(2) obtain i where
    i: "snd (RegisterClient Fine Fine now (m\<lparr>clientId := c\<rparr>) clients) = Inr (i, ?n)" "i < ?n" "?S ! i = c" by auto
  then have n: "?n > 0" by linarith
  from assigned_iff [OF n i(2), of ids] obtain xs where
    xs: "assignLoop i ?n ids = Some xs" "\<forall>s. s \<in> set xs \<longleftrightarrow> (\<exists>j < length ids. ids ! j = s \<and> j mod ?n = i)" by blast
  have "ids ! j \<in> set xs \<longleftrightarrow> j mod ?n = i" using xs(2) assms(3,4) by (metis nth_eq_iff_index_eq)
  then have "?L \<longleftrightarrow> j mod ?n = i" using i(1) xs(1) by (simp add: startConsumers_def)
  moreover have "i' = i" if "i' < ?n" "?S ! i' = c" for i'
    using that i(2,3) d by (metis length_map length_sort nth_eq_iff_index_eq)
  then have "?R \<longleftrightarrow> j mod ?n = i" using i(2,3) by blast
  ultimately show ?thesis by simp
qed

text \<open>
  C23. When the registered clients see the same clients and the same shards, every shard is read
  by exactly one of them.
\<close>

theorem every_shard_has_one_reader:
  assumes "gm_wf clients" and "clients \<noteq> []" and "distinct ids" and "s \<in> set ids"
  shows "\<exists>!c. gm_has clients c \<and>
    (\<exists>i n xs. snd (RegisterClient Fine Fine now (m\<lparr>clientId := c\<rparr>) clients) = Inr (i, n) \<and>
       startConsumers \<lparr>clientIndex = i, totalClients = n, shardIds = ids\<rparr> = Some xs \<and> s \<in> set xs)"
    (is "\<exists>!c. gm_has clients c \<and> ?reads c")
proof -
  obtain j where j: "j < length ids" "s = ids ! j" using assms(4) by (metis in_set_conv_nth)
  let ?at = "\<lambda>c. \<exists>i < length clients. sort (map fst clients) ! i = c \<and> j mod length clients = i"
  have "\<exists>!c. c \<in> set (sort (map fst clients)) \<and> ?at c"
    using assms(1,2) by (intro nth_mod_unique) (auto simp: gm_wf_def)
  then have one: "\<exists>!c. gm_has clients c \<and> ?at c" by (simp only: gm_dom_conv set_sort list.set_map)
  have "?reads c \<longleftrightarrow> ?at c" if "gm_has clients c" for c
    unfolding j(2) using assms(1) that assms(3) j(1) by (rule reader_index)
  then have "(\<lambda>c. gm_has clients c \<and> ?reads c) = (\<lambda>c. gm_has clients c \<and> ?at c)" by (intro ext conj_cong refl)
  with one show ?thesis by (simp only:)
qed

theorem every_shard_has_one_reader_witness:
  "\<exists>!c. gm_has [(''a'', (0 :: int, 0 :: int)), (''b'', (0, 0))] c \<and>
    (\<exists>i n xs. snd (RegisterClient Fine Fine 7 (\<lparr>mr_namespace = '''', mr_stream = '''', clientId = '''', clientTimeout = 60,
         checkpointTimeout = 60, finishedMap = []\<rparr>\<lparr>clientId := c\<rparr>) [(''a'', (0, 0)), (''b'', (0, 0))]) = Inr (i, n) \<and>
       startConsumers \<lparr>clientIndex = i, totalClients = n, shardIds = [''s1'', ''s2'', ''s3'']\<rparr> = Some xs \<and> ''s2'' \<in> set xs)"
  by (rule every_shard_has_one_reader) simp_all

section \<open>The kinsumer as a whole\<close>

text \<open>The consumers that run are those of the client's share of the last listing.\<close>

definition share_started :: "runtimeContext \<Rightarrow> string list list \<Rightarrow> bool" where
  "share_started rc started \<longleftrightarrow> started \<noteq> [] \<and> startConsumers rc = Some (last started)"

lemma refreshShards_unchanged:
  "refreshShards f1 f2 now k m clients rc = Some (m', clients', rc', Inr False) \<Longrightarrow> rc' = rc"
  by (auto simp: refreshShards_def Let_def split: prod.splits sum.splits option.splits)

lemma refreshShards_error:
  "refreshShards f1 f2 now k m clients rc = Some (m', clients', rc', Inl err) \<Longrightarrow> rc' = rc"
  by (auto simp: refreshShards_def Let_def split: prod.splits sum.splits option.splits)

lemma RegisterClient_positive:
  assumes "RegisterClient f1 f2 now m clients = (clients', Inr (i, n))"
  shows "n > 0"
proof -
  have "clientIndexIn (clientId m) 0 listed = Some i \<Longrightarrow> n = length listed \<Longrightarrow> n > 0" for listed
    using clientIndexIn_nth [of "clientId m" 0 listed i] by auto
  then show ?thesis using assms
    by (auto simp: RegisterClient_def Let_def split: prod.splits sum.splits option.splits)
qed

lemma refreshShards_positive:
  "refreshShards f1 f2 now k m clients rc = Some (m', clients', rc', Inr b) \<Longrightarrow> totalClients rc' > 0"
  by (auto simp: refreshShards_def Let_def dest: RegisterClient_positive split: prod.splits sum.splits option.splits)

lemma startConsumers_defined: "totalClients rc > 0 \<Longrightarrow> startConsumers rc \<noteq> None"
  by (simp add: startConsumers_def assignLoop_total)

lemma kinLoop_share:
  "kinLoop checks evs m clients rc started = Some (clients', rc', started', err) \<Longrightarrow> share_started rc started \<Longrightarrow>
     share_started rc' started'"
proof (induction evs arbitrary: m clients rc started)
  case (Cons ev evs)
  show ?case
  proof (cases ev)
    case (KTick f1 f2 now k)
    obtain m1 c1 r1 res where r: "refreshShards f1 f2 now k m clients rc = Some (m1, c1, r1, res)"
      using Cons.prems(1) KTick by (cases "refreshShards f1 f2 now k m clients rc") auto
    show ?thesis
    proof (cases res)
      case (Inl e)
      with r have "r1 = rc" by (simp add: refreshShards_error)
      with r Inl Cons.prems KTick show ?thesis by auto
    next
      case (Inr ch)
      show ?thesis
      proof (cases ch)
        case False
        then have "r1 = rc" using r Inr by (simp add: refreshShards_unchanged)
        with Cons.IH [of m1 c1 rc started] False r Inr Cons.prems KTick show ?thesis by simp
      next
        case True
        then obtain ids where ids: "startConsumers r1 = Some ids"
          using r Inr Cons.prems(1) KTick by (cases "startConsumers r1") auto
        then have "share_started r1 (started @ [ids])" by (simp add: share_started_def)
        with Cons.IH [of m1 c1 r1 "started @ [ids]"] True r Inr ids Cons.prems(1) KTick show ?thesis by simp
      qed
    qed
  qed (use Cons.prems in auto)
qed auto

definition listings_end :: "kinEvent list \<Rightarrow> bool" where
  "listings_end evs \<longleftrightarrow> (\<forall>f1 f2 now k m. KTick f1 f2 now k \<in> set evs \<longrightarrow> listShardIds k m \<noteq> None)"

lemma refreshShards_returns: "listShardIds k m \<noteq> None \<Longrightarrow> refreshShards f1 f2 now k m clients rc \<noteq> None"
  by (auto simp: refreshShards_def Let_def split: prod.splits sum.splits option.splits)

lemma kinLoop_returns: "listings_end evs \<Longrightarrow> kinLoop checks evs m clients rc started \<noteq> None"
proof (induction evs arbitrary: m clients rc started)
  case (Cons ev evs)
  then have e: "listings_end evs" by (simp add: listings_end_def)
  show ?case
  proof (cases ev)
    case (KTick f1 f2 now k)
    with Cons.prems have "listShardIds k m \<noteq> None" by (auto simp: listings_end_def)
    from refreshShards_returns [OF this, of f1 f2 now clients rc] obtain m1 c1 r1 res where
      r: "refreshShards f1 f2 now k m clients rc = Some (m1, c1, r1, res)" by auto
    show ?thesis
    proof (cases res)
      case (Inr ch)
      with r obtain ids where "startConsumers r1 = Some ids" using refreshShards_positive startConsumers_defined by blast
      then show ?thesis using Cons.IH [OF e] r Inr KTick by (cases ch) auto
    qed (use r KTick in auto)
  qed auto
qed auto

text \<open>
  When every listing of the shards comes to an end, \<open>Run\<close> returns; the client is removed from the
  client table when that request goes through, and an error of that request is part of the result.
\<close>

theorem kinsumer_Run_deregisters:
  assumes "\<And>m. listShardIds k m \<noteq> None" and "listings_end evs"
  shows "\<exists>clients' rc started err. kinsumer_Run multiText checks f1 f2 now k evs f3 m clients = Some (clients', rc, started, err) \<and>
     (case f3 of Fine \<Rightarrow> \<not> gm_has clients' (clientId m) | _ \<Rightarrow> err \<noteq> None) \<and>
     (started \<noteq> [] \<longrightarrow> startConsumers rc = Some (last started))"
proof -
  obtain m1 c1 r1 res where r: "refreshShards f1 f2 now k m clients noContext = Some (m1, c1, r1, res)"
    using refreshShards_returns [OF assms(1) [of m]] by fastforce
  have "\<exists>c' rc started err. kinBody checks f1 f2 now k evs m clients = Some (c', rc, started, err) \<and>
      (started \<noteq> [] \<longrightarrow> share_started rc started)"
  proof (cases res)
    case (Inl e)
    then show ?thesis using r by (simp add: kinBody_def)
  next
    case (Inr ch)
    with r obtain ids where ids: "startConsumers r1 = Some ids" using refreshShards_positive startConsumers_defined by blast
    then have s: "share_started r1 [ids]" by (simp add: share_started_def)
    obtain c' rc started err where l: "kinLoop checks evs m1 c1 r1 [ids] = Some (c', rc, started, err)"
      using kinLoop_returns [OF assms(2), of checks m1 c1 r1 "[ids]"] by auto
    then show ?thesis using kinLoop_share [OF l s] r Inr ids by (simp add: kinBody_def)
  qed
  then obtain c' rc started err where b: "kinBody checks f1 f2 now k evs m clients = Some (c', rc, started, err)"
    "started \<noteq> [] \<longrightarrow> share_started rc started" by blast
  then show ?thesis
    by (cases f3) (simp_all add: kinsumer_Run_def DeregisterClient_def share_started_def multierror_Append_def Let_def)
qed

definition oneShard :: kinsumer where
  "oneShard = \<lparr>fullStreamName = ''s'', KeepShardOrder = True,
     ListShards = (\<lambda>_. Inr \<lparr>Shards = [\<lparr>sh_ShardId = Some ''b'', sh_ParentShardId = None, sh_AdjacentParentShardId = None\<rparr>],
       NextToken = None\<rparr>),
     rows = (\<lambda>_. None), rowFaults = (\<lambda>_. Fine)\<rparr>"

lemma oneShard_listed: "listShardIds oneShard m \<noteq> None"
  by (auto simp: oneShard_def listShardIds_def listLoop.simps IsShardFinished_def ddbRead_def EmptyIfNil_def Let_def)

theorem kinsumer_Run_deregisters_witness:
  "\<exists>clients' rc started err. kinsumer_Run (\<lambda>_. ''errors'') [] Fine Fine 5 oneShard [KTick Fine Fine 6 oneShard]
       (FailsBefore (Opaque ''x''))
       \<lparr>mr_namespace = '''', mr_stream = '''', clientId = ''c'', clientTimeout = 60, checkpointTimeout = 60, finishedMap = []\<rparr> []
     = Some (clients', rc, started, err) \<and> err \<noteq> None"
proof -
  have "listings_end [KTick Fine Fine 6 oneShard]" using oneShard_listed by (simp add: listings_end_def)
  from kinsumer_Run_deregisters [OF oneShard_listed this, of "\<lambda>_. ''errors''" "[]" Fine Fine 5 "FailsBefore (Opaque ''x'')"
      "\<lparr>mr_namespace = '''', mr_stream = '''', clientId = ''c'', clientTimeout = 60, checkpointTimeout = 60, finishedMap = []\<rparr>" "[]"]
  show ?thesis by (simp only: fault.case) blast
qed

text \<open>Whichever of \<open>setStop\<close> and \<open>Stop\<close> comes first, the stop function is called exactly once.\<close>

lemma stop_called_once:
  fixes s :: stopState
  assumes "s = \<lparr>stopFn = None, stopped = False\<rparr>"
  shows "snd (kin_setStop f s) = None" "snd (kin_Stop (fst (kin_setStop f s))) = Some f"
    "snd (kin_Stop (fst (kin_Stop (fst (kin_setStop f s))))) = None"
    "snd (kin_Stop s) = None" "snd (kin_setStop f (fst (kin_Stop s))) = Some f"
    "snd (kin_Stop (fst (kin_setStop f (fst (kin_Stop s))))) = None"
  using assms by (simp_all add: kin_setStop_def kin_Stop_def)

end
