(* ===== verification/ShardReader.thy ===== *)
theory ShardReader
  imports KinesisMeta KernelBuild
begin

text \<open>
  The reader of one shard (\<open>shard_reader.go\<close> of \<open>pkg/cloud/aws/kinesis\<close>): acquiring the shard,
  finding the position to start from, fetching batches, handing the records to the handler and
  moving the checkpoint.

  The goroutine that reads is a function over a state; what goes on beside it is the environment, a
  function of a counter that every look at the outside increments: whether the context is done,
  whether the persister has already replaced the checkpoint by the no-op one, whether it has already
  released the real one, and what the Kinesis client and the clock return. The calls the reader makes
  are collected in \<open>trace\<close>. Metrics and logs are left out, the health timer is not.
\<close>

section \<open>Records, client and environment\<close>

record krecord =
  kr_Data :: string
  kr_SequenceNumber :: "string option"
  kr_Arrival :: int

record getRecordsOutput =
  Records :: "krecord list"
  NextShardIterator :: "string option"
  MillisBehindLatest :: "int option"

datatype ShardIteratorType = TrimHorizon | Latest | AtTimestamp | AtSequenceNumber | AfterSequenceNumber

record iteratorInput =
  in_Type :: ShardIteratorType
  in_Timestamp :: "int option"
  in_StartingSequenceNumber :: "string option"

record readerSettings =
  ConsumeDelay :: int
  InitialType :: ShardIteratorType
  InitialTimestamp :: int
  MaxBatchSize :: int
  WaitTime :: int

record readerEnv =
  ctxDone :: "nat \<Rightarrow> bool"
  timerFirst :: "nat \<Rightarrow> bool"
  swapped :: "nat \<Rightarrow> bool"
  released :: "nat \<Rightarrow> bool"
  clockNow :: "nat \<Rightarrow> int"
  GetRecords :: "nat \<Rightarrow> string \<Rightarrow> int \<Rightarrow> goerr + getRecordsOutput"
  GetShardIterator :: "nat \<Rightarrow> iteratorInput \<Rightarrow> goerr + string option"

datatype readerEvent =
    EvHealthy
  | EvSleep int
  | EvHandle krecord
  | EvAdvance string string
  | EvDone string
  | EvReset int

record readerState =
  tick :: nat
  cell :: checkpoint
  trace :: "readerEvent list"

definition emit :: "readerEvent \<Rightarrow> readerState \<Rightarrow> readerState" where
  "emit ev s = s\<lparr>trace := trace s @ [ev]\<rparr>"

definition look :: "(nat \<Rightarrow> 'a) \<Rightarrow> readerState \<Rightarrow> readerState \<times> 'a" where
  "look f s = (s\<lparr>tick := tick s + 1\<rparr>, f (tick s))"

definition EmptyIfNone :: "string option \<Rightarrow> string" where
  "EmptyIfNone s = (case s of None \<Rightarrow> '''' | Some v \<Rightarrow> v)"

section \<open>The checkpoint of the reader\<close>

text \<open>\<open>None\<close> is the no-op checkpoint.\<close>

definition getCheckpoint :: "readerEnv \<Rightarrow> readerState \<Rightarrow> readerState \<times> checkpoint option" where
  "getCheckpoint e s = look (\<lambda>t. if swapped e t then None else Some (cell s)) s"

definition GetSequenceNumber :: "checkpoint option \<Rightarrow> string" where
  "GetSequenceNumber c = (case c of None \<Rightarrow> '''' | Some c \<Rightarrow> sequenceNumber c)"

definition GetShardIterator_of :: "checkpoint option \<Rightarrow> string" where
  "GetShardIterator_of c = (case c of None \<Rightarrow> '''' | Some c \<Rightarrow> shardIterator c)"

text \<open>The persister may release the checkpoint after the reader has loaded it.\<close>

definition lockState :: "readerEnv \<Rightarrow> checkpoint \<Rightarrow> readerState \<Rightarrow> readerState \<times> checkpoint" where
  "lockState e c s = look (\<lambda>t. c\<lparr>ck_poisoned := released e t\<rparr>) s"

definition advanceCheckpoint :: "readerEnv \<Rightarrow> string \<Rightarrow> string \<Rightarrow> readerState \<Rightarrow> readerState \<times> error" where
  "advanceCheckpoint e sn it s =
     (case getCheckpoint e s of
        (s, None) \<Rightarrow> (s, None)
      | (s, Some c) \<Rightarrow>
          (case lockState e c s of (s, c) \<Rightarrow>
             (case ck_Advance sn it c of
                (c, Some err) \<Rightarrow> (s, Some err)
              | (c, None) \<Rightarrow> (emit (EvAdvance sn it) (s\<lparr>cell := c\<rparr>), None))))"

definition doneCheckpoint :: "readerEnv \<Rightarrow> string \<Rightarrow> readerState \<Rightarrow> readerState \<times> error" where
  "doneCheckpoint e sn s =
     (case getCheckpoint e s of
        (s, None) \<Rightarrow> (s, None)
      | (s, Some c) \<Rightarrow>
          (case lockState e c s of (s, c) \<Rightarrow>
             (case look (clockNow e) s of (s, now) \<Rightarrow>
                (case ck_Done now sn c of
                   (c, Some err) \<Rightarrow> (s, Some err)
                 | (c, None) \<Rightarrow> (emit (EvDone sn) (s\<lparr>cell := c\<rparr>), None)))))"

section \<open>Where to start\<close>

definition getLastShardIterator :: "readerEnv \<Rightarrow> string \<Rightarrow> readerState \<Rightarrow> readerState \<times> (goerr + string option)" where
  "getLastShardIterator e lastShardIterator s =
     (if lastShardIterator = '''' then (s, Inr None)
      else case look (\<lambda>t. GetRecords e t lastShardIterator 1) s of
        (s, Inl err) \<Rightarrow>
          (s, if as_typed ''types.ExpiredIteratorException'' err \<noteq> None then Inr None
              else Inl (errorf_w ''failed to validate shard iterator: '' err ''''))
      | (s, Inr resp) \<Rightarrow>
          (s, if Records resp = [] then Inr (Some (EmptyIfNone (NextShardIterator resp)))
              else Inr (Some lastShardIterator)))"

definition getShardIterator ::
  "readerSettings \<Rightarrow> readerEnv \<Rightarrow> string \<Rightarrow> string \<Rightarrow> readerState \<Rightarrow> readerState \<times> (goerr + string)" where
  "getShardIterator st e sn lastShardIterator s =
     (case getLastShardIterator e lastShardIterator s of
        (s, Inl err) \<Rightarrow> (s, Inl err)
      | (s, Inr (Some iterator)) \<Rightarrow> (s, Inr iterator)
      | (s, Inr None) \<Rightarrow>
          (let iteratorType = (if sn = '''' then InitialType st else AfterSequenceNumber);
               input = \<lparr>in_Type = iteratorType,
                 in_Timestamp = (if iteratorType = AtTimestamp then Some (InitialTimestamp st) else None),
                 in_StartingSequenceNumber = (if iteratorType = AfterSequenceNumber then Some sn else None)\<rparr>
           in case look (\<lambda>t. GetShardIterator e t input) s of
                (s, Inl err) \<Rightarrow> (s, Inl (errorf_w ''failed to get shard iterator: '' err ''''))
              | (s, Inr it) \<Rightarrow> (s, Inr (EmptyIfNone it))))"

section \<open>Reading\<close>

definition delayConsume :: "readerSettings \<Rightarrow> readerEnv \<Rightarrow> krecord \<Rightarrow> readerState \<Rightarrow> readerState" where
  "delayConsume st e r s =
     (if ConsumeDelay st = 0 then s
      else case look (clockNow e) s of (s, now) \<Rightarrow>
        (let recordAge = now - kr_Arrival r in
         if recordAge \<ge> ConsumeDelay st then s
         else emit (EvSleep (ConsumeDelay st - recordAge)) (emit EvHealthy s)))"

text \<open>
  The handler decides on the records handed to it before. \<open>processLoop\<close> returns the last sequence
  number, the number of records processed and an error.
\<close>

definition handledRecords :: "readerEvent list \<Rightarrow> krecord list" where
  "handledRecords l = concat (map (\<lambda>ev. case ev of EvHandle r \<Rightarrow> [r] | _ \<Rightarrow> []) l)"

fun processLoop ::
  "readerSettings \<Rightarrow> readerEnv \<Rightarrow> krecord list \<Rightarrow> string \<Rightarrow> nat \<Rightarrow> readerState \<Rightarrow> readerState \<times> string \<times> nat \<times> error" where
  "processLoop st e [] sn n s = (s, sn, n, None)"
| "processLoop st e (r # rs) sn n s =
     (case look (ctxDone e) (delayConsume st e r s) of
        (s, True) \<Rightarrow> (s, sn, n, None)
      | (s, False) \<Rightarrow>
          (let s = emit EvHealthy (emit (EvHandle r) s);
               sn = EmptyIfNone (kr_SequenceNumber r)
           in case advanceCheckpoint e sn '''' s of
                (s, Some err) \<Rightarrow> (s, sn, n, Some (errorf_w ''failed to advance checkpoint: '' err ''''))
              | (s, None) \<Rightarrow>
                  (case look (ctxDone e) s of
                     (s, True) \<Rightarrow> (s, sn, n + 1, None)
                   | (s, False) \<Rightarrow> processLoop st e rs sn (n + 1) s)))"

definition processRecords ::
  "readerSettings \<Rightarrow> readerEnv \<Rightarrow> krecord list \<Rightarrow> string \<Rightarrow> string \<Rightarrow> readerState \<Rightarrow> readerState \<times> string \<times> nat \<times> error" where
  "processRecords st e rs sn nextIterator s =
     (case (if rs = [] then advanceCheckpoint e sn nextIterator s else (s, None)) of
        (s, Some err) \<Rightarrow> (s, sn, 0, Some (errorf_w ''failed to advance checkpoint: '' err ''''))
      | (s, None) \<Rightarrow> processLoop st e rs sn 0 s)"

definition getRecords ::
  "readerSettings \<Rightarrow> readerEnv \<Rightarrow> string \<Rightarrow> readerState \<Rightarrow> readerState \<times> (goerr + krecord list \<times> string \<times> int)" where
  "getRecords st e iterator s =
     (case look (\<lambda>t. GetRecords e t iterator (MaxBatchSize st)) s of
        (s, Inl err) \<Rightarrow> (s, Inl (errorf_w ''failed to get records from shard: '' err ''''))
      | (s, Inr out) \<Rightarrow>
          (s, Inr (Records out, EmptyIfNone (NextShardIterator out),
                   case MillisBehindLatest out of None \<Rightarrow> 0 | Some ms \<Rightarrow> ms)))"

text \<open>The duration until the next call; \<open>started\<close> and \<open>now\<close> are the clock before and after the batch.\<close>

definition nextWait :: "readerSettings \<Rightarrow> int \<Rightarrow> int \<Rightarrow> int \<Rightarrow> int" where
  "nextWait st millisecondsBehind started now =
     (if millisecondsBehind > WaitTime st + ConsumeDelay st then 0
      else max 0 (WaitTime st - (now - started)))"

text \<open>The iterator and the last sequence number are passed by reference; both are part of the result.\<close>

definition getAndProcessRecords ::
  "readerSettings \<Rightarrow> readerEnv \<Rightarrow> string \<Rightarrow> string \<Rightarrow> readerState \<Rightarrow> readerState \<times> string \<times> string \<times> (goerr + int)" where
  "getAndProcessRecords st e iterator sn s =
     (case look (clockNow e) (emit EvHealthy s) of (s, started) \<Rightarrow>
        (case getRecords st e iterator s of
           (s, Inl err) \<Rightarrow>
             if as_typed ''types.ExpiredIteratorException'' err \<noteq> None
             then (case getCheckpoint e s of (s, c1) \<Rightarrow>
                     (case getCheckpoint e s of (s, c2) \<Rightarrow>
                        (case getShardIterator st e (GetSequenceNumber c1) (GetShardIterator_of c2) s of
                           (s, Inl err) \<Rightarrow> (s, '''', sn, Inl (errorf_w ''failed to get new shard iterator: '' err ''''))
                         | (s, Inr iterator) \<Rightarrow> (s, iterator, sn, Inr 0))))
             else (s, iterator, sn, Inl (errorf_w ''failed reading records from shard: '' err ''''))
         | (s, Inr (records, nextIterator, millisecondsBehind)) \<Rightarrow>
             (case processRecords st e records sn iterator s of
                (s, sn, n, Some err) \<Rightarrow> (s, iterator, sn, Inl err)
              | (s, sn, n, None) \<Rightarrow>
                  (case look (clockNow e) s of (s, now) \<Rightarrow>
                     (s, (if n = length records then nextIterator else iterator), sn,
                      Inr (nextWait st millisecondsBehind started now))))))"

text \<open>
  When the context is done and the timer has fired, \<open>select\<close> takes either case; \<open>timerFirst\<close> says which. \<open>None\<close>
  is a loop that does not end.
\<close>

partial_function (option) iterateRecords ::
  "RequestCanceledCheck list \<Rightarrow> readerSettings \<Rightarrow> readerEnv \<Rightarrow> string \<Rightarrow> string \<Rightarrow> readerState \<Rightarrow> (readerState \<times> error) option" where
  "iterateRecords checks st e iterator sn s =
     (if iterator = ''''
      then Some (case doneCheckpoint e sn s of
                   (s, Some err) \<Rightarrow> (s, Some (errorf_w ''failed to mark checkpoint as done: '' err ''''))
                 | (s, None) \<Rightarrow> (s, None))
      else if ctxDone e (tick s) \<and> \<not> timerFirst e (tick s)
      then Some (s\<lparr>tick := tick s + 1\<rparr>, None)
      else (case getAndProcessRecords st e iterator sn (s\<lparr>tick := tick s + 1\<rparr>) of
              (s, iterator, sn, Inl err) \<Rightarrow>
                Some (s, if IsRequestCanceled checks (Some err) then None else Some err)
            | (s, iterator, sn, Inr resetValue) \<Rightarrow>
                iterateRecords checks st e iterator sn (emit (EvReset resetValue) s)))"

section \<open>Acquiring, persisting, releasing\<close>

partial_function (option) acquireShard ::
  "readerEnv \<Rightarrow> (nat \<Rightarrow> goerr + checkpoint option) \<Rightarrow> readerState \<Rightarrow> (readerState \<times> (goerr + checkpoint option)) option" where
  "acquireShard e acq s =
     (case look acq (emit EvHealthy s) of
        (s, Inl err) \<Rightarrow> Some (s, Inl (errorf_w ''failed to acquire shard: '' err ''''))
      | (s, Inr (Some c)) \<Rightarrow> Some (s\<lparr>cell := c\<rparr>, Inr (Some c))
      | (s, Inr None) \<Rightarrow>
          if ctxDone e (tick s) \<and> \<not> timerFirst e (tick s) then Some (s\<lparr>tick := tick s + 1\<rparr>, Inr None)
          else acquireShard e acq (s\<lparr>tick := tick s + 1\<rparr>))"

text \<open>
  The checkpoint is swapped for the no-op one, persisted and, only when that went well, released. The
  row is the one of the shard in the metadata table.
\<close>

definition releaseCheckpoint ::
  "fault \<Rightarrow> int \<Rightarrow> fault \<Rightarrow> int \<Rightarrow> checkpoint option \<Rightarrow> CheckpointRecord option \<Rightarrow>
     checkpoint option \<times> CheckpointRecord option \<times> error" where
  "releaseCheckpoint f1 now1 f2 now2 c row =
     (case c of
        None \<Rightarrow> (None, row, None)
      | Some c \<Rightarrow>
          (case ck_Persist f1 now1 c row of
             (row, Inl err) \<Rightarrow> (None, row, Some err)
           | (row, Inr _) \<Rightarrow> (case ck_Release f2 now2 c row of (row, _, err) \<Rightarrow> (None, row, err))))"

text \<open>
  A tick of the persister: the checkpoint the reader has at that time and the outcome of the requests
  it makes. The end of the list is the end of its context.
\<close>

record persistTick =
  pt_checkpoint :: "checkpoint option"
  pt_persist :: "fault \<times> int"
  pt_release :: "(fault \<times> int) \<times> (fault \<times> int)"

fun runPersister ::
  "RequestCanceledCheck list \<Rightarrow> persistTick list \<Rightarrow> CheckpointRecord option \<Rightarrow> CheckpointRecord option \<times> bool \<times> error" where
  "runPersister checks [] row = (row, False, None)"
| "runPersister checks (p # ps) row =
     (case (case pt_checkpoint p of
              None \<Rightarrow> (row, Inr False)
            | Some c \<Rightarrow> ck_Persist (fst (pt_persist p)) (snd (pt_persist p)) c row) of
        (row, result) \<Rightarrow>
          (case (case result of
                   Inl err \<Rightarrow> if IsRequestCanceled checks (Some err) then Inr True
                              else Inl (errorf_w ''failed to persist checkpoint: '' err '''')
                 | Inr shouldRelease \<Rightarrow> Inr shouldRelease) of
             Inl err \<Rightarrow> (row, False, Some err)
           | Inr False \<Rightarrow> runPersister checks ps row
           | Inr True \<Rightarrow>
               (case pt_release p of ((f1, n1), (f2, n2)) \<Rightarrow>
                  (case releaseCheckpoint f1 n1 f2 n2 (pt_checkpoint p) row of
                     (_, row, Some err) \<Rightarrow> (row, True, Some (errorf_w ''failed to release checkpoint for shard: '' err ''''))
                   | (_, row, None) \<Rightarrow> (row, True, None)))))"

text \<open>
  \<open>Run\<close> after the shard was acquired: the reader with its deferred release, then the deferred release of
  \<open>Run\<close>. \<open>row\<close> is the row as the persister left it, \<open>persisterErr\<close> the error with which it
  ended the coffin first, if it did.
\<close>

record releaseOutcome =
  ro_inner :: "(fault \<times> int) \<times> (fault \<times> int)"
  ro_outer :: "(fault \<times> int) \<times> (fault \<times> int)"

definition releaseWith ::
  "(fault \<times> int) \<times> (fault \<times> int) \<Rightarrow> checkpoint option \<Rightarrow> CheckpointRecord option \<Rightarrow>
     checkpoint option \<times> CheckpointRecord option \<times> error" where
  "releaseWith o1 c row = (case o1 of ((f1, n1), (f2, n2)) \<Rightarrow> releaseCheckpoint f1 n1 f2 n2 c row)"

definition appendRelease :: "(goerr list \<Rightarrow> string) \<Rightarrow> error \<Rightarrow> error \<Rightarrow> error" where
  "appendRelease multiText err released_err =
     (case released_err of
        None \<Rightarrow> err
      | Some e \<Rightarrow> multierror_Append multiText err (errorf_w ''failed to release checkpoint for shard: '' e ''''))"

definition readPhase ::
  "(goerr list \<Rightarrow> string) \<Rightarrow> RequestCanceledCheck list \<Rightarrow> readerSettings \<Rightarrow> readerEnv \<Rightarrow> releaseOutcome \<Rightarrow> error \<Rightarrow>
     string \<Rightarrow> readerState \<Rightarrow> CheckpointRecord option \<Rightarrow>
     (readerState \<times> checkpoint option \<times> CheckpointRecord option \<times> error) option" where
  "readPhase multiText checks st e ro persisterErr iterator s row =
     map_option (\<lambda>(s, readerErr).
         case getCheckpoint e s of (s, c) \<Rightarrow>
           (case releaseWith (ro_inner ro) c row of
              (c, row, relErr) \<Rightarrow>
                (let readerErr = appendRelease multiText readerErr relErr;
                     err = (case persisterErr of Some e \<Rightarrow> Some e | None \<Rightarrow> readerErr)
                 in (s, c, row, if IsRequestCanceled checks err then None else err))))
       (iterateRecords checks st e iterator (sequenceNumber (cell s)) s)"

definition shardReader_Run ::
  "(goerr list \<Rightarrow> string) \<Rightarrow> RequestCanceledCheck list \<Rightarrow> readerSettings \<Rightarrow> readerEnv \<Rightarrow> (nat \<Rightarrow> goerr + checkpoint option) \<Rightarrow>
     releaseOutcome \<Rightarrow> error \<Rightarrow> readerState \<Rightarrow> CheckpointRecord option \<Rightarrow>
     (readerState \<times> CheckpointRecord option \<times> error) option" where
  "shardReader_Run multiText checks st e acq ro persisterErr s row =
     (case acquireShard e acq s of
        None \<Rightarrow> None
      | Some (s, Inl err) \<Rightarrow>
          Some (s, row,
            if errors_Is (Some err) ''kinesis.ErrShardAlreadyFinished'' \<or> IsRequestCanceled checks (Some err) then None
            else Some (errorf_w ''failed to acquire shard: '' err ''''))
      | Some (s, Inr None) \<Rightarrow> Some (s, row, None)
      | Some (s, Inr (Some c)) \<Rightarrow>
          map_option (\<lambda>(s, c, row, err).
              case releaseWith (ro_outer ro) c row of (c, row, relErr) \<Rightarrow> (s, row, appendRelease multiText err relErr))
            (case getShardIterator st e (sequenceNumber c) (shardIterator c) s of
               (s, Inl err) \<Rightarrow>
                 Some (s, Some c, row, if IsRequestCanceled checks (Some err) then None
                   else Some (errorf_w ''failed to get shard iterator: '' err ''''))
             | (s, Inr iterator) \<Rightarrow> readPhase multiText checks st e ro persisterErr iterator s row))"

section \<open>Events\<close>

lemma handledRecords_append [simp]: "handledRecords (l @ l') = handledRecords l @ handledRecords l'"
  by (simp add: handledRecords_def)

lemma handledRecords_single [simp]:
  "handledRecords [EvHealthy] = []" "handledRecords [EvSleep d] = []" "handledRecords [EvHandle r] = [r]"
  "handledRecords [EvAdvance a b] = []" "handledRecords [EvDone a] = []" "handledRecords [EvReset d] = []"
  "handledRecords [] = []"
  by (simp_all add: handledRecords_def)

lemma emit_simps [simp]:
  "tick (emit ev s) = tick s" "cell (emit ev s) = cell s" "trace (emit ev s) = trace s @ [ev]"
  by (simp_all add: emit_def)

lemma look_simps [simp]: "look f s = (s\<lparr>tick := Suc (tick s)\<rparr>, f (tick s))"
  by (simp add: look_def)

text \<open>A shard as its client sees it: its records, the position of an iterator, and the position after a sequence number.\<close>

record shardView =
  sv_records :: "krecord list"
  sv_pos :: "string \<Rightarrow> nat"
  sv_after :: "string \<Rightarrow> nat"

definition ev_ok :: "shardView \<Rightarrow> nat \<Rightarrow> readerEvent list \<Rightarrow> readerEvent \<Rightarrow> bool" where
  "ev_ok v p l ev =
     (case ev of
        EvAdvance sn it \<Rightarrow> sv_after v sn = p + length (handledRecords l) \<and>
          (it \<noteq> '''' \<longrightarrow> sv_pos v it = p + length (handledRecords l))
      | EvDone sn \<Rightarrow> sv_after v sn = length (sv_records v) \<and> p + length (handledRecords l) = length (sv_records v)
      | _ \<Rightarrow> True)"

definition trace_ok :: "shardView \<Rightarrow> nat \<Rightarrow> readerEvent list \<Rightarrow> bool" where
  "trace_ok v p l \<longleftrightarrow> (\<forall>i < length l. ev_ok v p (take i l) (l ! i))"

lemma trace_ok_snoc [simp]: "trace_ok v p (l @ [ev]) \<longleftrightarrow> trace_ok v p l \<and> ev_ok v p l ev"
  by (auto simp: trace_ok_def less_Suc_eq nth_append)

lemma trace_ok_Nil [simp]: "trace_ok v p []"
  by (simp add: trace_ok_def)

lemma ev_ok_other [simp]:
  "ev_ok v p l EvHealthy" "ev_ok v p l (EvSleep d)" "ev_ok v p l (EvHandle r)" "ev_ok v p l (EvReset d)"
  by (simp_all add: ev_ok_def)

text \<open>What the Kinesis API documents of its client, and what the goroutines of the reader guarantee of each other.\<close>

definition records_ok :: "shardView \<Rightarrow> bool" where
  "records_ok v \<longleftrightarrow>
     (\<forall>i < length (sv_records v). EmptyIfNone (kr_SequenceNumber (sv_records v ! i)) \<noteq> '''' \<and>
        sv_after v (EmptyIfNone (kr_SequenceNumber (sv_records v ! i))) = Suc i)"

definition batch_ok :: "shardView \<Rightarrow> string \<Rightarrow> getRecordsOutput \<Rightarrow> bool" where
  "batch_ok v it out \<longleftrightarrow>
     Records out = take (length (Records out)) (drop (sv_pos v it) (sv_records v)) \<and>
     sv_pos v it + length (Records out) \<le> length (sv_records v) \<and>
     (if EmptyIfNone (NextShardIterator out) = ''''
      then sv_pos v it + length (Records out) = length (sv_records v)
      else sv_pos v (EmptyIfNone (NextShardIterator out)) = sv_pos v it + length (Records out))"

definition iterator_ok :: "shardView \<Rightarrow> iteratorInput \<Rightarrow> string \<Rightarrow> bool" where
  "iterator_ok v input it \<longleftrightarrow> it \<noteq> '''' \<and>
     (case in_Type input of
        AfterSequenceNumber \<Rightarrow> sv_pos v it = sv_after v (EmptyIfNone (in_StartingSequenceNumber input))
      | TrimHorizon \<Rightarrow> sv_pos v it = 0
      | _ \<Rightarrow> True)"

definition cancel_error :: "goerr \<Rightarrow> bool" where
  "cancel_error err \<longleftrightarrow> (\<exists>txt. peel err = Sentinel ''context.Canceled'' txt) \<and>
     as_typed ''types.ExpiredIteratorException'' err = None"

definition client_ok :: "shardView \<Rightarrow> readerEnv \<Rightarrow> bool" where
  "client_ok v e \<longleftrightarrow> records_ok v \<and>
     (\<forall>t it lim. case GetRecords e t it lim of Inr out \<Rightarrow> batch_ok v it out \<and> \<not> ctxDone e t
        | Inl err \<Rightarrow> ctxDone e t \<longrightarrow> cancel_error err) \<and>
     (\<forall>t input. case GetShardIterator e t input of Inr it \<Rightarrow> iterator_ok v input (EmptyIfNone it) | Inl err \<Rightarrow> True)"

definition env_ok :: "readerEnv \<Rightarrow> bool" where
  "env_ok e \<longleftrightarrow> (\<forall>t u. ctxDone e t \<longrightarrow> t \<le> u \<longrightarrow> ctxDone e u) \<and> (\<forall>t. swapped e t \<longrightarrow> ctxDone e t)"

lemma client_ok_record:
  assumes "client_ok v e" and "i < length (sv_records v)"
  shows "EmptyIfNone (kr_SequenceNumber (sv_records v ! i)) \<noteq> ''''"
    "sv_after v (EmptyIfNone (kr_SequenceNumber (sv_records v ! i))) = Suc i"
  using assms by (simp_all add: client_ok_def records_ok_def)

lemma client_ok_GetRecords:
  assumes "client_ok v e" and "GetRecords e t it lim = Inr out"
  shows "batch_ok v it out"
proof -
  from assms(1) have "case GetRecords e t it lim of Inr out \<Rightarrow> batch_ok v it out \<and> \<not> ctxDone e t
      | Inl err \<Rightarrow> ctxDone e t \<longrightarrow> cancel_error err" by (simp add: client_ok_def)
  with assms(2) show ?thesis by simp
qed

lemma client_ok_cancel:
  assumes "client_ok v e" and "ctxDone e t"
  shows "\<exists>err. GetRecords e t it lim = Inl err \<and> cancel_error err"
proof -
  from assms(1) have "case GetRecords e t it lim of Inr out \<Rightarrow> batch_ok v it out \<and> \<not> ctxDone e t
      | Inl err \<Rightarrow> ctxDone e t \<longrightarrow> cancel_error err" by (simp add: client_ok_def)
  with assms(2) show ?thesis by (cases "GetRecords e t it lim") auto
qed

lemma client_ok_GetShardIterator:
  assumes "client_ok v e" and "GetShardIterator e t input = Inr it"
  shows "iterator_ok v input (EmptyIfNone it)"
proof -
  from assms(1) have "case GetShardIterator e t input of Inr it \<Rightarrow> iterator_ok v input (EmptyIfNone it) | Inl err \<Rightarrow> True"
    by (simp add: client_ok_def)
  with assms(2) show ?thesis by simp
qed

lemma ctxDone_mono: "env_ok e \<Longrightarrow> ctxDone e t \<Longrightarrow> t \<le> u \<Longrightarrow> ctxDone e u"
  by (auto simp: env_ok_def)

lemma swapped_done: "env_ok e \<Longrightarrow> swapped e t \<Longrightarrow> ctxDone e t"
  by (auto simp: env_ok_def)

lemma canceled_peel: "peel err = Sentinel ''context.Canceled'' txt \<Longrightarrow> IsRequestCanceled requestCancelChecks (Some err)"
  using isRequestCanceled_peel [of err]
  by (simp add: IsRequestCanceled_def isRequestCanceled.simps [of _ "Sentinel ''context.Canceled'' txt"]
      requestCancelChecks_def isError_def)

lemma peel_errorf_w [simp]: "peel (errorf_w p err q) = peel err"
  by (simp add: errorf_w_def)

lemma as_typed_errorf_w [simp]: "as_typed ty (errorf_w p err q) = as_typed ty err"
  by (simp add: errorf_w_def)

section \<open>The steps of the reader\<close>

text \<open>
  \<open>segment v p s h\<close>: the first \<open>h\<close> records from position \<open>p\<close> were handed to the handler, in order, and the
  calls on the checkpoint were in place.
\<close>

definition segment :: "shardView \<Rightarrow> nat \<Rightarrow> readerState \<Rightarrow> nat \<Rightarrow> bool" where
  "segment v p s h \<longleftrightarrow> handledRecords (trace s) = take h (drop p (sv_records v)) \<and> p + h \<le> length (sv_records v) \<and>
     trace_ok v p (trace s)"

lemma segment_emit:
  assumes "segment v p s h"
  shows "segment v p (emit EvHealthy s) h" "segment v p (emit (EvSleep d) s) h" "segment v p (emit (EvReset d) s) h"
    "segment v p (s\<lparr>tick := t\<rparr>) h" "segment v p (s\<lparr>cell := c\<rparr>) h"
    "sv_after v sn = p + h \<Longrightarrow> it \<noteq> '''' \<longrightarrow> sv_pos v it = p + h \<Longrightarrow> segment v p (emit (EvAdvance sn it) s) h"
    "sv_after v sn = p + h \<Longrightarrow> p + h = length (sv_records v) \<Longrightarrow> segment v p (emit (EvDone sn) s) h"
  using assms by (auto simp: segment_def ev_ok_def min_def)

lemma segment_handle:
  assumes "segment v p s h" and "p + h < length (sv_records v)"
  shows "segment v p (emit (EvHandle (sv_records v ! (p + h))) s) (Suc h)"
  using assms by (simp add: segment_def take_Suc_conv_app_nth)

lemma delayConsume_props:
  assumes "segment v p s h"
  shows "segment v p (delayConsume st e r s) h \<and> tick s \<le> tick (delayConsume st e r s) \<and> cell (delayConsume st e r s) = cell s"
  using assms by (auto simp: delayConsume_def Let_def intro!: segment_emit)

text \<open>A call of \<open>Advance\<close> that succeeds before the context is done sets the real checkpoint.\<close>

definition cell_at :: "string \<Rightarrow> string \<Rightarrow> readerState \<Rightarrow> bool" where
  "cell_at sn it s \<longleftrightarrow> sequenceNumber (cell s) = sn \<and> shardIterator (cell s) = it"

lemma advanceCheckpoint_props:
  assumes "segment v p s h" and "sv_after v sn = p + h" and "it \<noteq> '''' \<longrightarrow> sv_pos v it = p + h" and "env_ok e"
    and "advanceCheckpoint e sn it s = (s', err)"
  shows "segment v p s' h \<and> tick s \<le> tick s' \<and> (err = None \<longrightarrow> \<not> ctxDone e (tick s') \<longrightarrow> cell_at sn it s')"
proof (cases "swapped e (tick s)")
  case True
  then have "s' = s\<lparr>tick := Suc (tick s)\<rparr>" "err = None"
    using assms(5) by (simp_all add: advanceCheckpoint_def getCheckpoint_def)
  moreover have "ctxDone e (Suc (tick s))"
    using True assms(4) ctxDone_mono swapped_done by (metis Suc_n_not_le_n nat_le_linear)
  ultimately show ?thesis using assms(1) by (simp add: segment_emit)
next
  case False
  let ?c = "cell s\<lparr>ck_poisoned := False, sequenceNumber := sn, shardIterator := it\<rparr>"
  let ?s = "s\<lparr>tick := Suc (Suc (tick s))\<rparr>"
  show ?thesis
  proof (cases "released e (Suc (tick s))")
    case True
    then have "s' = ?s" "err \<noteq> None"
      using assms(5) False by (auto simp: advanceCheckpoint_def getCheckpoint_def lockState_def ck_Advance_def TryLock_def)
    then show ?thesis using assms(1) by (auto simp: segment_emit)
  next
    case False
    then have "s' = emit (EvAdvance sn it) (?s\<lparr>cell := ?c\<rparr>)"
      using assms(5) \<open>\<not> swapped e (tick s)\<close>
      by (auto simp: advanceCheckpoint_def getCheckpoint_def lockState_def ck_Advance_def TryLock_def)
    then show ?thesis using assms(1-3) by (simp add: segment_emit cell_at_def)
  qed
qed

lemma processLoop_props:
  "processLoop st e rs sn n s = (s', sn', n', err) \<Longrightarrow> segment v p s h \<Longrightarrow>
    rs = take (length rs) (drop (p + h) (sv_records v)) \<Longrightarrow> p + h + length rs \<le> length (sv_records v) \<Longrightarrow>
    sv_after v sn = p + h \<Longrightarrow> client_ok v e \<Longrightarrow> env_ok e \<Longrightarrow>
    \<exists>h'. segment v p s' (h + h') \<and> tick s \<le> tick s' \<and>
      (err = None \<longrightarrow> n' = n + h' \<and> h' \<le> length rs \<and> sv_after v sn' = p + h + h' \<and>
         (\<not> ctxDone e (tick s') \<longrightarrow> h' = length rs \<and> (h' > 0 \<longrightarrow> cell_at sn' '''' s' \<and> sn' \<noteq> '''') \<and>
            (h' = 0 \<longrightarrow> cell s' = cell s \<and> sn' = sn)))"
proof (induction rs arbitrary: sn n s h)
  case Nil
  then show ?case by (intro exI [of _ 0]) simp
next
  case (Cons r rs)
  let ?d = "delayConsume st e r s"
  have pos: "p + h < length (sv_records v)" using Cons.prems(4) by simp
  have r: "r = sv_records v ! (p + h)" and rs: "rs = take (length rs) (drop (p + Suc h) (sv_records v))"
    using Cons.prems(3) pos by (simp_all add: take_Suc drop_Suc Cons_nth_drop_Suc [symmetric])
  have d: "segment v p ?d h" "tick s \<le> tick ?d" "cell ?d = cell s"
    using delayConsume_props [OF Cons.prems(2)] by auto
  show ?case
  proof (cases "ctxDone e (tick ?d)")
    case True
    then have *: "s' = ?d\<lparr>tick := Suc (tick ?d)\<rparr>" "sn' = sn" "n' = n" "err = None" using Cons.prems(1) by simp_all
    have "ctxDone e (Suc (tick ?d))" using True ctxDone_mono [OF Cons.prems(7)] by (meson le_SucI order_refl)
    then show ?thesis using * d Cons.prems(5) by (intro exI [of _ 0]) (simp add: segment_emit)
  next
    case False
    let ?h = "emit EvHealthy (emit (EvHandle r) (?d\<lparr>tick := Suc (tick ?d)\<rparr>))"
    let ?sn = "EmptyIfNone (kr_SequenceNumber r)"
    obtain s1 err1 where adv: "advanceCheckpoint e ?sn '''' ?h = (s1, err1)" by fastforce
    have "segment v p (?d\<lparr>tick := Suc (tick ?d)\<rparr>) h" using d(1) by (simp add: segment_emit)
    from segment_handle [OF this pos, folded r] have seg: "segment v p ?h (Suc h)" by (rule segment_emit)
    have after: "sv_after v ?sn = p + Suc h" and ne: "?sn \<noteq> ''''"
      using client_ok_record [OF Cons.prems(6) pos] r by simp_all
    have a: "segment v p s1 (Suc h)" "tick ?h \<le> tick s1" "err1 = None \<longrightarrow> \<not> ctxDone e (tick s1) \<longrightarrow> cell_at ?sn '''' s1"
      using advanceCheckpoint_props [OF seg after _ Cons.prems(7) adv] by auto
    show ?thesis
    proof (cases err1)
      case (Some er)
      then have "s' = s1" "err \<noteq> None" using Cons.prems(1) False adv by (auto simp: Let_def)
      then show ?thesis using a d(2) by (intro exI [of _ 1]) auto
    next
      case None
      let ?s2 = "s1\<lparr>tick := Suc (tick s1)\<rparr>"
      show ?thesis
      proof (cases "ctxDone e (tick s1)")
        case True
        then have *: "s' = ?s2" "sn' = ?sn" "n' = n + 1" "err = None"
          using Cons.prems(1) False adv None by (simp_all add: Let_def)
        have "ctxDone e (Suc (tick s1))" using True ctxDone_mono [OF Cons.prems(7)] by (meson le_SucI order_refl)
        then show ?thesis using * a d(2) after by (intro exI [of _ 1]) (simp add: segment_emit)
      next
        case nd: False
        have loop: "processLoop st e rs ?sn (n + 1) ?s2 = (s', sn', n', err)"
          using Cons.prems(1) False adv None nd by (simp add: Let_def)
        have "segment v p ?s2 (Suc h)" using a(1) by (simp add: segment_emit)
        moreover have "p + Suc h + length rs \<le> length (sv_records v)" using Cons.prems(4) by simp
        ultimately obtain h' where h': "segment v p s' (Suc h + h')" "tick ?s2 \<le> tick s'"
          "err = None \<longrightarrow> n' = n + 1 + h' \<and> h' \<le> length rs \<and> sv_after v sn' = p + Suc h + h' \<and>
             (\<not> ctxDone e (tick s') \<longrightarrow> h' = length rs \<and> (h' > 0 \<longrightarrow> cell_at sn' '''' s' \<and> sn' \<noteq> '''') \<and>
                (h' = 0 \<longrightarrow> cell s' = cell ?s2 \<and> sn' = ?sn))"
          using Cons.IH [OF loop _ rs _ after Cons.prems(6,7)] by metis
        moreover have "cell_at ?sn '''' s1" using a(3) None nd by simp
        ultimately show ?thesis using a(2) d(2) ne
          by (intro exI [of _ "Suc h'"]) (auto simp: cell_at_def)
      qed
    qed
  qed
qed

lemma getShardIterator_props:
  assumes "client_ok v e" and "getShardIterator st e sn lit s = (s', r)"
  shows "trace s' = trace s \<and> cell s' = cell s \<and> tick s \<le> tick s'" (is ?frame)
    and "r = Inr it \<Longrightarrow> it = '''' \<Longrightarrow> lit \<noteq> '''' \<and> sv_pos v lit = length (sv_records v)"
    and "r = Inr it \<Longrightarrow> lit \<noteq> '''' \<longrightarrow> sv_pos v lit = q \<Longrightarrow> sv_after v sn = q \<Longrightarrow>
      sn = '''' \<longrightarrow> InitialType st = TrimHorizon \<and> q = 0 \<Longrightarrow> it \<noteq> '''' \<Longrightarrow> sv_pos v it = q"
proof -
  obtain s1 r1 where last: "getLastShardIterator e lit s = (s1, r1)" by fastforce
  have l: "trace s1 = trace s \<and> cell s1 = cell s \<and> tick s \<le> tick s1"
    using last by (auto simp: getLastShardIterator_def split: if_splits sum.splits)
  have li: "it1 = '''' \<longrightarrow> lit \<noteq> '''' \<and> sv_pos v lit = length (sv_records v)"
    "it1 \<noteq> '''' \<longrightarrow> lit \<noteq> '''' \<and> sv_pos v it1 = sv_pos v lit" if "r1 = Inr (Some it1)" for it1
    using last that client_ok_GetRecords [OF assms(1), of "tick s" lit 1]
    by (auto simp: getLastShardIterator_def batch_ok_def split: if_splits sum.splits)
  show ?frame
    using assms(2) last l by (auto simp: getShardIterator_def Let_def split: sum.splits option.splits)
  show "lit \<noteq> '''' \<and> sv_pos v lit = length (sv_records v)" if "r = Inr it" "it = ''''"
    using assms(2) last li that client_ok_GetShardIterator [OF assms(1), of "tick s1"]
    by (auto simp: getShardIterator_def Let_def iterator_ok_def split: sum.splits option.splits)
  show "sv_pos v it = q" if h: "r = Inr it" "lit \<noteq> '''' \<longrightarrow> sv_pos v lit = q" "sv_after v sn = q"
    "sn = '''' \<longrightarrow> InitialType st = TrimHorizon \<and> q = 0" "it \<noteq> ''''"
  proof (cases r1)
    case (Inl err)
    with assms(2) last h(1) show ?thesis by (simp add: getShardIterator_def)
  next
    case (Inr o1)
    show ?thesis
    proof (cases o1)
      case (Some it1)
      then have "it = it1" using assms(2) last h(1) Inr by (simp add: getShardIterator_def)
      with li(2) [of it1] Inr Some h(2,5) show ?thesis by simp
    next
      case None
      let ?ty = "if sn = '''' then InitialType st else AfterSequenceNumber"
      let ?input = "\<lparr>in_Type = ?ty, in_Timestamp = (if ?ty = AtTimestamp then Some (InitialTimestamp st) else None),
          in_StartingSequenceNumber = (if ?ty = AfterSequenceNumber then Some sn else None)\<rparr>"
      have "getShardIterator st e sn lit s = (case GetShardIterator e (tick s1) ?input of
          Inl err \<Rightarrow> (s1\<lparr>tick := Suc (tick s1)\<rparr>, Inl (errorf_w ''failed to get shard iterator: '' err ''''))
        | Inr i \<Rightarrow> (s1\<lparr>tick := Suc (tick s1)\<rparr>, Inr (EmptyIfNone i)))"
        using last Inr None by (simp add: getShardIterator_def Let_def)
      then obtain i where i: "GetShardIterator e (tick s1) ?input = Inr i" "it = EmptyIfNone i"
        using assms(2) h(1) by (cases "GetShardIterator e (tick s1) ?input") auto
      have "iterator_ok v ?input it" using client_ok_GetShardIterator [OF assms(1) i(1)] i(2) by simp
      then show ?thesis using h(3,4) by (cases "sn = ''''") (simp_all add: iterator_ok_def EmptyIfNone_def)
    qed
  qed
qed

text \<open>
  Between two batches: as long as the context is not done the iterator, the last sequence number and
  the checkpoint all stand after the records handled so far.
\<close>

definition stands :: "shardView \<Rightarrow> nat \<Rightarrow> readerSettings \<Rightarrow> string \<Rightarrow> readerState \<Rightarrow> nat \<Rightarrow> bool" where
  "stands v p st sn s h \<longleftrightarrow> (sn = '''' \<longrightarrow> InitialType st = TrimHorizon \<and> p + h = 0) \<and> sequenceNumber (cell s) = sn \<and>
     (shardIterator (cell s) \<noteq> '''' \<longrightarrow> sv_pos v (shardIterator (cell s)) = p + h)"

definition between :: "shardView \<Rightarrow> nat \<Rightarrow> readerSettings \<Rightarrow> readerEnv \<Rightarrow> string \<Rightarrow> string \<Rightarrow> readerState \<Rightarrow> nat \<Rightarrow> bool" where
  "between v p st e iterator sn s h \<longleftrightarrow> segment v p s h \<and> sv_after v sn = p + h \<and>
     (iterator = '''' \<longrightarrow> p + h = length (sv_records v)) \<and>
     (\<not> ctxDone e (tick s) \<longrightarrow> (iterator \<noteq> '''' \<longrightarrow> sv_pos v iterator = p + h) \<and> stands v p st sn s h)"

lemma stands_cong: "cell s' = cell s \<Longrightarrow> stands v p st sn s' h = stands v p st sn s h"
  by (simp add: stands_def)

lemma segment_cong: "trace s' = trace s \<Longrightarrow> segment v p s' h = segment v p s h"
  by (simp add: segment_def)

lemma processRecords_props:
  assumes ok: "client_ok v e" "env_ok e" and seg: "segment v p s h" and after: "sv_after v sn = p + h"
    and st: "stands v p st sn s h" and pos: "sv_pos v iterator = p + h"
    and rs: "rs = take (length rs) (drop (p + h) (sv_records v))" "p + h + length rs \<le> length (sv_records v)"
    and run: "processRecords st e rs sn iterator s = (s', sn', n, err)"
  shows "\<exists>h'. segment v p s' (h + h') \<and> tick s \<le> tick s' \<and>
      (err = None \<longrightarrow> n = h' \<and> h' \<le> length rs \<and> sv_after v sn' = p + h + h' \<and>
         (\<not> ctxDone e (tick s') \<longrightarrow> h' = length rs \<and> stands v p st sn' s' (h + h')))"
proof (cases "rs = []")
  case True
  obtain s1 err1 where adv: "advanceCheckpoint e sn iterator s = (s1, err1)" by fastforce
  have "segment v p s1 h \<and> tick s \<le> tick s1 \<and> (err1 = None \<longrightarrow> \<not> ctxDone e (tick s1) \<longrightarrow> cell_at sn iterator s1)"
    using advanceCheckpoint_props [OF seg after _ ok(2) adv] pos by simp
  moreover have "s' = s1" "err = None \<longrightarrow> err1 = None \<and> sn' = sn \<and> n = 0"
    using run adv True by (auto simp: processRecords_def split: option.splits)
  ultimately show ?thesis using True after st pos by (intro exI [of _ 0]) (auto simp: cell_at_def stands_def)
next
  case False
  then have "processLoop st e rs sn 0 s = (s', sn', n, err)" using run by (simp add: processRecords_def)
  from processLoop_props [OF this seg rs after ok] obtain h' where
    h': "segment v p s' (h + h')" "tick s \<le> tick s'"
      "err = None \<longrightarrow> n = 0 + h' \<and> h' \<le> length rs \<and> sv_after v sn' = p + h + h' \<and>
         (\<not> ctxDone e (tick s') \<longrightarrow> h' = length rs \<and> (h' > 0 \<longrightarrow> cell_at sn' '''' s' \<and> sn' \<noteq> '''') \<and>
            (h' = 0 \<longrightarrow> cell s' = cell s \<and> sn' = sn))" by blast
  then show ?thesis using False by (intro exI [of _ h']) (auto simp: cell_at_def stands_def)
qed

lemma getRecords_cases:
  assumes "getRecords st e iterator s = (s', r)"
  shows "s' = s\<lparr>tick := Suc (tick s)\<rparr>"
    and "(\<exists>err. GetRecords e (tick s) iterator (MaxBatchSize st) = Inl err \<and>
            r = Inl (errorf_w ''failed to get records from shard: '' err '''')) \<or>
         (\<exists>out. GetRecords e (tick s) iterator (MaxBatchSize st) = Inr out \<and>
            r = Inr (Records out, EmptyIfNone (NextShardIterator out), case MillisBehindLatest out of None \<Rightarrow> 0 | Some ms \<Rightarrow> ms))"
  using assms by (auto simp: getRecords_def split: sum.splits)

lemma client_ok_not_done: "client_ok v e \<Longrightarrow> GetRecords e t it lim = Inr out \<Longrightarrow> \<not> ctxDone e t"
  using client_ok_cancel [of v e t it lim] by auto

lemma getAndProcessRecords_props:
  assumes ok: "client_ok v e" "env_ok e" and b: "between v p st e iterator sn s h" and ne: "iterator \<noteq> ''''"
    and run: "getAndProcessRecords st e iterator sn s = (s', iterator', sn', r)"
  shows "\<exists>h'. segment v p s' h' \<and> tick s < tick s' \<and>
    (case r of Inr w \<Rightarrow> between v p st e iterator' sn' s' h' \<and> \<not> ctxDone e (tick s)
     | Inl err \<Rightarrow> ctxDone e (tick s) \<longrightarrow> IsRequestCanceled requestCancelChecks (Some err))"
proof -
  let ?s1 = "(emit EvHealthy s)\<lparr>tick := Suc (tick s)\<rparr>"
  let ?s2 = "?s1\<lparr>tick := Suc (tick ?s1)\<rparr>"
  have seg: "segment v p s h" and after: "sv_after v sn = p + h" using b by (simp_all add: between_def)
  then have seg2: "segment v p ?s2 h" by (simp add: segment_emit)
  obtain r1 where g: "getRecords st e iterator ?s1 = (?s2, r1)"
    using getRecords_cases(1) [of st e iterator ?s1] by (metis prod.collapse)
  consider (fails) err where "GetRecords e (Suc (tick s)) iterator (MaxBatchSize st) = Inl err"
      "r1 = Inl (errorf_w ''failed to get records from shard: '' err '''')"
    | (reads) out where "GetRecords e (Suc (tick s)) iterator (MaxBatchSize st) = Inr out"
      "r1 = Inr (Records out, EmptyIfNone (NextShardIterator out), case MillisBehindLatest out of None \<Rightarrow> 0 | Some ms \<Rightarrow> ms)"
    using getRecords_cases(2) [OF g] by auto
  then show ?thesis
  proof cases
    case fails
    show ?thesis
    proof (cases "as_typed ''types.ExpiredIteratorException'' err = None")
      case True
      then have "s' = ?s2" "r = Inl (errorf_w ''failed reading records from shard: ''
            (errorf_w ''failed to get records from shard: '' err '''') '''')"
        using run g fails by (simp_all add: getAndProcessRecords_def)
      moreover have "IsRequestCanceled requestCancelChecks (Some (errorf_w ''failed reading records from shard: ''
            (errorf_w ''failed to get records from shard: '' err '''') ''''))" if "ctxDone e (tick s)"
      proof -
        have "ctxDone e (Suc (tick s))" using that ctxDone_mono [OF ok(2)] by (meson le_SucI order_refl)
        from client_ok_cancel [OF ok(1) this, of iterator "MaxBatchSize st"] fails(1)
        obtain x where "peel err = Sentinel ''context.Canceled'' x" by (auto simp: cancel_error_def)
        then show ?thesis by (intro canceled_peel) simp
      qed
      ultimately show ?thesis using seg2 by (intro exI [of _ h]) simp
    next
      case expired: False
      then have live1: "\<not> ctxDone e (Suc (tick s))"
        using client_ok_cancel [OF ok(1), of "Suc (tick s)" iterator "MaxBatchSize st"] fails(1) by (auto simp: cancel_error_def)
      then have live: "\<not> ctxDone e (tick s)" using ctxDone_mono [OF ok(2)] by (meson le_SucI order_refl)
      obtain s3 c1 where c1: "getCheckpoint e ?s2 = (s3, c1)" by fastforce
      obtain s4 c2 where c2: "getCheckpoint e s3 = (s4, c2)" by fastforce
      obtain s5 r5 where g5: "getShardIterator st e (GetSequenceNumber c1) (GetShardIterator_of c2) s4 = (s5, r5)" by fastforce
      have frame: "trace s4 = trace ?s2" "cell s4 = cell s" "tick s4 = Suc (Suc (tick ?s2))"
        using c1 c2 by (auto simp: getCheckpoint_def)
      have f5: "trace s5 = trace s4 \<and> cell s5 = cell s4 \<and> tick s4 \<le> tick s5"
        using getShardIterator_props(1) [OF ok(1) g5] .
      have s': "s' = s5" "sn' = sn"
        and r: "r = (case r5 of Inl err \<Rightarrow> Inl (errorf_w ''failed to get new shard iterator: '' err '''') | Inr it \<Rightarrow> Inr 0)"
        and it': "r5 = Inr it \<Longrightarrow> iterator' = it" for it
        using run g fails expired c1 c2 g5 by (auto simp: getAndProcessRecords_def split: sum.splits)
      have seg': "segment v p s' h"
        using seg2 segment_cong [of s5 ?s2 v p h] f5 frame s' by simp
      have stand: "stands v p st sn s h" using b live by (simp add: between_def)
      have "between v p st e iterator' sn s' h" if "r5 = Inr it" for it
        unfolding between_def
      proof (intro conjI impI seg' after)
        assume "iterator' = ''''"
        with getShardIterator_props(2) [OF ok(1) g5 that] it' [OF that]
        have "GetShardIterator_of c2 \<noteq> ''''" "sv_pos v (GetShardIterator_of c2) = length (sv_records v)" by auto
        moreover then have "GetShardIterator_of c2 = shardIterator (cell s)"
          using c1 c2 by (auto simp: getCheckpoint_def GetShardIterator_of_def split: if_splits)
        ultimately show "p + h = length (sv_records v)" using stand by (simp add: stands_def)
      next
        assume nd: "\<not> ctxDone e (tick s')"
        then show "stands v p st sn s' h" using stand stands_cong [of s' s] f5 frame s' by simp
        have "\<not> ctxDone e (tick ?s2)" "\<not> ctxDone e (tick s3)"
          using nd f5 frame(3) s' c1 ctxDone_mono [OF ok(2)] by (auto simp: getCheckpoint_def)
        then have cs: "GetSequenceNumber c1 = sn" "GetShardIterator_of c2 = shardIterator (cell s)"
          using c1 c2 stand swapped_done [OF ok(2)]
          by (auto simp: getCheckpoint_def GetSequenceNumber_def GetShardIterator_of_def stands_def split: if_splits)
        assume "iterator' \<noteq> ''''"
        then show "sv_pos v iterator' = p + h"
          using getShardIterator_props(3) [OF ok(1) g5 that, of "p + h"] it' [OF that] cs stand after
          by (auto simp: stands_def)
      qed
      then show ?thesis using seg' s' r live f5 frame by (intro exI [of _ h]) (auto split: sum.splits)
    qed
  next
    case reads
    have live1: "\<not> ctxDone e (Suc (tick s))" using client_ok_not_done [OF ok(1) reads(1)] .
    then have live: "\<not> ctxDone e (tick s)" using ctxDone_mono [OF ok(2)] by (meson le_SucI order_refl)
    then have stand: "stands v p st sn ?s2 h" and pos: "sv_pos v iterator = p + h"
      using b ne by (auto simp: between_def stands_def)
    have batch: "batch_ok v iterator out" using client_ok_GetRecords [OF ok(1) reads(1)] .
    obtain s3 sn3 n3 err3 where pr: "processRecords st e (Records out) sn iterator ?s2 = (s3, sn3, n3, err3)"
      by (metis prod_cases4)
    from processRecords_props [OF ok seg2 after stand pos _ _ pr] batch pos obtain h' where
      h': "segment v p s3 (h + h')" "tick ?s2 \<le> tick s3"
        "err3 = None \<longrightarrow> n3 = h' \<and> h' \<le> length (Records out) \<and> sv_after v sn3 = p + h + h' \<and>
           (\<not> ctxDone e (tick s3) \<longrightarrow> h' = length (Records out) \<and> stands v p st sn3 s3 (h + h'))"
      by (auto simp: batch_ok_def)
    show ?thesis
    proof (cases err3)
      case (Some er)
      then have "s' = s3" "r = Inl er" using run g reads pr by (simp_all add: getAndProcessRecords_def)
      then show ?thesis using h' live by (intro exI [of _ "h + h'"]) auto
    next
      case None
      let ?it = "if n3 = length (Records out) then EmptyIfNone (NextShardIterator out) else iterator"
      have *: "s' = s3\<lparr>tick := Suc (tick s3)\<rparr>" "sn' = sn3" "iterator' = ?it" and r: "\<exists>w. r = Inr w"
        using run g reads pr None by (auto simp: getAndProcessRecords_def)
      have seg': "segment v p s' (h + h')" using h'(1) *(1) by (simp add: segment_emit)
      have "between v p st e iterator' sn' s' (h + h')"
        unfolding between_def
      proof (intro conjI impI seg')
        show "sv_after v sn' = p + (h + h')" using h'(3) None *(2) by simp
        show "p + (h + h') = length (sv_records v)" if "iterator' = ''''"
          using that *(3) ne h'(3) None batch pos by (auto simp: batch_ok_def split: if_splits)
        assume "\<not> ctxDone e (tick s')"
        then have "\<not> ctxDone e (tick s3)" using *(1) ctxDone_mono [OF ok(2), of "tick s3" "Suc (tick s3)"] by auto
        then have full: "h' = length (Records out)" "stands v p st sn3 s3 (h + h')" using h'(3) None by auto
        show "stands v p st sn' s' (h + h')" using full(2) *(1,2) stands_cong [of s' s3] by simp
        show "sv_pos v iterator' = p + (h + h')" if "iterator' \<noteq> ''''"
          using that *(3) full(1) h'(3) None batch pos by (auto simp: batch_ok_def split: if_splits)
      qed
      then show ?thesis using seg' * r h'(2) live by (intro exI [of _ "h + h'"]) auto
    qed
  qed
qed

lemma doneCheckpoint_props:
  assumes "segment v p s h" and "sv_after v sn = p + h" and "p + h = length (sv_records v)"
    and "doneCheckpoint e sn s = (s', err)"
  shows "segment v p s' h"
  using assms by (auto simp: doneCheckpoint_def getCheckpoint_def lockState_def ck_Done_def TryLock_def
      split: if_splits intro!: segment_emit)

lemma iterateRecords_props:
  assumes ok: "client_ok v e" "env_ok e" and ends: "ctxDone e T"
  shows "between v p st e iterator sn s h \<Longrightarrow>
    \<exists>s' err h'. iterateRecords requestCancelChecks st e iterator sn s = Some (s', err) \<and> segment v p s' h'"
proof (induction "T - tick s" arbitrary: iterator sn s h rule: less_induct)
  case less
  have seg: "segment v p s h" and after: "sv_after v sn = p + h" using less.prems by (simp_all add: between_def)
  show ?case
  proof (cases "iterator = ''''")
    case True
    obtain s1 err1 where d: "doneCheckpoint e sn s = (s1, err1)" by fastforce
    have "segment v p s1 h" using doneCheckpoint_props [OF seg after _ d] less.prems True by (simp add: between_def)
    then show ?thesis using True d by (subst iterateRecords.simps) (cases err1; auto)
  next
    case False
    show ?thesis
    proof (cases "ctxDone e (tick s) \<and> \<not> timerFirst e (tick s)")
      case True
      then show ?thesis using False segment_emit(4) [OF seg] by (subst iterateRecords.simps) auto
    next
      case go: False
      let ?s = "s\<lparr>tick := tick s + 1\<rparr>"
      have live: "\<not> ctxDone e (tick s)" if "\<not> ctxDone e (tick ?s)"
        using that ctxDone_mono [OF ok(2), of "tick s" "tick ?s"] by auto
      have b: "between v p st e iterator sn ?s h"
        using less.prems live by (auto simp: between_def segment_emit stands_def)
      obtain s1 it1 sn1 r where g: "getAndProcessRecords st e iterator sn ?s = (s1, it1, sn1, r)" by (metis prod_cases4)
      from getAndProcessRecords_props [OF ok b False g] obtain h1 where
        h1: "segment v p s1 h1" "tick ?s < tick s1"
          "case r of Inr w \<Rightarrow> between v p st e it1 sn1 s1 h1 \<and> \<not> ctxDone e (tick ?s)
           | Inl err \<Rightarrow> ctxDone e (tick ?s) \<longrightarrow> IsRequestCanceled requestCancelChecks (Some err)" by blast
      show ?thesis
      proof (cases r)
        case (Inl err)
        then show ?thesis using False go g h1(1) by (subst iterateRecords.simps) auto
      next
        case (Inr w)
        have "\<not> T \<le> tick ?s" using h1(3) Inr ctxDone_mono [OF ok(2) ends] by auto
        then have less': "T - tick (emit (EvReset w) s1) < T - tick s" using h1(2) by simp
        have "between v p st e it1 sn1 (emit (EvReset w) s1) h1"
          using h1(3) Inr by (auto simp: between_def segment_emit stands_def)
        from less.hyps [OF less' this] show ?thesis
          using False go g Inr by (subst iterateRecords.simps) (auto simp del: emit_simps)
      qed
    qed
  qed
qed

section \<open>The checkpoint at the end\<close>

definition lastHandled :: "string \<Rightarrow> readerEvent list \<Rightarrow> string" where
  "lastHandled sn l = (if handledRecords l = [] then sn else EmptyIfNone (kr_SequenceNumber (last (handledRecords l))))"

text \<open>
  While the persister leaves the checkpoint alone, it carries the number of the last record handled and is
  finished only after \<open>Done\<close>.
\<close>

definition tracks :: "checkpoint \<Rightarrow> string \<Rightarrow> string \<Rightarrow> readerState \<Rightarrow> bool" where
  "tracks c0 sn0 sn s \<longleftrightarrow> sn = lastHandled sn0 (trace s) \<and> sequenceNumber (cell s) = sn \<and>
     owningClientId (cell s) = owningClientId c0 \<and> \<not> ck_poisoned (cell s) \<and>
     (finishedAt (cell s) \<noteq> None \<longrightarrow> (\<exists>a. EvDone a \<in> set (trace s)))"

definition alone :: "readerEnv \<Rightarrow> bool" where
  "alone e \<longleftrightarrow> (\<forall>t. \<not> swapped e t \<and> \<not> released e t)"

lemma lastHandled_other [simp]:
  "lastHandled sn (l @ [EvHealthy]) = lastHandled sn l" "lastHandled sn (l @ [EvSleep d]) = lastHandled sn l"
  "lastHandled sn (l @ [EvReset d]) = lastHandled sn l" "lastHandled sn (l @ [EvAdvance a b]) = lastHandled sn l"
  "lastHandled sn (l @ [EvDone a]) = lastHandled sn l"
  "lastHandled sn (l @ [EvHandle r, EvHealthy]) = EmptyIfNone (kr_SequenceNumber r)"
  "lastHandled sn (l @ [EvHandle r]) = EmptyIfNone (kr_SequenceNumber r)"
  by (simp_all add: lastHandled_def handledRecords_def)

lemma tracks_cong: "trace s' = trace s \<Longrightarrow> cell s' = cell s \<Longrightarrow> tracks c0 sn0 sn s' = tracks c0 sn0 sn s"
  by (simp add: tracks_def)

lemma tracks_tick [simp]: "tracks c0 sn0 sn (s\<lparr>tick := t\<rparr>) = tracks c0 sn0 sn s"
  by (simp add: tracks_def)

lemma tracks_emit [simp]:
  "tracks c0 sn0 sn (emit EvHealthy s) = tracks c0 sn0 sn s" "tracks c0 sn0 sn (emit (EvSleep d) s) = tracks c0 sn0 sn s"
  "tracks c0 sn0 sn (emit (EvReset d) s) = tracks c0 sn0 sn s"
  by (simp_all add: tracks_def)

lemma advanceCheckpoint_alone:
  assumes "alone e" and "tracks c0 sn0 sn1 s \<or> (\<exists>s0 r. tracks c0 sn0 sn1 s0 \<and> cell s = cell s0 \<and>
      trace s = trace s0 @ [EvHandle r, EvHealthy])" and "sn = lastHandled sn0 (trace s)"
  shows "snd (advanceCheckpoint e sn it s) = None" "tracks c0 sn0 sn (fst (advanceCheckpoint e sn it s))"
  using assms by (auto simp: advanceCheckpoint_def getCheckpoint_def lockState_def ck_Advance_def TryLock_def alone_def tracks_def)

lemma delayConsume_tracks: "tracks c0 sn0 sn (delayConsume st e r s) = tracks c0 sn0 sn s"
  by (simp add: delayConsume_def Let_def)

lemma processLoop_tracks:
  "processLoop st e rs sn n s = (s', sn', n', err) \<Longrightarrow> tracks c0 sn0 sn s \<Longrightarrow> alone e \<Longrightarrow> tracks c0 sn0 sn' s' \<and> err = None"
proof (induction rs arbitrary: sn n s)
  case (Cons r rs)
  let ?d = "delayConsume st e r s"
  let ?h = "emit EvHealthy (emit (EvHandle r) (?d\<lparr>tick := Suc (tick ?d)\<rparr>))"
  let ?sn = "EmptyIfNone (kr_SequenceNumber r)"
  obtain s1 err1 where adv: "advanceCheckpoint e ?sn '''' ?h = (s1, err1)" by fastforce
  have "tracks c0 sn0 sn (?d\<lparr>tick := Suc (tick ?d)\<rparr>)" using Cons.prems(2) by (simp add: delayConsume_tracks)
  then have "tracks c0 sn0 sn ?h \<or> (\<exists>s0 r. tracks c0 sn0 sn s0 \<and> cell ?h = cell s0 \<and> trace ?h = trace s0 @ [EvHandle r, EvHealthy])"
    by (intro disjI2 exI [of _ "?d\<lparr>tick := Suc (tick ?d)\<rparr>"] exI [of _ r]) simp
  from advanceCheckpoint_alone [OF Cons.prems(3) this, of ?sn "''''"] adv have a: "err1 = None" "tracks c0 sn0 ?sn s1" by simp_all
  show ?case
  proof (cases "ctxDone e (tick ?d)")
    case True
    then show ?thesis using Cons.prems(1,2) by (auto simp: delayConsume_tracks)
  next
    case False
    show ?thesis
    proof (cases "ctxDone e (tick s1)")
      case True
      then show ?thesis using Cons.prems(1) False adv a by (auto simp: Let_def)
    next
      case nd: False
      then have "processLoop st e rs ?sn (n + 1) (s1\<lparr>tick := Suc (tick s1)\<rparr>) = (s', sn', n', err)"
        using Cons.prems(1) False adv a(1) by (simp add: Let_def)
      from Cons.IH [OF this _ Cons.prems(3)] a(2) show ?thesis by simp
    qed
  qed
qed simp

lemma processRecords_tracks:
  assumes "processRecords st e rs sn it s = (s', sn', n', err)" and "tracks c0 sn0 sn s" and "alone e"
  shows "tracks c0 sn0 sn' s' \<and> err = None"
proof (cases "rs = []")
  case True
  have "sn = lastHandled sn0 (trace s)" using assms(2) by (simp add: tracks_def)
  from advanceCheckpoint_alone [OF assms(3) disjI1 [OF assms(2)] this, of it] True assms(1) show ?thesis
    by (auto simp: processRecords_def split: prod.splits)
next
  case False
  then have "processLoop st e rs sn 0 s = (s', sn', n', err)" using assms(1) by (simp add: processRecords_def)
  from processLoop_tracks [OF this assms(2,3)] show ?thesis .
qed

lemma getShardIterator_frame:
  "trace (fst (getShardIterator st e sn it s)) = trace s" "cell (fst (getShardIterator st e sn it s)) = cell s"
  by (auto simp: getShardIterator_def getLastShardIterator_def Let_def split: sum.split option.split)

lemma getAndProcessRecords_tracks:
  assumes run: "getAndProcessRecords st e iterator sn s = (s', iterator', sn', r)" and t: "tracks c0 sn0 sn s" and "alone e"
  shows "tracks c0 sn0 sn' s'"
proof -
  let ?s2 = "(emit EvHealthy s)\<lparr>tick := Suc (Suc (tick s))\<rparr>"
  have t2: "tracks c0 sn0 sn ?s2" using t by simp
  show ?thesis
  proof (cases "GetRecords e (Suc (tick s)) iterator (MaxBatchSize st)")
    case (Inl err)
    show ?thesis
    proof (cases "as_typed ''types.ExpiredIteratorException'' err = None")
      case True
      then have "s' = ?s2" "sn' = sn" using run Inl by (auto simp: getAndProcessRecords_def getRecords_def)
      with t2 show ?thesis by simp
    next
      case False
      let ?s4 = "?s2\<lparr>tick := Suc (Suc (Suc (Suc (tick s))))\<rparr>"
      have "\<exists>a b. s' = fst (getShardIterator st e a b ?s4)" "sn' = sn"
        using run Inl False by (auto simp: getAndProcessRecords_def getRecords_def getCheckpoint_def split: sum.splits prod.splits)
          (metis fst_conv)+
      with t2 show ?thesis using tracks_cong getShardIterator_frame by (metis tracks_tick)
    qed
  next
    case (Inr out)
    obtain s3 sn3 n3 err3 where pr: "processRecords st e (Records out) sn iterator ?s2 = (s3, sn3, n3, err3)"
      by (metis prod_cases4)
    have "tracks c0 sn0 sn3 s3" "err3 = None" using processRecords_tracks [OF pr t2 assms(3)] by auto
    moreover have "s' = s3\<lparr>tick := Suc (tick s3)\<rparr>" "sn' = sn3"
      using run Inr pr \<open>err3 = None\<close> by (auto simp: getAndProcessRecords_def getRecords_def)
    ultimately show ?thesis by simp
  qed
qed

lemma iterateRecords_tracks:
  assumes "iterateRecords checks st e iterator sn s = Some x"
  shows "tracks c0 sn0 sn s \<longrightarrow> alone e \<longrightarrow> (\<exists>sn'. tracks c0 sn0 sn' (fst x))"
proof (rule iterateRecords.raw_induct
    [where P = "\<lambda>_ _ e _ sn s x. tracks c0 sn0 sn s \<longrightarrow> alone e \<longrightarrow> (\<exists>sn'. tracks c0 sn0 sn' (fst x))", OF _ assms], goal_cases)
  case (1 loop checks st e iterator sn s x)
  show ?case
  proof (intro impI)
    assume t: "tracks c0 sn0 sn s" and al: "alone e"
    obtain s1 it1 sn1 r where g: "getAndProcessRecords st e iterator sn (s\<lparr>tick := tick s + 1\<rparr>) = (s1, it1, sn1, r)"
      by (metis prod_cases4)
    have t1: "tracks c0 sn0 sn1 s1" using getAndProcessRecords_tracks [OF g _ al] t by simp
    obtain s2 err2 where d: "doneCheckpoint e sn s = (s2, err2)" by fastforce
    have t2: "tracks c0 sn0 sn s2" using d t
      by (auto simp: doneCheckpoint_def getCheckpoint_def lockState_def ck_Done_def TryLock_def tracks_def split: if_splits)
    consider (finished) "iterator = ''''" | (canceled) "iterator \<noteq> ''''" "ctxDone e (tick s) \<and> \<not> timerFirst e (tick s)"
      | (batch) "iterator \<noteq> ''''" "\<not> (ctxDone e (tick s) \<and> \<not> timerFirst e (tick s))" by blast
    then show "\<exists>sn'. tracks c0 sn0 sn' (fst x)"
    proof cases
      case finished
      then have "fst x = s2" using 1(2) d by (cases err2) auto
      with t2 show ?thesis by blast
    next
      case canceled
      then have "fst x = s\<lparr>tick := tick s + 1\<rparr>" using 1(2) by auto
      with t show ?thesis by auto
    next
      case batch
      show ?thesis
      proof (cases r)
        case (Inl err)
        then have "fst x = s1" using 1(2) batch g by auto
        with t1 show ?thesis by blast
      next
        case (Inr w)
        then have "loop checks st e it1 sn1 (emit (EvReset w) s1) = Some x" using 1(2) batch g by (simp del: emit_simps)
        from 1(1) [OF this] t1 al show ?thesis by simp
      qed
    qed
  qed
qed

section \<open>Properties\<close>

definition starts :: "shardView \<Rightarrow> nat \<Rightarrow> readerSettings \<Rightarrow> string \<Rightarrow> string \<Rightarrow> readerState \<Rightarrow> bool" where
  "starts v p st iterator sn s \<longleftrightarrow> trace s = [] \<and> p \<le> length (sv_records v) \<and> sv_after v sn = p \<and>
     (if iterator = '''' then p = length (sv_records v) else sv_pos v iterator = p) \<and>
     (sn = '''' \<longrightarrow> InitialType st = TrimHorizon \<and> p = 0) \<and> sequenceNumber (cell s) = sn \<and>
     (shardIterator (cell s) \<noteq> '''' \<longrightarrow> sv_pos v (shardIterator (cell s)) = p)"

lemma starts_between: "starts v p st iterator sn s \<Longrightarrow> between v p st e iterator sn s 0"
  by (auto simp: starts_def between_def segment_def stands_def split: if_splits)

lemma segment_length: "segment v p s h \<Longrightarrow> length (handledRecords (trace s)) = h"
  by (auto simp: segment_def min_def)

lemma segment_event:
  assumes "segment v p s h" and "i < length (trace s)"
  shows "ev_ok v p (take i (trace s)) (trace s ! i)"
  using assms by (simp add: segment_def trace_ok_def)

text \<open>
  C21. With a client as the Kinesis API documents it, whatever requests fail and whenever iterators expire,
  the reader returns once its context is done and has then handed a contiguous run of the shard's records to the
  handler, in order, starting behind the checkpoint: no record twice, none left out. Every call of \<open>Advance\<close>
  named the position behind the records handled up to then, and \<open>Done\<close> came after the last record of the shard.
\<close>

theorem reader_in_order:
  assumes "client_ok v e" and "env_ok e" and "ctxDone e T" and "starts v p st iterator sn s"
  shows "\<exists>s' err. iterateRecords requestCancelChecks st e iterator sn s = Some (s', err) \<and>
    handledRecords (trace s') = take (length (handledRecords (trace s'))) (drop p (sv_records v)) \<and>
    (\<forall>i x it. i < length (trace s') \<longrightarrow> trace s' ! i = EvAdvance x it \<longrightarrow>
       sv_after v x = p + length (handledRecords (take i (trace s')))) \<and>
    (\<forall>i x. i < length (trace s') \<longrightarrow> trace s' ! i = EvDone x \<longrightarrow>
       p + length (handledRecords (take i (trace s'))) = length (sv_records v))"
proof -
  from iterateRecords_props [OF assms(1-3) starts_between [OF assms(4)]] obtain s' err h' where
    s': "iterateRecords requestCancelChecks st e iterator sn s = Some (s', err)" "segment v p s' h'" by blast
  have "handledRecords (trace s') = take (length (handledRecords (trace s'))) (drop p (sv_records v))"
    using s'(2) segment_length [OF s'(2)] by (simp add: segment_def)
  moreover have "sv_after v x = p + length (handledRecords (take i (trace s')))"
    if "i < length (trace s')" "trace s' ! i = EvAdvance x it" for i x it
    using segment_event [OF s'(2) that(1)] that(2) by (simp add: ev_ok_def)
  moreover have "p + length (handledRecords (take i (trace s'))) = length (sv_records v)"
    if "i < length (trace s')" "trace s' ! i = EvDone x" for i x
    using segment_event [OF s'(2) that(1)] that(2) by (simp add: ev_ok_def)
  ultimately show ?thesis using s'(1) by blast
qed

definition oneRecord :: krecord where
  "oneRecord = \<lparr>kr_Data = ''d'', kr_SequenceNumber = Some ''1'', kr_Arrival = 0\<rparr>"

definition oneRecordView :: shardView where
  "oneRecordView = \<lparr>sv_records = [oneRecord], sv_pos = (\<lambda>_. 0), sv_after = (\<lambda>sn. if sn = ''1'' then 1 else 0)\<rparr>"

definition oneRecordEnv :: readerEnv where
  "oneRecordEnv = \<lparr>ctxDone = (\<lambda>t. 50 \<le> t), timerFirst = (\<lambda>_. False), swapped = (\<lambda>_. False), released = (\<lambda>_. False),
     clockNow = (\<lambda>_. 7),
     GetRecords = (\<lambda>t it lim. if 50 \<le> t then Inl (Sentinel ''context.Canceled'' ''canceled'')
       else Inr \<lparr>Records = [oneRecord], NextShardIterator = None, MillisBehindLatest = None\<rparr>),
     GetShardIterator = (\<lambda>t input. Inl (Opaque ''none''))\<rparr>"

definition oneRecordSettings :: readerSettings where
  "oneRecordSettings = \<lparr>ConsumeDelay = 0, InitialType = TrimHorizon, InitialTimestamp = 0, MaxBatchSize = 10, WaitTime = 1000\<rparr>"

definition freshReader :: readerState where
  "freshReader = \<lparr>tick = 0, cell = \<lparr>ck_poisoned = False, owningClientId = ''c'', sequenceNumber = '''', shardIterator = '''',
     finalSequenceNumber = '''', finishedAt = None\<rparr>, trace = []\<rparr>"

lemma oneRecord_ok:
  "client_ok oneRecordView oneRecordEnv" "env_ok oneRecordEnv" "ctxDone oneRecordEnv 50" "alone oneRecordEnv"
  "starts oneRecordView 0 oneRecordSettings ''i'' '''' freshReader"
  by (auto simp: client_ok_def records_ok_def batch_ok_def cancel_error_def env_ok_def alone_def starts_def oneRecordView_def
      oneRecordEnv_def oneRecord_def oneRecordSettings_def freshReader_def EmptyIfNone_def)

theorem reader_in_order_witness:
  "\<exists>s' err. iterateRecords requestCancelChecks oneRecordSettings oneRecordEnv ''i'' '''' freshReader = Some (s', err) \<and>
    handledRecords (trace s') = take (length (handledRecords (trace s'))) [oneRecord]"
  using reader_in_order [OF oneRecord_ok(1,2,3,5)] by (auto simp: oneRecordView_def)

lemma lastHandled_after:
  assumes "client_ok v e" and "segment v p s h" and "sv_after v sn0 = p"
  shows "sv_after v (lastHandled sn0 (trace s)) = p + h"
proof (cases h)
  case 0
  then have "handledRecords (trace s) = []" using assms(2) by (simp add: segment_def)
  then show ?thesis using assms(3) 0 by (simp add: lastHandled_def)
next
  case (Suc k)
  then have pos: "p + k < length (sv_records v)" using assms(2) by (simp add: segment_def)
  then have "handledRecords (trace s) = take k (drop p (sv_records v)) @ [sv_records v ! (p + k)]"
    using assms(2) Suc by (simp add: segment_def take_Suc_conv_app_nth)
  then show ?thesis using client_ok_record(2) [OF assms(1) pos] Suc by (simp add: lastHandled_def)
qed

lemma handledRecords_take_le: "length (handledRecords (take i l)) \<le> length (handledRecords l)"
  by (metis append_take_drop_id handledRecords_append le_add1 length_append)

lemma release_fine:
  assumes "row = Some r" and "OwningClientId r = Some (owningClientId c)" and "\<not> ck_poisoned c"
  shows "\<exists>r'. releaseCheckpoint Fine n1 Fine n2 (Some c) row = (None, Some r', None) \<and> OwningClientId r' = None \<and>
    cr_SequenceNumber r' = sequenceNumber c \<and> (finishedAt c = None \<longrightarrow> cr_FinishedAt r' = None)"
  using assms by (auto simp: releaseCheckpoint_def ck_Persist_def ck_Release_def TryLock_def PoisonIf_def ddbWrite_def
      ownedBy_def persistRecord_def releaseRecord_def Let_def)


definition heldRow :: CheckpointRecord where
  "heldRow = \<lparr>UpdatedAt = 0, Ttl = 0, OwningClientId = Some ''c'', cr_SequenceNumber = '''', LastShardIterator = '''', cr_FinishedAt = None\<rparr>"


text \<open>
  The age of the batch is a number of milliseconds and is compared with the wait time as if it were
  nanoseconds: for a wait time of a second and more a reader that is up to eleven days late still waits
  between its calls instead of continuing immediately.
\<close>

theorem late_reader_still_waits:
  assumes "WaitTime st \<ge> second" and "ConsumeDelay st \<ge> 0" and "ms \<le> 1000 * 60 * 60 * 24 * 11"
  shows "nextWait st ms begun now = max 0 (WaitTime st - (now - begun))"
  using assms by (simp add: nextWait_def second_def)

theorem late_reader_still_waits_witness:
  "nextWait \<lparr>ConsumeDelay = 0, InitialType = TrimHorizon, InitialTimestamp = 0, MaxBatchSize = 10, WaitTime = second\<rparr>
     (1000 * 60 * 60) 5 5 = second"
  using late_reader_still_waits [of "\<lparr>ConsumeDelay = 0, InitialType = TrimHorizon, InitialTimestamp = 0, MaxBatchSize = 10,
      WaitTime = second\<rparr>" "1000 * 60 * 60" 5 5] by (simp add: second_def)

text \<open>A checkpoint whose last write fails is not released: the row keeps its owner and no second attempt is made.\<close>

lemma failed_persist_keeps_shard:
  assumes "\<not> ck_poisoned c"
  shows "\<exists>err. releaseCheckpoint (FailsBefore e) n1 f2 n2 (Some c) row = (None, row, Some err) \<and>
    releaseCheckpoint f3 n3 f4 n4 None row = (None, row, None)"
  using assms by (simp add: releaseCheckpoint_def ck_Persist_def TryLock_def ddbWrite_def Let_def)

end
