(* ===== verification/Conc.thy ===== *)
theory Conc
  imports Prelude GoErrors
begin

text \<open>
  The concurrency helpers of \<open>pkg/conc\<close>: the lock per key (\<open>key_lock.go\<close>) and the value created on
  demand (\<open>lazy.go\<close>). Goroutines are numbers; what runs
  under a mutex is one step, and the steps of all goroutines interleave freely.
\<close>

section \<open>The lock per key\<close>

text \<open>
  A goroutine is outside, or has registered for a key and waits for the entry's mutex, or holds it. An
  entry is named by a number that is never used again, as a pointer is while it is in use.
\<close>

datatype 'k lockPc = Outside | Waiting 'k nat | Inside 'k nat

record 'k keyLock =
  entries :: "'k \<Rightarrow> nat option"
  refCount :: "nat \<Rightarrow> nat"
  owner :: "nat \<Rightarrow> nat option"
  nextEntry :: nat
  lockPc :: "nat \<Rightarrow> 'k lockPc"

definition NewKeyLock :: "'k keyLock" where
  "NewKeyLock = \<lparr>entries = (\<lambda>_. None), refCount = (\<lambda>_. 0), owner = (\<lambda>_. None), nextEntry = 0, lockPc = (\<lambda>_. Outside)\<rparr>"

definition Lock_register :: "nat \<Rightarrow> 'k \<Rightarrow> 'k keyLock \<Rightarrow> 'k keyLock" where
  "Lock_register t k s =
     (case entries s k of
        Some e \<Rightarrow> s\<lparr>refCount := (refCount s)(e := refCount s e + 1), lockPc := (lockPc s)(t := Waiting k e)\<rparr>
      | None \<Rightarrow>
          (let e = nextEntry s
           in s\<lparr>entries := (entries s)(k := Some e), refCount := (refCount s)(e := 1), owner := (owner s)(e := None),
                nextEntry := e + 1, lockPc := (lockPc s)(t := Waiting k e)\<rparr>))"

definition Lock_enter :: "nat \<Rightarrow> 'k \<Rightarrow> nat \<Rightarrow> 'k keyLock \<Rightarrow> 'k keyLock" where
  "Lock_enter t k e s = s\<lparr>owner := (owner s)(e := Some t), lockPc := (lockPc s)(t := Inside k e)\<rparr>"

definition Lock_unlock :: "nat \<Rightarrow> 'k \<Rightarrow> nat \<Rightarrow> 'k keyLock \<Rightarrow> 'k keyLock" where
  "Lock_unlock t k e s =
     (let n = refCount s e - 1;
          s = s\<lparr>refCount := (refCount s)(e := n), owner := (owner s)(e := None), lockPc := (lockPc s)(t := Outside)\<rparr>
      in if n = 0 then s\<lparr>entries := (entries s)(k := None)\<rparr> else s)"

inductive lock_step :: "'k keyLock \<Rightarrow> 'k keyLock \<Rightarrow> bool" where
  register: "lockPc s t = Outside \<Longrightarrow> lock_step s (Lock_register t k s)"
| enter: "lockPc s t = Waiting k e \<Longrightarrow> owner s e = None \<Longrightarrow> lock_step s (Lock_enter t k e s)"
| unlock: "lockPc s t = Inside k e \<Longrightarrow> lock_step s (Lock_unlock t k e s)"

inductive lock_reachable :: "'k keyLock \<Rightarrow> bool" where
  lock_start: "lock_reachable NewKeyLock"
| lock_next: "lock_reachable s \<Longrightarrow> lock_step s s' \<Longrightarrow> lock_reachable s'"

inductive_cases lock_stepE: "lock_step s s'"

fun refers :: "'k lockPc \<Rightarrow> nat \<Rightarrow> bool" where
  "refers Outside e = False"
| "refers (Waiting k e') e = (e' = e)"
| "refers (Inside k e') e = (e' = e)"

definition users :: "'k keyLock \<Rightarrow> nat \<Rightarrow> nat set" where
  "users s e = {t. refers (lockPc s t) e}"

text \<open>
  Whoever refers to an entry finds it under its key; the count is the number of those who do; an
  entry without users is gone; the owner is the one inside.
\<close>

definition counted :: "'k keyLock \<Rightarrow> bool" where
  "counted s \<longleftrightarrow> (\<forall>k e. entries s k = Some e \<longrightarrow> e < nextEntry s \<and> refCount s e = card (users s e) \<and> users s e \<noteq> {})"

definition separate :: "'k keyLock \<Rightarrow> bool" where
  "separate s \<longleftrightarrow> (\<forall>k k' e. entries s k = Some e \<longrightarrow> entries s k' = Some e \<longrightarrow> k = k')"

definition registered :: "'k keyLock \<Rightarrow> bool" where
  "registered s \<longleftrightarrow> (\<forall>t k e. lockPc s t = Waiting k e \<or> lockPc s t = Inside k e \<longrightarrow> entries s k = Some e)"

definition owned :: "'k keyLock \<Rightarrow> bool" where
  "owned s \<longleftrightarrow> (\<forall>t k e. lockPc s t = Inside k e \<longrightarrow> owner s e = Some t) \<and>
     (\<forall>k e t. entries s k = Some e \<longrightarrow> owner s e = Some t \<longrightarrow> lockPc s t = Inside k e)"

definition finitely :: "'k keyLock \<Rightarrow> bool" where
  "finitely s \<longleftrightarrow> finite {t. lockPc s t \<noteq> Outside}"

definition lock_inv :: "'k keyLock \<Rightarrow> bool" where
  "lock_inv s \<longleftrightarrow> counted s \<and> separate s \<and> registered s \<and> owned s \<and> finitely s"

lemmas lock_inv_parts = counted_def separate_def registered_def owned_def

lemma refers_pc: "refers p e \<longleftrightarrow> (\<exists>k. p = Waiting k e \<or> p = Inside k e)"
  by (cases p) auto

lemma finite_users: "finitely s \<Longrightarrow> finite (users s e)"
  unfolding finitely_def users_def by (rule finite_subset [rotated]) auto

lemma inside_owner: "lock_inv s \<Longrightarrow> lockPc s t = Inside k e \<Longrightarrow> owner s e = Some t"
  unfolding lock_inv_def owned_def by blast

lemma owner_inside: "lock_inv s \<Longrightarrow> entries s k = Some e \<Longrightarrow> owner s e = Some t \<Longrightarrow> lockPc s t = Inside k e"
  unfolding lock_inv_def owned_def by blast

lemma lock_inv_new: "lock_inv NewKeyLock"
  by (simp add: lock_inv_def lock_inv_parts finitely_def NewKeyLock_def)

lemma finitely_upd: "finitely s \<Longrightarrow> lockPc s' = (lockPc s)(u := p) \<Longrightarrow> finitely s'"
proof -
  assume "finitely s" and "lockPc s' = (lockPc s)(u := p)"
  moreover then have "{t. lockPc s' t \<noteq> Outside} \<subseteq> insert u {t. lockPc s t \<noteq> Outside}" by auto
  ultimately show ?thesis unfolding finitely_def by (meson finite.insertI finite_subset)
qed

lemma lock_inv_register:
  assumes inv: "lock_inv s" and out: "lockPc s t = Outside"
  shows "lock_inv (Lock_register t k s)"
proof (cases "entries s k")
  case (Some e)
  let ?s = "Lock_register t k s"
  have s': "?s = s\<lparr>refCount := (refCount s)(e := refCount s e + 1), lockPc := (lockPc s)(t := Waiting k e)\<rparr>"
    using Some by (simp add: Lock_register_def)
  have ue: "users ?s e = insert t (users s e)" and uo: "\<And>e'. e' \<noteq> e \<Longrightarrow> users ?s e' = users s e'"
    using out by (auto simp: s' users_def)
  have "t \<notin> users s e" using out by (simp add: users_def)
  then have n: "card (users ?s e) = refCount s e + 1"
    using inv Some finite_users [of s e] by (simp add: ue lock_inv_def counted_def)
  have "counted ?s" unfolding counted_def
  proof (intro allI impI)
    fix k' e' assume "entries ?s k' = Some e'"
    then show "e' < nextEntry ?s \<and> refCount ?s e' = card (users ?s e') \<and> users ?s e' \<noteq> {}"
      using inv n ue uo [of e'] by (cases "e' = e") (auto simp: s' lock_inv_def counted_def)
  qed
  moreover have "separate ?s" using inv by (simp add: s' lock_inv_def separate_def)
  moreover have "registered ?s" using inv Some by (auto simp: s' lock_inv_def registered_def)
  moreover have "owned ?s" unfolding owned_def
  proof (intro conjI allI impI)
    fix u k' e' assume "lockPc ?s u = Inside k' e'"
    then have "lockPc s u = Inside k' e'" by (auto simp: s' split: if_splits)
    then show "owner ?s e' = Some u" using inside_owner [OF inv] by (simp add: s')
  next
    fix k' e' u assume "entries ?s k' = Some e'" "owner ?s e' = Some u"
    then have "lockPc s u = Inside k' e'" using owner_inside [OF inv] by (simp add: s')
    then show "lockPc ?s u = Inside k' e'" using out by (auto simp: s')
  qed
  moreover have "finitely ?s" using inv finitely_upd [of s ?s] by (simp add: s' lock_inv_def)
  ultimately show ?thesis by (simp add: lock_inv_def)
next
  case None
  let ?e = "nextEntry s" and ?s = "Lock_register t k s"
  have s': "?s = s\<lparr>entries := (entries s)(k := Some ?e), refCount := (refCount s)(?e := 1), owner := (owner s)(?e := None),
      nextEntry := ?e + 1, lockPc := (lockPc s)(t := Waiting k ?e)\<rparr>"
    using None by (simp add: Lock_register_def Let_def)
  have old: "entries s k' = Some e' \<Longrightarrow> e' < ?e" for k' e' using inv by (simp add: lock_inv_def counted_def)
  have pc: "lockPc s u = Waiting k' e' \<or> lockPc s u = Inside k' e' \<Longrightarrow> e' < ?e \<and> k' \<noteq> k" for u k' e'
  proof -
    assume "lockPc s u = Waiting k' e' \<or> lockPc s u = Inside k' e'"
    then have "entries s k' = Some e'" using inv unfolding lock_inv_def registered_def by blast
    then show ?thesis using old [of k' e'] None by auto
  qed
  have ue: "users ?s ?e = {t}"
    using pc by (auto simp: s' users_def refers_pc) 
  have uo: "\<And>e'. e' \<noteq> ?e \<Longrightarrow> users ?s e' = users s e'" using out by (auto simp: s' users_def)
  have "counted ?s" unfolding counted_def
  proof (intro allI impI)
    fix k' e' assume a: "entries ?s k' = Some e'"
    show "e' < nextEntry ?s \<and> refCount ?s e' = card (users ?s e') \<and> users ?s e' \<noteq> {}"
    proof (cases "e' = ?e")
      case True
      then show ?thesis using ue by (simp add: s')
    next
      case False
      then have o: "entries s k' = Some e'" using a by (auto simp: s' split: if_splits)
      with inv have "refCount s e' = card (users s e') \<and> users s e' \<noteq> {}" by (simp add: lock_inv_def counted_def)
      with False uo [OF False] old [OF o] show ?thesis by (simp add: s')
    qed
  qed
  moreover have "separate ?s" using inv old by (fastforce simp: s' lock_inv_def separate_def)
  moreover have "registered ?s" using inv pc by (fastforce simp: s' lock_inv_def registered_def)
  moreover have "owned ?s" unfolding owned_def
  proof (intro conjI allI impI)
    fix u k' e' assume "lockPc ?s u = Inside k' e'"
    then have "lockPc s u = Inside k' e'" by (auto simp: s' split: if_splits)
    then show "owner ?s e' = Some u" using inside_owner [OF inv] pc [of u k' e'] by (auto simp: s')
  next
    fix k' e' u assume "entries ?s k' = Some e'" "owner ?s e' = Some u"
    then have "entries s k' = Some e'" "owner s e' = Some u" by (auto simp: s' split: if_splits)
    then have "lockPc s u = Inside k' e'" using owner_inside [OF inv] by blast
    then show "lockPc ?s u = Inside k' e'" using out by (auto simp: s')
  qed
  moreover have "finitely ?s" using inv finitely_upd [of s ?s] by (simp add: s' lock_inv_def)
  ultimately show ?thesis by (simp add: lock_inv_def)
qed

lemma lock_inv_enter:
  assumes inv: "lock_inv s" and w: "lockPc s t = Waiting k e" and free: "owner s e = None"
  shows "lock_inv (Lock_enter t k e s)"
proof -
  let ?s = "Lock_enter t k e s"
  have e: "entries s k = Some e" using inv w by (simp add: lock_inv_def registered_def)
  have u: "users ?s = users s" using w by (auto simp: fun_eq_iff users_def Lock_enter_def)
  have "counted ?s" using inv by (simp add: u lock_inv_def counted_def) (simp add: Lock_enter_def)
  moreover have "separate ?s" using inv by (simp add: Lock_enter_def lock_inv_def separate_def)
  moreover have "registered ?s" using inv e by (simp add: Lock_enter_def lock_inv_def registered_def)
  moreover have "owned ?s" unfolding owned_def
  proof (intro conjI allI impI)
    fix u k' e' assume i: "lockPc ?s u = Inside k' e'"
    show "owner ?s e' = Some u"
    proof (cases "u = t")
      case False
      then have "owner s e' = Some u" using i inside_owner [OF inv] by (simp add: Lock_enter_def)
      with free show ?thesis by (auto simp: Lock_enter_def)
    qed (use i in \<open>simp add: Lock_enter_def\<close>)
  next
    fix k' e' u assume a: "entries ?s k' = Some e'" "owner ?s e' = Some u"
    show "lockPc ?s u = Inside k' e'"
    proof (cases "e' = e")
      case True
      then have "k' = k" using a(1) e inv by (auto simp: Lock_enter_def lock_inv_def separate_def)
      with True a(2) show ?thesis by (simp add: Lock_enter_def)
    next
      case False
      then have "lockPc s u = Inside k' e'" using a owner_inside [OF inv] by (simp add: Lock_enter_def)
      with w show ?thesis by (auto simp: Lock_enter_def)
    qed
  qed
  moreover have "finitely ?s" using inv finitely_upd [of s ?s] by (simp add: Lock_enter_def lock_inv_def)
  ultimately show ?thesis by (simp add: lock_inv_def)
qed

lemma lock_inv_unlock:
  assumes inv: "lock_inv s" and i: "lockPc s t = Inside k e"
  shows "lock_inv (Lock_unlock t k e s)"
proof -
  let ?s = "Lock_unlock t k e s"
  have e: "entries s k = Some e" using inv i by (simp add: lock_inv_def registered_def)
  have n: "refCount s e = card (users s e)" using inv e by (simp add: lock_inv_def counted_def)
  have t: "t \<in> users s e" using i by (simp add: users_def)
  have pc: "lockPc ?s = (lockPc s)(t := Outside)" and ow: "owner ?s = (owner s)(e := None)"
    and nx: "nextEntry ?s = nextEntry s" and rc: "refCount ?s = (refCount s)(e := refCount s e - 1)"
    and en: "entries ?s = (if refCount s e = 1 then (entries s)(k := None) else entries s)"
    using n t finite_users [of s e] inv card_gt_0_iff [of "users s e"]
    by (auto simp: Lock_unlock_def Let_def lock_inv_def)
  have ue: "users ?s e = users s e - {t}" and uo: "\<And>e'. e' \<noteq> e \<Longrightarrow> users ?s e' = users s e'"
    using i by (auto simp: users_def pc)
  have card: "card (users ?s e) = refCount s e - 1" using n t by (simp add: ue)
  have sub: "entries ?s k' = Some e' \<Longrightarrow> entries s k' = Some e'" for k' e' by (auto simp: en split: if_splits)
  have "counted ?s" unfolding counted_def
  proof (intro allI impI)
    fix k' e' assume a: "entries ?s k' = Some e'"
    show "e' < nextEntry ?s \<and> refCount ?s e' = card (users ?s e') \<and> users ?s e' \<noteq> {}"
    proof (cases "e' = e")
      case True
      then have "k' = k" using sub [OF a] e inv by (auto simp: lock_inv_def separate_def)
      then have "refCount s e \<noteq> 1" using a by (auto simp: en)
      moreover have "refCount s e > 0" using n t finite_users [of s e] inv by (auto simp: lock_inv_def card_gt_0_iff)
      ultimately have "card (users ?s e) \<noteq> 0" using card by simp
      then have "users ?s e \<noteq> {}" by (metis card.empty)
      with True card sub [OF a] inv show ?thesis by (auto simp: nx rc lock_inv_def counted_def)
    next
      case False
      with sub [OF a] inv uo [OF False] show ?thesis by (auto simp: nx rc lock_inv_def counted_def)
    qed
  qed
  moreover have "separate ?s" using inv sub by (meson lock_inv_def separate_def)
  moreover have "registered ?s" unfolding registered_def
  proof (intro allI impI)
    fix u k' e' assume a: "lockPc ?s u = Waiting k' e' \<or> lockPc ?s u = Inside k' e'"
    then have u: "u \<noteq> t" "lockPc s u = Waiting k' e' \<or> lockPc s u = Inside k' e'" by (auto simp: pc split: if_splits)
    then have ek: "entries s k' = Some e'" using inv by (auto simp: lock_inv_def registered_def)
    have "refCount s e \<noteq> 1" if "k' = k"
    proof -
      have "e' = e" using that ek e by simp
      then have "u \<in> users ?s e" using a by (auto simp: users_def refers_pc)
      then have "card (users ?s e) > 0" using finite_users [of s e] inv by (auto simp: ue card_gt_0_iff lock_inv_def)
      then show ?thesis using card by simp
    qed
    with ek show "entries ?s k' = Some e'" by (auto simp: en)
  qed
  moreover have "owned ?s" unfolding owned_def
  proof (intro conjI allI impI)
    fix u k' e' assume "lockPc ?s u = Inside k' e'"
    then have u: "u \<noteq> t" "lockPc s u = Inside k' e'" by (auto simp: pc split: if_splits)
    then have "owner s e' = Some u" "owner s e = Some t" using inside_owner [OF inv] i by blast+
    with u show "owner ?s e' = Some u" by (auto simp: ow)
  next
    fix k' e' u assume a: "entries ?s k' = Some e'" "owner ?s e' = Some u"
    then have "owner s e' = Some u" "e' \<noteq> e" by (auto simp: ow split: if_splits)
    then have "lockPc s u = Inside k' e'" using sub [OF a(1)] owner_inside [OF inv] by blast
    with i \<open>e' \<noteq> e\<close> show "lockPc ?s u = Inside k' e'" by (auto simp: pc)
  qed
  moreover have "finitely ?s" using inv finitely_upd [of s ?s, OF _ pc] by (simp add: lock_inv_def)
  ultimately show ?thesis by (simp add: lock_inv_def)
qed

lemma lock_step_inv: "lock_step s s' \<Longrightarrow> lock_inv s \<Longrightarrow> lock_inv s'"
  by (elim lock_stepE) (simp_all add: lock_inv_register lock_inv_enter lock_inv_unlock)

lemma lock_reachable_inv: "lock_reachable s \<Longrightarrow> lock_inv s"
  by (induction rule: lock_reachable.induct) (simp_all add: lock_inv_new lock_step_inv)

text \<open>
  The contract: at any time a key is held by at most one goroutine. \<open>holder\<close> reads that off the entries.
\<close>

definition holder :: "'k keyLock \<Rightarrow> 'k \<Rightarrow> nat option" where
  "holder s k = (case entries s k of None \<Rightarrow> None | Some e \<Rightarrow> owner s e)"

lemma holder_inside:
  assumes "lock_inv s"
  shows "holder s k = Some t \<longleftrightarrow> (\<exists>e. lockPc s t = Inside k e)"
proof
  assume "holder s k = Some t"
  then obtain e where "entries s k = Some e" "owner s e = Some t" by (auto simp: holder_def split: option.splits)
  then show "\<exists>e. lockPc s t = Inside k e" using owner_inside [OF assms] by blast
next
  assume "\<exists>e. lockPc s t = Inside k e"
  then obtain e where e: "lockPc s t = Inside k e" by blast
  then have "entries s k = Some e" using assms unfolding lock_inv_def registered_def by blast
  with inside_owner [OF assms e] show "holder s k = Some t" by (simp add: holder_def)
qed

lemma holder_ext:
  assumes "lock_inv s" and "lock_inv s'" and "\<And>t. (\<exists>e. lockPc s' t = Inside k e) \<longleftrightarrow> (\<exists>e. lockPc s t = Inside k e)"
  shows "holder s' k = holder s k"
  using holder_inside [OF assms(1), of k] holder_inside [OF assms(2), of k] assms(3)
  by (metis option.exhaust)

text \<open>
  C26. The lock per key implements one lock for every key: registering changes no lock, entering takes
  the lock of the key when nobody holds it, and unlocking gives back the lock of the key the goroutine
  held and no other. When all goroutines are outside no entry is left in the map.
\<close>

theorem keyLock_refines_locks:
  assumes "lock_reachable s"
  shows "(\<forall>t k. lockPc s t = Outside \<longrightarrow> holder (Lock_register t k s) = holder s) \<and>
    (\<forall>t k e. lockPc s t = Waiting k e \<longrightarrow> owner s e = None \<longrightarrow>
       holder s k = None \<and> holder (Lock_enter t k e s) = (holder s)(k := Some t)) \<and>
    (\<forall>t k e. lockPc s t = Inside k e \<longrightarrow>
       holder s k = Some t \<and> holder (Lock_unlock t k e s) = (holder s)(k := None)) \<and>
    ((\<forall>t. lockPc s t = Outside) \<longrightarrow> (\<forall>k. entries s k = None))"
proof (intro conjI allI impI)
  have inv: "lock_inv s" using assms by (rule lock_reachable_inv)
  note at_key = holder_inside [OF inv]
  {
    fix t k assume o: "lockPc s t = Outside"
    have "lockPc (Lock_register t k s) u = Inside k' e \<longleftrightarrow> lockPc s u = Inside k' e" for u k' e
      using o by (auto simp: Lock_register_def Let_def split: option.splits)
    then show "holder (Lock_register t k s) = holder s"
      by (intro ext holder_ext [OF inv lock_inv_register [OF inv o]]) simp
  next
    fix t k e assume w: "lockPc s t = Waiting k e" and free: "owner s e = None"
    have e: "entries s k = Some e" using inv w unfolding lock_inv_def registered_def by blast
    with free show "holder s k = None" by (simp add: holder_def)
    have "holder (Lock_enter t k e s) k' = ((holder s)(k := Some t)) k'" for k'
    proof (cases "k' = k")
      case True
      then show ?thesis using e by (simp add: holder_def Lock_enter_def)
    next
      case False
      have "entries s k' \<noteq> Some e" using False e inv unfolding lock_inv_def separate_def by blast
      with False show ?thesis by (auto simp: holder_def Lock_enter_def split: option.splits)
    qed
    then show "holder (Lock_enter t k e s) = (holder s)(k := Some t)" by blast
  next
    fix t k e assume i: "lockPc s t = Inside k e"
    show "holder s k = Some t" using at_key i by blast
    have e: "entries s k = Some e" using inv i unfolding lock_inv_def registered_def by blast
    have "holder (Lock_unlock t k e s) k' = ((holder s)(k := None)) k'" for k'
    proof (cases "k' = k")
      case True
      then show ?thesis using e by (simp add: holder_def Lock_unlock_def Let_def)
    next
      case False
      have "entries s k' \<noteq> Some e" using False e inv unfolding lock_inv_def separate_def by blast
      with False show ?thesis by (auto simp: holder_def Lock_unlock_def Let_def split: option.splits)
    qed
    then show "holder (Lock_unlock t k e s) = (holder s)(k := None)" by blast
  next
    fix k assume out: "\<forall>t. lockPc s t = Outside"
    show "entries s k = None"
    proof (rule ccontr)
      assume "entries s k \<noteq> None"
      then obtain e where "entries s k = Some e" by auto
      then have "users s e \<noteq> {}" using inv unfolding lock_inv_def counted_def by blast
      with out show False by (simp add: users_def)
    qed
  }
qed

theorem keyLock_refines_locks_witness:
  "holder (Lock_enter 1 ''a'' 0 (Lock_register 2 ''a'' (Lock_register 1 ''a'' NewKeyLock))) ''a'' = Some 1"
proof -
  let ?s = "Lock_register 2 ''a'' (Lock_register 1 ''a'' NewKeyLock)"
  have r: "lock_reachable ?s"
    by (intro lock_next [OF lock_next [OF lock_start register] register])
      (simp_all add: NewKeyLock_def Lock_register_def Let_def)
  have w: "lockPc ?s 1 = Waiting ''a'' 0" "owner ?s 0 = None"
    by (simp_all add: NewKeyLock_def Lock_register_def Let_def)
  have "holder (Lock_enter 1 ''a'' 0 ?s) = (holder ?s)(''a'' := Some 1)"
    using keyLock_refines_locks [OF r] w by blast
  then show ?thesis by simp
qed

text \<open>A goroutine that waits can enter, or another one is inside the lock of its key.\<close>

lemma keyLock_progress:
  assumes "lock_reachable s" and "lockPc s t = Waiting k e"
  shows "lock_step s (Lock_enter t k e s) \<or> (\<exists>u. lockPc s u = Inside k e)"
proof (cases "owner s e")
  case None
  then show ?thesis using lock_step.enter [OF assms(2)] by blast
next
  case (Some u)
  have inv: "lock_inv s" using assms(1) by (rule lock_reachable_inv)
  then have "entries s k = Some e" using assms(2) unfolding lock_inv_def registered_def by blast
  with owner_inside [OF inv] Some show ?thesis by blast
qed

section \<open>A value created on demand\<close>

text \<open>
  \<open>Get\<close> looks at the value under the read lock and, when it is not set, once more under the write lock, where
  it calls the initialiser. \<open>calls\<close> collects the results of the initialiser; each call may give another one.
\<close>

datatype ('a, 'v) lazyPc = LazyIdle | LazyMissed 'a | LazyDone "goerr + 'v"

record ('a, 'v) lazy =
  lz_val :: "'v option"
  lz_calls :: "(goerr + 'v) list"
  lz_pc :: "nat \<Rightarrow> ('a, 'v) lazyPc"

definition NewLazy :: "('a, 'v) lazy" where
  "NewLazy = \<lparr>lz_val = None, lz_calls = [], lz_pc = (\<lambda>_. LazyIdle)\<rparr>"

definition Lazy_read :: "nat \<Rightarrow> 'a \<Rightarrow> ('a, 'v) lazy \<Rightarrow> ('a, 'v) lazy" where
  "Lazy_read t arg s =
     s\<lparr>lz_pc := (lz_pc s)(t := (case lz_val s of Some v \<Rightarrow> LazyDone (Inr v) | None \<Rightarrow> LazyMissed arg))\<rparr>"

definition Lazy_write :: "('a \<Rightarrow> (goerr + 'v) list \<Rightarrow> goerr + 'v) \<Rightarrow> nat \<Rightarrow> 'a \<Rightarrow> ('a, 'v) lazy \<Rightarrow> ('a, 'v) lazy" where
  "Lazy_write init t arg s =
     (case lz_val s of
        Some v \<Rightarrow> s\<lparr>lz_pc := (lz_pc s)(t := LazyDone (Inr v))\<rparr>
      | None \<Rightarrow>
          (let r = init arg (lz_calls s)
           in s\<lparr>lz_val := (case r of Inl _ \<Rightarrow> None | Inr v \<Rightarrow> Some v), lz_calls := lz_calls s @ [r],
                lz_pc := (lz_pc s)(t := LazyDone r)\<rparr>))"

inductive lazy_step :: "('a \<Rightarrow> (goerr + 'v) list \<Rightarrow> goerr + 'v) \<Rightarrow> ('a, 'v) lazy \<Rightarrow> ('a, 'v) lazy \<Rightarrow> bool"
  for init :: "'a \<Rightarrow> (goerr + 'v) list \<Rightarrow> goerr + 'v" where
  lazy_read: "lz_pc s t = LazyIdle \<or> lz_pc s t = LazyDone r \<Longrightarrow> lazy_step init s (Lazy_read t arg s)"
| lazy_write: "lz_pc s t = LazyMissed arg \<Longrightarrow> lazy_step init s (Lazy_write init t arg s)"

inductive lazy_reachable :: "('a \<Rightarrow> (goerr + 'v) list \<Rightarrow> goerr + 'v) \<Rightarrow> ('a, 'v) lazy \<Rightarrow> bool"
  for init :: "'a \<Rightarrow> (goerr + 'v) list \<Rightarrow> goerr + 'v" where
  lazy_start: "lazy_reachable init NewLazy"
| lazy_next: "lazy_reachable init s \<Longrightarrow> lazy_step init s s' \<Longrightarrow> lazy_reachable init s'"

definition lazy_inv :: "('a, 'v) lazy \<Rightarrow> bool" where
  "lazy_inv s \<longleftrightarrow>
     (case lz_val s of
        None \<Rightarrow> (\<forall>r \<in> set (lz_calls s). \<exists>e. r = Inl e)
      | Some v \<Rightarrow> \<exists>es. lz_calls s = map Inl es @ [Inr v]) \<and>
     (\<forall>t r. lz_pc s t = LazyDone r \<longrightarrow> r \<in> set (lz_calls s))"

lemma all_Inl: "\<forall>r \<in> set rs. \<exists>e. r = Inl e \<Longrightarrow> \<exists>es. rs = map Inl es"
  by (induction rs) (auto, metis list.simps(9))

lemma lazy_step_inv: "lazy_step init s s' \<Longrightarrow> lazy_inv s \<Longrightarrow> lazy_inv s'"
proof (induction rule: lazy_step.induct)
  case (lazy_read s t r arg)
  then show ?case by (auto simp: lazy_inv_def Lazy_read_def split: option.splits)
next
  case (lazy_write s t arg)
  show ?case
  proof (cases "lz_val s")
    case (Some v)
    then show ?thesis using lazy_write.prems by (auto simp: lazy_inv_def Lazy_write_def)
  next
    case None
    then obtain es where "lz_calls s = map Inl es" using lazy_write.prems all_Inl [of "lz_calls s"] by (auto simp: lazy_inv_def)
    then show ?thesis using lazy_write.prems None
      by (cases "init arg (lz_calls s)") (auto simp: lazy_inv_def Lazy_write_def Let_def)
  qed
qed

lemma lazy_reachable_inv: "lazy_reachable init s \<Longrightarrow> lazy_inv s"
proof (induction rule: lazy_reachable.induct)
  case lazy_start
  then show ?case by (simp add: lazy_inv_def NewLazy_def)
next
  case (lazy_next s s')
  then show ?case by (simp add: lazy_step_inv)
qed

text \<open>
  However the goroutines interleave, the initialiser succeeds at most once, is never called again after
  that, and every call of \<open>Get\<close> that succeeds returns that one value.
\<close>

lemma lazy_once:
  assumes "lazy_reachable init s" and "lz_pc s t = LazyDone (Inr v)"
  shows "lz_val s = Some v \<and> (\<exists>es. lz_calls s = map Inl es @ [Inr v])"
proof -
  have inv: "lazy_inv s" using assms(1) by (rule lazy_reachable_inv)
  then have r: "Inr v \<in> set (lz_calls s)" using assms(2) by (auto simp: lazy_inv_def)
  show ?thesis
  proof (cases "lz_val s")
    case None
    with inv r show ?thesis by (auto simp: lazy_inv_def)
  next
    case (Some w)
    with inv obtain es where "lz_calls s = map Inl es @ [Inr w]" by (auto simp: lazy_inv_def)
    with r Some show ?thesis by auto
  qed
qed

end
