(* ===== verification/DistLock.thy ===== *)
theory DistLock
  imports KinesisMeta
begin

text \<open>
  The distributed lock and the leader election of \<open>pkg/conc/ddb\<close> on a table with conditional writes.
  A lock is an item with a random token and a time to live in whole seconds; the object the caller
  holds knows when it expires in microseconds. Times are nanoseconds. The retrying executor decides how
  often a function is called; here every call is a request of its own.
\<close>

section \<open>Requests\<close>

definition ErrLockOwned :: goerr where
  "ErrLockOwned = Sentinel ''conc.ErrLockOwned'' ''lock owned''"

definition ErrLockNotOwned :: goerr where
  "ErrLockNotOwned = Sentinel ''conc.ErrLockNotOwned'' ''the lock was not (no longer) owned by you''"

record DdbLockItem =
  Token :: string
  li_Ttl :: int

record ddbLock =
  lk_token :: string
  lk_expires :: int

definition UnixMicro :: "int \<Rightarrow> int" where "UnixMicro t = t div 1000"

definition acquireOnce :: "fault \<Rightarrow> int \<Rightarrow> int \<Rightarrow> string \<Rightarrow> DdbLockItem option \<Rightarrow> DdbLockItem option \<times> (goerr + ddbLock)" where
  "acquireOnce f now defaultLockTime token row =
     (let ttlThreshold = Unix now - 5;
          expires = now + defaultLockTime
      in case ddbWrite f (\<lambda>row. case row of None \<Rightarrow> True | Some item \<Rightarrow> li_Ttl item < ttlThreshold)
                (\<lambda>_. Some \<lparr>Token = token, li_Ttl = Unix expires\<rparr>) row of
           (row, Inl err) \<Rightarrow> (row, Inl err)
         | (row, Inr True) \<Rightarrow> (row, Inl ErrLockOwned)
         | (row, Inr False) \<Rightarrow> (row, Inr \<lparr>lk_token = token, lk_expires = UnixMicro expires\<rparr>))"

definition hasToken :: "string \<Rightarrow> DdbLockItem option \<Rightarrow> bool" where
  "hasToken token row = (case row of None \<Rightarrow> False | Some item \<Rightarrow> Token item = token)"

definition renewOnce :: "fault \<Rightarrow> int \<Rightarrow> int \<Rightarrow> string \<Rightarrow> DdbLockItem option \<Rightarrow> DdbLockItem option \<times> (goerr + int)" where
  "renewOnce f now lockTime token row =
     (let expiry = now + lockTime in
      case ddbWrite f (hasToken token) (map_option (\<lambda>item. item\<lparr>li_Ttl := Unix expiry\<rparr>)) row of
        (row, Inl err) \<Rightarrow> (row, Inl (errorf_w ''failed to renew lock: '' err ''''))
      | (row, Inr True) \<Rightarrow> (row, Inl ErrLockNotOwned)
      | (row, Inr False) \<Rightarrow> (row, Inr expiry))"

definition ReleaseLock :: "fault \<Rightarrow> string \<Rightarrow> DdbLockItem option \<Rightarrow> DdbLockItem option \<times> error" where
  "ReleaseLock f token row =
     (case ddbWrite f (hasToken token) (\<lambda>_. None) row of
        (row, Inl err) \<Rightarrow> (row, Some err)
      | (row, Inr True) \<Rightarrow> (row, Some ErrLockNotOwned)
      | (row, Inr False) \<Rightarrow> (row, None))"

definition CheckDdbLockError :: "RequestCanceledCheck list \<Rightarrow> 'r ErrorChecker" where
  "CheckDdbLockError checks r err =
     (if IsRequestCanceled checks (Some err) \<or> errors_is err ''conc.ErrLockNotOwned'' then ErrorTypePermanent
      else ErrorTypeRetryable)"

text \<open>\<open>Renew\<close> on a lock object, \<open>None\<close> being the nil pointer that a failed acquisition leaves.\<close>

definition Lock_Renew ::
  "fault \<Rightarrow> int \<Rightarrow> int \<Rightarrow> ddbLock option \<Rightarrow> DdbLockItem option \<Rightarrow> DdbLockItem option \<times> ddbLock option \<times> error" where
  "Lock_Renew f now lockTime l row =
     (case l of
        None \<Rightarrow> (row, None, Some ErrLockNotOwned)
      | Some l \<Rightarrow>
          (case renewOnce f now lockTime (lk_token l) row of
             (row, Inl err) \<Rightarrow> (row, Some l, Some err)
           | (row, Inr expiry) \<Rightarrow> (row, Some (l\<lparr>lk_expires := UnixMicro expiry\<rparr>), None)))"

definition expiresIn :: "ddbLock \<Rightarrow> int \<Rightarrow> int" where
  "expiresIn l now = lk_expires l * 1000 - now"

text \<open>\<open>later\<close> is the clock when the request has returned.\<close>

definition Lock_Release ::
  "RequestCanceledCheck list \<Rightarrow> fault \<Rightarrow> int \<Rightarrow> int \<Rightarrow> ddbLock option \<Rightarrow> DdbLockItem option \<Rightarrow> DdbLockItem option \<times> error" where
  "Lock_Release checks f now later l row =
     (case l of
        None \<Rightarrow> (row, Some ErrLockNotOwned)
      | Some l \<Rightarrow>
          if expiresIn l now \<le> 0 then (row, Some ErrLockNotOwned)
          else (case ReleaseLock f (lk_token l) row of
                  (row, err) \<Rightarrow> (row, if IsRequestCanceled checks err \<and> expiresIn l later \<le> 0 then None else err)))"

text \<open>\<open>TryAcquireIn\<close> hides a lock that is owned and a deadline that passed.\<close>

definition TryAcquireIn :: "goerr + ddbLock \<Rightarrow> ddbLock option \<times> error" where
  "TryAcquireIn r =
     (case r of
        Inr l \<Rightarrow> (Some l, None)
      | Inl err \<Rightarrow>
          if errors_is err ''context.DeadlineExceeded'' \<or> errors_is err ''conc.ErrLockOwned'' then (None, None)
          else (None, Some err))"

section \<open>Leader election\<close>

record LeaderItem =
  MemberId :: string
  LeadingUntil :: int

definition IsLeader ::
  "fault \<Rightarrow> int \<Rightarrow> int \<Rightarrow> string \<Rightarrow> LeaderItem option \<Rightarrow> LeaderItem option \<times> (goerr + bool)" where
  "IsLeader f now leaseDuration memberId row =
     (let leadingUntil = Unix (now + leaseDuration) in
      case ddbWrite f
             (\<lambda>row. case row of
                None \<Rightarrow> True
              | Some item \<Rightarrow> MemberId item = memberId \<or> (MemberId item \<noteq> memberId \<and> LeadingUntil item < Unix now))
             (\<lambda>_. Some \<lparr>MemberId = memberId, LeadingUntil = leadingUntil\<rparr>) row of
        (row, Inr failed) \<Rightarrow> (row, Inr (\<not> failed))
      | (row, Inl err) \<Rightarrow>
          (row, Inl (if as_typed ''ddb.TableNotFoundError'' err \<noteq> None
            then Typed ''conc.LeaderElectionFatalError'' (''fatal error during leader election: '' @ err_text err) err
            else Typed ''conc.LeaderElectionTransientError'' (''transient error during leader election: '' @ err_text err) err)))"

definition Resign :: "fault \<Rightarrow> string \<Rightarrow> LeaderItem option \<Rightarrow> LeaderItem option \<times> error" where
  "Resign f memberId row =
     (case ddbWrite f (\<lambda>row. case row of None \<Rightarrow> False | Some item \<Rightarrow> MemberId item = memberId) (\<lambda>_. None) row of
        (row, Inl err) \<Rightarrow> (row, Some (errorf_w ''can not resign as current leader: '' err ''''))
      | (row, Inr _) \<Rightarrow> (row, None))"

section \<open>Many holders\<close>

text \<open>
  The processes that want the lock of one resource, each named by the token of its call of \<open>Acquire\<close>, with
  clocks that are off from the common time by a fixed amount. \<open>DExpire\<close> is the table deleting
  the item after its time to live.
\<close>

record lockSys =
  lrow :: "DdbLockItem option"
  lnow :: int
  held :: "string \<Rightarrow> ddbLock option"

record lockEnv =
  lskew :: "string \<Rightarrow> int"
  lockTimeOf :: int

datatype lockAct =
    DTick nat
  | DTry string fault
  | DRenew string fault int
  | DRelease string fault
  | DExpire

definition lclock :: "lockEnv \<Rightarrow> lockSys \<Rightarrow> string \<Rightarrow> int" where
  "lclock env s t = lnow s + lskew env t"

fun dstep :: "lockEnv \<Rightarrow> int \<Rightarrow> lockAct \<Rightarrow> lockSys \<Rightarrow> lockSys option" where
  "dstep env E (DTick n) s = Some (s\<lparr>lnow := lnow s + int n\<rparr>)"
| "dstep env E (DTry t f) s =
     (case held s t of
        Some _ \<Rightarrow> None
      | None \<Rightarrow>
          (case acquireOnce f (lclock env s t) (lockTimeOf env) t (lrow s) of
             (row, Inl _) \<Rightarrow> Some (s\<lparr>lrow := row\<rparr>)
           | (row, Inr l) \<Rightarrow> Some (s\<lparr>lrow := row, held := (held s)(t := Some l)\<rparr>)))"
| "dstep env E (DRenew t f lockTime) s =
     (case held s t of
        None \<Rightarrow> None
      | Some l \<Rightarrow>
          (case Lock_Renew f (lclock env s t) lockTime (Some l) (lrow s) of
             (row, l, _) \<Rightarrow> Some (s\<lparr>lrow := row, held := (held s)(t := l)\<rparr>)))"
| "dstep env E (DRelease t f) s =
     (case held s t of
        None \<Rightarrow> None
      | Some l \<Rightarrow>
          (case Lock_Release requestCancelChecks f (lclock env s t) (lclock env s t) (Some l) (lrow s) of
             (row, _) \<Rightarrow> Some (s\<lparr>lrow := row, held := (held s)(t := None)\<rparr>)))"
| "dstep env E DExpire s =
     (case lrow s of
        None \<Rightarrow> None
      | Some item \<Rightarrow> if lnow s \<ge> (li_Ttl item + 1) * second + E then Some (s\<lparr>lrow := None\<rparr>) else None)"

fun drun :: "lockEnv \<Rightarrow> int \<Rightarrow> lockAct list \<Rightarrow> lockSys \<Rightarrow> lockSys option" where
  "drun env E [] s = Some s"
| "drun env E (a # as) s = (case dstep env E a s of None \<Rightarrow> None | Some s' \<Rightarrow> drun env E as s')"

definition dstart :: "DdbLockItem option \<Rightarrow> int \<Rightarrow> lockSys" where
  "dstart row now = \<lparr>lrow = row, lnow = now, held = (\<lambda>_. None)\<rparr>"

text \<open>A lock is valid while its holder's clock has not reached its expiry.\<close>

definition valid :: "lockEnv \<Rightarrow> lockSys \<Rightarrow> string \<Rightarrow> ddbLock \<Rightarrow> bool" where
  "valid env s t l \<longleftrightarrow> held s t = Some l \<and> expiresIn l (lclock env s t) > 0"

text \<open>
  Clocks differ by at most five seconds, a renewal never asks for less time than the acquisition and
  always for the same.
\<close>

definition locks_ok :: "lockEnv \<Rightarrow> int \<Rightarrow> int \<Rightarrow> lockAct list \<Rightarrow> bool" where
  "locks_ok env E D as \<longleftrightarrow> (\<forall>t. \<bar>lskew env t\<bar> \<le> E) \<and> 2 * E \<le> 5 * second \<and> lockTimeOf env \<le> D \<and>
     (\<forall>t f d. DRenew t f d \<in> set as \<longrightarrow> d = D)"

definition row_covers :: "DdbLockItem option \<Rightarrow> string \<Rightarrow> ddbLock \<Rightarrow> bool" where
  "row_covers row t l \<longleftrightarrow> (\<exists>item. row = Some item \<and> Token item = t \<and> lk_expires l * 1000 < (li_Ttl item + 1) * second)"

definition lock_sys_inv :: "lockEnv \<Rightarrow> int \<Rightarrow> lockSys \<Rightarrow> bool" where
  "lock_sys_inv env D s \<longleftrightarrow>
     (\<forall>t l. held s t = Some l \<longrightarrow> lk_token l = t \<and> lk_expires l * 1000 \<le> lclock env s t + D \<and>
        (valid env s t l \<longrightarrow> row_covers (lrow s) t l))"

lemma floor_less: "t < (Unix t + 1) * second"
  by (simp add: Unix_def second_def)

lemma UnixMicro_le: "UnixMicro t * 1000 \<le> t"
  by (simp add: UnixMicro_def)

lemma row_covers_token: "row_covers row t l \<Longrightarrow> hasToken u row \<Longrightarrow> u = t"
  by (auto simp: row_covers_def hasToken_def)

text \<open>Nobody can overwrite or delete the item of a valid lock.\<close>

lemma valid_blocks_put:
  assumes "locks_ok env E D as" and "valid env s t l" and "row_covers (lrow s) t l"
  shows "\<not> (case lrow s of None \<Rightarrow> True | Some item \<Rightarrow> li_Ttl item < Unix (lclock env s u) - 5)"
proof
  assume put: "case lrow s of None \<Rightarrow> True | Some item \<Rightarrow> li_Ttl item < Unix (lclock env s u) - 5"
  from assms(3) obtain item where i: "lrow s = Some item" "lk_expires l * 1000 < (li_Ttl item + 1) * second"
    by (auto simp: row_covers_def)
  have "li_Ttl item + 6 \<le> Unix (lclock env s u)" using put i(1) by simp
  moreover have "Unix (lclock env s u) * second \<le> lclock env s u" by (simp add: Unix_def second_def)
  ultimately have "(li_Ttl item + 6) * second \<le> lclock env s u" by (simp add: second_def)
  moreover have "lclock env s u \<le> lclock env s t + 2 * E" "2 * E \<le> 5 * second"
  proof -
    have "\<bar>lskew env u\<bar> \<le> E" "\<bar>lskew env t\<bar> \<le> E" using assms(1) by (auto simp: locks_ok_def)
    then show "lclock env s u \<le> lclock env s t + 2 * E" by (simp add: lclock_def)
    show "2 * E \<le> 5 * second" using assms(1) by (simp add: locks_ok_def)
  qed
  moreover have "lclock env s t < lk_expires l * 1000" using assms(2) by (simp add: valid_def expiresIn_def)
  ultimately show False using i(2) by (simp add: second_def)
qed

lemma valid_blocks_expiry:
  assumes "locks_ok env E D as" and "valid env s t l" and "row_covers (lrow s) t l" and "lrow s = Some item"
  shows "lnow s < (li_Ttl item + 1) * second + E"
proof -
  have "lk_expires l * 1000 < (li_Ttl item + 1) * second" using assms(3,4) by (auto simp: row_covers_def)
  moreover have "lclock env s t < lk_expires l * 1000" using assms(2) by (simp add: valid_def expiresIn_def)
  moreover have "lnow s \<le> lclock env s t + E"
  proof -
    have "\<bar>lskew env t\<bar> \<le> E" using assms(1) by (auto simp: locks_ok_def)
    then show ?thesis by (simp add: lclock_def)
  qed
  ultimately show ?thesis by linarith
qed

lemma acquireOnce_cases:
  assumes "acquireOnce f now lt t row = (row', r)"
  shows "row' = row \<and> (\<exists>err. r = Inl err) \<or>
    (case row of None \<Rightarrow> True | Some item \<Rightarrow> li_Ttl item < Unix now - 5) \<and>
      row' = Some \<lparr>Token = t, li_Ttl = Unix (now + lt)\<rparr> \<and>
      (\<forall>l. r = Inr l \<longrightarrow> l = \<lparr>lk_token = t, lk_expires = UnixMicro (now + lt)\<rparr>)"
  using assms by (auto simp: acquireOnce_def ddbWrite_def Let_def split: fault.splits if_splits)

lemma renewOnce_cases:
  assumes "renewOnce f now lt t row = (row', r)"
  shows "row' = row \<and> (\<exists>err. r = Inl err) \<or>
    hasToken t row \<and> row' = map_option (\<lambda>item. item\<lparr>li_Ttl := Unix (now + lt)\<rparr>) row \<and> (\<forall>x. r = Inr x \<longrightarrow> x = now + lt)"
  using assms by (auto simp: renewOnce_def ddbWrite_def Let_def split: fault.splits if_splits)

lemma Lock_Release_row:
  "fst (Lock_Release checks f n1 n2 (Some l) row) = row \<or>
   hasToken (lk_token l) row \<and> fst (Lock_Release checks f n1 n2 (Some l) row) = None"
  by (auto simp: Lock_Release_def ReleaseLock_def ddbWrite_def split: fault.splits)

lemma lock_inv_valid: "lock_sys_inv env D s \<Longrightarrow> valid env s t l \<Longrightarrow> row_covers (lrow s) t l"
  by (simp add: lock_sys_inv_def valid_def)

lemma valid_cong: "held s' t = held s t \<Longrightarrow> lnow s' = lnow s \<Longrightarrow> valid env s' t l = valid env s t l"
  by (simp add: valid_def lclock_def)

lemma lock_sys_inv_frame:
  assumes "lock_sys_inv env D s" and "lnow s' = lnow s"
    and "\<And>u l. held s' u = Some l \<Longrightarrow> held s u = Some l"
    and "\<And>u l. held s' u = Some l \<Longrightarrow> valid env s u l \<Longrightarrow> row_covers (lrow s') u l"
  shows "lock_sys_inv env D s'"
  using assms unfolding lock_sys_inv_def valid_def lclock_def by auto

lemma dstep_inv:
  assumes ok: "locks_ok env E D as" and inv: "lock_sys_inv env D s" and a: "a \<in> set as" and step: "dstep env E a s = Some s'"
  shows "lock_sys_inv env D s'"
proof (cases a)
  case (DTick n)
  then show ?thesis using step inv by (fastforce simp: lock_sys_inv_def valid_def expiresIn_def lclock_def)
next
  case (DTry t f)
  then have free: "held s t = None" using step by (auto split: option.splits)
  obtain row r where acq: "acquireOnce f (lclock env s t) (lockTimeOf env) t (lrow s) = (row, r)" by fastforce
  have s': "s' = (case r of Inl _ \<Rightarrow> s\<lparr>lrow := row\<rparr> | Inr l \<Rightarrow> s\<lparr>lrow := row, held := (held s)(t := Some l)\<rparr>)"
    using step DTry free acq by (auto split: sum.splits)
  from acquireOnce_cases [OF acq] show ?thesis
  proof
    assume "row = lrow s \<and> (\<exists>err. r = Inl err)"
    then have "s' = s" using s' by auto
    then show ?thesis using inv by simp
  next
    assume new: "(case lrow s of None \<Rightarrow> True | Some item \<Rightarrow> li_Ttl item < Unix (lclock env s t) - 5) \<and>
      row = Some \<lparr>Token = t, li_Ttl = Unix (lclock env s t + lockTimeOf env)\<rparr> \<and>
      (\<forall>l. r = Inr l \<longrightarrow> l = \<lparr>lk_token = t, lk_expires = UnixMicro (lclock env s t + lockTimeOf env)\<rparr>)"
    have nobody: "\<not> valid env s u l" for u l
      using valid_blocks_put [OF ok _ lock_inv_valid [OF inv]] new by blast
    show ?thesis
    proof (cases r)
      case (Inl e)
      then show ?thesis using s' nobody by (intro lock_sys_inv_frame [OF inv]) auto
    next
      case (Inr l)
      let ?x = "lclock env s t + lockTimeOf env"
      have l: "lk_token l = t" "lk_expires l * 1000 \<le> ?x" using new Inr UnixMicro_le [of ?x] by auto
      have D: "lockTimeOf env \<le> D" using ok by (simp add: locks_ok_def)
      have cov: "row_covers row t l" using new l(2) floor_less [of ?x] by (auto simp: row_covers_def)
      have s'': "lrow s' = row" "held s' = (held s)(t := Some l)" "lnow s' = lnow s" using s' Inr by simp_all
      show ?thesis unfolding lock_sys_inv_def
      proof (intro allI impI)
        fix u k assume h: "held s' u = Some k"
        show "lk_token k = u \<and> lk_expires k * 1000 \<le> lclock env s' u + D \<and> (valid env s' u k \<longrightarrow> row_covers (lrow s') u k)"
        proof (cases "u = t")
          case True
          then show ?thesis using h s'' l cov D by (simp add: lclock_def)
        next
          case False
          then have "held s' u = held s u" using s'' by simp
          with h inv nobody [of u k] s''(3) valid_cong [of s' u s env k] show ?thesis
            by (auto simp: lock_sys_inv_def lclock_def)
        qed
      qed
    qed
  qed
next
  case (DRenew t f d)
  obtain l where l: "held s t = Some l" using step DRenew by (auto split: option.splits)
  have d: "d = D" using ok a DRenew by (auto simp: locks_ok_def)
  have tok: "lk_token l = t" "lk_expires l * 1000 \<le> lclock env s t + D" using inv l by (auto simp: lock_sys_inv_def)
  obtain row r where ren: "renewOnce f (lclock env s t) D t (lrow s) = (row, r)" by fastforce
  have s': "lrow s' = row" "lnow s' = lnow s"
    "held s' = (held s)(t := Some (case r of Inl _ \<Rightarrow> l | Inr x \<Rightarrow> l\<lparr>lk_expires := UnixMicro x\<rparr>))"
    using step DRenew l ren tok d by (auto simp: Lock_Renew_def split: sum.splits)
  let ?x = "lclock env s t + D"
  from renewOnce_cases [OF ren] show ?thesis
  proof
    assume "row = lrow s \<and> (\<exists>err. r = Inl err)"
    then show ?thesis using s' l lock_inv_valid [OF inv] by (intro lock_sys_inv_frame [OF inv]) (auto split: if_splits)
  next
    assume new: "hasToken t (lrow s) \<and> row = map_option (\<lambda>item. item\<lparr>li_Ttl := Unix ?x\<rparr>) (lrow s) \<and> (\<forall>x. r = Inr x \<longrightarrow> x = ?x)"
    then obtain item where item: "lrow s = Some item" "Token item = t" by (auto simp: hasToken_def split: option.splits)
    show ?thesis unfolding lock_sys_inv_def
    proof (intro allI impI)
      fix u k assume h: "held s' u = Some k"
      show "lk_token k = u \<and> lk_expires k * 1000 \<le> lclock env s' u + D \<and> (valid env s' u k \<longrightarrow> row_covers (lrow s') u k)"
      proof (cases "u = t")
        case True
        then have "lk_token k = t \<and> lk_expires k * 1000 \<le> ?x"
          using h s' tok new UnixMicro_le [of ?x] by (auto split: sum.splits)
        with True show ?thesis using new item s' floor_less [of ?x] by (auto simp: row_covers_def lclock_def)
      next
        case False
        then have same: "held s' u = held s u" using s' by simp
        have "\<not> valid env s u k" using row_covers_token [OF lock_inv_valid [OF inv]] new False by blast
        with h same inv s'(2) valid_cong [of s' u s env k] show ?thesis by (auto simp: lock_sys_inv_def lclock_def)
      qed
    qed
  qed
next
  case (DRelease t f)
  obtain l where l: "held s t = Some l" using step DRelease by (auto split: option.splits)
  have tok: "lk_token l = t" using inv l by (auto simp: lock_sys_inv_def)
  let ?row = "fst (Lock_Release requestCancelChecks f (lclock env s t) (lclock env s t) (Some l) (lrow s))"
  have s': "lrow s' = ?row" "lnow s' = lnow s" "held s' = (held s)(t := None)"
    using step DRelease l by (auto split: prod.splits)
  have "row_covers ?row u k" if "u \<noteq> t" "valid env s u k" for u k
    using Lock_Release_row [of requestCancelChecks f "lclock env s t" "lclock env s t" l "lrow s"] tok that
      row_covers_token [OF lock_inv_valid [OF inv that(2)]] lock_inv_valid [OF inv that(2)] by metis
  then show ?thesis using s' by (intro lock_sys_inv_frame [OF inv]) (auto split: if_splits)
next
  case DExpire
  then obtain item where i: "lrow s = Some item" "lnow s \<ge> (li_Ttl item + 1) * second + E" "s' = s\<lparr>lrow := None\<rparr>"
    using step by (auto split: option.splits if_splits)
  have "\<not> valid env s u k" for u k
    using valid_blocks_expiry [OF ok _ lock_inv_valid [OF inv] i(1)] i(2) by force
  then show ?thesis using i(3) by (intro lock_sys_inv_frame [OF inv]) auto
qed

lemma drun_inv:
  "drun env E as s = Some s' \<Longrightarrow> set as \<subseteq> set bs \<Longrightarrow> locks_ok env E D bs \<Longrightarrow> lock_sys_inv env D s \<Longrightarrow> lock_sys_inv env D s'"
proof (induction as arbitrary: s)
  case (Cons a as)
  then obtain s1 where "dstep env E a s = Some s1" "drun env E as s1 = Some s'" by (auto split: option.splits)
  with Cons show ?case using dstep_inv [of env E D bs s a s1] by simp
qed simp

section \<open>Properties\<close>


definition demo_locks :: lockEnv where
  "demo_locks = \<lparr>lskew = (\<lambda>_. 0), lockTimeOf = 10 * second\<rparr>"

definition demo_acts :: "lockAct list" where
  "demo_acts = [DTry ''a'' Fine, DTry ''b'' Fine, DTick 5, DRenew ''a'' Fine (10 * second), DTry ''b'' (FailsAfter (Opaque ''x''))]"


text \<open>The requests of an election in the order they reach the table; \<open>LExpire\<close> is the table deleting the item.\<close>

datatype leaderOp = LAsk fault int string | LResign fault string | LExpire int

fun leaderStep :: "int \<Rightarrow> leaderOp \<Rightarrow> LeaderItem option \<Rightarrow> LeaderItem option \<times> bool" where
  "leaderStep lease (LAsk f now m) row = (case IsLeader f now lease m row of (row, r) \<Rightarrow> (row, r = Inr True))"
| "leaderStep lease (LResign f m) row = (fst (Resign f m row), False)"
| "leaderStep lease (LExpire now) row =
     ((case row of None \<Rightarrow> None | Some item \<Rightarrow> if LeadingUntil item < Unix now then None else row), False)"

text \<open>The members that were told they lead.\<close>

fun leaders :: "int \<Rightarrow> leaderOp list \<Rightarrow> LeaderItem option \<Rightarrow> string list" where
  "leaders lease [] row = []"
| "leaders lease (op # ops) row =
     (case leaderStep lease op row of
        (row, yes) \<Rightarrow> (case op of LAsk f now m \<Rightarrow> if yes then [m] else [] | _ \<Rightarrow> []) @ leaders lease ops row)"

fun leaderTime :: "string \<Rightarrow> int \<Rightarrow> int \<Rightarrow> leaderOp \<Rightarrow> bool" where
  "leaderTime m from ending (LAsk f now m') = (Unix now \<le> ending \<and> (m' = m \<longrightarrow> from \<le> now))"
| "leaderTime m from ending (LResign f m') = (m' \<noteq> m)"
| "leaderTime m from ending (LExpire now) = (Unix now \<le> ending)"

lemma Unix_mono: "a \<le> b \<Longrightarrow> Unix a \<le> Unix b"
  by (simp add: Unix_def second_def zdiv_mono1)

definition leads :: "string \<Rightarrow> int \<Rightarrow> LeaderItem option \<Rightarrow> bool" where
  "leads m ending row \<longleftrightarrow> (\<exists>item. row = Some item \<and> MemberId item = m \<and> ending \<le> LeadingUntil item)"

lemma leaderStep_leads:
  assumes "leads m (Unix (from + lease)) row" and "leaderTime m from (Unix (from + lease)) op"
  shows "leads m (Unix (from + lease)) (fst (leaderStep lease op row)) \<and>
    (case op of LAsk f now m' \<Rightarrow> (m' \<noteq> m \<longrightarrow> \<not> snd (leaderStep lease op row)) | _ \<Rightarrow> True)"
proof (cases op)
  case (LAsk f now m')
  show ?thesis
  proof (cases "m' = m")
    case True
    then have "Unix (from + lease) \<le> Unix (now + lease)" using assms(2) LAsk by (intro Unix_mono) simp
    then show ?thesis using assms(1) True LAsk
      by (cases f) (auto simp: leads_def IsLeader_def ddbWrite_def Let_def)
  next
    case False
    then show ?thesis using assms LAsk by (cases f) (auto simp: leads_def IsLeader_def ddbWrite_def Let_def)
  qed
next
  case (LResign f m')
  then show ?thesis using assms by (cases f) (auto simp: leads_def Resign_def ddbWrite_def)
next
  case (LExpire now)
  then show ?thesis using assms by (auto simp: leads_def)
qed

text \<open>
  C25. Once a member has been told that it leads, nobody else is told so, whatever requests arrive in
  whatever order and however they fail, until a clock that asks has passed the end of the lease or the
  leader resigns.
\<close>

theorem one_leader_per_lease:
  assumes "IsLeader f from lease m row = (row', Inr True)"
    and "\<forall>op \<in> set ops. leaderTime m from (Unix (from + lease)) op"
  shows "set (leaders lease ops row') \<subseteq> {m}"
proof -
  have "leads m (Unix (from + lease)) row'"
    using assms(1) by (auto simp: leads_def IsLeader_def ddbWrite_def Let_def split: fault.splits if_splits)
  with assms(2) show ?thesis
  proof (induction ops arbitrary: row')
    case (Cons op ops)
    have s: "leads m (Unix (from + lease)) (fst (leaderStep lease op row'))"
      "case op of LAsk f now m' \<Rightarrow> (m' \<noteq> m \<longrightarrow> \<not> snd (leaderStep lease op row')) | _ \<Rightarrow> True"
      using leaderStep_leads [OF Cons.prems(2)] Cons.prems(1) by auto
    have "set (leaders lease ops (fst (leaderStep lease op row'))) \<subseteq> {m}" using Cons s(1) by simp
    with s(2) show ?case by (cases op) (auto split: prod.splits if_splits)
  qed simp
qed

theorem one_leader_per_lease_witness:
  "set (leaders second [LAsk Fine 5 ''b'', LAsk (FailsAfter (Opaque ''x'')) 6 ''a'', LAsk Fine second ''b'']
     (fst (IsLeader Fine 0 second ''a'' None))) \<subseteq> {''a''}"
proof (rule one_leader_per_lease)
  show "IsLeader Fine 0 second ''a'' None = (fst (IsLeader Fine 0 second ''a'' None), Inr True)"
    by (simp add: IsLeader_def ddbWrite_def Let_def)
  show "\<forall>op \<in> set [LAsk Fine 5 ''b'', LAsk (FailsAfter (Opaque ''x'')) 6 ''a'', LAsk Fine second ''b''].
      leaderTime ''a'' 0 (Unix (0 + second)) op"
    by (simp add: Unix_def second_def)
qed

text \<open>
  An acquisition whose answer is lost leaves an item with a token nobody holds: the same call, tried
  again, is told that the lock is owned by someone else, until the item expires.
\<close>

lemma lost_answer_blocks_acquire:
  assumes "lt \<ge> 0" and "now \<le> now'" and "Unix now' \<le> Unix (now + lt) + 5"
  shows "\<exists>item. fst (acquireOnce (FailsAfter e) now lt t None) = Some item \<and>
    snd (acquireOnce Fine now' lt t (Some item)) = Inl ErrLockOwned"
  using assms by (simp add: acquireOnce_def ddbWrite_def Let_def)

end
