(* ===== verification/StreamCodec.thy ===== *)
theory StreamCodec
  imports ProducerDaemon
begin

text \<open>
  Encoding of messages in \<open>pkg/stream\<close> (\<open>encoding.go\<close>, \<open>compression.go\<close>, \<open>message_encoding.go\<close>,
  \<open>message_builder.go\<close>, \<open>chunking.go\<close>, \<open>producer.go\<close>) and the sampling handler of \<open>pkg/smpl\<close>.

  The body encoders (JSON, protobuf), the compressors and base64 are parameters: the registries of the
  package are maps whose entries are pairs of functions. \<open>'c\<close> is the context that handlers read and
  extend, \<open>'d\<close> the data. Attributes are a map that handlers change in place, so decoding a
  message also changes the attributes the message itself has.
\<close>

type_synonym attrs = "(string, string) gomap"

definition squoted :: "string \<Rightarrow> string" where
  "squoted s = CHR 0x27 # s @ [CHR 0x27]"

section \<open>Registries\<close>

record 'd bodyEncoder =
  be_Encode :: "'d \<Rightarrow> goerr + string"
  be_Decode :: "string \<Rightarrow> goerr + 'd"

record compressor =
  Compress :: "string \<Rightarrow> goerr + string"
  Decompress :: "string \<Rightarrow> goerr + string"

record 'd codecEnv =
  messageBodyEncoders :: "(string, 'd bodyEncoder) gomap"
  messageBodyCompressors :: "(string, compressor) gomap"
  b64Encode :: "string \<Rightarrow> string"
  b64Decode :: "string \<Rightarrow> goerr + string"
  defaultMessageBodyEncoding :: string

definition CompressionNone_text :: string where "CompressionNone_text = ''none''"
definition AttributeEncoding :: string where "AttributeEncoding = ''encoding''"
definition AttributeCompression :: string where "AttributeCompression = ''compression''"

definition noopCompressor :: compressor where
  "noopCompressor = \<lparr>Compress = Inr, Decompress = Inr\<rparr>"

definition AddMessageBodyEncoder :: "string \<Rightarrow> 'd bodyEncoder \<Rightarrow> 'd codecEnv \<Rightarrow> 'd codecEnv" where
  "AddMessageBodyEncoder encoding encoder env =
     env\<lparr>messageBodyEncoders := gm_set (messageBodyEncoders env) encoding encoder\<rparr>"

definition EncodeMessage :: "'d codecEnv \<Rightarrow> string \<Rightarrow> 'd \<Rightarrow> goerr + string" where
  "EncodeMessage env encoding data =
     (if encoding = '''' then Inl (Opaque ''no encoding provided to encode message'')
      else case gm_get (messageBodyEncoders env) encoding of
        None \<Rightarrow> Inl (Opaque (''there is no message body encoder available for encoding '' @ squoted encoding))
      | Some encoder \<Rightarrow>
          (case be_Encode encoder data of
             Inl err \<Rightarrow> Inl (errorf_w (''can not encode message body with encoding '' @ squoted encoding @ '': '') err '''')
           | Inr body \<Rightarrow> Inr body))"

definition DecodeMessage :: "'d codecEnv \<Rightarrow> string \<Rightarrow> string \<Rightarrow> goerr + 'd" where
  "DecodeMessage env encoding data =
     (case gm_get (messageBodyEncoders env) encoding of
        None \<Rightarrow> Inl (Opaque (''there is no message body decoder available for encoding '' @ squoted encoding))
      | Some encoder \<Rightarrow>
          (case be_Decode encoder data of
             Inl err \<Rightarrow> Inl (errorf_w (''can not decode message body with encoding '' @ squoted encoding @ '': '') err '''')
           | Inr out \<Rightarrow> Inr out))"

definition CompressMessage :: "'d codecEnv \<Rightarrow> string \<Rightarrow> string \<Rightarrow> goerr + string" where
  "CompressMessage env compression body =
     (case gm_get (messageBodyCompressors env) compression of
        None \<Rightarrow> Inl (Opaque (''there is no compressor for compression '' @ squoted compression))
      | Some c \<Rightarrow>
          (case Compress c body of
             Inl err \<Rightarrow> Inl (errorf_w ''failed to compress message body: '' err '''')
           | Inr x \<Rightarrow> Inr x))"

definition DecompressMessage :: "'d codecEnv \<Rightarrow> string \<Rightarrow> string \<Rightarrow> goerr + string" where
  "DecompressMessage env compression body =
     (case gm_get (messageBodyCompressors env) compression of
        None \<Rightarrow> Inl (Opaque (''there is no decompressor for compression '' @ squoted compression))
      | Some c \<Rightarrow>
          (case Decompress c body of
             Inl err \<Rightarrow> Inl (errorf_w ''failed to decompress message body: '' err '''')
           | Inr x \<Rightarrow> Inr x))"

section \<open>The encoder\<close>

record ('c, 'd) encodeHandler =
  eh_Encode :: "'c \<Rightarrow> 'd \<Rightarrow> attrs \<Rightarrow> 'c \<times> attrs \<times> error"
  eh_Decode :: "'c \<Rightarrow> 'd \<Rightarrow> attrs \<Rightarrow> 'c \<times> attrs \<times> error"

record ('c, 'd) messageEncoder =
  me_encoding :: string
  me_compression :: string
  encodeHandlers :: "('c, 'd) encodeHandler list"
  externalEncoder :: "'d bodyEncoder option"

definition NewMessageEncoder ::
  "'d codecEnv \<Rightarrow> ('c, 'd) encodeHandler list \<Rightarrow> ('c, 'd) messageEncoder \<Rightarrow> ('c, 'd) messageEncoder" where
  "NewMessageEncoder env defaultEncodeHandlers config =
     (let config = (if me_encoding config = '''' then config\<lparr>me_encoding := defaultMessageBodyEncoding env\<rparr> else config);
          config = (if me_compression config = '''' then config\<lparr>me_compression := CompressionNone_text\<rparr> else config)
      in if encodeHandlers config = [] then config\<lparr>encodeHandlers := defaultEncodeHandlers\<rparr> else config)"

definition encodeBody :: "'d codecEnv \<Rightarrow> ('c, 'd) messageEncoder \<Rightarrow> attrs \<Rightarrow> 'd \<Rightarrow> goerr + attrs \<times> string" where
  "encodeBody env e attributes data =
     (case externalEncoder e of
        Some ext \<Rightarrow>
          (case be_Encode ext data of
             Inl err \<Rightarrow> Inl (errorf_w ''external encoding failed: '' err '''')
           | Inr body \<Rightarrow> Inr (attributes, body))
      | None \<Rightarrow>
          (case EncodeMessage env (me_encoding e) data of
             Inl err \<Rightarrow> Inl err
           | Inr body \<Rightarrow> Inr (gm_set attributes AttributeEncoding (me_encoding e), body)))"

definition compressBody :: "'d codecEnv \<Rightarrow> ('c, 'd) messageEncoder \<Rightarrow> attrs \<Rightarrow> string \<Rightarrow> goerr + attrs \<times> string" where
  "compressBody env e attributes body =
     (if me_compression e = CompressionNone_text then Inr (attributes, body)
      else case CompressMessage env (me_compression e) body of
        Inl err \<Rightarrow> Inl err
      | Inr compressed \<Rightarrow> Inr (gm_set attributes AttributeCompression (me_compression e), b64Encode env compressed))"

fun mergeSet :: "attrs \<Rightarrow> attrs \<Rightarrow> goerr + attrs" where
  "mergeSet attributes [] = Inr attributes"
| "mergeSet attributes ((k, v) # rest) =
     (if gm_has attributes k then Inl (Opaque (''duplicate attribute '' @ squoted k @ '' on message''))
      else mergeSet (gm_set attributes k v) rest)"

fun mergeAttributes :: "attrs \<Rightarrow> attrs list \<Rightarrow> goerr + attrs" where
  "mergeAttributes attributes [] = Inr attributes"
| "mergeAttributes attributes (s # ss) =
     (case mergeSet attributes s of Inl err \<Rightarrow> Inl err | Inr a \<Rightarrow> mergeAttributes a ss)"

fun runEncode :: "('c, 'd) encodeHandler list \<Rightarrow> 'c \<Rightarrow> 'd \<Rightarrow> attrs \<Rightarrow> goerr + 'c \<times> attrs" where
  "runEncode [] ctx data a = Inr (ctx, a)"
| "runEncode (h # hs) ctx data a =
     (case eh_Encode h ctx data a of
        (ctx, a, Some err) \<Rightarrow> Inl (errorf_w ''can not apply encoding handler on message: '' err '''')
      | (ctx, a, None) \<Rightarrow> runEncode hs ctx data a)"

definition encoder_Encode :: "'d codecEnv \<Rightarrow> ('c, 'd) messageEncoder \<Rightarrow> 'c \<Rightarrow> 'd \<Rightarrow> attrs list \<Rightarrow> goerr + Message" where
  "encoder_Encode env e ctx data attributeSets =
     (case encodeBody env e [] data of
        Inl err \<Rightarrow> Inl (errorf_w ''could not encode message body: '' err '''')
      | Inr (attributes, body) \<Rightarrow>
          (case compressBody env e attributes body of
             Inl err \<Rightarrow> Inl (errorf_w ''could not compress message body: '' err '''')
           | Inr (attributes, body) \<Rightarrow>
               (case mergeAttributes attributes attributeSets of
                  Inl err \<Rightarrow> Inl err
                | Inr attributes \<Rightarrow>
                    (case runEncode (encodeHandlers e) ctx data attributes of
                       Inl err \<Rightarrow> Inl err
                     | Inr (_, attributes) \<Rightarrow> Inr \<lparr>Attributes = attributes, Body = body\<rparr>))))"

definition decompressBody :: "'d codecEnv \<Rightarrow> attrs \<Rightarrow> string \<Rightarrow> goerr + string" where
  "decompressBody env attributes body =
     (case gm_get attributes AttributeCompression of
        None \<Rightarrow> Inr body
      | Some compression \<Rightarrow>
          (case b64Decode env body of
             Inl err \<Rightarrow> Inl (errorf_w ''can not base64 decode the body: '' err '''')
           | Inr x \<Rightarrow> DecompressMessage env compression x))"

definition decodeBody :: "'d codecEnv \<Rightarrow> ('c, 'd) messageEncoder \<Rightarrow> attrs \<Rightarrow> string \<Rightarrow> goerr + 'd" where
  "decodeBody env e attributes body =
     (case externalEncoder e of
        Some ext \<Rightarrow>
          (case be_Decode ext body of Inl err \<Rightarrow> Inl (errorf_w ''external decoding failed: '' err '''') | Inr out \<Rightarrow> Inr out)
      | None \<Rightarrow>
          DecodeMessage env (case gm_get attributes AttributeEncoding of None \<Rightarrow> me_encoding e | Some enc \<Rightarrow> enc) body)"

fun runDecode :: "('c, 'd) encodeHandler list \<Rightarrow> 'c \<Rightarrow> 'd \<Rightarrow> attrs \<Rightarrow> 'c \<times> attrs \<times> error" where
  "runDecode [] ctx out a = (ctx, a, None)"
| "runDecode (h # hs) ctx out a =
     (case eh_Decode h ctx out a of
        (ctx, a, Some err) \<Rightarrow> (ctx, a, Some (errorf_w ''can not apply encoding handler on message: '' err ''''))
      | (ctx, a, None) \<Rightarrow> runDecode hs ctx out a)"

text \<open>The result is the message with its attributes as they are afterwards, the context, the attributes and the data or an error.\<close>

definition encoder_Decode ::
  "'d codecEnv \<Rightarrow> ('c, 'd) messageEncoder \<Rightarrow> 'c \<Rightarrow> Message \<Rightarrow> Message \<times> 'c \<times> attrs \<times> (goerr + 'd)" where
  "encoder_Decode env e ctx msg =
     (case decompressBody env (Attributes msg) (Body msg) of
        Inl err \<Rightarrow> (msg, ctx, Attributes msg, Inl err)
      | Inr body \<Rightarrow>
          (case decodeBody env e (Attributes msg) body of
             Inl err \<Rightarrow> (msg, ctx, Attributes msg, Inl (errorf_w ''can not decode message body: '' err ''''))
           | Inr out \<Rightarrow>
               (case runDecode (encodeHandlers e) ctx out (Attributes msg) of
                  (ctx, a, Some err) \<Rightarrow> (msg\<lparr>Attributes := a\<rparr>, ctx, a, Inl err)
                | (ctx, a, None) \<Rightarrow> (msg\<lparr>Attributes := a\<rparr>, ctx, a, Inr out))))"

section \<open>The handler that carries the sampling decision\<close>

text \<open>A context may hold a decision; without one it counts as sampled.\<close>

type_synonym samplingContext = "bool option"

definition GetSampling :: "samplingContext \<Rightarrow> bool" where
  "GetSampling ctx = (case ctx of None \<Rightarrow> True | Some b \<Rightarrow> b)"

definition FormatBool :: "bool \<Rightarrow> string" where
  "FormatBool b = (if b then ''true'' else ''false'')"

definition ParseBool :: "string \<Rightarrow> goerr + bool" where
  "ParseBool s =
     (if s \<in> {''1'', ''t'', ''T'', ''true'', ''TRUE'', ''True''} then Inr True
      else if s \<in> {''0'', ''f'', ''F'', ''false'', ''FALSE'', ''False''} then Inr False
      else Inl (Opaque (''strconv.ParseBool: parsing '' @ CHR 0x22 # s @ CHR 0x22 # '': invalid syntax'')))"

definition sampled_attribute :: string where "sampled_attribute = ''sampled''"

definition Sampling_Encode :: "samplingContext \<Rightarrow> 'd \<Rightarrow> attrs \<Rightarrow> samplingContext \<times> attrs \<times> error" where
  "Sampling_Encode ctx data attributes =
     (ctx, gm_set attributes sampled_attribute (FormatBool (GetSampling ctx)), None)"

definition Sampling_Decode :: "samplingContext \<Rightarrow> 'd \<Rightarrow> attrs \<Rightarrow> samplingContext \<times> attrs \<times> error" where
  "Sampling_Decode ctx data attributes =
     (case gm_get attributes sampled_attribute of
        None \<Rightarrow> (ctx, attributes, None)
      | Some text \<Rightarrow>
          (case ParseBool text of
             Inl err \<Rightarrow> (ctx, attributes, Some (errorf_w ''failed to parse sampled attribute: '' err ''''))
           | Inr b \<Rightarrow> (Some b, gm_del attributes sampled_attribute, None)))"

definition samplingHandler :: "(samplingContext, 'd) encodeHandler" where
  "samplingHandler = \<lparr>eh_Encode = Sampling_Encode, eh_Decode = Sampling_Decode\<rparr>"

section \<open>Building messages, chunks and producing\<close>

definition EncodingJson :: string where "EncodingJson = ''application/json''"
definition EncodingProtobuf :: string where "EncodingProtobuf = ''application/x-protobuf''"

definition encodedMessage :: "string \<Rightarrow> string \<Rightarrow> attrs list \<Rightarrow> Message" where
  "encodedMessage encoding body attributes =
     (let msg = NewMessage body attributes in msg\<lparr>Attributes := gm_set (Attributes msg) AttributeEncoding encoding\<rparr>)"

definition NewJsonMessage :: "string \<Rightarrow> attrs list \<Rightarrow> Message" where
  "NewJsonMessage = encodedMessage EncodingJson"

definition NewProtobufMessage :: "string \<Rightarrow> attrs list \<Rightarrow> Message" where
  "NewProtobufMessage = encodedMessage EncodingProtobuf"

definition MarshalJsonMessage :: "'d bodyEncoder \<Rightarrow> 'd \<Rightarrow> attrs list \<Rightarrow> goerr + Message" where
  "MarshalJsonMessage json body attributes =
     (case be_Encode json body of
        Inl err \<Rightarrow> Inl (errorf_w ''can not marshal body to json: '' err '''')
      | Inr data \<Rightarrow> Inr (NewJsonMessage data attributes))"

definition MarshalProtobufMessage :: "'d bodyEncoder \<Rightarrow> 'd \<Rightarrow> attrs list \<Rightarrow> goerr + Message" where
  "MarshalProtobufMessage protobuf body attributes =
     (case be_Encode protobuf body of
        Inl err \<Rightarrow> Inl (errorf_w ''can not marshal body to protobuf: '' err '''')
      | Inr data \<Rightarrow> Inr (NewProtobufMessage data attributes))"

text \<open>
  The chunk that is being filled is the one at index \<open>j\<close>; writing beyond the prepared chunks panics,
  which \<open>None\<close> stands for. The size is positive.
\<close>

fun fillChunks :: "nat \<Rightarrow> ('m \<Rightarrow> goerr + string) \<Rightarrow> 'm list \<Rightarrow> nat \<Rightarrow> string list list \<Rightarrow> nat \<Rightarrow> (string list list \<times> nat) option" where
  "fillChunks perChunk marsh [] j chunks errs = Some (chunks, errs)"
| "fillChunks perChunk marsh (m # ms) j chunks errs =
     (case marsh m of
        Inl _ \<Rightarrow> fillChunks perChunk marsh ms j chunks (errs + 1)
      | Inr bytes \<Rightarrow>
          if j < length chunks
          then (let chunks = chunks[j := chunks ! j @ [bytes]]
                in fillChunks perChunk marsh ms (if length (chunks ! j) = perChunk then j + 1 else j) chunks errs)
          else None)"

definition BuildChunks :: "('m \<Rightarrow> goerr + string) \<Rightarrow> 'm list \<Rightarrow> nat \<Rightarrow> (string list list \<times> error) option" where
  "BuildChunks marsh batch perChunk =
     map_option (\<lambda>(chunks, errs). (chunks, if errs > 0
         then Some (Opaque (''there were '' @ utoa errs @ '' errors on chunking and marshalling the messages'')) else None))
       (fillChunks perChunk marsh batch 0 (replicate ((length batch + perChunk - 1) div perChunk) []) 0)"

fun encodeAll :: "('d \<Rightarrow> goerr + Message) \<Rightarrow> 'd list \<Rightarrow> goerr + Message list" where
  "encodeAll enc [] = Inr []"
| "encodeAll enc (m # ms) =
     (case enc m of
        Inl err \<Rightarrow> Inl (errorf_w ''can not encode model into message: '' err '''')
      | Inr msg \<Rightarrow> (case encodeAll enc ms of Inl err \<Rightarrow> Inl err | Inr msgs \<Rightarrow> Inr (msg # msgs)))"

text \<open>
  The output is a function over its own state. \<open>Write\<close> takes the models as the reflective cast to a
  slice gives them, \<open>Inl\<close> when the argument is no slice.
\<close>

definition producer_WriteOne ::
  "('d \<Rightarrow> goerr + Message) \<Rightarrow> (Message list \<Rightarrow> 'o \<Rightarrow> 'o \<times> error) \<Rightarrow> 'd \<Rightarrow> 'o \<Rightarrow> 'o \<times> error" where
  "producer_WriteOne enc output model out =
     (case enc model of
        Inl err \<Rightarrow> (out, Some (errorf_w ''can not encode model into message: '' err ''''))
      | Inr msg \<Rightarrow>
          (case output [msg] out of
             (out, Some err) \<Rightarrow> (out, Some (errorf_w ''can not write msg to output: '' err ''''))
           | (out, None) \<Rightarrow> (out, None)))"

definition producer_Write ::
  "('d \<Rightarrow> goerr + Message) \<Rightarrow> (Message list \<Rightarrow> 'o \<Rightarrow> 'o \<times> error) \<Rightarrow> goerr + 'd list \<Rightarrow> 'o \<Rightarrow> 'o \<times> error" where
  "producer_Write enc output models out =
     (case models of
        Inl err \<Rightarrow> (out, Some (errorf_w ''can not cast models interface to slice: '' err ''''))
      | Inr slice \<Rightarrow>
          (case encodeAll enc slice of
             Inl err \<Rightarrow> (out, Some err)
           | Inr messages \<Rightarrow>
               (case output messages out of
                  (out, Some err) \<Rightarrow> (out, Some (errorf_w ''can not write messages to output: '' err ''''))
                | (out, None) \<Rightarrow> (out, None))))"

text \<open>
  The output to a redis list: one \<open>RPush\<close> per chunk, up to the first that fails. The messages
  that can not be marshalled are only logged.
\<close>

fun pushAll :: "(string list \<Rightarrow> 'r \<Rightarrow> 'r \<times> error) \<Rightarrow> string list list \<Rightarrow> 'r \<Rightarrow> 'r \<times> error" where
  "pushAll rpush [] r = (r, None)"
| "pushAll rpush (chunk # chunks) r =
     (case rpush chunk r of (r, Some err) \<Rightarrow> (r, Some err) | (r, None) \<Rightarrow> pushAll rpush chunks r)"

definition redisList_Write ::
  "('m \<Rightarrow> goerr + string) \<Rightarrow> (string list \<Rightarrow> 'r \<Rightarrow> 'r \<times> error) \<Rightarrow> nat \<Rightarrow> 'm list \<Rightarrow> 'r \<Rightarrow> ('r \<times> error) option" where
  "redisList_Write marsh rpush batchSize batch r =
     map_option (\<lambda>(chunks, _). pushAll rpush chunks r) (BuildChunks marsh batch batchSize)"

section \<open>Contracts\<close>

text \<open>
  A handler that owns some attributes: encoding writes no others, and decoding a map that holds what was
  written takes them out again and nothing else.
\<close>

locale attribute_handler =
  fixes enc :: "'c \<Rightarrow> 'd \<Rightarrow> attrs \<Rightarrow> 'c \<times> attrs \<times> error"
    and dec :: "'c \<Rightarrow> 'd \<Rightarrow> attrs \<Rightarrow> 'c \<times> attrs \<times> error"
    and keys :: "string set"
  assumes enc_ok: "snd (snd (enc c d a)) = None"
    and enc_frame: "k \<notin> keys \<Longrightarrow> gm_get (fst (snd (enc c d a))) k = gm_get a k"
    and dec_ok: "(\<And>k. k \<in> keys \<Longrightarrow> gm_get a k = None) \<Longrightarrow> 
      (\<And>k. k \<in> keys \<Longrightarrow> gm_get b k = gm_get (fst (snd (enc c d a))) k) \<Longrightarrow> snd (snd (dec c0 d b)) = None"
    and dec_frame: "k \<notin> keys \<Longrightarrow> gm_get (fst (snd (dec c0 d b))) k = gm_get b k"
    and dec_removes: "(\<And>k. k \<in> keys \<Longrightarrow> gm_get a k = None) \<Longrightarrow>
      (\<And>k. k \<in> keys \<Longrightarrow> gm_get b k = gm_get (fst (snd (enc c d a))) k) \<Longrightarrow>
      k \<in> keys \<Longrightarrow> gm_get (fst (snd (dec c0 d b))) k = None"
begin

lemma undo:
  assumes "\<And>k. k \<in> keys \<Longrightarrow> gm_get a k = None"
    and "\<And>k. k \<in> keys \<Longrightarrow> gm_get b k = gm_get (fst (snd (enc c d a))) k"
  obtains c1 b1 where "dec c0 d b = (c1, b1, None)"
    and "\<And>k. gm_get b1 k = (if k \<in> keys then None else gm_get b k)"
proof -
  obtain c1 b1 e where r: "dec c0 d b = (c1, b1, e)" by (cases "dec c0 d b")
  have "e = None" using dec_ok [OF assms, of c0] r by simp
  moreover have "gm_get b1 k = (if k \<in> keys then None else gm_get b k)" for k
    using dec_removes [OF assms, of k c0] dec_frame [of k c0 d b] r by simp
  ultimately show ?thesis using that r by simp
qed

end

lemma ParseBool_FormatBool: "ParseBool (FormatBool b) = Inr b"
  by (cases b) (simp_all add: ParseBool_def FormatBool_def)

interpretation sampling: attribute_handler Sampling_Encode Sampling_Decode "{sampled_attribute}"
  by unfold_locales
    (auto simp: Sampling_Encode_def Sampling_Decode_def ParseBool_FormatBool split: option.splits sum.splits)

text \<open>The sampling decision itself survives: the context that decoding returns carries the one encoding read.\<close>

lemma sampling_travels:
  assumes "gm_get b sampled_attribute = gm_get (fst (snd (Sampling_Encode c d a))) sampled_attribute"
  shows "GetSampling (fst (Sampling_Decode c0 d b)) = GetSampling c"
  using assms by (simp add: Sampling_Encode_def Sampling_Decode_def ParseBool_FormatBool GetSampling_def)

text \<open>A list of handlers, each with attributes of its own.\<close>

fun handlers_ok :: "('c, 'd) encodeHandler list \<Rightarrow> string set list \<Rightarrow> bool" where
  "handlers_ok [] [] = True"
| "handlers_ok (h # hs) (K # Ks) =
     (attribute_handler (eh_Encode h) (eh_Decode h) K \<and> (\<forall>K' \<in> set Ks. K \<inter> K' = {}) \<and> handlers_ok hs Ks)"
| "handlers_ok _ _ = False"

lemma samplingHandler_ok: "handlers_ok [samplingHandler] [{sampled_attribute}]"
  using sampling.attribute_handler_axioms by (simp add: samplingHandler_def)

lemmas handler_laws = attribute_handler.enc_ok attribute_handler.enc_frame attribute_handler.undo

lemma runEncode_frame:
  "handlers_ok hs Ks \<Longrightarrow> runEncode hs c d a = Inr (c', a') \<Longrightarrow> \<forall>K \<in> set Ks. k \<notin> K \<Longrightarrow> gm_get a' k = gm_get a k"
proof (induction hs Ks arbitrary: c a rule: handlers_ok.induct)
  case (2 h hs K Ks)
  have h: "attribute_handler (eh_Encode h) (eh_Decode h) K" using "2.prems"(1) by simp
  obtain c1 a1 where e: "eh_Encode h c d a = (c1, a1, None)" using handler_laws(1) [OF h, of c d a] by (metis prod.collapse)
  with "2.prems" have "gm_get a' k = gm_get a1 k" by (intro "2.IH") auto
  also have "\<dots> = gm_get a k" using handler_laws(2) [OF h, of k c d a] e "2.prems"(3) by simp
  finally show ?case .
qed auto

lemma runEncode_ok: "handlers_ok hs Ks \<Longrightarrow> \<exists>c' a'. runEncode hs c d a = Inr (c', a')"
proof (induction hs Ks arbitrary: c a rule: handlers_ok.induct)
  case (2 h hs K Ks)
  then have h: "attribute_handler (eh_Encode h) (eh_Decode h) K" by simp
  obtain c1 a1 where "eh_Encode h c d a = (c1, a1, None)" using handler_laws(1) [OF h, of c d a] by (metis prod.collapse)
  then show ?case using 2 by simp
qed auto

text \<open>
  Decoding with the handlers in the order they encoded in takes the attributes of all of them out again, whatever
  else the map holds.
\<close>

lemma runDecode_undoes:
  "handlers_ok hs Ks \<Longrightarrow> runEncode hs c d a = Inr (c', a') \<Longrightarrow>
    (\<And>k. k \<in> \<Union> (set Ks) \<Longrightarrow> gm_get a k = None) \<Longrightarrow>
    (\<And>k. k \<in> \<Union> (set Ks) \<Longrightarrow> gm_get b k = gm_get a' k) \<Longrightarrow>
    \<exists>c1 b1. runDecode hs c0 d b = (c1, b1, None) \<and>
      (\<forall>k. gm_get b1 k = (if k \<in> \<Union> (set Ks) then None else gm_get b k))"
proof (induction hs Ks arbitrary: c a c0 b rule: handlers_ok.induct)
  case (2 h hs K Ks)
  have h: "attribute_handler (eh_Encode h) (eh_Decode h) K" and disj: "\<forall>K' \<in> set Ks. K \<inter> K' = {}"
    and rest: "handlers_ok hs Ks" using "2.prems"(1) by auto
  obtain c1 a1 where e: "eh_Encode h c d a = (c1, a1, None)" using handler_laws(1) [OF h, of c d a] by (metis prod.collapse)
  then have tail: "runEncode hs c1 d a1 = Inr (c', a')" using "2.prems"(2) by simp
  have K: "gm_get a' k = gm_get a1 k" if "k \<in> K" for k
    using runEncode_frame [OF rest tail, of k] that disj by blast
  obtain c2 b1 where d: "eh_Decode h c0 d b = (c2, b1, None)"
    and b1: "\<And>k. gm_get b1 k = (if k \<in> K then None else gm_get b k)"
    using handler_laws(3) [OF h, of a b c d c0] "2.prems"(3,4) K e by auto
  have "gm_get a1 k = None" if "k \<in> \<Union> (set Ks)" for k
    using handler_laws(2) [OF h, of k c d a] e that disj "2.prems"(3) [of k] by auto
  moreover have "gm_get b1 k = gm_get a' k" if "k \<in> \<Union> (set Ks)" for k
    using that disj b1 [of k] "2.prems"(4) [of k] by auto
  ultimately obtain c3 b2 where "runDecode hs c2 d b1 = (c3, b2, None)"
    "\<forall>k. gm_get b2 k = (if k \<in> \<Union> (set Ks) then None else gm_get b1 k)"
    using "2.IH" [OF rest tail] by metis
  then show ?case using d b1 by auto
qed auto


section \<open>Encoding and decoding\<close>

text \<open>What the code relies on of the encoders, compressors and of base64.\<close>

definition codec_ok :: "'d codecEnv \<Rightarrow> ('c, 'd) messageEncoder \<Rightarrow> bool" where
  "codec_ok env e \<longleftrightarrow>
     (\<forall>enc data body. gm_get (messageBodyEncoders env) (me_encoding e) = Some enc \<longrightarrow>
        be_Encode enc data = Inr body \<longrightarrow> be_Decode enc body = Inr data) \<and>
     (\<forall>enc data body. externalEncoder e = Some enc \<longrightarrow>
        be_Encode enc data = Inr body \<longrightarrow> be_Decode enc body = Inr data) \<and>
     (\<forall>cm x y. gm_get (messageBodyCompressors env) (me_compression e) = Some cm \<longrightarrow>
        Compress cm x = Inr y \<longrightarrow> Decompress cm y = Inr x) \<and>
     (\<forall>x. b64Decode env (b64Encode env x) = Inr x)"

lemma codec_okD:
  assumes "codec_ok env e"
  shows "gm_get (messageBodyEncoders env) (me_encoding e) = Some enc \<Longrightarrow> be_Encode enc data = Inr body \<Longrightarrow> be_Decode enc body = Inr data"
    and "externalEncoder e = Some enc \<Longrightarrow> be_Encode enc data = Inr body \<Longrightarrow> be_Decode enc body = Inr data"
    and "gm_get (messageBodyCompressors env) (me_compression e) = Some cm \<Longrightarrow> Compress cm x = Inr y \<Longrightarrow> Decompress cm y = Inr x"
    and "b64Decode env (b64Encode env z) = Inr z"
  using assms unfolding codec_ok_def by blast+

text \<open>The attributes the encoder itself sets.\<close>

definition ownAttributes :: "('c, 'd) messageEncoder \<Rightarrow> attrs" where
  "ownAttributes e =
     (if externalEncoder e = None then [(AttributeEncoding, me_encoding e)] else []) @
     (if me_compression e = CompressionNone_text then [] else [(AttributeCompression, me_compression e)])"

lemma keys_differ [simp]: "AttributeEncoding \<noteq> AttributeCompression" "AttributeCompression \<noteq> AttributeEncoding"
  by (simp_all add: AttributeEncoding_def AttributeCompression_def)

lemma own_get:
  "gm_get (ownAttributes e) AttributeEncoding = (if externalEncoder e = None then Some (me_encoding e) else None)"
  "gm_get (ownAttributes e) AttributeCompression = (if me_compression e = CompressionNone_text then None else Some (me_compression e))"
  by (simp_all add: ownAttributes_def)

lemma mergeSet_get:
  "mergeSet a s = Inr a' \<Longrightarrow> gm_get a' k = (case gm_get a k of Some v \<Rightarrow> Some v | None \<Rightarrow> gm_get s k)"
  by (induction a s rule: mergeSet.induct) (auto split: if_splits option.splits)

lemma mergeAttributes_get:
  "mergeAttributes a ss = Inr a' \<Longrightarrow> gm_get a' k = (case gm_get a k of Some v \<Rightarrow> Some v | None \<Rightarrow> gm_get (concat ss) k)"
proof (induction a ss rule: mergeAttributes.induct)
  case (2 a s ss)
  then obtain a1 where s: "mergeSet a s = Inr a1" by (auto split: sum.splits)
  with 2 have "gm_get a' k = (case gm_get a1 k of Some v \<Rightarrow> Some v | None \<Rightarrow> gm_get (concat ss) k)" by simp
  then show ?case using mergeSet_get [OF s, of k] by (auto simp: map_add_def split: option.splits)
qed (auto split: option.splits)

text \<open>The attributes that describe the body, and that decoding with them gives the data back.\<close>

lemma EncodeMessage_back:
  assumes "codec_ok env e" and "EncodeMessage env (me_encoding e) data = Inr body"
  shows "DecodeMessage env (me_encoding e) body = Inr data"
  using assms codec_okD(1) [OF assms(1)]
  by (auto simp: EncodeMessage_def DecodeMessage_def split: if_splits option.splits sum.splits)

lemma encodeBody_back:
  assumes ok: "codec_ok env e" and enc: "encodeBody env e a0 data = Inr (a, body)"
  shows "a = (if externalEncoder e = None then gm_set a0 AttributeEncoding (me_encoding e) else a0)"
    and "(externalEncoder e = None \<Longrightarrow> gm_get b AttributeEncoding = Some (me_encoding e)) \<Longrightarrow> decodeBody env e b body = Inr data"
  using enc EncodeMessage_back [OF ok] codec_okD(2) [OF ok]
  by (auto simp: encodeBody_def decodeBody_def split: option.splits sum.splits)

lemma compressBody_back:
  assumes ok: "codec_ok env e" and cmp: "compressBody env e a0 body = Inr (a, body')"
  shows "a = (if me_compression e = CompressionNone_text then a0 else gm_set a0 AttributeCompression (me_compression e))"
    and "gm_get b AttributeCompression = (if me_compression e = CompressionNone_text then None else Some (me_compression e)) \<Longrightarrow>
      decompressBody env b body' = Inr body"
  using cmp codec_okD(3,4) [OF ok]
  by (auto simp: compressBody_def decompressBody_def CompressMessage_def DecompressMessage_def split: if_splits option.splits sum.splits)

lemma encode_decode:
  assumes "codec_ok env e" and "handlers_ok (encodeHandlers e) Ks"
    and "encoder_Encode env e ctx data sets = Inr msg"
    and "\<And>k. k \<in> \<Union> (set Ks) \<Longrightarrow> k \<notin> {AttributeEncoding, AttributeCompression} \<and> gm_get (concat sets) k = None"
    and "gm_get (concat sets) AttributeCompression = None"
  shows "\<exists>ctx' a. encoder_Decode env e ctx0 msg = (msg\<lparr>Attributes := a\<rparr>, ctx', a, Inr data) \<and>
    (\<forall>k. gm_get a k = (case gm_get (ownAttributes e) k of Some v \<Rightarrow> Some v | None \<Rightarrow> gm_get (concat sets) k)) \<and>
    (\<forall>k. k \<notin> \<Union> (set Ks) \<longrightarrow> gm_get (Attributes msg) k = gm_get a k)"
proof -
  obtain a1 b1 a2 b2 a3 c4 a4 where enc: "encodeBody env e [] data = Inr (a1, b1)"
    and cmp: "compressBody env e a1 b1 = Inr (a2, b2)" and mrg: "mergeAttributes a2 sets = Inr a3"
    and run: "runEncode (encodeHandlers e) ctx data a3 = Inr (c4, a4)" and msg: "msg = \<lparr>Attributes = a4, Body = b2\<rparr>"
    using assms(3) by (auto simp: encoder_Encode_def split: sum.splits prod.splits)
  have a2: "gm_get a2 k = gm_get (ownAttributes e) k" for k
    using encodeBody_back(1) [OF assms(1) enc] compressBody_back(1) [OF assms(1) cmp] by (simp add: ownAttributes_def)
  let ?get = "\<lambda>k. case gm_get (ownAttributes e) k of Some v \<Rightarrow> Some v | None \<Rightarrow> gm_get (concat sets) k"
  have a3: "gm_get a3 k = ?get k" for k using mergeAttributes_get [OF mrg, of k] by (simp add: a2)
  have own: "gm_get (ownAttributes e) k = None" if "k \<in> \<Union> (set Ks)" for k
    using assms(4) [OF that] by (auto simp: ownAttributes_def)
  have a4: "gm_get a4 k = ?get k" if "k \<notin> \<Union> (set Ks)" for k
    using runEncode_frame [OF assms(2) run, of k] that a3 by auto
  have keys: "AttributeEncoding \<notin> \<Union> (set Ks)" "AttributeCompression \<notin> \<Union> (set Ks)" using assms(4) by blast+
  have "decompressBody env a4 b2 = Inr b1"
    by (rule compressBody_back(2) [OF assms(1) cmp]) (simp add: a4 [OF keys(2)] own_get assms(5))
  moreover have "decodeBody env e a4 b1 = Inr data"
    by (rule encodeBody_back(2) [OF assms(1) enc]) (simp add: a4 [OF keys(1)] own_get)
  moreover obtain c5 a5 where "runDecode (encodeHandlers e) ctx0 data a4 = (c5, a5, None)"
    and a5: "\<forall>k. gm_get a5 k = (if k \<in> \<Union> (set Ks) then None else gm_get a4 k)"
    using runDecode_undoes [OF assms(2) run, of a4 ctx0] a3 own assms(4) by fastforce
  moreover have "gm_get a5 k = ?get k" for k
    using a5 a4 [of k] own [of k] assms(4) [of k] by (cases "k \<in> \<Union> (set Ks)") auto
  ultimately show ?thesis using a4 by (simp add: encoder_Decode_def msg)
qed

text \<open>
  C27. A message that was encoded is decoded to the data it was made of, by the same encoder and in whatever
  context: the body goes through the encoder, the compressor and base64 and back, the handlers take out the
  attributes they put in, and what is left are the attributes that describe the body and those of
  the caller. The caller may not use the attribute of the compression nor those of the handlers.
\<close>

theorem Encode_Decode:
  assumes "codec_ok env e" and "handlers_ok (encodeHandlers e) Ks"
    and "encoder_Encode env e ctx data sets = Inr msg"
    and "\<And>k. k \<in> \<Union> (set Ks) \<Longrightarrow> k \<notin> {AttributeEncoding, AttributeCompression} \<and> gm_get (concat sets) k = None"
    and "gm_get (concat sets) AttributeCompression = None"
  shows "\<exists>ctx' a. encoder_Decode env e ctx0 msg = (msg\<lparr>Attributes := a\<rparr>, ctx', a, Inr data) \<and>
    (\<forall>k. gm_get a k = (case gm_get (ownAttributes e) k of Some v \<Rightarrow> Some v | None \<Rightarrow> gm_get (concat sets) k))"
  using encode_decode [OF assms] by blast

definition demoEnv :: "string codecEnv" where
  "demoEnv = \<lparr>messageBodyEncoders = [(''json'', \<lparr>be_Encode = Inr, be_Decode = Inr\<rparr>)],
     messageBodyCompressors = [(''turned'', \<lparr>Compress = \<lambda>s. Inr (rev s), Decompress = \<lambda>s. Inr (rev s)\<rparr>)],
     b64Encode = \<lambda>s. CHR ''='' # s, b64Decode = \<lambda>s. Inr (tl s), defaultMessageBodyEncoding = ''json''\<rparr>"

definition demoEncoder :: "(samplingContext, string) messageEncoder" where
  "demoEncoder = \<lparr>me_encoding = ''json'', me_compression = ''turned'', encodeHandlers = [samplingHandler], externalEncoder = None\<rparr>"

theorem Encode_Decode_witness:
  "\<exists>msg. encoder_Encode demoEnv demoEncoder (Some False) ''abc'' [[(''k'', ''v'')]] = Inr msg \<and> Body msg = ''=cba'' \<and>
     (\<exists>ctx' a. encoder_Decode demoEnv demoEncoder None msg = (msg\<lparr>Attributes := a\<rparr>, ctx', a, Inr ''abc'') \<and>
       gm_get a ''k'' = Some ''v'')"
proof -
  let ?msg = "\<lparr>Attributes = [(''encoding'', ''json''), (''compression'', ''turned''), (''k'', ''v''), (''sampled'', ''false'')], Body = ''=cba''\<rparr>"
  have enc: "encoder_Encode demoEnv demoEncoder (Some False) ''abc'' [[(''k'', ''v'')]] = Inr ?msg"
    by (simp add: encoder_Encode_def encodeBody_def compressBody_def EncodeMessage_def CompressMessage_def demoEnv_def demoEncoder_def
        samplingHandler_def Sampling_Encode_def GetSampling_def FormatBool_def AttributeEncoding_def AttributeCompression_def
        CompressionNone_text_def sampled_attribute_def)
  have ok: "codec_ok demoEnv demoEncoder" by (simp add: codec_ok_def demoEnv_def demoEncoder_def)
  have h: "handlers_ok (encodeHandlers demoEncoder) [{sampled_attribute}]" using samplingHandler_ok by (simp add: demoEncoder_def)
  obtain ctx' a where r: "encoder_Decode demoEnv demoEncoder None ?msg = (?msg\<lparr>Attributes := a\<rparr>, ctx', a, Inr ''abc'')"
    and g: "\<forall>k. gm_get a k = (case gm_get (ownAttributes demoEncoder) k of Some v \<Rightarrow> Some v | None \<Rightarrow> gm_get (concat [[(''k'', ''v'')]]) k)"
    using Encode_Decode [OF ok h enc, of None]
    by (auto simp: sampled_attribute_def AttributeEncoding_def AttributeCompression_def)
  have "gm_get a ''k'' = Some ''v''"
    using g [rule_format, of "''k''"]
    by (simp add: ownAttributes_def demoEncoder_def AttributeEncoding_def AttributeCompression_def CompressionNone_text_def)
  then show ?thesis using enc r by (intro exI [of _ ?msg]) simp
qed

section \<open>Chunks\<close>

definition marshalled :: "('m \<Rightarrow> goerr + string) \<Rightarrow> 'm list \<Rightarrow> string list" where
  "marshalled marsh ms = concat (map (\<lambda>m. case marsh m of Inl _ \<Rightarrow> [] | Inr b \<Rightarrow> [b]) ms)"

lemma marshalled_simps [simp]:
  "marshalled marsh [] = []"
  "marshalled marsh (m # ms) = (case marsh m of Inl _ \<Rightarrow> [] | Inr b \<Rightarrow> [b]) @ marshalled marsh ms"
  by (simp_all add: marshalled_def)

definition sliced :: "nat \<Rightarrow> nat \<Rightarrow> 'a list \<Rightarrow> 'a list list" where
  "sliced p N xs = map (\<lambda>i. take p (drop (i * p) xs)) [0..<N]"

lemma sliced_snoc:
  assumes "length xs div p < N" and "p > 0"
  shows "(sliced p N xs)[length xs div p := sliced p N xs ! (length xs div p) @ [x]] = sliced p N (xs @ [x])"
proof (rule nth_equalityI)
  fix i assume "i < length ((sliced p N xs)[length xs div p := sliced p N xs ! (length xs div p) @ [x]])"
  then have i: "i < N" by (simp add: sliced_def)
  have "length xs div p * p \<le> length xs" "length xs < (length xs div p) * p + p"
    using dividend_less_div_times [OF assms(2), of "length xs"] by simp_all
  moreover have "length xs < i * p" if "length xs div p < i"
    using that assms(2) by (simp add: div_less_iff_less_mult)
  moreover have "i * p + p \<le> length xs" if "i < length xs div p"
    using that assms(2) less_eq_div_iff_mult_less_eq [of p "Suc i" "length xs"] by (simp add: add.commute)
  ultimately show "(sliced p N xs)[length xs div p := sliced p N xs ! (length xs div p) @ [x]] ! i = sliced p N (xs @ [x]) ! i"
    using i assms(1) by (cases i "length xs div p" rule: linorder_cases) (auto simp: sliced_def)
qed (simp add: sliced_def)

lemma concat_sliced: "length xs \<le> N * p \<Longrightarrow> concat (sliced p N xs) = xs"
proof -
  have "concat (sliced p N xs) = take (N * p) xs"
  proof (induction N)
    case (Suc N)
    then show ?case using take_add [of "N * p" p xs] by (simp add: sliced_def add.commute [of p])
  qed (simp add: sliced_def)
  then show "length xs \<le> N * p \<Longrightarrow> ?thesis" by simp
qed

lemma marshalled_length: "length (marshalled marsh ms) \<le> length ms"
  by (induction ms) (auto split: sum.splits)

lemma sliced_full:
  assumes "length xs div p < N" and "p > 0"
  shows "length (sliced p N (xs @ [x]) ! (length xs div p)) = p \<longleftrightarrow> (length xs + 1) div p = length xs div p + 1"
    and "length (sliced p N (xs @ [x]) ! (length xs div p)) \<noteq> p \<Longrightarrow> (length xs + 1) div p = length xs div p"
proof -
  have "length (sliced p N (xs @ [x]) ! (length xs div p)) = length xs mod p + 1"
    using assms mod_less_divisor [OF assms(2), of "length xs"] by (simp add: sliced_def minus_div_mult_eq_mod)
  then show "length (sliced p N (xs @ [x]) ! (length xs div p)) = p \<longleftrightarrow> (length xs + 1) div p = length xs div p + 1"
    and "length (sliced p N (xs @ [x]) ! (length xs div p)) \<noteq> p \<Longrightarrow> (length xs + 1) div p = length xs div p"
    by (auto simp: div_Suc mod_Suc split: if_splits)
qed

lemma fillChunks_sliced:
  "p > 0 \<Longrightarrow> length sofar + length ms \<le> N * p \<Longrightarrow>
   fillChunks p marsh ms (length sofar div p) (sliced p N sofar) errs
     = Some (sliced p N (sofar @ marshalled marsh ms), errs + (length ms - length (marshalled marsh ms)))"
proof (induction ms arbitrary: sofar errs)
  case (Cons m ms)
  show ?case
  proof (cases "marsh m")
    case (Inl e)
    then show ?thesis using Cons marshalled_length [of marsh ms] by (simp add: Suc_diff_le)
  next
    case (Inr b)
    have j: "length sofar div p < N" using Cons.prems by (simp add: div_less_iff_less_mult)
    then have "length sofar div p < length (sliced p N sofar)" by (simp add: sliced_def)
    moreover have "(if length (sliced p N (sofar @ [b]) ! (length sofar div p)) = p then length sofar div p + 1 else length sofar div p)
        = length (sofar @ [b]) div p"
      using sliced_full [OF j Cons.prems(1), of b] by auto
    ultimately show ?thesis using Inr Cons.IH [of "sofar @ [b]" errs] Cons.prems sliced_snoc [OF j Cons.prems(1), of b]
      by (simp add: Let_def)
  qed
qed simp

text \<open>
  The messages that can be marshalled are cut into chunks of the given size, in order; the number of chunks is that of
  the whole batch, so that chunks at the end are empty when messages fail. No index is out of range.
\<close>

theorem BuildChunks_correct:
  assumes "perChunk > 0"
  shows "\<exists>chunks err. BuildChunks marsh batch perChunk = Some (chunks, err) \<and>
    chunks = sliced perChunk ((length batch + perChunk - 1) div perChunk) (marshalled marsh batch) \<and>
    concat chunks = marshalled marsh batch \<and> (\<forall>c \<in> set chunks. length c \<le> perChunk) \<and>
    (err = None \<longleftrightarrow> (\<forall>m \<in> set batch. \<exists>b. marsh m = Inr b))"
proof -
  let ?N = "(length batch + perChunk - 1) div perChunk" and ?oks = "marshalled marsh batch"
  have N: "length batch \<le> ?N * perChunk"
    using assms dividend_less_div_times [OF assms, of "length batch + perChunk - 1"] by linarith
  have "replicate ?N [] = sliced perChunk ?N ([] :: string list)" by (simp add: sliced_def map_replicate_const)
  then have r: "fillChunks perChunk marsh batch 0 (replicate ?N []) 0 = Some (sliced perChunk ?N ?oks, length batch - length ?oks)"
    using fillChunks_sliced [OF assms, of "[]" batch ?N marsh 0] N by simp
  have "length ?oks < length batch \<longleftrightarrow> \<not> (\<forall>m \<in> set batch. \<exists>b. marsh m = Inr b)"
    using marshalled_length [of marsh] by (induction batch) (auto simp: less_Suc_eq_le split: sum.splits)
  moreover have "concat (sliced perChunk ?N ?oks) = ?oks"
    using concat_sliced N marshalled_length [of marsh batch] by (metis order_trans)
  ultimately show ?thesis unfolding BuildChunks_def r by (auto simp: sliced_def)
qed

text \<open>
  An unmarshallable message leaves an empty chunk behind, which is pushed like the others; a batch of
  which only some messages were written counts as written.
\<close>

lemma redis_pushes_empty_chunk:
  assumes "marsh m = Inl e"
  shows "redisList_Write marsh rpush 1 [m] r = Some (rpush [] r)"
  using assms by (cases "rpush [] r") (auto simp: redisList_Write_def BuildChunks_def split: option.splits)

lemma redis_drops_message:
  assumes "marsh m = Inl e" and "marsh m' = Inr b" and "rpush [b] r = (r', None)"
  shows "redisList_Write marsh rpush 2 [m, m'] r = Some (r', None)"
  using assms by (simp add: redisList_Write_def BuildChunks_def)

section \<open>Producing\<close>

lemma encodeAll_iff:
  "encodeAll enc models = Inr msgs \<longleftrightarrow> map enc models = map Inr msgs"
  by (induction models arbitrary: msgs) (force split: sum.splits simp: Cons_eq_map_conv)+

text \<open>\<open>Write\<close> hands all messages to the output at once or, when one can not be encoded, none.\<close>

lemma producer_Write_all_or_nothing:
  "producer_Write enc output (Inr models) out =
     (if \<exists>m \<in> set models. \<exists>err. enc m = Inl err
      then (out, Some (projl (encodeAll enc models)))
      else (case output (map (projr \<circ> enc) models) out of
              (out, Some err) \<Rightarrow> (out, Some (errorf_w ''can not write messages to output: '' err ''''))
            | (out, None) \<Rightarrow> (out, None)))"
proof (cases "encodeAll enc models")
  case (Inl err)
  then have "\<exists>m \<in> set models. \<exists>err. enc m = Inl err" by (induction models) (auto split: sum.splits)
  then show ?thesis using Inl by (simp add: producer_Write_def)
next
  case (Inr msgs)
  then have m: "map enc models = map Inr msgs" by (simp add: encodeAll_iff)
  have "\<forall>m \<in> set models. \<exists>x. enc m = Inr x" using arg_cong [OF m, of set] by auto
  moreover have "map (projr \<circ> enc) models = msgs" using m by (metis list.map_comp list.map_id sum.sel(2) comp_apply map_idI map_map)
  ultimately show ?thesis using Inr by (auto simp: producer_Write_def)
qed

end
