(* ===== verification/Consumer.thy ===== *)
theory Consumer
  imports StreamCodec Funk
begin

text \<open>
  The consumer of \<open>pkg/stream\<close> (\<open>consumer.go\<close>, \<open>consumer_base.go\<close>, \<open>consumer_acknowledge.go\<close>, \<open>retry_noop.go\<close>,
  \<open>retry_sqs.go\<close>, \<open>manual_sqs_retry_handler.go\<close>) and the acknowledgement of the SQS input (\<open>input_sqs.go\<close>).

  The callback, the encoder, the identifiers and the output of the retry handler are functions of the environment that also
  see a counter of the calls made so far, so that each call may have its own outcome. What the consumer does to the
  outside is a list of events. A message is a pointer whose attributes decoding and retrying change in
  place, so the operations return the message as it is afterwards. Logging, metrics, tracing and the sampling decision, which only
  extends the context, are left out; a panic of the callback or the decoder is an outcome.
\<close>

section \<open>Settings, environment and events\<close>

definition AttributeRetry :: string where "AttributeRetry = ''goso.retry''"
definition AttributeRetryId :: string where "AttributeRetryId = ''goso.retry.id''"
definition attributeRetrySqs :: string where "attributeRetrySqs = ''goso.retry.sqs''"
definition AttributeSqsDelaySeconds :: string where "AttributeSqsDelaySeconds = ''sqsDelaySeconds''"
definition AttributeSqsReceiptHandle :: string where "AttributeSqsReceiptHandle = ''sqsReceiptHandle''"
definition AttributeAggregate :: string where "AttributeAggregate = ''goso.aggregate''"
definition AggregateMessageModeAtLeastOnce :: string where "AggregateMessageModeAtLeastOnce = ''atLeastOnce''"
definition AggregateMessageModeAtMostOnce :: string where "AggregateMessageModeAtMostOnce = ''atMostOnce''"

lemmas attribute_defs = AttributeRetry_def AttributeRetryId_def attributeRetrySqs_def AttributeSqsDelaySeconds_def
  AttributeSqsReceiptHandle_def AttributeAggregate_def

lemma retry_keys_differ [simp]:
  "AttributeRetry \<noteq> AttributeRetryId" "AttributeRetryId \<noteq> AttributeRetry" "AttributeRetry \<noteq> attributeRetrySqs"
  "AttributeRetryId \<noteq> attributeRetrySqs" "attributeRetrySqs \<noteq> AttributeRetryId" "attributeRetrySqs \<noteq> AttributeRetry"
  "attributeRetrySqs \<noteq> AttributeSqsDelaySeconds" "AttributeSqsDelaySeconds \<noteq> attributeRetrySqs"
  "AttributeRetryId \<noteq> AttributeSqsDelaySeconds" "AttributeSqsReceiptHandle \<noteq> attributeRetrySqs"
  "AttributeSqsReceiptHandle \<noteq> AttributeSqsDelaySeconds" "AttributeSqsReceiptHandle \<noteq> AttributeRetry"
  "AttributeSqsReceiptHandle \<noteq> AttributeRetryId"
  by (simp_all add: attribute_defs)

text \<open>The two inputs a consumer reads from, and what it gets from them.\<close>

datatype inputRef = MainInput | RetryInput

record consumerData =
  cd_msg :: Message
  cd_src :: string
  cd_input :: inputRef

definition dataSourceInput :: string where "dataSourceInput = ''input''"
definition dataSourceRetry :: string where "dataSourceRetry = ''retry''"

fun sourceName :: "inputRef \<Rightarrow> string" where
  "sourceName MainInput = dataSourceInput"
| "sourceName RetryInput = dataSourceRetry"

definition ingest :: "inputRef \<Rightarrow> Message \<Rightarrow> consumerData" where
  "ingest input msg = \<lparr>cd_msg = msg, cd_src = sourceName input, cd_input = input\<rparr>"

record IgnoreOnGetModelErrorSettings =
  UnknownModel :: bool
  UnknownVersion :: bool

datatype RetryHandler = RetryHandlerNoop | RetryHandlerSqs int | ManualSqsRetryHandler

text \<open>\<open>ackable\<close> and \<open>nativeRetry\<close> are the interfaces the inputs implement.\<close>

record ConsumerSettings =
  Retry_Enabled :: bool
  AggregateMessageMode :: string
  IgnoreOnGetModelError :: IgnoreOnGetModelErrorSettings
  retryHandler :: RetryHandler
  ackable :: "inputRef \<Rightarrow> bool"
  nativeRetry :: bool

datatype 'a outcome = Returned 'a | Panicked goerr

text \<open>
  \<open>ignorable\<close> is \<open>errors.As\<close> for an \<open>IgnorableGetModelError\<close>. The decoders also return the attributes the
  message has afterwards.
\<close>

record ('m, 'd) consumerEnv =
  ctxDone :: "nat \<Rightarrow> bool"
  cb_GetModel :: "nat \<Rightarrow> attrs \<Rightarrow> (goerr + 'm option) outcome"
  ignorable :: "goerr \<Rightarrow> (IgnoreOnGetModelErrorSettings \<Rightarrow> bool) option"
  decodeModel :: "nat \<Rightarrow> 'm \<Rightarrow> Message \<Rightarrow> attrs \<times> (goerr + attrs \<times> 'd) outcome"
  disaggregate :: "nat \<Rightarrow> Message \<Rightarrow> attrs \<times> (goerr + Message list)"
  cb_Consume :: "nat \<Rightarrow> 'd \<Rightarrow> attrs \<Rightarrow> (bool \<times> error) outcome"
  newV4 :: "nat \<Rightarrow> string"
  writeRetry :: "nat \<Rightarrow> Message \<Rightarrow> error"

text \<open>
  What is observable: the calls of the callback, messages written to or refused by the retry queue,
  acknowledgements, and the errors that are reported, \<open>Undecodable\<close> when there is no model for the message or its body can
  not be decoded, \<open>Ignored\<close> when the settings ignore that there is no model. The last three belong to the batch consumer.
\<close>

datatype 'd event =
    Undecodable Message goerr
  | Ignored Message goerr
  | Recovered Message goerr
  | ConsumeError Message goerr
  | Consumed Message 'd "(bool \<times> error) outcome"
  | RetryWritten Message
  | RetryFailed Message goerr
  | Acked inputRef Message bool
  | BatchConsumed "(Message \<times> 'd) list" "(bool list \<times> error) outcome"
  | BatchRecovered goerr
  | AckedBatch inputRef "(Message \<times> bool) list"

record 'd consumerState =
  now :: nat
  events :: "'d event list"
  processed :: int

definition tick :: "'d consumerState \<Rightarrow> 'd consumerState" where
  "tick s = s\<lparr>now := now s + 1\<rparr>"

definition emit :: "'d event list \<Rightarrow> 'd consumerState \<Rightarrow> 'd consumerState" where
  "emit evs s = s\<lparr>events := events s @ evs\<rparr>"

section \<open>Retrying\<close>

text \<open>
  The retry handlers: the message as it is afterwards, the message that was written to the output, and the error.
\<close>

definition RetryHandlerSqs_Put :: "int \<Rightarrow> (Message \<Rightarrow> error) \<Rightarrow> Message \<Rightarrow> Message \<times> Message option \<times> error" where
  "RetryHandlerSqs_Put afterSeconds writeOne msg =
     (if gm_has (Attributes msg) attributeRetrySqs then (msg, None, None)
      else let msg = msg\<lparr>Attributes := gm_set (gm_set (Attributes msg) attributeRetrySqs (FormatBool True))
                    AttributeSqsDelaySeconds (itoa afterSeconds)\<rparr>
           in case writeOne msg of
                Some err \<Rightarrow> (msg, None, Some (errorf_w ''can not write the message to the output: '' err ''''))
              | None \<Rightarrow> (msg, Some msg, None))"

definition manualSqsRetryHandler_Put :: "(Message \<Rightarrow> error) \<Rightarrow> Message \<Rightarrow> Message \<times> Message option \<times> error" where
  "manualSqsRetryHandler_Put writeOne msg =
     (if gm_has (Attributes msg) attributeRetrySqs then (msg, None, None)
      else let msg = msg\<lparr>Attributes := gm_set (Attributes msg) attributeRetrySqs (FormatBool True)\<rparr>
           in case writeOne msg of
                Some err \<Rightarrow> (msg, None, Some (errorf_w ''can not write the message to the output: '' err ''''))
              | None \<Rightarrow> (msg, Some msg, None))"

fun retryHandler_Put :: "RetryHandler \<Rightarrow> (Message \<Rightarrow> error) \<Rightarrow> Message \<Rightarrow> Message \<times> Message option \<times> error" where
  "retryHandler_Put RetryHandlerNoop writeOne msg = (msg, None, None)"
| "retryHandler_Put (RetryHandlerSqs afterSeconds) writeOne msg = RetryHandlerSqs_Put afterSeconds writeOne msg"
| "retryHandler_Put ManualSqsRetryHandler writeOne msg = manualSqsRetryHandler_Put writeOne msg"

text \<open>The message itself is used again when it already has a retry id; the flag says so.\<close>

definition buildRetryMessage :: "string \<Rightarrow> Message \<Rightarrow> Message \<times> bool" where
  "buildRetryMessage uuid msg =
     (if gm_has (Attributes msg) AttributeRetryId then (msg, True)
      else (msg\<lparr>Attributes := MergeMaps [Attributes msg, [(AttributeRetry, FormatBool True), (AttributeRetryId, uuid)]]\<rparr>, False))"

definition retry ::
  "('m, 'd) consumerEnv \<Rightarrow> ConsumerSettings \<Rightarrow> Message \<Rightarrow> 'd consumerState \<Rightarrow> 'd consumerState \<times> Message" where
  "retry env c msg s =
     (if \<not> Retry_Enabled c then (s, msg)
      else case buildRetryMessage (newV4 env (now s)) msg of
        (retryMsg, same) \<Rightarrow>
          (case retryHandler_Put (retryHandler c) (writeRetry env (now s)) retryMsg of
             (retryMsg, written, err) \<Rightarrow>
               (emit ((case written of None \<Rightarrow> [] | Some m \<Rightarrow> [RetryWritten m]) @ (case err of None \<Rightarrow> [] | Some e \<Rightarrow> [RetryFailed retryMsg e])) (tick s),
                if same then retryMsg else msg)))"

definition recover ::
  "('m, 'd) consumerEnv \<Rightarrow> ConsumerSettings \<Rightarrow> Message option \<Rightarrow> 'd consumerState \<Rightarrow> 'd consumerState \<times> Message option" where
  "recover env c msg s =
     (case msg of
        None \<Rightarrow> (s, msg)
      | Some m \<Rightarrow> if nativeRetry c then (s, msg) else (case retry env c m s of (s, m) \<Rightarrow> (s, Some m)))"

section \<open>Consuming\<close>

definition recovered ::
  "('m, 'd) consumerEnv \<Rightarrow> ConsumerSettings \<Rightarrow> Message \<Rightarrow> goerr \<Rightarrow> 'd consumerState \<Rightarrow> 'd consumerState \<times> Message \<times> bool" where
  "recovered env c msg err s = (case recover env c (Some msg) (emit [Recovered msg err] s) of (s, m) \<Rightarrow> (s, the m, False))"

definition noModel :: goerr where
  "noModel = Opaque ''can not get model for message attributes''"

definition isIgnored :: "('m, 'd) consumerEnv \<Rightarrow> ConsumerSettings \<Rightarrow> goerr \<Rightarrow> bool" where
  "isIgnored env c err = (case ignorable env err of None \<Rightarrow> False | Some isIgnorable \<Rightarrow> isIgnorable (IgnoreOnGetModelError c))"

text \<open>The last part of \<open>process\<close>, from the call of the callback on.\<close>

definition consumeModel ::
  "('m, 'd) consumerEnv \<Rightarrow> ConsumerSettings \<Rightarrow> Message \<Rightarrow> bool \<Rightarrow> 'd \<Rightarrow> attrs \<Rightarrow> 'd consumerState \<Rightarrow> 'd consumerState \<times> Message \<times> bool" where
  "consumeModel env c msg hasNativeRetry data attributes s =
     (let result = cb_Consume env (now s) data attributes; s = emit [Consumed msg data result] (tick s)
      in case result of
           Panicked err \<Rightarrow> recovered env c msg err s
         | Returned (ack, err) \<Rightarrow>
             (let s = (case err of None \<Rightarrow> s | Some e \<Rightarrow> emit [ConsumeError msg e] s)
              in case (if \<not> ack \<and> \<not> hasNativeRetry then retry env c msg s else (s, msg)) of
                   (s, msg) \<Rightarrow> (s, msg, ack)))"

definition process ::
  "('m, 'd) consumerEnv \<Rightarrow> ConsumerSettings \<Rightarrow> Message \<Rightarrow> bool \<Rightarrow> 'd consumerState \<Rightarrow> 'd consumerState \<times> Message \<times> bool" where
  "process env c msg hasNativeRetry s0 =
     (let s = tick s0 in
      if ctxDone env (now s0)
      then (case (if \<not> hasNativeRetry then retry env c msg s else (s, msg)) of (s, msg) \<Rightarrow> (s, msg, False))
      else case cb_GetModel env (now s) (Attributes msg) of
        Panicked err \<Rightarrow> recovered env c msg err (tick s)
      | Returned (Inl err) \<Rightarrow>
          if isIgnored env c err then (emit [Ignored msg err] (tick s), msg, True)
          else (emit [Undecodable msg err] (tick s), msg, False)
      | Returned (Inr None) \<Rightarrow> (emit [Undecodable msg noModel] (tick s), msg, False)
      | Returned (Inr (Some model)) \<Rightarrow>
          (let s = tick s in
           case decodeModel env (now s) model msg of
             (a, Panicked err) \<Rightarrow> recovered env c (msg\<lparr>Attributes := a\<rparr>) err (tick s)
           | (a, Returned (Inl err)) \<Rightarrow> (emit [Undecodable (msg\<lparr>Attributes := a\<rparr>) err] (tick s), msg\<lparr>Attributes := a\<rparr>, False)
           | (a, Returned (Inr (attributes, data))) \<Rightarrow>
               consumeModel env c (msg\<lparr>Attributes := a\<rparr>) hasNativeRetry data attributes (tick s)))"

definition Acknowledge :: "ConsumerSettings \<Rightarrow> consumerData \<Rightarrow> bool \<Rightarrow> 'd consumerState \<Rightarrow> 'd consumerState" where
  "Acknowledge c cdata ack s =
     (if ackable c (cd_input cdata) then emit [Acked (cd_input cdata) (cd_msg cdata) ack] s else s)"

definition countOne :: "'d consumerState \<Rightarrow> 'd consumerState" where
  "countOne s = s\<lparr>processed := processed s + 1\<rparr>"

definition processSingleMessage ::
  "('m, 'd) consumerEnv \<Rightarrow> ConsumerSettings \<Rightarrow> consumerData \<Rightarrow> 'd consumerState \<Rightarrow> 'd consumerState" where
  "processSingleMessage env c cdata s =
     (case process env c (cd_msg cdata) (nativeRetry c) s of
        (s, msg, ack) \<Rightarrow> countOne (Acknowledge c (cdata\<lparr>cd_msg := msg\<rparr>) ack s))"

fun processEach :: "('m, 'd) consumerEnv \<Rightarrow> ConsumerSettings \<Rightarrow> Message list \<Rightarrow> 'd consumerState \<Rightarrow> 'd consumerState" where
  "processEach env c [] s = s"
| "processEach env c (m # ms) s =
     processEach env c ms (countOne (fst (process env c m
        (AggregateMessageMode c = AggregateMessageModeAtLeastOnce \<and> nativeRetry c) s)))"

definition processAggregateMessage ::
  "('m, 'd) consumerEnv \<Rightarrow> ConsumerSettings \<Rightarrow> consumerData \<Rightarrow> 'd consumerState \<Rightarrow> 'd consumerState" where
  "processAggregateMessage env c cdata s0 =
     (let s = tick s0 in
      case disaggregate env (now s0) (cd_msg cdata) of
        (a, Inl err) \<Rightarrow> emit [Undecodable ((cd_msg cdata)\<lparr>Attributes := a\<rparr>) err] s
      | (a, Inr batch) \<Rightarrow>
          (let cdata = cdata\<lparr>cd_msg := (cd_msg cdata)\<lparr>Attributes := a\<rparr>\<rparr>;
               s = (if AggregateMessageMode c = AggregateMessageModeAtMostOnce then Acknowledge c cdata True s else s);
               s = processEach env c batch s
           in if AggregateMessageMode c = AggregateMessageModeAtLeastOnce then Acknowledge c cdata True s else s))"

definition handleData ::
  "('m, 'd) consumerEnv \<Rightarrow> ConsumerSettings \<Rightarrow> consumerData \<Rightarrow> 'd consumerState \<Rightarrow> 'd consumerState" where
  "handleData env c cdata s =
     (if gm_has (Attributes (cd_msg cdata)) AttributeAggregate then processAggregateMessage env c cdata s
      else processSingleMessage env c cdata s)"

text \<open>A runner handles what it receives until the channel is closed.\<close>

definition readData ::
  "('m, 'd) consumerEnv \<Rightarrow> ConsumerSettings \<Rightarrow> consumerData list \<Rightarrow> 'd consumerState \<Rightarrow> 'd consumerState" where
  "readData env c received s = fold (handleData env c) received s"

section \<open>Acknowledgement in the SQS input\<close>

text \<open>Which receipt handles are deleted, and the errors.\<close>

definition noReceiptHandle :: goerr where
  "noReceiptHandle = Opaque (''the message has no attribute '' @ AttributeSqsReceiptHandle)"

definition sqsInput_Ack :: "(string \<Rightarrow> error) \<Rightarrow> Message \<Rightarrow> bool \<Rightarrow> string option \<times> error" where
  "sqsInput_Ack DeleteMessage msg ack =
     (if \<not> ack then (None, None)
      else case gm_get (Attributes msg) AttributeSqsReceiptHandle of
        None \<Rightarrow> (None, Some noReceiptHandle)
      | Some handle \<Rightarrow>
          if handle = [] then (None, Some (Opaque (''the attribute '' @ AttributeSqsReceiptHandle @ '' of the message should not be empty'')))
          else (Some handle, DeleteMessage handle))"

fun ackHandles :: "(Message \<times> bool) list \<Rightarrow> string list \<times> goerr list" where
  "ackHandles [] = ([], [])"
| "ackHandles ((msg, ack) # rest) =
     (case ackHandles rest of (handles, errs) \<Rightarrow>
        if \<not> ack then (handles, errs)
        else case gm_get (Attributes msg) AttributeSqsReceiptHandle of
          None \<Rightarrow> (handles, noReceiptHandle # errs)
        | Some handle \<Rightarrow>
            if handle = [] then (handles, Opaque (''the attribute '' @ AttributeSqsReceiptHandle @ '' of the message must not be empty'') # errs)
            else (handle # handles, errs))"

definition ErrorOrNil :: "goerr list \<Rightarrow> error" where
  "ErrorOrNil errs = (if errs = [] then None else Some (Multi (concat (map err_text errs)) errs))"

definition sqsInput_AckBatch :: "(string list \<Rightarrow> error) \<Rightarrow> Message list \<Rightarrow> bool list \<Rightarrow> string list \<times> error" where
  "sqsInput_AckBatch DeleteMessageBatch msgs acks =
     (case ackHandles (zip msgs acks) of (handles, errs) \<Rightarrow>
        if handles = [] then ([], ErrorOrNil errs)
        else (handles, ErrorOrNil (errs @ (case DeleteMessageBatch handles of None \<Rightarrow> [] | Some e \<Rightarrow> [e]))))"

section \<open>What happens to a message\<close>

lemma consumer_emit_simps [simp]:
  "events (emit evs s) = events s @ evs" "now (emit evs s) = now s" "events (tick s) = events s" "now (tick s) = now s + 1"
  "events (countOne s) = events s" "emit [] s = s"
  by (simp_all add: emit_def tick_def countOne_def)

fun is_ack :: "'d event \<Rightarrow> bool" where
  "is_ack (Acked _ _ _) = True"
| "is_ack (AckedBatch _ _) = True"
| "is_ack _ = False"

text \<open>The settings under which a failed message is handed to the retry queue, and that the queue takes it.\<close>

definition retries :: "('m, 'd) consumerEnv \<Rightarrow> ConsumerSettings \<Rightarrow> bool" where
  "retries env c \<longleftrightarrow> Retry_Enabled c \<and> retryHandler c \<noteq> RetryHandlerNoop \<and> (\<forall>t m. writeRetry env t m = None)"

text \<open>The encoder leaves the mark of the retry queue alone.\<close>

definition keeps_mark :: "('m, 'd) consumerEnv \<Rightarrow> bool" where
  "keeps_mark env \<longleftrightarrow>
     (\<forall>t model msg. gm_get (fst (decodeModel env t model msg)) attributeRetrySqs = gm_get (Attributes msg) attributeRetrySqs)"

text \<open>
  What is written for a message in the part of the log that belongs to it. A message that carries the mark of the retry
  queue came from there and comes back from there.
\<close>

definition in_retry :: "Message \<Rightarrow> bool" where
  "in_retry msg = gm_has (Attributes msg) attributeRetrySqs"

definition settled :: "Message \<Rightarrow> bool \<Rightarrow> 'd event list \<Rightarrow> bool" where
  "settled msg ack evs \<longleftrightarrow>
     (\<forall>e \<in> set evs. \<not> is_ack e) \<and>
     (ack \<longrightarrow> (\<exists>m d err. Consumed m d (Returned (True, err)) \<in> set evs \<and> Body m = Body msg) \<or> (\<exists>err. Ignored msg err \<in> set evs)) \<and>
     (\<not> ack \<longrightarrow> (\<exists>m err. Undecodable m err \<in> set evs \<and> Body m = Body msg) \<or>
        (\<exists>m. RetryWritten m \<in> set evs \<and> Body m = Body msg \<and> in_retry m) \<or> in_retry msg)"

lemma gm_setAll_None: "gm_get (gm_setAll item out) k = None \<longleftrightarrow> k \<notin> fst ` set item \<and> gm_get out k = None"
proof (induction item arbitrary: out)
  case (Cons x item)
  obtain a b where "x = (a, b)" by (cases x)
  then show ?case using Cons [of "gm_set out a b"] by (auto simp: gm_setAll_def split: if_splits)
qed (simp add: gm_setAll_def)

lemma MergeMaps_None: "gm_get (MergeMaps [a, b]) k = None \<longleftrightarrow> gm_get a k = None \<and> gm_get b k = None"
  by (auto simp: MergeMaps_def gm_setAll_None map_of_eq_None_iff [of a] map_of_eq_None_iff [of b])

lemma buildRetryMessage_facts:
  assumes "buildRetryMessage uuid msg = (m, same)"
  shows "Body m = Body msg" and "in_retry m \<longleftrightarrow> in_retry msg"
  using assms by (auto simp: buildRetryMessage_def in_retry_def MergeMaps_None simp del: not_None_eq split: if_splits)

lemma Put_facts:
  assumes "retryHandler_Put h w msg = (m, written, err)"
  shows "Body m = Body msg" and "written = Some m' \<Longrightarrow> m' = m"
    and "h \<noteq> RetryHandlerNoop \<Longrightarrow> (\<And>x. w x = None) \<Longrightarrow> \<not> in_retry msg \<Longrightarrow> written = Some m \<and> in_retry m"
  using assms by (cases h; auto simp: RetryHandlerSqs_Put_def manualSqsRetryHandler_Put_def in_retry_def Let_def split: if_splits option.splits)+

lemma retry_settles:
  assumes "retries env c" and "retry env c msg s = (s', msg')"
  shows "\<exists>evs. events s' = events s @ evs \<and> (\<forall>e \<in> set evs. \<not> is_ack e) \<and> Body msg' = Body msg \<and>
    (in_retry msg \<or> (\<exists>m. RetryWritten m \<in> set evs \<and> Body m = Body msg \<and> in_retry m))"
proof -
  obtain m same where b: "buildRetryMessage (newV4 env (now s)) msg = (m, same)" by fastforce
  obtain m2 written err where p: "retryHandler_Put (retryHandler c) (writeRetry env (now s)) m = (m2, written, err)"
    by (metis prod_cases3)
  have "written = Some m2 \<and> in_retry m2" if "\<not> in_retry msg"
    using Put_facts(3) [OF p] that assms(1) buildRetryMessage_facts(2) [OF b] by (simp add: retries_def)
  then show ?thesis
    using assms b p buildRetryMessage_facts(1) [OF b] Put_facts(1) [OF p]
    by (cases "in_retry msg") (auto simp: retry_def retries_def split: option.splits if_splits)
qed

lemma settled_retry:
  assumes "\<forall>e \<in> set evs1. \<not> is_ack e" and "\<forall>e \<in> set evs2. \<not> is_ack e" and "Body m0 = Body msg" and "in_retry m0 \<Longrightarrow> in_retry msg"
    and "in_retry m0 \<or> (\<exists>m. RetryWritten m \<in> set evs2 \<and> Body m = Body m0 \<and> in_retry m)"
  shows "settled msg False (evs1 @ evs2)"
  using assms by (auto simp: settled_def)

lemma recovered_settles:
  assumes "retries env c" and "\<not> nativeRetry c" and "recovered env c m0 err s = (s', msg', ack)"
    and "Body m0 = Body msg" and "in_retry m0 \<Longrightarrow> in_retry msg" and "\<forall>e \<in> set evs1. \<not> is_ack e"
  shows "\<exists>evs. events s' = events s @ evs \<and> settled msg ack (evs1 @ evs) \<and> Body msg' = Body msg"
proof -
  obtain m1 where r: "retry env c m0 (emit [Recovered m0 err] s) = (s', m1)" and m: "msg' = m1" "ack = False"
    using assms(2,3) by (auto simp: recovered_def recover_def split: prod.splits)
  obtain evs where "events s' = events s @ [Recovered m0 err] @ evs" "\<forall>e \<in> set evs. \<not> is_ack e" "Body m1 = Body m0"
    "in_retry m0 \<or> (\<exists>m. RetryWritten m \<in> set evs \<and> Body m = Body m0 \<and> in_retry m)"
    using retry_settles [OF assms(1) r] by auto
  then show ?thesis
    using settled_retry [of "evs1 @ [Recovered m0 err]" evs m0 msg] assms(4-6) m by (intro exI [of _ "[Recovered m0 err] @ evs"]) auto
qed

lemma consumeModel_settles:
  assumes "retries env c" and "\<not> nativeRetry c" and "consumeModel env c m0 False data attributes s = (s', msg', ack)"
    and "Body m0 = Body msg" and "in_retry m0 \<Longrightarrow> in_retry msg"
  shows "\<exists>evs. events s' = events s @ evs \<and> settled msg ack evs \<and> Body msg' = Body msg"
proof -
  let ?s = "emit [Consumed m0 data (cb_Consume env (now s) data attributes)] (tick s)"
  show ?thesis
  proof (cases "cb_Consume env (now s) data attributes")
    case (Panicked err)
    then have "recovered env c m0 err ?s = (s', msg', ack)" using assms(3) by (simp add: consumeModel_def)
    from recovered_settles [OF assms(1,2) this assms(4,5), of "[Consumed m0 data (Panicked err)]"] Panicked
    show ?thesis by auto
  next
    case (Returned r)
    then obtain b err where r: "cb_Consume env (now s) data attributes = Returned (b, err)" by (cases r) auto
    let ?errs = "case err of None \<Rightarrow> [] | Some e \<Rightarrow> [ConsumeError m0 e]"
    let ?s1 = "emit [Consumed m0 data (Returned (b, err))] (tick s)"
    let ?s2 = "emit ?errs ?s1"
    have noack: "\<forall>e \<in> set ([Consumed m0 data (Returned (b, err))] @ ?errs). \<not> is_ack e" by (cases err) auto
    show ?thesis
    proof (cases b)
      case True
      then have "events s' = events s @ [Consumed m0 data (Returned (b, err))] @ ?errs" "msg' = m0" "ack"
        using assms(3) r by (auto simp: consumeModel_def Let_def split: option.splits)
      moreover have "settled msg True ([Consumed m0 data (Returned (b, err))] @ ?errs)"
        using noack True assms(4) by (fastforce simp: settled_def)
      ultimately show ?thesis using assms(4) by auto
    next
      case False
      obtain m1 where q: "retry env c m0 ?s2 = (s', m1)" and m: "msg' = m1" "ack = False"
        using assms(3) False by (cases err) (auto simp: consumeModel_def Let_def r split: prod.splits)
      obtain evs where "events s' = events s @ ([Consumed m0 data (Returned (b, err))] @ ?errs) @ evs" "\<forall>e \<in> set evs. \<not> is_ack e"
        "Body m1 = Body m0" "in_retry m0 \<or> (\<exists>m. RetryWritten m \<in> set evs \<and> Body m = Body m0 \<and> in_retry m)"
        using retry_settles [OF assms(1) q] r by auto
      then show ?thesis using settled_retry [OF noack, of evs m0 msg] assms(4,5) m by auto
    qed
  qed
qed

lemma process_settles:
  assumes "retries env c" and "\<not> nativeRetry c" and "keeps_mark env" and "process env c msg False s = (s', msg', ack)"
  shows "\<exists>evs. events s' = events s @ evs \<and> settled msg ack evs \<and> Body msg' = Body msg"
proof (cases "ctxDone env (now s)")
  case True
  then have r: "retry env c msg (tick s) = (s', msg')" and "ack = False"
    using assms(4) by (auto simp: process_def Let_def split: prod.splits)
  with retry_settles [OF assms(1) r] show ?thesis by (auto simp: settled_def)
next
  case False
  show ?thesis
  proof (cases "cb_GetModel env (now s + 1) (Attributes msg)")
    case (Panicked err)
    then have "recovered env c msg err (tick (tick s)) = (s', msg', ack)" using False assms(4) by (simp add: process_def)
    from recovered_settles [OF assms(1,2) this, of msg "[]"] show ?thesis by auto
  next
    case (Returned r)
    show ?thesis
    proof (cases "\<exists>model. r = Inr (Some model)")
      case True
      then obtain model a res where m: "r = Inr (Some model)" and d: "decodeModel env (now s + 2) model msg = (a, res)" by fastforce
      have mark: "in_retry (msg\<lparr>Attributes := a\<rparr>) \<longleftrightarrow> in_retry msg"
        using assms(3) d unfolding keeps_mark_def in_retry_def by (metis Message.select_convs(1) Message.surjective Message.update_convs(1) fst_conv)
      show ?thesis
      proof (cases res)
        case (Panicked err)
        then have "recovered env c (msg\<lparr>Attributes := a\<rparr>) err (tick (tick (tick s))) = (s', msg', ack)"
          using \<open>\<not> ctxDone env (now s)\<close> assms(4) Returned m d by (simp add: process_def)
        from recovered_settles [OF assms(1,2) this, of msg "[]"] mark show ?thesis by auto
      next
        case (Returned x)
        then consider err where "res = Returned (Inl err)" | attributes data where "res = Returned (Inr (attributes, data))" by (cases x) auto
        then show ?thesis
        proof cases
          case 1
          then show ?thesis
            using \<open>\<not> ctxDone env (now s)\<close> assms(4) \<open>cb_GetModel env (now s + 1) (Attributes msg) = Returned r\<close> m d
            by (auto simp: process_def settled_def)
        next
          case (2 attributes data)
          then have "consumeModel env c (msg\<lparr>Attributes := a\<rparr>) False data attributes (tick (tick (tick s))) = (s', msg', ack)"
            using \<open>\<not> ctxDone env (now s)\<close> assms(4) \<open>cb_GetModel env (now s + 1) (Attributes msg) = Returned r\<close> m d
            by (simp add: process_def)
          from consumeModel_settles [OF assms(1,2) this, of msg] mark show ?thesis by auto
        qed
      qed
    next
      case no_model: False
      then consider err where "r = Inl err" | "r = Inr None" by (metis option.exhaust sum.exhaust)
      then show ?thesis using False Returned assms(4)
        by cases (auto simp: process_def settled_def Let_def split: if_splits)
    qed
  qed
qed

text \<open>The part of the log that belongs to a delivery.\<close>

definition ackedIf :: "ConsumerSettings \<Rightarrow> bool \<Rightarrow> inputRef \<Rightarrow> Message \<Rightarrow> bool \<Rightarrow> 'd event list" where
  "ackedIf c cond input m ack = (if cond \<and> ackable c input then [Acked input m ack] else [])"

definition singleHandled :: "ConsumerSettings \<Rightarrow> consumerData \<Rightarrow> 'd event list \<Rightarrow> bool" where
  "singleHandled c cdata seg \<longleftrightarrow>
     (\<exists>evs m ack. seg = evs @ ackedIf c True (cd_input cdata) m ack \<and> Body m = Body (cd_msg cdata) \<and> settled (cd_msg cdata) ack evs)"

definition aggregateHandled :: "('m, 'd) consumerEnv \<Rightarrow> ConsumerSettings \<Rightarrow> consumerData \<Rightarrow> 'd event list \<Rightarrow> bool" where
  "aggregateHandled env c cdata seg \<longleftrightarrow>
     (\<exists>t a err m. disaggregate env t (cd_msg cdata) = (a, Inl err) \<and> seg = [Undecodable m err]) \<or>
     (\<exists>t a batch parts m. disaggregate env t (cd_msg cdata) = (a, Inr batch) \<and> Body m = Body (cd_msg cdata) \<and>
        list_all2 (\<lambda>msg evs. \<exists>ack. settled msg ack evs) batch parts \<and>
        seg = ackedIf c (AggregateMessageMode c = AggregateMessageModeAtMostOnce) (cd_input cdata) m True @ concat parts @
              ackedIf c (AggregateMessageMode c = AggregateMessageModeAtLeastOnce) (cd_input cdata) m True)"

lemma Acknowledge_events [simp]:
  "events (Acknowledge c cdata ack s) = events s @ ackedIf c True (cd_input cdata) (cd_msg cdata) ack"
  by (simp add: Acknowledge_def ackedIf_def)

lemma processEach_settles:
  assumes "retries env c" and "\<not> nativeRetry c" and "keeps_mark env"
  shows "\<exists>parts. events (processEach env c batch s) = events s @ concat parts \<and> list_all2 (\<lambda>msg evs. \<exists>ack. settled msg ack evs) batch parts"
proof (induction batch arbitrary: s)
  case (Cons m ms)
  obtain s1 m1 ack where p: "process env c m False s = (s1, m1, ack)" by (metis prod_cases3)
  obtain evs where evs: "events s1 = events s @ evs" "settled m ack evs" using process_settles [OF assms p] by blast
  obtain parts where "events (processEach env c ms (countOne s1)) = events s1 @ concat parts"
    "list_all2 (\<lambda>msg evs. \<exists>ack. settled msg ack evs) ms parts" using Cons [of "countOne s1"] by auto
  then show ?case using evs p assms(2) by (intro exI [of _ "evs # parts"]) auto
qed simp

lemma handleData_handled:
  assumes "retries env c" and "\<not> nativeRetry c" and "keeps_mark env"
  shows "\<exists>seg. events (handleData env c cdata s) = events s @ seg \<and>
    (if gm_has (Attributes (cd_msg cdata)) AttributeAggregate then aggregateHandled env c cdata seg else singleHandled c cdata seg)"
proof (cases "gm_has (Attributes (cd_msg cdata)) AttributeAggregate")
  case True
  obtain a r where d: "disaggregate env (now s) (cd_msg cdata) = (a, r)" by (cases "disaggregate env (now s) (cd_msg cdata)")
  show ?thesis
  proof (cases r)
    case (Inl err)
    then show ?thesis using True d by (auto simp: handleData_def processAggregateMessage_def aggregateHandled_def)
  next
    case (Inr batch)
    let ?m = "(cd_msg cdata)\<lparr>Attributes := a\<rparr>"
    let ?cd = "cdata\<lparr>cd_msg := ?m\<rparr>"
    let ?s = "if AggregateMessageMode c = AggregateMessageModeAtMostOnce then Acknowledge c ?cd True (tick s) else tick s"
    obtain parts where p: "events (processEach env c batch ?s) = events ?s @ concat parts"
      "list_all2 (\<lambda>msg evs. \<exists>ack. settled msg ack evs) batch parts" using processEach_settles [OF assms, of batch ?s] by blast
    let ?seg = "ackedIf c (AggregateMessageMode c = AggregateMessageModeAtMostOnce) (cd_input cdata) ?m True @ concat parts @
      ackedIf c (AggregateMessageMode c = AggregateMessageModeAtLeastOnce) (cd_input cdata) ?m True"
    have "events (handleData env c cdata s) = events s @ ?seg"
      using True d Inr p(1) by (auto simp: handleData_def processAggregateMessage_def Let_def ackedIf_def split: if_splits)
    moreover have "aggregateHandled env c cdata ?seg"
      unfolding aggregateHandled_def using d Inr p(2)
      by (intro disjI2 exI [of _ "now s"] exI [of _ a] exI [of _ batch] exI [of _ parts] exI [of _ ?m]) simp
    ultimately show ?thesis using True by auto
  qed
next
  case False
  obtain s1 m1 ack where p: "process env c (cd_msg cdata) False s = (s1, m1, ack)" by (metis prod_cases3)
  obtain evs where "events s1 = events s @ evs" "settled (cd_msg cdata) ack evs" "Body m1 = Body (cd_msg cdata)"
    using process_settles [OF assms p] by blast
  then show ?thesis using False p assms(2)
    by (auto simp: handleData_def processSingleMessage_def singleHandled_def)
qed

text \<open>
  C28. No message is lost, for any callback, any decoder and any moment at which the consumer is told to stop, when failed messages go to a
  retry queue that takes them. The log falls apart into one piece per delivery, in order. For a single message the
  piece ends with its acknowledgement, which is positive only if the callback said so or the message is one the settings
  ignore; otherwise the message was written to the retry queue, is already there, or was reported as undecodable. The
  messages of an aggregate are settled one by one in the same way, and the aggregate is acknowledged once, before them
  in the mode at-most-once and after them in the mode at-least-once.
\<close>

theorem consumer_no_loss:
  assumes "retries env c" and "\<not> nativeRetry c" and "keeps_mark env"
  shows "\<exists>segs. events (readData env c received s) = events s @ concat segs \<and>
    list_all2 (\<lambda>cdata seg. if gm_has (Attributes (cd_msg cdata)) AttributeAggregate then aggregateHandled env c cdata seg
      else singleHandled c cdata seg) received segs"
proof (induction received arbitrary: s)
  case (Cons cdata rest)
  obtain seg where seg: "events (handleData env c cdata s) = events s @ seg"
    "if gm_has (Attributes (cd_msg cdata)) AttributeAggregate then aggregateHandled env c cdata seg else singleHandled c cdata seg"
    using handleData_handled [OF assms, of cdata s] by blast
  obtain segs where "events (readData env c rest (handleData env c cdata s)) = events (handleData env c cdata s) @ concat segs"
    "list_all2 (\<lambda>cdata seg. if gm_has (Attributes (cd_msg cdata)) AttributeAggregate then aggregateHandled env c cdata seg
      else singleHandled c cdata seg) rest segs" using Cons [of "handleData env c cdata s"] by blast
  then show ?case using seg by (intro exI [of _ "seg # segs"]) (auto simp: readData_def)
qed (simp add: readData_def)

definition demoSettings :: ConsumerSettings where
  "demoSettings = \<lparr>Retry_Enabled = True, AggregateMessageMode = AggregateMessageModeAtLeastOnce,
     IgnoreOnGetModelError = \<lparr>UnknownModel = True, UnknownVersion = False\<rparr>, retryHandler = RetryHandlerSqs 60,
     ackable = \<lambda>_. True, nativeRetry = False\<rparr>"

definition demoConsumer :: "(unit, string) consumerEnv" where
  "demoConsumer = \<lparr>ctxDone = \<lambda>_. False, cb_GetModel = \<lambda>_ _. Returned (Inr (Some ())), ignorable = \<lambda>_. None,
     decodeModel = \<lambda>_ _ msg. (Attributes msg, Returned (Inr (Attributes msg, Body msg))),
     disaggregate = \<lambda>_ msg. (Attributes msg, Inr []), cb_Consume = \<lambda>_ data _. Returned (data = ''good'', None),
     newV4 = \<lambda>_. ''uuid'', writeRetry = \<lambda>_ _. None\<rparr>"

definition startState :: "'d consumerState" where
  "startState = \<lparr>now = 0, events = [], processed = 0\<rparr>"

theorem consumer_no_loss_witness:
  "\<exists>segs. events (readData demoConsumer demoSettings [ingest MainInput \<lparr>Attributes = [], Body = ''bad''\<rparr>] startState) = concat segs \<and>
    list_all2 (\<lambda>cdata seg. if gm_has (Attributes (cd_msg cdata)) AttributeAggregate then aggregateHandled demoConsumer demoSettings cdata seg
      else singleHandled demoSettings cdata seg) [ingest MainInput \<lparr>Attributes = [], Body = ''bad''\<rparr>] segs"
proof -
  have "retries demoConsumer demoSettings" "\<not> nativeRetry demoSettings" "keeps_mark demoConsumer"
    by (simp_all add: retries_def keeps_mark_def demoConsumer_def demoSettings_def)
  from consumer_no_loss [OF this, of "[ingest MainInput \<lparr>Attributes = [], Body = ''bad''\<rparr>]" startState]
  show ?thesis by (simp add: startState_def)
qed

lemma consumer_demo_run:
  "events (readData demoConsumer demoSettings [ingest MainInput \<lparr>Attributes = [], Body = ''bad''\<rparr>] startState) =
     [Consumed \<lparr>Attributes = [], Body = ''bad''\<rparr> ''bad'' (Returned (False, None)),
      RetryWritten \<lparr>Attributes = [(AttributeRetry, ''true''), (AttributeRetryId, ''uuid''), (attributeRetrySqs, ''true''),
        (AttributeSqsDelaySeconds, ''60'')], Body = ''bad''\<rparr>,
      Acked MainInput \<lparr>Attributes = [], Body = ''bad''\<rparr> False]"
  by (simp add: readData_def handleData_def processSingleMessage_def process_def consumeModel_def retry_def buildRetryMessage_def
      RetryHandlerSqs_Put_def MergeMaps_def gm_setAll_def FormatBool_def Acknowledge_def ingest_def demoConsumer_def demoSettings_def
      startState_def tick_def emit_def countOne_def Let_def attribute_defs itoa_def digit_char_def) code_simp

section \<open>Native retries\<close>

text \<open>
  An input with retries of its own is relied upon to deliver a message again that was not acknowledged. For single
  messages nothing is written to the retry queue and the acknowledgement says what the callback said.
\<close>

lemma native_recovered:
  "nativeRetry c \<Longrightarrow> recovered env c msg err s = (emit [Recovered msg err] s, msg, False)"
  by (simp add: recovered_def recover_def)

lemma native_process:
  assumes "nativeRetry c"
  shows "\<exists>evs. events (fst (process env c msg True s)) = events s @ evs \<and> (\<forall>e \<in> set evs. \<not> is_ack e) \<and> (\<forall>m. RetryWritten m \<notin> set evs) \<and>
    (snd (snd (process env c msg True s)) \<longrightarrow>
      (\<exists>m d err. Consumed m d (Returned (True, err)) \<in> set evs) \<or> (\<exists>err. Ignored msg err \<in> set evs))"
  by (auto simp: process_def consumeModel_def native_recovered [OF assms] Let_def split: outcome.splits sum.splits option.splits prod.splits)

lemma native_single:
  assumes "nativeRetry c" and "ackable c (cd_input cdata)"
  shows "\<exists>evs m ack. events (processSingleMessage env c cdata s) = events s @ evs @ [Acked (cd_input cdata) m ack] \<and>
    (\<forall>m. RetryWritten m \<notin> set evs) \<and>
    (ack \<longrightarrow> (\<exists>m d err. Consumed m d (Returned (True, err)) \<in> set evs) \<or> (\<exists>err. Ignored (cd_msg cdata) err \<in> set evs))"
proof -
  obtain evs where evs: "events (fst (process env c (cd_msg cdata) True s)) = events s @ evs" "\<forall>m. RetryWritten m \<notin> set evs"
    "snd (snd (process env c (cd_msg cdata) True s)) \<longrightarrow>
      (\<exists>m d err. Consumed m d (Returned (True, err)) \<in> set evs) \<or> (\<exists>err. Ignored (cd_msg cdata) err \<in> set evs)"
    using native_process [OF assms(1), of env "cd_msg cdata" s] by blast
  obtain s1 m1 ack where p: "process env c (cd_msg cdata) True s = (s1, m1, ack)" by (metis prod_cases3)
  have "events (processSingleMessage env c cdata s) = events s @ evs @ [Acked (cd_input cdata) m1 ack]"
    using evs(1) p assms by (simp add: processSingleMessage_def ackedIf_def)
  then show ?thesis using evs(2,3) p by (intro exI [of _ evs] exI [of _ m1] exI [of _ ack]) simp
qed

lemma native_processEach:
  assumes "nativeRetry c" and "AggregateMessageMode c = AggregateMessageModeAtLeastOnce"
  shows "\<exists>evs. events (processEach env c batch s) = events s @ evs \<and> (\<forall>m. RetryWritten m \<notin> set evs)"
proof (induction batch arbitrary: s)
  case (Cons m ms)
  obtain e1 where "events (fst (process env c m True s)) = events s @ e1" "\<forall>m. RetryWritten m \<notin> set e1"
    using native_process [OF assms(1), of env m s] by blast
  moreover obtain e2 where "events (processEach env c ms (countOne (fst (process env c m True s)))) = events (fst (process env c m True s)) @ e2"
    "\<forall>m. RetryWritten m \<notin> set e2" using Cons [of "countOne (fst (process env c m True s))"] by auto
  ultimately show ?case using assms by (intro exI [of _ "e1 @ e2"]) auto
qed simp

text \<open>
  C30. An aggregate in the mode at-least-once, read from an input with retries of its own, is acknowledged positively
  whatever the callback said about its messages, and none of them is written to the retry queue.
\<close>

theorem native_aggregate_forgets:
  assumes "nativeRetry c" and "AggregateMessageMode c = AggregateMessageModeAtLeastOnce" and "ackable c (cd_input cdata)"
    and "disaggregate env (now s) (cd_msg cdata) = (a, Inr batch)"
  shows "\<exists>evs m. events (processAggregateMessage env c cdata s) = events s @ evs @ [Acked (cd_input cdata) m True] \<and>
    (\<forall>m. RetryWritten m \<notin> set evs)"
proof -
  have "AggregateMessageModeAtLeastOnce \<noteq> AggregateMessageModeAtMostOnce"
    by (simp add: AggregateMessageModeAtLeastOnce_def AggregateMessageModeAtMostOnce_def)
  moreover obtain evs where "events (processEach env c batch (tick s)) = events s @ evs" "\<forall>m. RetryWritten m \<notin> set evs"
    using native_processEach [OF assms(1,2), of env batch "tick s"] by auto
  ultimately show ?thesis using assms
    by (intro exI [of _ evs] exI [of _ "(cd_msg cdata)\<lparr>Attributes := a\<rparr>"]) (simp add: processAggregateMessage_def Let_def ackedIf_def)
qed

definition demoNative :: "(unit, string) consumerEnv" where
  "demoNative = demoConsumer\<lparr>disaggregate := \<lambda>_ msg. (Attributes msg, Inr [\<lparr>Attributes = [], Body = ''bad''\<rparr>])\<rparr>"

theorem native_aggregate_forgets_witness:
  "let c = demoSettings\<lparr>nativeRetry := True\<rparr>; cdata = ingest MainInput \<lparr>Attributes = [(''goso.aggregate'', ''true'')], Body = []\<rparr> in
   (\<exists>evs m. events (processAggregateMessage demoNative c cdata startState) = evs @ [Acked MainInput m True] \<and>
     (\<forall>m. RetryWritten m \<notin> set evs)) \<and>
   Consumed \<lparr>Attributes = [], Body = ''bad''\<rparr> ''bad'' (Returned (False, None)) \<in> set (events (processAggregateMessage demoNative c cdata startState))"
proof -
  let ?c = "demoSettings\<lparr>nativeRetry := True\<rparr>"
  let ?d = "ingest MainInput \<lparr>Attributes = [(''goso.aggregate'', ''true'')], Body = []\<rparr>"
  have "\<exists>evs m. events (processAggregateMessage demoNative ?c ?d startState) = events startState @ evs @ [Acked (cd_input ?d) m True] \<and>
     (\<forall>m. RetryWritten m \<notin> set evs)"
    by (rule native_aggregate_forgets) (simp_all add: demoSettings_def demoNative_def)
  moreover have "Consumed \<lparr>Attributes = [], Body = ''bad''\<rparr> ''bad'' (Returned (False, None)) \<in> set (events (processAggregateMessage demoNative ?c ?d startState))"
    by (simp add: processAggregateMessage_def process_def consumeModel_def Acknowledge_def ingest_def demoNative_def demoConsumer_def
        demoSettings_def startState_def tick_def emit_def countOne_def Let_def AggregateMessageModeAtLeastOnce_def AggregateMessageModeAtMostOnce_def)
  ultimately show ?thesis by (simp add: startState_def ingest_def)
qed

section \<open>Details\<close>

text \<open>
  What the encoder took out of the attributes is missing in the message that is retried, because decoding changes the message itself.
\<close>

lemma retried_without_decoded_attributes:
  assumes "Retry_Enabled c" and "retryHandler c \<noteq> RetryHandlerNoop" and "\<And>m. writeRetry env (now s) m = None"
    and "gm_get (Attributes msg) k = None" and "\<not> in_retry msg"
    and "k \<notin> {AttributeRetry, AttributeRetryId, attributeRetrySqs, AttributeSqsDelaySeconds}"
  shows "\<exists>m. events (fst (retry env c msg s)) = events s @ [RetryWritten m] \<and> gm_get (Attributes m) k = None"
proof -
  have "gm_get (MergeMaps [Attributes msg, [(AttributeRetry, FormatBool True), (AttributeRetryId, newV4 env (now s))]]) attributeRetrySqs = None"
    "gm_get (MergeMaps [Attributes msg, [(AttributeRetry, FormatBool True), (AttributeRetryId, newV4 env (now s))]]) k = None"
    using assms(4-6) by (simp_all add: MergeMaps_None in_retry_def)
  with assms show ?thesis
    by (cases "retryHandler c")
      (auto simp: retry_def buildRetryMessage_def RetryHandlerSqs_Put_def manualSqsRetryHandler_Put_def in_retry_def Let_def
      split: if_splits option.splits)
qed

text \<open>A message is put into the retry queue once: there it has the mark, and is left to the queue.\<close>

lemma Put_once:
  assumes "retryHandler_Put h w msg = (m, Some written, err)"
  shows "retryHandler_Put h w' written = (written, None, None)"
  using assms by (cases h) (auto simp: RetryHandlerSqs_Put_def manualSqsRetryHandler_Put_def Let_def split: if_splits option.splits)

text \<open>Both ways to acknowledge at the SQS input delete the same messages.\<close>

lemma AckBatch_as_Ack:
  assumes "length msgs = length acks"
  shows "fst (sqsInput_AckBatch del msgs acks) = concat (map (\<lambda>(msg, ack). case fst (sqsInput_Ack del' msg ack) of None \<Rightarrow> [] | Some h \<Rightarrow> [h]) (zip msgs acks))"
proof -
  have "fst (ackHandles l) = concat (map (\<lambda>(msg, ack). case fst (sqsInput_Ack del' msg ack) of None \<Rightarrow> [] | Some h \<Rightarrow> [h]) l)" for l
    by (induction l rule: ackHandles.induct) (auto simp: sqsInput_Ack_def split: prod.splits option.splits)
  from this [of "zip msgs acks"] show ?thesis by (auto simp: sqsInput_AckBatch_def split: prod.splits)
qed

section \<open>The encoder of the repository as decoder\<close>

text \<open>Decoding with the message encoder of \<open>StreamCodec\<close>, in a given context.\<close>

definition codecDecoder ::
  "'d codecEnv \<Rightarrow> ('c, 'd) messageEncoder \<Rightarrow> 'c \<Rightarrow> nat \<Rightarrow> 'm \<Rightarrow> Message \<Rightarrow> attrs \<times> (goerr + attrs \<times> 'd) outcome" where
  "codecDecoder cenv e ctx t model msg =
     (case encoder_Decode cenv e ctx msg of
        (msg, _, _, Inl err) \<Rightarrow> (Attributes msg, Returned (Inl err))
      | (msg, _, a, Inr data) \<Rightarrow> (Attributes msg, Returned (Inr (a, data))))"

lemma runDecode_frame:
  "handlers_ok hs Ks \<Longrightarrow> \<forall>K \<in> set Ks. k \<notin> K \<Longrightarrow> gm_get (fst (snd (runDecode hs c d a))) k = gm_get a k"
proof (induction hs Ks arbitrary: c a rule: handlers_ok.induct)
  case (2 h hs K Ks)
  obtain c1 a1 e where r: "eh_Decode h c d a = (c1, a1, e)" by (metis prod_cases3)
  then have "gm_get a1 k = gm_get a k"
    using attribute_handler.dec_frame [of "eh_Encode h" "eh_Decode h" K k c d a] "2.prems" by simp
  then show ?case using 2 r by (cases e) auto
qed auto

lemma codec_keeps_mark:
  assumes "handlers_ok (encodeHandlers e) Ks" and "\<forall>K \<in> set Ks. attributeRetrySqs \<notin> K"
  shows "keeps_mark (env\<lparr>decodeModel := codecDecoder cenv e ctx\<rparr>)"
  unfolding keeps_mark_def
proof (intro allI)
  fix t model msg
  show "gm_get (fst (decodeModel (env\<lparr>decodeModel := codecDecoder cenv e ctx\<rparr>) t model msg)) attributeRetrySqs = gm_get (Attributes msg) attributeRetrySqs"
  proof (cases "\<exists>body out. decompressBody cenv (Attributes msg) (Body msg) = Inr body \<and> decodeBody cenv e (Attributes msg) body = Inr out")
    case True
    then obtain body out where "decompressBody cenv (Attributes msg) (Body msg) = Inr body" "decodeBody cenv e (Attributes msg) body = Inr out" by blast
    then show ?thesis using runDecode_frame [OF assms, of ctx out "Attributes msg"]
      by (auto simp: codecDecoder_def encoder_Decode_def split: option.splits prod.splits)
  next
    case False
    then show ?thesis by (auto simp: codecDecoder_def encoder_Decode_def split: sum.splits)
  qed
qed

lemma sampling_keeps_mark:
  "encodeHandlers e = [samplingHandler] \<Longrightarrow> keeps_mark (env\<lparr>decodeModel := codecDecoder cenv e ctx\<rparr>)"
  using codec_keeps_mark [of e "[{sampled_attribute}]"] samplingHandler_ok by (simp add: sampled_attribute_def attributeRetrySqs_def)

end
