(* ===== verification/BatchConsumer.thy ===== *)
theory BatchConsumer
  imports Consumer
begin

text \<open>
  The batch consumer (\<open>consumer_batch.go\<close>) and the acknowledgement of batches (\<open>consumer_acknowledge.go\<close>): messages are collected until
  a batch is full or the ticker fires, decoded, handed to the callback together, and acknowledged per source.

  One runner reads what the channel and the ticker deliver; the channel is closed at the end of the list. The groups of
  an acknowledgement are visited in the order in which their sources appeared; the calls are independent of each other.
\<close>

record 'd batchConsumer =
  bc_base :: "'d consumerState"
  bc_batch :: "consumerData list"

datatype input_event = Data consumerData | TickerFired

type_synonym 'd batchCallback = "nat \<Rightarrow> 'd list \<Rightarrow> attrs list \<Rightarrow> (bool list \<times> error) outcome"

section \<open>Acknowledging a batch\<close>

type_synonym ackGroups = "(string, inputRef \<times> (Message \<times> bool) list) gomap"

definition addAck :: "ConsumerSettings \<Rightarrow> consumerData \<times> bool \<Rightarrow> ackGroups \<Rightarrow> ackGroups" where
  "addAck c = (\<lambda>(data, ack) groups.
     if \<not> ackable c (cd_input data) then groups
     else case gm_get groups (cd_src data) of
       None \<Rightarrow> gm_set groups (cd_src data) (cd_input data, [(cd_msg data, ack)])
     | Some (input, msgs) \<Rightarrow> gm_set groups (cd_src data) (input, msgs @ [(cd_msg data, ack)]))"

definition AcknowledgeBatch :: "ConsumerSettings \<Rightarrow> (consumerData \<times> bool) list \<Rightarrow> 'd consumerState \<Rightarrow> 'd consumerState" where
  "AcknowledgeBatch c cdata s =
     emit (map (\<lambda>(src, (input, msgs)). AckedBatch input msgs) (fold (addAck c) cdata [])) s"

section \<open>Consuming a batch\<close>

text \<open>
  \<open>Inl\<close> is a panic of the callback or the decoder. Decoding into a nil model fails like an undecodable body.
\<close>

fun decodeMessages ::
  "('m, 'd) consumerEnv \<Rightarrow> ConsumerSettings \<Rightarrow> consumerData list \<Rightarrow> 'd consumerState \<Rightarrow>
   'd consumerState \<times> (goerr + (consumerData \<times> attrs \<times> 'd) list)" where
  "decodeMessages env c [] s = (s, Inr [])"
| "decodeMessages env c (cdata # rest) s0 =
     (let s = tick s0; msg = cd_msg cdata in
      case cb_GetModel env (now s0) (Attributes msg) of
        Panicked err \<Rightarrow> (s, Inl err)
      | Returned (Inl err) \<Rightarrow>
          decodeMessages env c rest (emit [if isIgnored env c err then Ignored msg err else Undecodable msg err] s)
      | Returned (Inr None) \<Rightarrow> decodeMessages env c rest (emit [Undecodable msg noModel] s)
      | Returned (Inr (Some model)) \<Rightarrow>
          (case decodeModel env (now s) model msg of
             (a, Panicked err) \<Rightarrow> (tick s, Inl err)
           | (a, Returned (Inl err)) \<Rightarrow> decodeMessages env c rest (emit [Undecodable (msg\<lparr>Attributes := a\<rparr>) err] (tick s))
           | (a, Returned (Inr (attributes, data))) \<Rightarrow>
               (case decodeMessages env c rest (tick s) of
                  (s, Inl err) \<Rightarrow> (s, Inl err)
                | (s, Inr items) \<Rightarrow> (s, Inr ((cdata\<lparr>cd_msg := msg\<lparr>Attributes := a\<rparr>\<rparr>, attributes, data) # items)))))"

text \<open>As many answers as there are messages.\<close>

definition fitAcks :: "nat \<Rightarrow> bool list \<Rightarrow> bool list" where
  "fitAcks n acks = (if length acks \<noteq> n then take n (acks @ replicate (n - length acks) False) else acks)"

fun retryUnacked ::
  "('m, 'd) consumerEnv \<Rightarrow> ConsumerSettings \<Rightarrow> (consumerData \<times> bool) list \<Rightarrow> 'd consumerState \<Rightarrow>
   'd consumerState \<times> (consumerData \<times> bool) list" where
  "retryUnacked env c [] s = (s, [])"
| "retryUnacked env c ((cdata, ack) # rest) s =
     (case (if \<not> ack \<and> \<not> nativeRetry c then retry env c (cd_msg cdata) s else (s, cd_msg cdata)) of
        (s, msg) \<Rightarrow> (case retryUnacked env c rest s of (s, items) \<Rightarrow> (s, (cdata\<lparr>cd_msg := msg\<rparr>, ack) # items)))"

definition consumeBatch ::
  "('m, 'd) consumerEnv \<Rightarrow> 'd batchCallback \<Rightarrow> ConsumerSettings \<Rightarrow> consumerData list \<Rightarrow> 'd consumerState \<Rightarrow> 'd consumerState" where
  "consumeBatch env consume c batch s0 =
     (let s = tick s0 in
      if ctxDone env (now s0)
      then (if \<not> nativeRetry c then fold (\<lambda>cdata s. fst (retry env c (cd_msg cdata) s)) batch s else s)
      else if batch = [] then s
      else case decodeMessages env c batch s of
        (s, Inl err) \<Rightarrow> emit [BatchRecovered err] s
      | (s, Inr items) \<Rightarrow>
          (let result = consume (now s) (map (\<lambda>(_, _, d). d) items) (map (\<lambda>(_, a, _). a) items);
               s = emit [BatchConsumed (map (\<lambda>(cdata, _, d). (cd_msg cdata, d)) items) result] (tick s)
           in case result of
                Panicked err \<Rightarrow> emit [BatchRecovered err] s
              | Returned (acks, err) \<Rightarrow>
                  (case retryUnacked env c (zip (map fst items) (fitAcks (length items) acks)) s of
                     (s, acked) \<Rightarrow>
                       (let s = AcknowledgeBatch c acked s in s\<lparr>processed := processed s + int (length acked)\<rparr>))))"

section \<open>Collecting\<close>

definition processBatch ::
  "('m, 'd) consumerEnv \<Rightarrow> 'd batchCallback \<Rightarrow> ConsumerSettings \<Rightarrow> 'd batchConsumer \<Rightarrow> 'd batchConsumer" where
  "processBatch env consume c b = \<lparr>bc_base = consumeBatch env consume c (bc_batch b) (bc_base b), bc_batch = []\<rparr>"

definition batch_processAggregateMessage ::
  "('m, 'd) consumerEnv \<Rightarrow> consumerData \<Rightarrow> 'd batchConsumer \<Rightarrow> 'd batchConsumer" where
  "batch_processAggregateMessage env cdata b =
     (let s = tick (bc_base b) in
      case disaggregate env (now (bc_base b)) (cd_msg cdata) of
        (a, Inl err) \<Rightarrow> b\<lparr>bc_base := emit [Undecodable ((cd_msg cdata)\<lparr>Attributes := a\<rparr>) err] s\<rparr>
      | (a, Inr batch) \<Rightarrow>
          b\<lparr>bc_base := s, bc_batch := bc_batch b @ map (\<lambda>msg. \<lparr>cd_msg = msg, cd_src = [], cd_input = cd_input cdata\<rparr>) batch\<rparr>)"

definition batch_processSingleMessage :: "consumerData \<Rightarrow> 'd batchConsumer \<Rightarrow> 'd batchConsumer" where
  "batch_processSingleMessage cdata b = b\<lparr>bc_batch := bc_batch b @ [cdata]\<rparr>"

fun readFromInput ::
  "('m, 'd) consumerEnv \<Rightarrow> 'd batchCallback \<Rightarrow> ConsumerSettings \<Rightarrow> nat \<Rightarrow> input_event list \<Rightarrow> 'd batchConsumer \<Rightarrow> 'd batchConsumer" where
  "readFromInput env consume c size_limit [] b = processBatch env consume c b"
| "readFromInput env consume c size_limit (ev # evs) b =
     (let b = (case ev of
                 Data cdata \<Rightarrow> if gm_has (Attributes (cd_msg cdata)) AttributeAggregate then batch_processAggregateMessage env cdata b
                   else batch_processSingleMessage cdata b
               | TickerFired \<Rightarrow> b);
          force = (ev = TickerFired)
      in readFromInput env consume c size_limit evs
           (if length (bc_batch b) \<ge> size_limit \<or> force then processBatch env consume c b else b))"

section \<open>Batches\<close>

text \<open>
  Single messages are neither lost, repeated nor reordered on their way into the batches, and no batch is larger
  than the limit: what a runner does is to consume, one after the other, batches that together are the messages it received.
\<close>

definition received :: "input_event list \<Rightarrow> consumerData list" where
  "received evs = concat (map (\<lambda>ev. case ev of Data cdata \<Rightarrow> [cdata] | TickerFired \<Rightarrow> []) evs)"

definition isSingle :: "input_event \<Rightarrow> bool" where
  "isSingle ev = (case ev of Data cdata \<Rightarrow> \<not> gm_has (Attributes (cd_msg cdata)) AttributeAggregate | TickerFired \<Rightarrow> True)"

lemma received_simps [simp]:
  "received [] = []" "received (Data cdata # evs) = cdata # received evs" "received (TickerFired # evs) = received evs"
  by (simp_all add: received_def)

text \<open>
  Without aggregates, a runner of the batch consumer consumes batches whose concatenation is what it received, in order
  and complete; none is larger than the batch size, and each batch is full, the last, or the ticker fired.
\<close>

theorem batches_partition:
  assumes "\<forall>ev \<in> set evs. isSingle ev" and "size_limit > 0" and "length (bc_batch b) < size_limit"
  shows "\<exists>batches. readFromInput env consume c size_limit evs b =
      \<lparr>bc_base = fold (consumeBatch env consume c) batches (bc_base b), bc_batch = []\<rparr> \<and>
    concat batches = bc_batch b @ received evs \<and> (\<forall>x \<in> set batches. length x \<le> size_limit) \<and>
    length (filter (\<lambda>x. length x < size_limit) batches) \<le> Suc (length (filter (\<lambda>ev. ev = TickerFired) evs))"
  using assms(1,3)
proof (induction evs arbitrary: b)
  case Nil
  then show ?case by (intro exI [of _ "[bc_batch b]"]) (simp add: processBatch_def)
next
  case (Cons ev evs)
  show ?case
  proof (cases ev)
    case TickerFired
    let ?b = "processBatch env consume c b"
    obtain bs where bs: "readFromInput env consume c size_limit evs ?b =
        \<lparr>bc_base = fold (consumeBatch env consume c) bs (bc_base ?b), bc_batch = []\<rparr>"
      "concat bs = bc_batch ?b @ received evs" "\<forall>x \<in> set bs. length x \<le> size_limit"
      "length (filter (\<lambda>x. length x < size_limit) bs) \<le> Suc (length (filter (\<lambda>ev. ev = TickerFired) evs))"
      using Cons.IH [of ?b] Cons.prems assms(2) by (auto simp: processBatch_def)
    then show ?thesis using TickerFired Cons.prems
      by (intro exI [of _ "bc_batch b # bs"]) (auto simp: processBatch_def Let_def)
  next
    case (Data cdata)
    let ?b = "batch_processSingleMessage cdata b"
    have single: "\<not> gm_has (Attributes (cd_msg cdata)) AttributeAggregate" using Cons.prems(1) Data by (simp add: isSingle_def)
    show ?thesis
    proof (cases "length (bc_batch ?b) \<ge> size_limit")
      case True
      let ?p = "processBatch env consume c ?b"
      obtain bs where bs: "readFromInput env consume c size_limit evs ?p =
          \<lparr>bc_base = fold (consumeBatch env consume c) bs (bc_base ?p), bc_batch = []\<rparr>"
        "concat bs = bc_batch ?p @ received evs" "\<forall>x \<in> set bs. length x \<le> size_limit"
        "length (filter (\<lambda>x. length x < size_limit) bs) \<le> Suc (length (filter (\<lambda>ev. ev = TickerFired) evs))"
        using Cons.IH [of ?p] Cons.prems assms(2) by (auto simp: processBatch_def)
      then show ?thesis using Data True single Cons.prems
        by (intro exI [of _ "bc_batch ?b # bs"]) (auto simp: processBatch_def batch_processSingleMessage_def Let_def)
    next
      case False
      obtain bs where bs: "readFromInput env consume c size_limit evs ?b =
          \<lparr>bc_base = fold (consumeBatch env consume c) bs (bc_base ?b), bc_batch = []\<rparr>"
        "concat bs = bc_batch ?b @ received evs" "\<forall>x \<in> set bs. length x \<le> size_limit"
        "length (filter (\<lambda>x. length x < size_limit) bs) \<le> Suc (length (filter (\<lambda>ev. ev = TickerFired) evs))"
        using Cons.IH [of ?b] Cons.prems(1) False by auto
      then show ?thesis using Data False single
        by (intro exI [of _ bs]) (auto simp: batch_processSingleMessage_def Let_def)
    qed
  qed
qed

theorem batches_partition_witness:
  "let m = (\<lambda>t. ingest MainInput \<lparr>Attributes = [], Body = t\<rparr>); evs = [Data (m ''a''), Data (m ''b''), TickerFired, Data (m ''c'')] in
   \<exists>batches. readFromInput demoConsumer (\<lambda>_ ds _. Returned ([], None)) demoSettings 2 evs \<lparr>bc_base = startState, bc_batch = []\<rparr> =
      \<lparr>bc_base = fold (consumeBatch demoConsumer (\<lambda>_ ds _. Returned ([], None)) demoSettings) batches startState, bc_batch = []\<rparr> \<and>
    concat batches = [m ''a'', m ''b'', m ''c''] \<and> (\<forall>x \<in> set batches. length x \<le> 2)"
proof -
  let ?m = "\<lambda>t. ingest MainInput \<lparr>Attributes = [], Body = t\<rparr>"
  let ?evs = "[Data (?m ''a''), Data (?m ''b''), TickerFired, Data (?m ''c'')]"
  have "\<forall>ev \<in> set ?evs. isSingle ev" by (simp add: isSingle_def ingest_def)
  from batches_partition [OF this, of 2 "\<lparr>bc_base = startState, bc_batch = []\<rparr>" demoConsumer "\<lambda>_ ds _. Returned ([], None)" demoSettings]
  show ?thesis by auto
qed

section \<open>Acknowledgements\<close>

text \<open>What belongs to an input, and the groups of a batch whose messages carry the name of their input.\<close>

definition forInput :: "ConsumerSettings \<Rightarrow> inputRef \<Rightarrow> (consumerData \<times> bool) list \<Rightarrow> (Message \<times> bool) list" where
  "forInput c j items = map (\<lambda>(cdata, ack). (cd_msg cdata, ack)) (filter (\<lambda>(cdata, ack). cd_input cdata = j \<and> ackable c j) items)"

definition named :: "consumerData \<Rightarrow> bool" where
  "named cdata \<longleftrightarrow> cd_src cdata = sourceName (cd_input cdata)"

lemma sourceName_eq [simp]: "sourceName i = sourceName j \<longleftrightarrow> i = j"
  by (cases i; cases j) (simp_all add: dataSourceInput_def dataSourceRetry_def)

lemma groups_invariant:
  "\<forall>(cdata, ack) \<in> set items. named cdata \<Longrightarrow>
   (\<forall>i. gm_get (fold (addAck c) items []) (sourceName i) = (if forInput c i items = [] then None else Some (i, forInput c i items))) \<and>
   fst ` set (fold (addAck c) items []) \<subseteq> range sourceName \<and> gm_wf (fold (addAck c) items [])"
proof (induction items rule: rev_induct)
  case (snoc x items)
  obtain cdata ack where x: "x = (cdata, ack)" by (cases x)
  let ?g = "fold (addAck c) items []"
  have IH: "\<And>i. gm_get ?g (sourceName i) = (if forInput c i items = [] then None else Some (i, forInput c i items))"
    "fst ` set ?g \<subseteq> range sourceName" "gm_wf ?g" using snoc by auto
  have src: "cd_src cdata = sourceName (cd_input cdata)" using snoc.prems x by (simp add: named_def)
  show ?case
  proof (cases "ackable c (cd_input cdata)")
    case True
    then have g: "addAck c x ?g = gm_set ?g (sourceName (cd_input cdata)) (cd_input cdata, forInput c (cd_input cdata) items @ [(cd_msg cdata, ack)])"
      using IH(1) [of "cd_input cdata"] x src by (auto simp: addAck_def split: option.splits if_splits)
    have "forInput c i (items @ [x]) = (if i = cd_input cdata then forInput c i items @ [(cd_msg cdata, ack)] else forInput c i items)" for i
      using True x by (auto simp: forInput_def)
    then show ?thesis using IH(1) IH(2) IH(3) g by (auto simp: dom_update)
  next
    case False
    then have "forInput c i (items @ [x]) = forInput c i items" for i using x by (auto simp: forInput_def)
    then show ?thesis using IH False x by (simp add: addAck_def)
  qed
qed (simp add: forInput_def)

lemma AckedBatch_in:
  "AckedBatch j l \<in> set (map (\<lambda>(src, (input, msgs)). AckedBatch input msgs) G) \<longleftrightarrow> (\<exists>src. (src, (j, l)) \<in> set G)"
  by (induction G) auto

lemma AckedBatch_iff:
  assumes "\<forall>(cdata, ack) \<in> set items. named cdata"
  shows "AckedBatch j l \<in> set (map (\<lambda>(src, (input, msgs)). AckedBatch input msgs) (fold (addAck c) items [])) \<longleftrightarrow>
    l = forInput c j items \<and> l \<noteq> []"
proof -
  let ?g = "fold (addAck c) items []"
  have g: "\<And>i. gm_get ?g (sourceName i) = (if forInput c i items = [] then None else Some (i, forInput c i items))"
    "fst ` set ?g \<subseteq> range sourceName" "gm_wf ?g" using groups_invariant [OF assms, of c] by auto
  have "(src, (j, l)) \<in> set ?g \<longleftrightarrow> src = sourceName j \<and> l = forInput c j items \<and> l \<noteq> []" for src
  proof
    assume a: "(src, (j, l)) \<in> set ?g"
    then obtain i where i: "src = sourceName i" using g(2) by force
    from a g(3) have "gm_get ?g src = Some (j, l)" by (simp add: gm_wf_def)
    then show "src = sourceName j \<and> l = forInput c j items \<and> l \<noteq> []" using g(1) [of i] i by (auto split: if_splits)
  next
    assume "src = sourceName j \<and> l = forInput c j items \<and> l \<noteq> []"
    then show "(src, (j, l)) \<in> set ?g" using g(1) [of j] by (auto dest: map_of_SomeD)
  qed
  then show ?thesis unfolding AckedBatch_in by simp
qed

lemma fitAcks_length [simp]: "length (fitAcks n acks) = n"
  by (simp add: fitAcks_def min_def)

lemma fitAcks_nth: "i < n \<Longrightarrow> fitAcks n acks ! i \<longleftrightarrow> i < length acks \<and> acks ! i"
  by (auto simp: fitAcks_def nth_append)

text \<open>Every message is decoded or reported.\<close>

definition reported :: "Message \<Rightarrow> 'd event list \<Rightarrow> bool" where
  "reported msg evs \<longleftrightarrow> (\<exists>m err. (Ignored m err \<in> set evs \<or> Undecodable m err \<in> set evs) \<and> Body m = Body msg)"

lemma reported_append: "reported msg evs \<Longrightarrow> reported msg (evs' @ evs)" "reported msg evs \<Longrightarrow> reported msg (evs @ evs')"
  by (auto simp: reported_def)

definition accounts :: "consumerData list \<Rightarrow> (consumerData \<times> attrs \<times> 'd) list \<Rightarrow> 'd event list \<Rightarrow> bool" where
  "accounts batch items evs \<longleftrightarrow> (\<forall>e \<in> set evs. \<not> is_ack e) \<and>
     (\<forall>cdata \<in> set batch. reported (cd_msg cdata) evs \<or> (\<exists>x \<in> set items. Body (cd_msg (fst x)) = Body (cd_msg cdata))) \<and>
     (\<forall>x \<in> set items. \<exists>cdata \<in> set batch. cd_src (fst x) = cd_src cdata \<and> cd_input (fst x) = cd_input cdata \<and> Body (cd_msg (fst x)) = Body (cd_msg cdata))"

lemma accounts_skip:
  assumes "accounts rest items evs" and "e = Ignored m err \<or> e = Undecodable m err" and "Body m = Body (cd_msg cdata)"
  shows "accounts (cdata # rest) items (e # evs)"
proof -
  have "reported (cd_msg cdata) (e # evs)" using assms(2,3) by (auto simp: reported_def)
  moreover have "reported x (e # evs)" if "reported x evs" for x using reported_append(1) [OF that, of "[e]"] by simp
  ultimately show ?thesis using assms(1,2) unfolding accounts_def by auto
qed

lemma accounts_take:
  assumes "accounts rest items evs"
  shows "accounts (cdata # rest) ((cdata\<lparr>cd_msg := (cd_msg cdata)\<lparr>Attributes := a\<rparr>\<rparr>, attributes, data) # items) evs"
  using assms by (auto simp: accounts_def)

lemma decodeMessages_accounts:
  "decodeMessages env c batch s = (s', Inr items) \<Longrightarrow> \<exists>evs. events s' = events s @ evs \<and> accounts batch items evs"
proof (induction batch arbitrary: s s' items)
  case (Cons cdata rest)
  let ?m = "cd_msg cdata"
  have skip: ?case if dm: "decodeMessages env c rest s1 = (s', Inr items)" and ev: "events s1 = events s @ [e]"
    and e: "e = Ignored m err \<or> e = Undecodable m err" "Body m = Body ?m" for s1 e m err
  proof -
    obtain evs where "events s' = events s1 @ evs" "accounts rest items evs" using Cons.IH [OF dm] by blast
    then show ?thesis using accounts_skip [OF _ e] ev by (intro exI [of _ "e # evs"]) auto
  qed
  show ?case
  proof (cases "cb_GetModel env (now s) (Attributes ?m)")
    case (Returned r)
    then consider (noModel) err s1 e where "decodeMessages env c rest s1 = (s', Inr items)" "events s1 = events s @ [e]"
        "e = Ignored ?m err \<or> e = Undecodable ?m err"
      | (model) model where "r = Inr (Some model)"
      using Cons.prems by (cases r) (auto simp: Let_def split: option.splits if_splits)
    then show ?thesis
    proof cases
      case noModel
      then show ?thesis using skip by blast
    next
      case model
      obtain a res where d: "decodeModel env (Suc (now s)) model ?m = (a, res)" by fastforce
      consider err where "res = Panicked err" | err where "res = Returned (Inl err)" | attributes data where "res = Returned (Inr (attributes, data))"
        by (metis outcome.exhaust sum.exhaust surj_pair)
      then show ?thesis
      proof cases
        case 1
        then show ?thesis using Cons.prems Returned model d by simp
      next
        case (2 err)
        then have "decodeMessages env c rest (emit [Undecodable (?m\<lparr>Attributes := a\<rparr>) err] (tick (tick s))) = (s', Inr items)"
          using Cons.prems Returned model d by simp
        then show ?thesis using skip [of _ "Undecodable (?m\<lparr>Attributes := a\<rparr>) err" "?m\<lparr>Attributes := a\<rparr>" err] by simp
      next
        case (3 attributes data)
        then obtain items' where "decodeMessages env c rest (tick (tick s)) = (s', Inr items')"
          and i: "items = (cdata\<lparr>cd_msg := ?m\<lparr>Attributes := a\<rparr>\<rparr>, attributes, data) # items'"
          using Cons.prems Returned model d by (auto split: prod.splits sum.splits)
        then obtain evs where "events s' = events s @ evs" "accounts rest items' evs" using Cons.IH by fastforce
        then show ?thesis unfolding i using accounts_take [of rest items' evs cdata a attributes data] by (intro exI [of _ evs]) simp
      qed
    qed
  qed (use Cons.prems in simp)
qed (simp add: accounts_def)

text \<open>The retries that precede the acknowledgement.\<close>

definition resolved :: "consumerData \<times> bool \<Rightarrow> 'd event list \<Rightarrow> bool" where
  "resolved x evs \<longleftrightarrow> snd x \<or> in_retry (cd_msg (fst x)) \<or> (\<exists>m. RetryWritten m \<in> set evs \<and> Body m = Body (cd_msg (fst x)))"

lemma retry_keeps_in_retry:
  assumes "retry env c msg s = (s', msg')" and "in_retry msg" shows "in_retry msg'"
proof -
  have "gm_has (Attributes m') attributeRetrySqs" if "retryHandler_Put h w m = (m', x, e)" "gm_has (Attributes m) attributeRetrySqs" for h w m m' x e
    using that by (cases h) (auto simp: RetryHandlerSqs_Put_def manualSqsRetryHandler_Put_def)
  then show ?thesis using assms
    by (auto simp: retry_def in_retry_def buildRetryMessage_def split: if_splits prod.splits)
qed

lemma retryUnacked_resolves:
  assumes "retries env c" and "\<not> nativeRetry c"
  shows "retryUnacked env c items s = (s', items') \<Longrightarrow>
    \<exists>evs. events s' = events s @ evs \<and> (\<forall>e \<in> set evs. \<not> is_ack e) \<and> (\<forall>x \<in> set items'. resolved x evs) \<and>
      list_all2 (\<lambda>x y. snd y = snd x \<and> cd_src (fst y) = cd_src (fst x) \<and> cd_input (fst y) = cd_input (fst x) \<and>
        Body (cd_msg (fst y)) = Body (cd_msg (fst x))) items items'"
proof (induction items arbitrary: s s' items')
  case (Cons x items)
  obtain cdata ack where x: "x = (cdata, ack)" by (cases x)
  obtain s1 m where r: "(if \<not> ack \<and> \<not> nativeRetry c then retry env c (cd_msg cdata) s else (s, cd_msg cdata)) = (s1, m)" by fastforce
  obtain rest where rest: "retryUnacked env c items s1 = (s', rest)" and i: "items' = (cdata\<lparr>cd_msg := m\<rparr>, ack) # rest"
    using Cons.prems x r by (auto split: prod.splits)
  obtain e2 where e2: "events s' = events s1 @ e2" "\<forall>e \<in> set e2. \<not> is_ack e" "\<forall>x \<in> set rest. resolved x e2"
    "list_all2 (\<lambda>x y. snd y = snd x \<and> cd_src (fst y) = cd_src (fst x) \<and> cd_input (fst y) = cd_input (fst x) \<and>
        Body (cd_msg (fst y)) = Body (cd_msg (fst x))) items rest" using Cons.IH [OF rest] by blast
  have "\<exists>e1. events s1 = events s @ e1 \<and> (\<forall>e \<in> set e1. \<not> is_ack e) \<and> resolved (cdata\<lparr>cd_msg := m\<rparr>, ack) e1 \<and> Body m = Body (cd_msg cdata)"
  proof (cases ack)
    case False
    then have "retry env c (cd_msg cdata) s = (s1, m)" using r assms(2) by simp
    from retry_settles [OF assms(1) this] retry_keeps_in_retry [OF this] show ?thesis by (auto simp: resolved_def)
  qed (use r in \<open>auto simp: resolved_def\<close>)
  then obtain e1 where "events s1 = events s @ e1" "\<forall>e \<in> set e1. \<not> is_ack e" "resolved (cdata\<lparr>cd_msg := m\<rparr>, ack) e1" "Body m = Body (cd_msg cdata)" by blast
  then show ?case using e2 i x by (intro exI [of _ "e1 @ e2"]) (auto simp: resolved_def)
qed simp



section \<open>Gaps\<close>

text \<open>A message that the settings ignore is not acknowledged.\<close>

lemma ignored_not_acknowledged:
  assumes "\<not> ctxDone env (now s)" and "cb_GetModel env (now s + 1) (Attributes (cd_msg cdata)) = Returned (Inl err)" and "isIgnored env c err"
    and "consume (now s + 2) [] [] = Returned ([], None)"
  shows "events (consumeBatch env consume c [cdata] s) = events s @ [Ignored (cd_msg cdata) err, BatchConsumed [] (Returned ([], None))]"
  using assms by (simp add: consumeBatch_def fitAcks_def AcknowledgeBatch_def Let_def)

text \<open>The parts of aggregates have no source, so that those of one input are acknowledged at the other.\<close>

lemma parts_acknowledged_at_wrong_input:
  assumes "ackable c MainInput" and "ackable c RetryInput"
  shows "events (AcknowledgeBatch c [(\<lparr>cd_msg = m, cd_src = [], cd_input = MainInput\<rparr>, x), (\<lparr>cd_msg = m', cd_src = [], cd_input = RetryInput\<rparr>, y)] s) =
    events s @ [AckedBatch MainInput [(m, x), (m', y)]]"
  using assms by (simp add: AcknowledgeBatch_def addAck_def)

text \<open>The parts of an aggregate have no receipt handle, and the aggregate itself is not part of the batch, so nothing is deleted.\<close>

lemma aggregate_never_deleted:
  assumes "gm_get (Attributes m) AttributeSqsReceiptHandle = None"
  shows "sqsInput_AckBatch del [m] [True] = ([], Some (Multi (err_text noReceiptHandle) [noReceiptHandle]))"
  using assms by (simp add: sqsInput_AckBatch_def ErrorOrNil_def)

text \<open>A panic of the callback leaves the batch without acknowledgement and without retry, with or without a retry queue.\<close>

lemma panic_drops_batch:
  assumes "\<not> ctxDone env (now s)" and "batch \<noteq> []" and "decodeMessages env c batch (tick s) = (s1, Inr items)"
    and "consume (now s1) (map (\<lambda>(_, _, d). d) items) (map (\<lambda>(_, a, _). a) items) = Panicked err"
  shows "events (consumeBatch env consume c batch s) =
    events s1 @ [BatchConsumed (map (\<lambda>(cdata, _, d). (cd_msg cdata, d)) items) (Panicked err), BatchRecovered err]"
  using assms by (simp add: consumeBatch_def Let_def)

end
