(* ===== verification/MapX.thy ===== *)
theory MapX
  imports GoErrors Complex_Main "HOL-Library.Sublist"
begin

text \<open>
  The tree of configuration values in \<open>pkg/mapx\<close> (\<open>map.go\<close>, \<open>mapnode.go\<close>, \<open>key_split.go\<close>, \<open>mapoptions.go\<close>): reading,
  writing and merging by paths such as \<open>a.b[2].c\<close>.

  A value is what an \<open>any\<close> of the package can hold. \<open>VMap\<close> is the internal map of nodes, \<open>VRawMap\<close> a
  \<open>map[string]any\<close> from outside, \<open>VList\<close> an \<open>[]any\<close>, \<open>VTyped\<close> a slice with another element type, and \<open>VNilMap\<close> the nil map
  that the zero value of the internal map type is. Nodes are changed in place by the code; here the
  operations return the changed tree. A panic is \<open>None\<close>. Copying a value is the identity, except that a nil
  map becomes an empty one. Indices are natural numbers without overflow.
\<close>

section \<open>Values\<close>

datatype val =
    VNil | VBool bool | VInt int | VFloat rat | VStr string
  | VMap "(string \<times> val) list" | VNilMap | VRawMap "(string \<times> val) list" | VList "val list" | VTyped string "val list"

fun typeOf :: "val \<Rightarrow> string" where
  "typeOf VNil = []"
| "typeOf (VBool _) = ''bool''"
| "typeOf (VInt _) = ''int''"
| "typeOf (VFloat _) = ''float64''"
| "typeOf (VStr _) = ''string''"
| "typeOf (VMap _) = ''map[string]*mapx.MapXNode''"
| "typeOf VNilMap = ''map[string]*mapx.MapXNode''"
| "typeOf (VRawMap _) = ''map[string]interface {}''"
| "typeOf (VList _) = ''[]interface {}''"
| "typeOf (VTyped t _) = ''[]'' @ t"

text \<open>\<open>reflect.Zero\<close> of the type of a value, which panics for an untyped nil. The nil raw map is an empty one to its readers.\<close>

fun zeroOf :: "val \<Rightarrow> val option" where
  "zeroOf VNil = None"
| "zeroOf (VBool _) = Some (VBool False)"
| "zeroOf (VInt _) = Some (VInt 0)"
| "zeroOf (VFloat _) = Some (VFloat 0)"
| "zeroOf (VStr _) = Some (VStr [])"
| "zeroOf (VMap _) = Some VNilMap"
| "zeroOf VNilMap = Some VNilMap"
| "zeroOf (VRawMap _) = Some (VRawMap [])"
| "zeroOf (VList _) = Some (VList [])"
| "zeroOf (VTyped t _) = Some (VTyped t [])"

text \<open>Conversion from and to the values of the outside.\<close>

fun interfaceToMapNode :: "val \<Rightarrow> val" where
  "interfaceToMapNode (VRawMap kvs) = VMap (map (\<lambda>(k, v). (k, interfaceToMapNode v)) kvs)"
| "interfaceToMapNode (VList vs) = VList (map interfaceToMapNode vs)"
| "interfaceToMapNode (VTyped t vs) =
     (if t = ''map[string]interface {}'' then VTyped ''map[string]*mapx.MapXNode'' (map interfaceToMapNode vs) else VTyped t vs)"
| "interfaceToMapNode v = v"

fun nodeData :: "val \<Rightarrow> val" where
  "nodeData (VMap kvs) = VRawMap (map (\<lambda>(k, v). (k, nodeData v)) kvs)"
| "nodeData VNilMap = VRawMap []"
| "nodeData (VList vs) = VList (map nodeData vs)"
| "nodeData v = v"

fun copyVal :: "val \<Rightarrow> val" where
  "copyVal (VMap kvs) = VMap (map (\<lambda>(k, v). (k, copyVal v)) kvs)"
| "copyVal VNilMap = VMap []"
| "copyVal (VList vs) = VList (map copyVal vs)"
| "copyVal v = v"

definition prepareInput :: "val \<Rightarrow> val" where
  "prepareInput v = (case v of VRawMap _ \<Rightarrow> interfaceToMapNode v | VList _ \<Rightarrow> interfaceToMapNode v | _ \<Rightarrow> v)"

section \<open>Paths\<close>

definition isDot :: "char \<Rightarrow> bool" where "isDot r \<longleftrightarrow> r = CHR ''.''"
definition isEscape :: "char \<Rightarrow> bool" where "isEscape r \<longleftrightarrow> r = CHR 0x5C"

text \<open>\<open>room\<close> tells how many more parts may be split off, \<open>None\<close> for a negative limit.\<close>

fun splitLoop :: "nat option \<Rightarrow> bool \<Rightarrow> string \<Rightarrow> string \<Rightarrow> string list" where
  "splitLoop room escaped current [] = [current]"
| "splitLoop room escaped current (r # s) =
     (if isEscape r \<and> \<not> escaped then splitLoop room True current s
      else if isDot r \<and> \<not> escaped \<and> room \<noteq> Some 0
      then current # splitLoop (map_option (\<lambda>n. n - 1) room) False [] s
      else splitLoop room False (current @ (if escaped then [CHR 0x5C] else []) @ [r]) s)"

definition SplitUnescapedDotN :: "string \<Rightarrow> int \<Rightarrow> string list" where
  "SplitUnescapedDotN s n = (if n = 0 then [] else splitLoop (if n < 0 then None else Some (nat n - 1)) False [] s)"

definition EscapeDots :: "string \<Rightarrow> string" where
  "EscapeDots s = concat (map (\<lambda>r. if isDot r then [CHR 0x5C, r] else [r]) s)"

definition trimDots :: "string \<Rightarrow> string" where
  "trimDots s = rev (dropWhile isDot (rev (dropWhile isDot s)))"

definition isDecimal :: "char \<Rightarrow> bool" where
  "isDecimal c \<longleftrightarrow> c \<in> set ''0123456789''"

text \<open>A match of the regular expression for array access, read from the right.\<close>

definition getIndex :: "string \<Rightarrow> nat option \<times> string" where
  "getIndex s =
     (case rev s of
        c # rest \<Rightarrow>
          (let digits = takeWhile isDecimal rest; more = dropWhile isDecimal rest
           in case more of
                b # pre \<Rightarrow>
                  if c = CHR '']'' \<and> digits \<noteq> [] \<and> b = CHR ''['' \<and> pre \<noteq> [] \<and> CHR 0x0A \<notin> set pre
                  then (Some (atou (rev digits)), rev pre) else (None, s)
              | [] \<Rightarrow> (None, s))
      | [] \<Rightarrow> (None, s))"

section \<open>Access\<close>

record OpMode =
  IsSet :: bool
  SkipExisting :: bool

type_synonym msn = "(string \<times> val) list"

text \<open>\<open>arrayValue.Index(index).Set(value)\<close> on an element that exists.\<close>

definition setElement :: "val \<Rightarrow> nat \<Rightarrow> val \<Rightarrow> val option" where
  "setElement array index v =
     (if v = VNil then None
      else case array of
        VList xs \<Rightarrow> Some (VList (xs[index := v]))
      | VTyped t xs \<Rightarrow> if t = typeOf v then Some (VTyped t (xs[index := v])) else None
      | _ \<Rightarrow> None)"

text \<open>\<open>reflect.Append\<close> of zero values up to the index.\<close>

definition growTo :: "val \<Rightarrow> nat \<Rightarrow> val \<Rightarrow> val option" where
  "growTo array index v =
     (case zeroOf v of
        None \<Rightarrow> None
      | Some z \<Rightarrow>
          (case array of
             VList xs \<Rightarrow> Some (VList (xs @ replicate (Suc index - length xs) z))
           | VTyped t xs \<Rightarrow> if t = typeOf v then Some (VTyped t (xs @ replicate (Suc index - length xs) z)) else None
           | _ \<Rightarrow> None))"

definition reflectLen :: "val \<Rightarrow> nat option" where
  "reflectLen v =
     (case v of VList xs \<Rightarrow> Some (length xs) | VTyped t xs \<Rightarrow> Some (length xs) | VStr s \<Rightarrow> Some (length s)
      | VMap kvs \<Rightarrow> Some (length kvs) | VRawMap kvs \<Rightarrow> Some (length kvs) | VNilMap \<Rightarrow> Some 0 | _ \<Rightarrow> None)"

definition mapx_apply :: "OpMode \<Rightarrow> msn \<Rightarrow> string \<Rightarrow> nat option \<Rightarrow> val \<Rightarrow> msn option" where
  "mapx_apply mode current key index v =
     (case index of
        None \<Rightarrow>
          if gm_has current key \<and> SkipExisting mode then Some current
          else Some (gm_set current key
                 (case v of VList xs \<Rightarrow> VList xs | VTyped _ xs \<Rightarrow> VList xs | _ \<Rightarrow> interfaceToMapNode v))
      | Some i \<Rightarrow>
          (case gm_get current key of
             None \<Rightarrow> Some (gm_set current key (VList ((replicate (Suc i) VNil)[i := v])))
           | Some array \<Rightarrow>
               (case reflectLen array of
                  None \<Rightarrow> None
                | Some n \<Rightarrow>
                    if i < n
                    then (if SkipExisting mode then Some current
                          else map_option (gm_set current key) (setElement array i v))
                    else (case growTo array i v of
                            None \<Rightarrow> None
                          | Some array \<Rightarrow> map_option (gm_set current key) (setElement array i v)))))"

definition accessMap :: "OpMode \<Rightarrow> msn \<Rightarrow> nat \<Rightarrow> string \<Rightarrow> nat option \<Rightarrow> val \<Rightarrow> (msn \<times> val) option" where
  "accessMap mode curMsn segments thisSel index v =
     (if segments \<le> 1 \<and> IsSet mode then map_option (\<lambda>m. (m, VNil)) (mapx_apply mode curMsn thisSel index v)
      else if gm_get curMsn thisSel = None \<and> \<not> IsSet mode then Some (curMsn, VNil)
      else
        (let found = (case gm_get curMsn thisSel of
                        None \<Rightarrow> (case index of None \<Rightarrow> VMap [] | Some i \<Rightarrow> VList (replicate (Suc i) (VMap [])))
                      | Some array \<Rightarrow>
                          (case (array, index) of
                             (VList xs, Some i) \<Rightarrow>
                               if IsSet mode \<and> i \<ge> length xs then VList (xs @ replicate (Suc i - length xs) (VMap [])) else array
                           | _ \<Rightarrow> array));
             found = (if found = VNil \<and> segments > 1 then VMap [] else found)
         in Some (gm_set curMsn thisSel found, found)))"

definition selectorOf :: "string \<Rightarrow> string list \<times> nat option \<times> string" where
  "selectorOf selector =
     (let segs = SplitUnescapedDotN (trimDots selector) 2;
          (index, thisSel) = (if CHR ''['' \<in> set (hd segs) then getIndex (hd segs) else (None, hd segs))
      in (segs, index, thisSel))"

lemma splitLoop_length:
  "sum_list (map length (splitLoop room escaped current s)) + length (splitLoop room escaped current s)
     \<le> Suc (length current + length s + (if escaped then 1 else 0))"
  by (induction room escaped current s rule: splitLoop.induct) (auto split: if_splits)

lemma trimDots_length: "length (trimDots s) \<le> length s"
  unfolding trimDots_def by (metis length_dropWhile_le length_rev order_trans)

lemma segment_shorter:
  assumes "(segs, index, thisSel) = selectorOf selector" and "Suc 0 < length segs"
  shows "length (segs ! Suc 0) < length selector"
proof -
  have s: "segs = splitLoop (Some 1) False [] (trimDots selector)"
    using assms(1) by (auto simp: selectorOf_def SplitUnescapedDotN_def Let_def split: prod.splits)
  obtain a b rest where abr: "segs = a # b # rest" using assms(2) by (metis Suc_less_eq length_Cons length_greater_0_conv list.exhaust list.size(3) not_less_zero)
  then show ?thesis
    using splitLoop_length [of "Some 1" False "[]" "trimDots selector"] trimDots_length [of selector] unfolding s [symmetric] by simp
qed

function mapx_access :: "OpMode \<Rightarrow> val \<Rightarrow> string \<Rightarrow> val \<Rightarrow> (val \<times> val) option" where
  "mapx_access mode current selector v =
     (case selectorOf selector of (segs, index, thisSel) \<Rightarrow>
       (case current of
          VMap curMsn \<Rightarrow>
            (case accessMap mode curMsn (length segs) thisSel index v of
               None \<Rightarrow> None
             | Some (curMsn, found) \<Rightarrow>
                 if found = VNil then Some (VMap curMsn, VNil)
                 else case (found, index) of
                   (VList xs, Some i) \<Rightarrow>
                     if i < length xs
                     then (if length segs > 1
                           then map_option (\<lambda>(elem, r). (VMap (gm_set curMsn thisSel (VList (xs[i := elem]))), r))
                                  (mapx_access mode (xs ! i) (segs ! 1) v)
                           else Some (VMap curMsn, xs ! i))
                     else Some (VMap curMsn, VNil)
                 | _ \<Rightarrow>
                     if length segs > 1
                     then map_option (\<lambda>(elem, r). (VMap (gm_set curMsn thisSel elem), r)) (mapx_access mode found (segs ! 1) v)
                     else Some (VMap curMsn, found))
        | VNilMap \<Rightarrow> if IsSet mode then None else Some (VNilMap, VNil)
        | _ \<Rightarrow> Some (current, VNil)))"
  by pat_completeness auto
termination
  by (relation "measure (\<lambda>(mode, current, selector, v). length selector)") (auto intro: segment_shorter)

declare mapx_access.simps [simp del]


section \<open>Operations\<close>

record mapX =
  root :: msn

definition NewMapX :: "val option \<Rightarrow> mapX" where
  "NewMapX msi = \<lparr>root = (case msi of Some (VRawMap kvs) \<Rightarrow> map (\<lambda>(k, v). (k, interfaceToMapNode v)) kvs | _ \<Rightarrow> [])\<rparr>"

definition Msi :: "mapX \<Rightarrow> val" where
  "Msi m = nodeData (copyVal (VMap (root m)))"

definition rootOf :: "val \<Rightarrow> msn" where
  "rootOf v = (case v of VMap kvs \<Rightarrow> kvs | _ \<Rightarrow> [])"

text \<open>Reading may change the tree, so the tree is returned too.\<close>

definition doGet :: "mapX \<Rightarrow> string \<Rightarrow> (mapX \<times> val) option" where
  "doGet m key =
     (if key = ''.'' then Some (m, VMap (root m))
      else map_option (\<lambda>(v, r). (\<lparr>root = rootOf v\<rparr>, r)) (mapx_access \<lparr>IsSet = False, SkipExisting = False\<rparr> (VMap (root m)) key VNil))"

definition mapx_Get :: "mapX \<Rightarrow> string \<Rightarrow> (mapX \<times> val) option" where
  "mapx_Get m key = map_option (\<lambda>(m, r). (m, copyVal r)) (doGet m key)"

definition doesHave :: "mapX \<Rightarrow> string \<Rightarrow> (mapX \<times> bool) option" where
  "doesHave m key =
     (if root m = [] then Some (m, False) else map_option (\<lambda>(m, r). (m, r \<noteq> VNil)) (doGet m key))"

definition doSet :: "bool \<Rightarrow> string \<Rightarrow> val \<Rightarrow> mapX \<Rightarrow> mapX option" where
  "doSet skipExisting key v m =
     map_option (\<lambda>(r, _). \<lparr>root = rootOf r\<rparr>)
       (mapx_access \<lparr>IsSet = True, SkipExisting = skipExisting\<rparr> (VMap (root m)) key (prepareInput v))"

definition notASlice :: "val \<Rightarrow> goerr" where
  "notASlice v = Opaque (''value should be of type []any but instead is '' @ typeOf v)"

definition node_Slice :: "val \<Rightarrow> goerr + val list" where
  "node_Slice v = (case v of VNil \<Rightarrow> Inr [] | VList xs \<Rightarrow> Inr (map nodeData xs) | _ \<Rightarrow> Inl (notASlice v))"

definition mapx_Append :: "string \<Rightarrow> val list \<Rightarrow> mapX \<Rightarrow> (mapX \<times> error) option" where
  "mapx_Append key vs m =
     (case doesHave m key of
        None \<Rightarrow> None
      | Some (m, False) \<Rightarrow> map_option (\<lambda>m. (m, None)) (doSet False key (VList vs) m)
      | Some (m, True) \<Rightarrow>
          (case doGet m key of
             None \<Rightarrow> None
           | Some (m, v) \<Rightarrow>
               (case node_Slice v of
                  Inl err \<Rightarrow> Some (m, Some (errorf_w ''current value is not a slice: '' err []))
                | Inr slice \<Rightarrow> map_option (\<lambda>m. (m, None)) (doSet False key (VList (slice @ vs)) m))))"

text \<open>Merging a value from outside; the elements of a map are visited in the order of the list.\<close>

fun doMerge :: "bool \<Rightarrow> string \<Rightarrow> val \<Rightarrow> mapX \<Rightarrow> mapX option"
  and mergeEntries :: "bool \<Rightarrow> string \<Rightarrow> (string \<times> val) list \<Rightarrow> mapX \<Rightarrow> mapX option"
  and mergeElements :: "bool \<Rightarrow> string \<Rightarrow> nat \<Rightarrow> val list \<Rightarrow> mapX \<Rightarrow> mapX option" where
  "doMerge skip key (VRawMap kvs) m =
     (if key = ''.'' \<and> kvs = [] then Some m
      else case doesHave m key of
        None \<Rightarrow> None
      | Some (m, has) \<Rightarrow> if \<not> has \<and> kvs = [] then doSet skip key (VRawMap []) m else mergeEntries skip key kvs m)"
| "doMerge skip key (VList xs) m =
     (case doesHave m key of
        None \<Rightarrow> None
      | Some (m, has) \<Rightarrow>
          (case (if has then Some m else doSet skip key (VList []) m) of
             None \<Rightarrow> None
           | Some m \<Rightarrow> mergeElements skip key 0 xs m))"
| "doMerge skip key (VTyped t xs) m =
     (case doesHave m key of
        None \<Rightarrow> None
      | Some (m, has) \<Rightarrow>
          (case (if has then Some m else doSet skip key (VList []) m) of
             None \<Rightarrow> None
           | Some m \<Rightarrow> mergeElements skip key 0 xs m))"
| "doMerge skip key v m = doSet skip key v m"
| "mergeEntries skip key [] m = Some m"
| "mergeEntries skip key ((k, v) # kvs) m =
     (case doMerge skip (key @ ''.'' @ k) v m of None \<Rightarrow> None | Some m \<Rightarrow> mergeEntries skip key kvs m)"
| "mergeElements skip key i [] m = Some m"
| "mergeElements skip key i (v # vs) m =
     (case doMerge skip (key @ ''['' @ utoa i @ '']'') v m of None \<Rightarrow> None | Some m \<Rightarrow> mergeElements skip key (Suc i) vs m)"

section \<open>Paths of plain keys\<close>

definition plainKey :: "string \<Rightarrow> bool" where
  "plainKey k \<longleftrightarrow> k \<noteq> [] \<and> (\<forall>r \<in> set k. \<not> isDot r \<and> \<not> isEscape r \<and> r \<noteq> CHR ''['')"

lemma splitLoop_plain:
  "\<forall>r \<in> set k. \<not> isDot r \<and> \<not> isEscape r \<Longrightarrow> splitLoop room False current (k @ s) = splitLoop room False (current @ k) s"
  by (induction k arbitrary: current) auto

lemma str_join_Cons: "str_join sep (k # ks) = (if ks = [] then k else k @ sep @ str_join sep ks)"
  by (cases ks) simp_all

lemma str_join_ends:
  assumes "ks \<noteq> []" and "\<forall>k \<in> set ks. plainKey k"
  shows "str_join ''.'' ks \<noteq> [] \<and> \<not> isDot (hd (str_join ''.'' ks)) \<and> \<not> isDot (last (str_join ''.'' ks))"
  using assms
proof (induction ks)
  case (Cons k ks)
  then have "k \<noteq> []" "\<not> isDot (hd k)" "\<not> isDot (last k)" by (auto simp: plainKey_def)
  then show ?case using Cons by (auto simp: str_join_Cons)
qed simp

lemma trimDots_path:
  assumes "ks \<noteq> []" and "\<forall>k \<in> set ks. plainKey k"
  shows "trimDots (replicate n (CHR ''.'') @ str_join ''.'' ks) = str_join ''.'' ks"
proof -
  let ?p = "str_join ''.'' ks"
  have e: "?p \<noteq> []" "\<not> isDot (hd ?p)" "\<not> isDot (last ?p)" using str_join_ends [OF assms] by auto
  have "dropWhile isDot (replicate n (CHR ''.'') @ ?p) = ?p"
    using e by (induction n) (auto simp: isDot_def dropWhile_eq_self_iff)
  moreover have "dropWhile isDot (rev ?p) = rev ?p" using e by (simp add: dropWhile_eq_self_iff hd_rev)
  ultimately show ?thesis by (simp add: trimDots_def)
qed

lemma splitLoop_rest: "\<forall>k \<in> set ks. plainKey k \<Longrightarrow> splitLoop (Some 0) False current (str_join ''.'' ks) = [current @ str_join ''.'' ks]"
proof (induction ks arbitrary: current)
  case (Cons k ks)
  then have "\<forall>r \<in> set k. \<not> isDot r \<and> \<not> isEscape r" by (simp add: plainKey_def)
  then show ?case using Cons splitLoop_plain [of k "Some 0" current] splitLoop_plain [of k "Some 0" current "[]"]
    by (auto simp: str_join_Cons isEscape_def)
qed simp

lemma selectorOf_path:
  assumes "plainKey k" and "\<forall>k \<in> set ks. plainKey k"
  shows "selectorOf (replicate n (CHR ''.'') @ str_join ''.'' (k # ks)) = (if ks = [] then ([k], None, k) else ([k, str_join ''.'' ks], None, k))"
proof -
  have k: "\<forall>r \<in> set k. \<not> isDot r \<and> \<not> isEscape r" "CHR ''['' \<notin> set k" using assms(1) by (auto simp: plainKey_def)
  have "splitLoop (Some 1) False [] (str_join ''.'' (k # ks)) = (if ks = [] then [k] else [k, str_join ''.'' ks])"
    using splitLoop_plain [OF k(1), of "Some 1" "[]"] splitLoop_plain [OF k(1), of "Some 1" "[]" "[]"] splitLoop_rest [OF assms(2), of "[]"]
    by (auto simp: str_join_Cons isEscape_def isDot_def)
  then show ?thesis using trimDots_path [of "k # ks" n] assms k(2) by (simp add: selectorOf_def SplitUnescapedDotN_def Let_def)
qed

section \<open>Trees addressed by lists of keys\<close>

text \<open>The reference: reading and writing by the list of keys of a path.\<close>

fun getPath :: "val \<Rightarrow> string list \<Rightarrow> val" where
  "getPath v [] = v"
| "getPath (VMap m) (k # ks) = (case gm_get m k of None \<Rightarrow> VNil | Some v \<Rightarrow> getPath v ks)"
| "getPath v (k # ks) = VNil"

fun setPath :: "val \<Rightarrow> string list \<Rightarrow> val \<Rightarrow> val" where
  "setPath v [] x = v"
| "setPath (VMap m) [k] x = VMap (gm_set m k x)"
| "setPath (VMap m) (k # ks) x =
     VMap (gm_set m k (setPath (case gm_get m k of None \<Rightarrow> VMap [] | Some VNil \<Rightarrow> VMap [] | Some v \<Rightarrow> v) ks x))"
| "setPath v (k # ks) x = v"

text \<open>What reading does to the tree: a nil value that is looked into becomes an empty map.\<close>

fun touch :: "val \<Rightarrow> string list \<Rightarrow> val" where
  "touch (VMap m) (k # ks) =
     (case gm_get m k of None \<Rightarrow> VMap m
      | Some v \<Rightarrow> VMap (gm_set m k (if ks = [] then v else touch (if v = VNil then VMap [] else v) ks)))"
| "touch v ks = v"


text \<open>Paths that can be written: everything on the way is a map, nil or missing.\<close>

fun settable :: "val \<Rightarrow> string list \<Rightarrow> bool" where
  "settable v [] = True"
| "settable (VMap m) (k # ks) = (ks = [] \<or> (case gm_get m k of None \<Rightarrow> True | Some v \<Rightarrow> v = VNil \<or> settable v ks))"
| "settable v (k # ks) = False"

definition path :: "nat \<Rightarrow> string list \<Rightarrow> string" where
  "path n ks = replicate n (CHR ''.'') @ str_join ''.'' ks"

definition stored :: "val \<Rightarrow> val" where
  "stored v = (case v of VList xs \<Rightarrow> VList xs | VTyped _ xs \<Rightarrow> VList xs | _ \<Rightarrow> interfaceToMapNode v)"

definition getMode :: OpMode where "getMode = \<lparr>IsSet = False, SkipExisting = False\<rparr>"
definition setMode :: OpMode where "setMode = \<lparr>IsSet = True, SkipExisting = False\<rparr>"

lemma gm_set_set [simp]: "gm_set (gm_set m k v) k w = gm_set m k w"
  by (induction m) auto

lemma access_other:
  assumes "\<And>m. cur \<noteq> VMap m" and "cur \<noteq> VNilMap"
  shows "mapx_access mode cur sel v = Some (cur, VNil)"
  unfolding mapx_access.simps [of mode cur sel v] using assms by (cases cur) (auto split: prod.splits)

lemma access_VNilMap: "mapx_access mode VNilMap sel v = (if IsSet mode then None else Some (VNilMap, VNil))"
  unfolding mapx_access.simps [of mode VNilMap sel v] by (simp split: prod.splits)

text \<open>One step along a path without indices.\<close>

lemma access_last:
  assumes "selectorOf sel = ([k], None, k)"
  shows "mapx_access mode (VMap m) sel v = map_option (\<lambda>(m, r). (VMap m, r)) (accessMap mode m 1 k None v)"
  unfolding mapx_access.simps [of mode "VMap m" sel v] using assms by (auto split: option.splits val.splits)

lemma access_step:
  assumes "selectorOf sel = ([k, rest], None, k)" and "accessMap mode m 2 k None v = Some (m', found)" and "found \<noteq> VNil"
  shows "mapx_access mode (VMap m) sel v = map_option (\<lambda>(elem, r). (VMap (gm_set m' k elem), r)) (mapx_access mode found rest v)"
  unfolding mapx_access.simps [of mode "VMap m" sel v] using assms by (auto simp: numeral_2_eq_2 split: val.splits)

lemma access_get:
  "\<forall>k \<in> set ks. plainKey k \<Longrightarrow> ks \<noteq> [] \<Longrightarrow> mapx_access getMode cur (path n ks) v = Some (touch cur ks, getPath cur ks)"
proof (induction ks arbitrary: cur n)
  case (Cons k ks)
  have sel: "selectorOf (path n (k # ks)) = (if ks = [] then ([k], None, k) else ([k, path 0 ks], None, k))"
    using selectorOf_path [of k ks n] Cons.prems by (simp add: path_def)
  have IH: "ks \<noteq> [] \<Longrightarrow> mapx_access getMode c (path 0 ks) v = Some (touch c ks, getPath c ks)" for c
    using Cons.IH Cons.prems by simp
  show ?case
  proof (cases "\<exists>m. cur = VMap m")
    case True
    then obtain m where m: "cur = VMap m" by blast
    show ?thesis
    proof (cases "gm_get m k")
      case None
      then have "accessMap getMode m n k None v = Some (m, VNil)" for n by (simp add: accessMap_def getMode_def)
      then show ?thesis using sel m None
        by (cases "ks = []") (auto simp: access_last mapx_access.simps [of getMode "VMap m"] numeral_2_eq_2)
    next
      case (Some w)
      show ?thesis
      proof (cases "ks = []")
        case True
        then show ?thesis using sel m Some
          by (simp add: access_last accessMap_def getMode_def Let_def split: val.splits)
      next
        case False
        let ?c = "if w = VNil then VMap [] else w"
        have "accessMap getMode m 2 k None v = Some (gm_set m k ?c, ?c)"
          using Some by (auto simp: accessMap_def getMode_def Let_def split: val.splits)
        moreover have "getPath ?c ks = getPath w ks" using False by (cases ks) auto
        ultimately show ?thesis using sel m Some False IH [OF False, of ?c] access_step [of "path n (k # ks)" k "path 0 ks" getMode m v] by simp
      qed
    qed
  next
    case False
    then have "getPath cur (k # ks) = VNil" "touch cur (k # ks) = cur" by (cases cur; simp)+
    then show ?thesis using False
      by (cases "cur = VNilMap") (auto simp: access_other access_VNilMap getMode_def)
  qed
qed simp

lemma access_set:
  "\<forall>k \<in> set ks. plainKey k \<Longrightarrow> ks \<noteq> [] \<Longrightarrow> settable cur ks \<Longrightarrow>
   \<exists>r. mapx_access setMode cur (path n ks) x = Some (setPath cur ks (stored x), r)"
proof (induction ks arbitrary: cur n)
  case (Cons k ks)
  obtain m where m: "cur = VMap m" using Cons.prems(3) by (cases cur) auto
  have sel: "selectorOf (path n (k # ks)) = (if ks = [] then ([k], None, k) else ([k, path 0 ks], None, k))"
    using selectorOf_path [of k ks n] Cons.prems by (simp add: path_def)
  show ?case
  proof (cases "ks = []")
    case True
    then show ?thesis using sel m
      by (simp add: access_last accessMap_def mapx_apply_def setMode_def stored_def)
  next
    case False
    let ?c = "case gm_get m k of None \<Rightarrow> VMap [] | Some VNil \<Rightarrow> VMap [] | Some v \<Rightarrow> v"
    have "settable (VMap []) ks" by (cases ks) auto
    then have "settable ?c ks" using Cons.prems(3) m False by (auto split: option.splits val.splits)
    then obtain r where r: "mapx_access setMode ?c (path 0 ks) x = Some (setPath ?c ks (stored x), r)"
      using Cons.IH [of ?c 0] Cons.prems(1) False by auto
    have "?c \<noteq> VNil" by (auto split: option.splits val.splits)
    moreover have "accessMap setMode m 2 k None x = Some (gm_set m k ?c, ?c)"
      by (auto simp: accessMap_def setMode_def Let_def split: option.splits val.splits)
    moreover have "setPath (VMap m) (k # ks) y = VMap (gm_set m k (setPath ?c ks y))" for y using False by (cases ks) auto
    ultimately show ?thesis using r sel m False access_step [of "path n (k # ks)" k "path 0 ks" setMode m x] by simp
  qed
qed simp


section \<open>The laws of trees\<close>

abbreviation comparable :: "string list \<Rightarrow> string list \<Rightarrow> bool" where
  "comparable ks ls \<equiv> prefix ks ls \<or> prefix ls ks"

lemma getPath_empty: "getPath (VMap []) ks = (if ks = [] then VMap [] else VNil)" "getPath VNil ks = VNil"
  by (cases ks; simp)+

lemma setPath_Cons:
  "ks \<noteq> [] \<Longrightarrow> setPath (VMap m) (k # ks) x =
     VMap (gm_set m k (setPath (case gm_get m k of None \<Rightarrow> VMap [] | Some VNil \<Rightarrow> VMap [] | Some v \<Rightarrow> v) ks x))"
  by (cases ks) auto

lemma settable_child:
  assumes "settable (VMap m) (k # ks)"
  shows "settable (case gm_get m k of None \<Rightarrow> VMap [] | Some VNil \<Rightarrow> VMap [] | Some v \<Rightarrow> v) ks"
proof -
  have "settable (VMap []) ks" by (cases ks) auto
  then show ?thesis using assms by (cases ks) (auto split: option.splits val.splits)
qed

lemma get_set_same: "settable t ks \<Longrightarrow> ks \<noteq> [] \<Longrightarrow> getPath (setPath t ks x) ks = x"
proof (induction ks arbitrary: t)
  case (Cons k ks)
  obtain m where m: "t = VMap m" using Cons.prems by (cases t) auto
  show ?case
    using m Cons.IH [OF settable_child [of m k ks]] Cons.prems by (cases "ks = []") (auto simp: setPath_Cons)
qed simp

lemma get_set_other: "\<not> comparable ks ls \<Longrightarrow> settable t ks \<Longrightarrow> getPath (setPath t ks x) ls = getPath t ls"
proof (induction ks arbitrary: t ls)
  case (Cons k ks)
  obtain m where m: "t = VMap m" using Cons.prems by (cases t) auto
  obtain l ls' where l: "ls = l # ls'" using Cons.prems(1) by (cases ls) auto
  show ?case
  proof (cases "l = k")
    case True
    then have c: "\<not> comparable ks ls'" using Cons.prems(1) l by simp
    then have "ks \<noteq> []" "ls' \<noteq> []" by auto
    then show ?thesis
      using m l True Cons.IH [OF c settable_child [of m k ks]] Cons.prems(2)
      by (auto simp: setPath_Cons getPath_empty split: option.splits val.splits)
  next
    case False
    then show ?thesis using m l by (cases "ks = []") (auto simp: setPath_Cons)
  qed
qed simp

lemma settable_set_other: "\<not> comparable ks ls \<Longrightarrow> settable t ks \<Longrightarrow> settable t ls \<Longrightarrow> settable (setPath t ks x) ls"
proof (induction ks arbitrary: t ls)
  case (Cons k ks)
  obtain m where m: "t = VMap m" using Cons.prems by (cases t) auto
  obtain l ls' where l: "ls = l # ls'" using Cons.prems(1) by (cases ls) auto
  show ?case
  proof (cases "l = k")
    case True
    then have c: "\<not> comparable ks ls'" using Cons.prems(1) l by simp
    then have "ks \<noteq> []" "ls' \<noteq> []" by auto
    then show ?thesis
      using m l True Cons.IH [OF c settable_child [of m k ks] settable_child [of m k ls']] Cons.prems(2,3)
      by (auto simp: setPath_Cons)
  next
    case False
    then show ?thesis using m l Cons.prems(3) by (cases "ks = []") (auto simp: setPath_Cons)
  qed
qed simp

lemma get_touch: "\<not> prefix ls ks \<Longrightarrow> getPath (touch t ks) ls = getPath t ls"
proof (induction ks arbitrary: t ls)
  case (Cons k ks)
  obtain l ls' where l: "ls = l # ls'" using Cons.prems by (cases ls) auto
  show ?case
  proof (cases t)
    case (VMap m)
    show ?thesis
    proof (cases "l = k \<and> gm_get m k \<noteq> None")
      case True
      then obtain w where w: "gm_get m k = Some w" by blast
      have np: "\<not> prefix ls' ks" using Cons.prems l True by simp
      then have "ls' \<noteq> []" by auto
      then show ?thesis using VMap l True w Cons.IH [OF np, of "if w = VNil then VMap [] else w"] by (auto simp: getPath_empty)
    qed (use VMap l in \<open>auto split: option.splits\<close>)
  qed auto
qed simp

lemma settable_touch: "settable t ls \<Longrightarrow> settable (touch t ks) ls"
proof (induction ks arbitrary: t ls)
  case (Cons k ks)
  show ?case
  proof (cases t)
    case (VMap m)
    have "settable (VMap []) q" for q by (cases q) auto
    then show ?thesis
      using VMap Cons.prems Cons.IH
      by (cases ls) (auto split: option.splits)
  qed (use Cons.prems in auto)
qed simp


section \<open>Reading and writing\<close>

abbreviation tree :: "mapX \<Rightarrow> val" where
  "tree m \<equiv> VMap (root m)"

lemma path_not_dot: "ks \<noteq> [] \<Longrightarrow> \<forall>k \<in> set ks. plainKey k \<Longrightarrow> path n ks \<noteq> ''.''"
  using str_join_ends [of ks] by (cases n) (auto simp: path_def isDot_def append_eq_Cons_conv)

lemma touch_VMap: "\<exists>m'. touch (VMap m) ks = VMap m'" 
  by (cases ks) (auto split: option.splits)

lemma setPath_VMap: "\<exists>m'. setPath (VMap m) ks x = VMap m'"
  by (cases "(VMap m, ks, x)" rule: setPath.cases) auto

lemma doGet_path:
  assumes "ks \<noteq> []" and "\<forall>k \<in> set ks. plainKey k"
  shows "\<exists>m'. doGet m (path n ks) = Some (m', getPath (tree m) ks) \<and> tree m' = touch (tree m) ks"
  using access_get [OF assms(2,1), of "tree m" n VNil] path_not_dot [OF assms, of n] touch_VMap [of "root m" ks]
  by (auto simp: doGet_def getMode_def rootOf_def)

lemma doSet_path:
  assumes "ks \<noteq> []" and "\<forall>k \<in> set ks. plainKey k" and "settable (tree m) ks"
  shows "\<exists>m'. doSet False (path n ks) v m = Some m' \<and> tree m' = setPath (tree m) ks (stored (prepareInput v))"
  using access_set [OF assms(2,1,3), of n "prepareInput v"] setPath_VMap [of "root m" ks "stored (prepareInput v)"]
  by (auto simp: doSet_def setMode_def rootOf_def)


section \<open>Merging\<close>

fun leaves :: "string list \<Rightarrow> val \<Rightarrow> (string list \<times> val) list" where
  "leaves p (VRawMap kvs) = concat (map (\<lambda>(k, v). leaves (p @ [k]) v) kvs)"
| "leaves p v = [(p, v)]"

fun plainSource :: "val \<Rightarrow> bool" where
  "plainSource (VRawMap kvs) = (kvs \<noteq> [] \<and> distinct (map fst kvs) \<and> (\<forall>(k, v) \<in> set kvs. plainKey k \<and> plainSource v))"
| "plainSource (VList _) = False"
| "plainSource (VTyped _ _) = False"
| "plainSource (VMap _) = False"
| "plainSource VNilMap = False"
| "plainSource v = True"

definition paths :: "(string list \<times> val) list \<Rightarrow> string list set" where
  "paths ls = fst ` set ls"

definition apart :: "string list set \<Rightarrow> string list \<Rightarrow> bool" where
  "apart P ls \<longleftrightarrow> (\<forall>l \<in> P. \<not> comparable l ls)"

definition merged :: "(string list \<times> val) list \<Rightarrow> val \<Rightarrow> val \<Rightarrow> bool" where
  "merged L t t' \<longleftrightarrow> (\<forall>(l, v) \<in> set L. getPath t' l = v) \<and>
     (\<forall>ls. apart (paths L) ls \<longrightarrow> getPath t' ls = getPath t ls \<and> (settable t ls \<longrightarrow> settable t' ls))"

lemma leaves_prefix: "plainSource src \<Longrightarrow> (l, v) \<in> set (leaves p src) \<Longrightarrow> prefix p l"
proof (induction src arbitrary: p l)
  case (VRawMap kvs)
  then obtain k w where kw: "(k, w) \<in> set kvs" "(l, v) \<in> set (leaves (p @ [k]) w)" by auto
  then have "prefix (p @ [k]) l" using VRawMap.IH [of "(k, w)" w l "p @ [k]"] VRawMap.prems by (auto simp: snds.simps)
  then show ?case by (metis append_prefixD)
qed auto

lemma leaves_nonempty: "plainSource src \<Longrightarrow> leaves p src \<noteq> []"
proof (induction src arbitrary: p)
  case (VRawMap kvs)
  then obtain k w rest where "kvs = (k, w) # rest" by (metis list.exhaust plainSource.simps(1) surj_pair)
  then show ?case using VRawMap.IH [of "(k, w)" w "p @ [k]"] VRawMap.prems by (auto simp: snds.simps)
qed auto

lemma siblings_apart:
  "prefix (p @ [k]) l \<Longrightarrow> prefix (p @ [k']) l' \<Longrightarrow> k \<noteq> k' \<Longrightarrow> \<not> comparable l l'"
  by (auto simp: prefix_def append_eq_append_conv2)


lemma merged_trans:
  assumes "merged L1 t t1" and "merged L2 t1 t2" and "\<And>l1 l2. l1 \<in> paths L1 \<Longrightarrow> l2 \<in> paths L2 \<Longrightarrow> \<not> comparable l1 l2"
  shows "merged (L1 @ L2) t t2"
proof -
  have "getPath t2 l = v" if lv: "(l, v) \<in> set L1" for l v
  proof -
    have "l \<in> paths L1" using lv by (force simp: paths_def)
    then have "apart (paths L2) l" using assms(3) by (auto simp: apart_def)
    then have "getPath t2 l = getPath t1 l" using assms(2) by (simp add: merged_def)
    then show ?thesis using assms(1) lv by (auto simp: merged_def)
  qed
  moreover have "apart (paths L1) ls" "apart (paths L2) ls" if "apart (paths (L1 @ L2)) ls" for ls
    using that by (auto simp: apart_def paths_def)
  ultimately show ?thesis using assms(1,2) unfolding merged_def by auto
qed

lemma path_snoc: "p \<noteq> [] \<Longrightarrow> path n p @ ''.'' @ k = path n (p @ [k])"
proof -
  have "p \<noteq> [] \<Longrightarrow> str_join ''.'' p @ ''.'' @ k = str_join ''.'' (p @ [k])" by (induction p) (auto simp: str_join_Cons)
  then show "p \<noteq> [] \<Longrightarrow> ?thesis" by (simp add: path_def)
qed

lemma mergeEntries_ok:
  assumes "\<And>k. key @ ''.'' @ k = path n (p @ [k])"
    and "\<And>k v m. (k, v) \<in> set kvs \<Longrightarrow> (\<forall>l \<in> paths (leaves (p @ [k]) v). settable (tree m) l) \<Longrightarrow>
      \<exists>m'. doMerge False (path n (p @ [k])) v m = Some m' \<and> merged (leaves (p @ [k]) v) (tree m) (tree m')"
    and "distinct (map fst kvs)" and "\<forall>(k, v) \<in> set kvs. plainSource v"
    and "\<forall>l \<in> paths (concat (map (\<lambda>(k, v). leaves (p @ [k]) v) kvs)). settable (tree m) l"
  shows "\<exists>m'. mergeEntries False key kvs m = Some m' \<and> merged (concat (map (\<lambda>(k, v). leaves (p @ [k]) v) kvs)) (tree m) (tree m')"
  using assms(2-)
proof (induction kvs arbitrary: m)
  case (Cons kv kvs)
  obtain k v where kv: "kv = (k, v)" by (cases kv)
  let ?L1 = "leaves (p @ [k]) v" and ?L2 = "concat (map (\<lambda>(k, v). leaves (p @ [k]) v) kvs)"
  obtain m1 where m1: "doMerge False (path n (p @ [k])) v m = Some m1" "merged ?L1 (tree m) (tree m1)"
    using Cons.prems(1) [of k v m] Cons.prems(4) kv by (auto simp: paths_def)
  have sep: "\<not> comparable l1 l2" if "l1 \<in> paths ?L1" "l2 \<in> paths ?L2" for l1 l2
  proof -
    obtain v1 where "(l1, v1) \<in> set ?L1" using \<open>l1 \<in> paths ?L1\<close> by (auto simp: paths_def)
    moreover obtain k' w v2 where "(k', w) \<in> set kvs" "(l2, v2) \<in> set (leaves (p @ [k']) w)"
      using \<open>l2 \<in> paths ?L2\<close> by (fastforce simp: paths_def)
    moreover have "k \<noteq> k'" using Cons.prems(2) kv calculation(2) by (force simp: image_iff)
    ultimately show ?thesis using leaves_prefix siblings_apart Cons.prems(3) kv by (metis (mono_tags, lifting) case_prodD list.set_intros)
  qed
  have "settable (tree m1) l" if "l \<in> paths ?L2" for l
  proof -
    have "apart (paths ?L1) l" using sep that by (auto simp: apart_def)
    moreover have "settable (tree m) l" using Cons.prems(4) that kv by (auto simp: paths_def)
    ultimately show ?thesis using m1(2) by (simp add: merged_def)
  qed
  then obtain m2 where "mergeEntries False key kvs m1 = Some m2" "merged ?L2 (tree m1) (tree m2)"
    using Cons.IH [of m1] Cons.prems(1-3) by auto
  then show ?case using m1 merged_trans [OF m1(2), of ?L2 "tree m2"] sep kv assms(1) [of k] by auto
qed (simp add: merged_def)

lemma merged_touch:
  assumes "merged L (touch t p) t'" and "L \<noteq> []" and "\<And>l. l \<in> paths L \<Longrightarrow> prefix p l"
  shows "merged L t t'"
proof -
  have "\<not> prefix ls p" if "apart (paths L) ls" for ls
  proof
    assume "prefix ls p"
    moreover obtain l where "l \<in> paths L" using assms(2) by (cases L) (auto simp: paths_def)
    ultimately show False using assms(3) [of l] that by (metis apart_def prefix_order.trans)
  qed
  then show ?thesis using assms(1) get_touch settable_touch unfolding merged_def by metis
qed

lemma merge_leaf:
  assumes "p \<noteq> []" and "\<forall>k \<in> set p. plainKey k" and "settable (tree m) p" and "stored (prepareInput v) = v"
  shows "\<exists>m'. doSet False (path n p) v m = Some m' \<and> merged [(p, v)] (tree m) (tree m')"
  using doSet_path [OF assms(1-3), of n v] get_set_same [OF assms(3,1)] get_set_other [OF _ assms(3)] settable_set_other [OF _ assms(3)] assms(4)
  by (fastforce simp: merged_def apart_def paths_def)

lemma doMerge_ok:
  "plainSource src \<Longrightarrow> p \<noteq> [] \<Longrightarrow> \<forall>k \<in> set p. plainKey k \<Longrightarrow> \<forall>l \<in> paths (leaves p src). settable (tree m) l \<Longrightarrow>
   \<exists>m'. doMerge False (path n p) src m = Some m' \<and> merged (leaves p src) (tree m) (tree m')"
proof (induction src arbitrary: p m)
  case (VRawMap kvs)
  let ?L = "leaves p (VRawMap kvs)"
  have dot: "path n p \<noteq> ''.''" using path_not_dot VRawMap.prems by blast
  obtain m1 has where h: "doesHave m (path n p) = Some (m1, has)" and t: "tree m1 = tree m \<or> tree m1 = touch (tree m) p"
    using doGet_path [OF VRawMap.prems(2,3), of m n] by (cases "root m = []") (auto simp: doesHave_def)
  have ent: "\<exists>m'. mergeEntries False (path n p) kvs m1 = Some m' \<and> merged (concat (map (\<lambda>(k, v). leaves (p @ [k]) v) kvs)) (tree m1) (tree m')"
  proof (rule mergeEntries_ok)
    show "path n p @ ''.'' @ k = path n (p @ [k])" for k by (rule path_snoc [OF VRawMap.prems(2)])
    show "\<exists>m''. doMerge False (path n (p @ [k])) v m' = Some m'' \<and> merged (leaves (p @ [k]) v) (tree m') (tree m'')"
      if "(k, v) \<in> set kvs" "\<forall>l \<in> paths (leaves (p @ [k]) v). settable (tree m') l" for k v m'
      using VRawMap.IH [of "(k, v)" v "p @ [k]" m'] that VRawMap.prems by (auto simp: snds.simps)
    show "\<forall>l \<in> paths (concat (map (\<lambda>(k, v). leaves (p @ [k]) v) kvs)). settable (tree m1) l"
      using VRawMap.prems(4) t settable_touch by auto
  qed (use VRawMap.prems(1) in auto)
  then obtain m' where m': "mergeEntries False (path n p) kvs m1 = Some m'" "merged ?L (tree m1) (tree m')" by auto
  have "merged ?L (tree m) (tree m')"
    using t m'(2) merged_touch [of ?L "tree m" p "tree m'"] leaves_nonempty [OF VRawMap.prems(1)] leaves_prefix [OF VRawMap.prems(1)]
    by (fastforce simp: paths_def)
  then show ?case using m' h dot VRawMap.prems(1) by simp
qed (use merge_leaf in \<open>auto simp: paths_def stored_def prepareInput_def\<close>)


lemma doMerge_root:
  assumes "plainSource (VRawMap kvs)" and "\<forall>l \<in> paths (leaves [] (VRawMap kvs)). settable (tree m) l"
  shows "\<exists>m'. doMerge False ''.'' (VRawMap kvs) m = Some m' \<and> merged (leaves [] (VRawMap kvs)) (tree m) (tree m')"
proof -
  have "\<exists>m'. mergeEntries False ''.'' kvs m = Some m' \<and> merged (concat (map (\<lambda>(k, v). leaves ([] @ [k]) v) kvs)) (tree m) (tree m')"
  proof (rule mergeEntries_ok)
    show "''.'' @ ''.'' @ k = path 2 ([] @ [k])" for k by (simp add: path_def numeral_2_eq_2)
    show "\<exists>m''. doMerge False (path 2 ([] @ [k])) v m' = Some m'' \<and> merged (leaves ([] @ [k]) v) (tree m') (tree m'')"
      if "(k, v) \<in> set kvs" "\<forall>l \<in> paths (leaves ([] @ [k]) v). settable (tree m') l" for k v m'
      using doMerge_ok [of v "[k]" m' 2] that assms(1) by auto
  qed (use assms in auto)
  moreover have "\<exists>has. doesHave m ''.'' = Some (m, has)" by (auto simp: doesHave_def doGet_def)
  ultimately show ?thesis using assms(1) by auto
qed




section \<open>Conversions\<close>

fun rawTree :: "val \<Rightarrow> bool" where
  "rawTree (VRawMap kvs) = (\<forall>(k, v) \<in> set kvs. rawTree v)"
| "rawTree (VList vs) = (\<forall>v \<in> set vs. rawTree v)"
| "rawTree (VTyped t _) = (t \<noteq> ''map[string]interface {}'')"
| "rawTree (VMap _) = False"
| "rawTree VNilMap = False"
| "rawTree v = True"

lemma nodeData_inverse: "rawTree v \<Longrightarrow> nodeData (copyVal (interfaceToMapNode v)) = v"
proof (induction v)
  case (VRawMap kvs)
  then have "map (\<lambda>(k, v). (k, nodeData (copyVal (interfaceToMapNode v)))) kvs = kvs" by (force simp: snds.simps intro!: map_idI)
  then show ?case by (simp add: comp_def case_prod_unfold)
qed (auto intro!: map_idI)

text \<open>A tree that was read from the outside is returned to the outside unchanged.\<close>

lemma Msi_of_NewMapX: "rawTree (VRawMap kvs) \<Longrightarrow> Msi (NewMapX (Some (VRawMap kvs))) = VRawMap kvs"
  using nodeData_inverse [of "VRawMap kvs"] by (simp add: Msi_def NewMapX_def)

lemma escaped_dots_do_not_split:
  "\<forall>r \<in> set s. \<not> isEscape r \<Longrightarrow> splitLoop room False current (EscapeDots s) = [current @ EscapeDots s]"
  by (induction s arbitrary: current) (auto simp: EscapeDots_def isDot_def isEscape_def)

section \<open>Corner cases\<close>

text \<open>Looking below a nil value turns it into an empty map, although nothing is written.\<close>

lemma Get_changes_tree: "mapx_Get \<lparr>root = [(''a'', VNil)]\<rparr> ''a.b'' = Some (\<lparr>root = [(''a'', VMap [])]\<rparr>, VNil)"
  by code_simp

text \<open>A write below a scalar is dropped without an error.\<close>

lemma Set_below_scalar: "doSet False ''a.b'' (VInt 2) \<lparr>root = [(''a'', VInt 1)]\<rparr> = Some \<lparr>root = [(''a'', VInt 1)]\<rparr>"
  by code_simp

text \<open>Writing nil to an element that exists panics, writing it to a new slice does not.\<close>

lemma Set_nil_element:
  "doSet False ''a[0]'' VNil \<lparr>root = [(''a'', VList [VInt 1])]\<rparr> = None"
  "doSet False ''a[0]'' VNil \<lparr>root = []\<rparr> = Some \<lparr>root = [(''a'', VList [VNil])]\<rparr>"
  by code_simp+

text \<open>Growing a slice by a map fills the gap with nil maps, and a later write into the gap panics.\<close>

lemma Set_into_gap:
  "Option.bind (doSet False ''a[1]'' (VRawMap []) \<lparr>root = [(''a'', VList [])]\<rparr>) (doSet False ''a[0].b'' (VInt 1)) = None"
  by code_simp

text \<open>The inner elements of nested slices are merged under a key of their own.\<close>

lemma Merge_nested_slices:
  "doMerge False ''k'' (VList [VList [VInt 1]]) \<lparr>root = []\<rparr> = Some \<lparr>root = [(''k'', VList [VList []]), (''k[0]'', VList [VInt 1])]\<rparr>"
  by code_simp

text \<open>A key with a dot is taken apart when it is merged, but not when the tree is created from it.\<close>

lemma Merge_splits_keys:
  "doMerge False ''.'' (VRawMap [(''a.b'', VInt 1)]) \<lparr>root = []\<rparr> = Some \<lparr>root = [(''a'', VMap [(''b'', VInt 1)])]\<rparr>"
  "NewMapX (Some (VRawMap [(''a.b'', VInt 1)])) = \<lparr>root = [(''a.b'', VInt 1)]\<rparr>"
  by code_simp+

end
