(* ===== verification/MdlSub.thy ===== *)
theory MdlSub
  imports Consumer KvStore ModelIds "HOL-Library.List_Lexorder" "HOL-Library.Char_ord"
begin

text \<open>
  Publishing and subscribing to models, \<open>pkg/mdlsub\<close>: the publisher (\<open>publisher.go\<close>), the subscriber callback with its transformers
  (\<open>subscriber_callback.go\<close>, \<open>subscriber_core.go\<close>, \<open>transformer.go\<close>), the outputs (\<open>output*.go\<close>) and the construction of the
  subscribers (\<open>subscriber_factory.go\<close>, parts of the post-processors).

  A transformer is a function from the decoded input to an optional model; an output is a function over a
  state of its own. \<open>cast.ToIntE\<close> of a string, the stores behind the outputs and the factories are
  parameters. Metrics and logs are left out.
\<close>

section \<open>Specifications\<close>

definition AttributeModelId :: string where "AttributeModelId = ''modelId''"
definition AttributeType :: string where "AttributeType = ''type''"
definition AttributeVersion :: string where "AttributeVersion = ''version''"
definition TypeCreate :: string where "TypeCreate = ''create''"
definition TypeUpdate :: string where "TypeUpdate = ''update''"
definition TypeDelete :: string where "TypeDelete = ''delete''"

lemma spec_keys_differ [simp]:
  "AttributeModelId \<noteq> AttributeType" "AttributeModelId \<noteq> AttributeVersion" "AttributeType \<noteq> AttributeVersion"
  "AttributeType \<noteq> AttributeModelId" "AttributeVersion \<noteq> AttributeModelId" "AttributeVersion \<noteq> AttributeType"
  by (simp_all add: AttributeModelId_def AttributeType_def AttributeVersion_def)

record ModelSpecification =
  CrudType :: string
  spec_Version :: int
  spec_ModelId :: string

definition ModelSpecification_String :: "ModelSpecification \<Rightarrow> string" where
  "ModelSpecification_String m = ''['' @ CrudType m @ '']'' @ spec_ModelId m @ ''@v'' @ itoa (spec_Version m)"

definition noAttribute :: "string \<Rightarrow> goerr" where
  "noAttribute name = Opaque (''the message has no attribute named '' @ squoted name)"

definition getModelSpecification :: "(string \<Rightarrow> goerr + int) \<Rightarrow> attrs \<Rightarrow> goerr + ModelSpecification" where
  "getModelSpecification ToIntE attributes =
     (case gm_get attributes AttributeType of
        None \<Rightarrow> Inl (noAttribute AttributeType)
      | Some typ \<Rightarrow>
          (case gm_get attributes AttributeVersion of
             None \<Rightarrow> Inl (noAttribute AttributeVersion)
           | Some version \<Rightarrow>
               (case ToIntE version of
                  Inl err \<Rightarrow> Inl (Opaque (''version is not an int: '' @ version))
                | Inr v \<Rightarrow>
                    (case gm_get attributes AttributeModelId of
                       None \<Rightarrow> Inl (noAttribute AttributeModelId)
                     | Some modelId \<Rightarrow> Inr \<lparr>CrudType = typ, spec_Version = v, spec_ModelId = modelId\<rparr>))))"

definition CreateMessageAttributes :: "ModelId \<Rightarrow> string \<Rightarrow> int \<Rightarrow> attrs" where
  "CreateMessageAttributes modelId typ version =
     [(AttributeType, typ), (AttributeVersion, itoa version), (AttributeModelId, ModelId_String modelId)]"

section \<open>Publishing\<close>

record PublisherSettings =
  pub_ModelId :: ModelId
  Producer :: string
  OutputType :: string
  pub_Shared :: bool

definition publishFailed :: "PublisherSettings \<Rightarrow> goerr \<Rightarrow> goerr" where
  "publishFailed settings err =
     errorf_w (''can not publish '' @ ModelId_String (pub_ModelId settings) @ '' with publisher '' @ m_Name (pub_ModelId settings) @ '': '') err []"

text \<open>The producer encodes with the attribute sets it is given.\<close>

definition publisher_Publish ::
  "(attrs list \<Rightarrow> 'd \<Rightarrow> goerr + Message) \<Rightarrow> (Message list \<Rightarrow> 'o \<Rightarrow> 'o \<times> error) \<Rightarrow> PublisherSettings \<Rightarrow>
   string \<Rightarrow> int \<Rightarrow> 'd \<Rightarrow> attrs list \<Rightarrow> 'o \<Rightarrow> 'o \<times> error" where
  "publisher_Publish encode output settings typ version v customAttributes out =
     (let attributes = CreateMessageAttributes (pub_ModelId settings) typ version # customAttributes
      in case producer_WriteOne (encode attributes) output v out of
           (out, Some err) \<Rightarrow> (out, Some (publishFailed settings err))
         | (out, None) \<Rightarrow> (out, None))"

definition publisher_PublishBatch ::
  "(attrs list \<Rightarrow> 'd \<Rightarrow> goerr + Message) \<Rightarrow> (Message list \<Rightarrow> 'o \<Rightarrow> 'o \<times> error) \<Rightarrow> PublisherSettings \<Rightarrow>
   string \<Rightarrow> int \<Rightarrow> 'd list \<Rightarrow> attrs list \<Rightarrow> 'o \<Rightarrow> 'o \<times> error" where
  "publisher_PublishBatch encode output settings typ version vs customAttributes out =
     (let attributes = CreateMessageAttributes (pub_ModelId settings) typ version # customAttributes
      in case producer_Write (encode attributes) output (Inr vs) out of
           (out, Some err) \<Rightarrow> (out, Some (publishFailed settings err))
         | (out, None) \<Rightarrow> (out, None))"

section \<open>Errors\<close>

definition NewUnknownModelError :: "string \<Rightarrow> goerr" where
  "NewUnknownModelError modelId =
     Typed ''UnknownModelError'' (''unknown model: there is no transformer for modelId '' @ modelId) (Opaque [])"

definition NewUnknownModelVersionError :: "string \<Rightarrow> int \<Rightarrow> goerr" where
  "NewUnknownModelVersionError modelId version =
     Typed ''UnknownModelVersionError'' (''unknown model version: there is no transformer for modelId '' @ modelId @ '' and version '' @ itoa version) (Opaque [])"

definition NewDelayOpError :: "goerr \<Rightarrow> goerr" where
  "NewDelayOpError err = Typed ''DelayOpError'' (''delayed op error: '' @ err_text err) err"

definition IsUnknownModelError :: "goerr \<Rightarrow> bool" where
  "IsUnknownModelError err \<longleftrightarrow> as_typed ''UnknownModelError'' err \<noteq> None"

definition IsUnknownModelVersionError :: "goerr \<Rightarrow> bool" where
  "IsUnknownModelVersionError err \<longleftrightarrow> as_typed ''UnknownModelVersionError'' err \<noteq> None"

definition IsDelayOpError :: "goerr \<Rightarrow> bool" where
  "IsDelayOpError err \<longleftrightarrow> as_typed ''DelayOpError'' err \<noteq> None"

text \<open>\<open>errors.As\<close> with the interface the consumer asks for.\<close>

definition ignorableModelError :: "goerr \<Rightarrow> (IgnoreOnGetModelErrorSettings \<Rightarrow> bool) option" where
  "ignorableModelError err =
     (if IsUnknownModelError err then Some UnknownModel
      else if IsUnknownModelVersionError err then Some UnknownVersion else None)"

section \<open>The core of the subscribers\<close>

type_synonym ('i, 'm) ModelTransformer = "'i \<Rightarrow> goerr + 'm option"
type_synonym ('i, 'm) ModelTransformers = "(string, (int, ('i, 'm) ModelTransformer) gomap) gomap"
type_synonym ('m, 's) Output = "'m \<Rightarrow> string \<Rightarrow> 's \<Rightarrow> 's \<times> error"
type_synonym ('m, 's) Outputs = "(string, (int, ('m, 's) Output) gomap) gomap"

record ('i, 'm, 's) subscriberCore =
  transformers :: "('i, 'm) ModelTransformers"
  outputs :: "('m, 's) Outputs"

definition GetModelIds :: "('i, 'm, 's) subscriberCore \<Rightarrow> string list" where
  "GetModelIds c = Keys (transformers c)"

definition GetLatestModelIdVersion :: "('i, 'm, 's) subscriberCore \<Rightarrow> ModelId \<Rightarrow> goerr + int" where
  "GetLatestModelIdVersion c modelId =
     (case gm_get (transformers c) (ModelId_String modelId) of
        None \<Rightarrow> Inl (Opaque (''failed to find model transformer for model id '' @ ModelId_String modelId))
      | Some versioned \<Rightarrow>
          (let versions = sort (Keys versioned)
           in if versions = [] then Inl (Opaque (''there are no versions available for transformer model id '' @ ModelId_String modelId))
              else Inr (last versions)))"

definition GetTransformer :: "('i, 'm, 's) subscriberCore \<Rightarrow> ModelSpecification \<Rightarrow> goerr + ('i, 'm) ModelTransformer" where
  "GetTransformer c spec =
     (case gm_get (transformers c) (spec_ModelId spec) of
        None \<Rightarrow> Inl (NewUnknownModelError (spec_ModelId spec))
      | Some versioned \<Rightarrow>
          (case gm_get versioned (spec_Version spec) of
             None \<Rightarrow> Inl (NewUnknownModelVersionError (spec_ModelId spec) (spec_Version spec))
           | Some t \<Rightarrow> Inr t))"

definition GetTransformersForModel :: "('i, 'm, 's) subscriberCore \<Rightarrow> ModelId \<Rightarrow> goerr + (int, ('i, 'm) ModelTransformer) gomap" where
  "GetTransformersForModel c modelId =
     (case gm_get (transformers c) (ModelId_String modelId) of
        None \<Rightarrow> Inl (Opaque (''there is no transformer for modelId '' @ ModelId_String modelId))
      | Some versioned \<Rightarrow> Inr versioned)"

definition GetOutput :: "('i, 'm, 's) subscriberCore \<Rightarrow> ModelSpecification \<Rightarrow> goerr + ('m, 's) Output" where
  "GetOutput c spec =
     (case gm_get (outputs c) (spec_ModelId spec) of
        None \<Rightarrow> Inl (Opaque (''there is no output for modelId '' @ spec_ModelId spec))
      | Some versioned \<Rightarrow>
          (case gm_get versioned (spec_Version spec) of
             None \<Rightarrow> Inl (Opaque (''there is no output for modelId '' @ spec_ModelId spec @ '' and version '' @ itoa (spec_Version spec)))
           | Some f \<Rightarrow> Inr f))"

definition core_Transform :: "('i, 'm, 's) subscriberCore \<Rightarrow> ModelSpecification \<Rightarrow> 'i \<Rightarrow> goerr + 'm option" where
  "core_Transform c spec input =
     (case GetTransformer c spec of
        Inl err \<Rightarrow> Inl (errorf_w ''failed to get transformer: '' err [])
      | Inr t \<Rightarrow>
          (case t input of
             Inl err \<Rightarrow> Inl (errorf_w (''failed to transform '' @ ModelSpecification_String spec @ '': '') err [])
           | Inr model \<Rightarrow> Inr model))"

definition core_Persist :: "('i, 'm, 's) subscriberCore \<Rightarrow> ModelSpecification \<Rightarrow> 'm \<Rightarrow> 's \<Rightarrow> 's \<times> error" where
  "core_Persist c spec model s =
     (case GetOutput c spec of
        Inl err \<Rightarrow> (s, Some (errorf_w ''failed to get output: '' err []))
      | Inr output \<Rightarrow>
          (case output model (CrudType spec) s of
             (s, Some err) \<Rightarrow> (s, Some (errorf_w (''failed to persist model '' @ ModelSpecification_String spec @ '': '') err []))
           | (s, None) \<Rightarrow> (s, None)))"

section \<open>The callback\<close>

definition noSpecification :: "goerr \<Rightarrow> goerr" where
  "noSpecification err = errorf_w ''can not read model specifications from the message attributes: '' err []"

definition SubscriberCallback_GetModel ::
  "(string \<Rightarrow> goerr + int) \<Rightarrow> ('i, 'm, 's) subscriberCore \<Rightarrow> attrs \<Rightarrow> goerr + ('i, 'm) ModelTransformer" where
  "SubscriberCallback_GetModel ToIntE core attributes =
     (case getModelSpecification ToIntE attributes of
        Inl err \<Rightarrow> Inl (noSpecification err)
      | Inr spec \<Rightarrow> GetTransformer core spec)"

definition SubscriberCallback_Consume ::
  "(string \<Rightarrow> goerr + int) \<Rightarrow> RequestCanceledCheck list \<Rightarrow> ('i, 'm, 's) subscriberCore \<Rightarrow> 'i \<Rightarrow> attrs \<Rightarrow> 's \<Rightarrow> 's \<times> bool \<times> error" where
  "SubscriberCallback_Consume ToIntE checks core input attributes s =
     (case getModelSpecification ToIntE attributes of
        Inl err \<Rightarrow> (s, False, Some (noSpecification err))
      | Inr spec \<Rightarrow>
          (case GetTransformer core spec of
             Inl err \<Rightarrow> (s, False, Some err)
           | Inr transformer \<Rightarrow>
               (case transformer input of
                  Inl err \<Rightarrow>
                    if IsDelayOpError err \<or> IsRequestCanceled checks (Some err) then (s, False, None) else (s, False, Some err)
                | Inr None \<Rightarrow> (s, True, None)
                | Inr (Some model) \<Rightarrow>
                    (case GetOutput core spec of
                       Inl err \<Rightarrow> (s, False, Some err)
                     | Inr output \<Rightarrow>
                         (case output model (CrudType spec) s of
                            (s, None) \<Rightarrow> (s, True, None)
                          | (s, Some err) \<Rightarrow>
                              if IsRequestCanceled checks (Some err) then (s, False, None)
                              else (s, False, Some (errorf_w (''can not persist subscription of model '' @ spec_ModelId spec @ '' and version '' @
                                itoa (spec_Version spec) @ '': '') err [])))))))"

section \<open>Outputs\<close>

definition unknownOperation :: "string \<Rightarrow> string \<Rightarrow> goerr" where
  "unknownOperation op output = Opaque (''unknown operation '' @ op @ '' in '' @ output)"

definition OutputKvstore_Persist :: "('s, 'm) kvops \<Rightarrow> ('m \<Rightarrow> gokey) \<Rightarrow> ('m, 's) Output" where
  "OutputKvstore_Persist store GetId model op s =
     (if op = TypeCreate \<or> op = TypeUpdate then op_Put store s (GetId model) model
      else if op = TypeDelete then op_Delete store s (GetId model)
      else (s, Some (unknownOperation op ''OutputKvStore'')))"

text \<open>The repository of the DynamoDB output by its two operations.\<close>

definition OutputDdb_Persist :: "('m \<Rightarrow> 's \<Rightarrow> 's \<times> error) \<Rightarrow> ('m \<Rightarrow> 's \<Rightarrow> 's \<times> error) \<Rightarrow> ('m, 's) Output" where
  "OutputDdb_Persist PutItem DeleteItem model op s =
     (if op = TypeCreate \<or> op = TypeUpdate then PutItem model s
      else if op = TypeDelete then DeleteItem model s
      else (s, Some (unknownOperation op ''OutputDdb'')))"

definition MaxPersistRetries :: nat where "MaxPersistRetries = 2"

fun outputDb_save :: "(goerr \<Rightarrow> bool) \<Rightarrow> ('m \<Rightarrow> 's \<Rightarrow> 's \<times> error) \<Rightarrow> nat \<Rightarrow> 'm \<Rightarrow> 's \<Rightarrow> 's \<times> error" where
  "outputDb_save IsDuplicateEntryError Save attempts model s =
     (case Save model s of
        (s, None) \<Rightarrow> (s, None)
      | (s, Some err) \<Rightarrow>
          if \<not> IsDuplicateEntryError err then (s, Some err)
          else (case attempts of 0 \<Rightarrow> (s, Some err) | Suc n \<Rightarrow> outputDb_save IsDuplicateEntryError Save n model s))"

text \<open>\<open>ensureAddressableModel\<close> fails for pointers; \<open>None\<close> is a model it accepts.\<close>

definition OutputDb_Persist ::
  "(goerr \<Rightarrow> bool) \<Rightarrow> ('m \<Rightarrow> error) \<Rightarrow> ('m \<Rightarrow> 's \<Rightarrow> 's \<times> error) \<Rightarrow> ('m \<Rightarrow> 's \<Rightarrow> 's \<times> error) \<Rightarrow> ('m, 's) Output" where
  "OutputDb_Persist IsDuplicateEntryError ensureAddressable Save Delete model op s =
     (case ensureAddressable model of
        Some err \<Rightarrow> (s, Some err)
      | None \<Rightarrow>
          if op = TypeCreate \<or> op = TypeUpdate then outputDb_save IsDuplicateEntryError Save MaxPersistRetries model s
          else if op = TypeDelete then Delete model s
          else (s, Some (unknownOperation op ''OutputDb'')))"

fun fanoutLoop :: "(string \<times> ('m, 's) Output) list \<Rightarrow> 'm \<Rightarrow> string \<Rightarrow> 's \<Rightarrow> 's \<times> goerr list" where
  "fanoutLoop [] model op s = (s, [])"
| "fanoutLoop ((name, output) # rest) model op s =
     (case output model op s of
        (s, err) \<Rightarrow>
          (case fanoutLoop rest model op s of
             (s, errs) \<Rightarrow> (s, (case err of None \<Rightarrow> [] | Some e \<Rightarrow> [errorf_w (''output '' @ name @ '': '') e []]) @ errs)))"

definition outputFanout_Persist :: "(string \<times> ('m, 's) Output) list \<Rightarrow> ('m, 's) Output" where
  "outputFanout_Persist children model op s = (case fanoutLoop children model op s of (s, errs) \<Rightarrow> (s, ErrorOrNil errs))"


section \<open>Building the subscribers\<close>

record SubscriberModel =
  sm_ModelId :: ModelId
  sm_Shared :: bool

record SubscriberSettings =
  sub_Input :: string
  sub_Output :: string
  SourceModel :: SubscriberModel
  TargetModel :: SubscriberModel

type_synonym subscribers = "(string, SubscriberSettings) gomap"

definition sharedName :: string where "sharedName = ''publisher''"
definition InputTypeSns :: string where "InputTypeSns = ''sns''"

definition defaultName :: "string \<Rightarrow> SubscriberModel \<Rightarrow> SubscriberModel" where
  "defaultName name m = (if m_Name (sm_ModelId m) = [] then m\<lparr>sm_ModelId := (sm_ModelId m)\<lparr>m_Name := name\<rparr>\<rparr> else m)"

definition unmarshalSettings :: "goerr + subscribers \<Rightarrow> goerr + subscribers" where
  "unmarshalSettings unmarshalled =
     (case unmarshalled of
        Inl err \<Rightarrow> Inl (errorf_w ''failed to unmarshal mdlsub subscribers settings: '' err [])
      | Inr settings \<Rightarrow> Inr (map (\<lambda>(name, st). (name, st\<lparr>SourceModel := defaultName name (SourceModel st), TargetModel := defaultName name (TargetModel st)\<rparr>)) settings))"

text \<open>The source models are completed in place, so the settings are returned too.\<close>

fun padSources :: "'a nconfig \<Rightarrow> (string \<Rightarrow> bool) \<Rightarrow> subscribers \<Rightarrow> goerr + subscribers" where
  "padSources config isKnown [] = Inr []"
| "padSources config isKnown ((name, st) # rest) =
     (case ModelId_PadFromConfig config (sm_ModelId (SourceModel st)) of
        Inl err \<Rightarrow> Inl (errorf_w (''can not create transformers: failed to pad source model for subscriber '' @ name @ '': '') err [])
      | Inr m \<Rightarrow>
          if \<not> isKnown (ModelId_String m)
          then Inl (Opaque (''can not create transformers: there is no transformer for subscriber '' @ name @ '' with modelId '' @ quoted (ModelId_String m)))
          else (case padSources config isKnown rest of
                  Inl err \<Rightarrow> Inl err
                | Inr done' \<Rightarrow> Inr ((name, st\<lparr>SourceModel := (SourceModel st)\<lparr>sm_ModelId := m\<rparr>\<rparr>) # done')))"

fun buildVersions :: "string \<Rightarrow> (int, goerr + 't) gomap \<Rightarrow> goerr + (int, 't) gomap" where
  "buildVersions modelId [] = Inr []"
| "buildVersions modelId ((version, r) # rest) =
     (case r of
        Inl err \<Rightarrow> Inl (errorf_w (''can not create transformer for modelId '' @ quoted modelId @ '' version '' @ itoa version @ '': '') err [])
      | Inr t \<Rightarrow> (case buildVersions modelId rest of Inl err \<Rightarrow> Inl err | Inr ts \<Rightarrow> Inr ((version, t) # ts)))"

fun buildTransformers :: "(string, (int, goerr + 't) gomap) gomap \<Rightarrow> goerr + (string, (int, 't) gomap) gomap" where
  "buildTransformers [] = Inr []"
| "buildTransformers ((modelId, versions) # rest) =
     (case buildVersions modelId versions of
        Inl err \<Rightarrow> Inl err
      | Inr ts \<Rightarrow> (case buildTransformers rest of Inl err \<Rightarrow> Inl err | Inr all \<Rightarrow> Inr ((modelId, ts) # all)))"

definition initTransformers ::
  "'a nconfig \<Rightarrow> subscribers \<Rightarrow> (string, (int, goerr + 't) gomap) gomap \<Rightarrow> goerr + subscribers \<times> (string, (int, 't) gomap) gomap" where
  "initTransformers config settings factories =
     (case padSources config (gm_has factories) settings of
        Inl err \<Rightarrow> Inl err
      | Inr settings \<Rightarrow> (case buildTransformers factories of Inl err \<Rightarrow> Inl err | Inr ts \<Rightarrow> Inr (settings, ts)))"

type_synonym ('t, 'o) OutputFactory = "SubscriberSettings \<Rightarrow> (int, 't) gomap \<Rightarrow> string \<Rightarrow> goerr + (int, 'o) gomap"

abbreviation sourceId :: "SubscriberSettings \<Rightarrow> string" where
  "sourceId st \<equiv> ModelId_String (sm_ModelId (SourceModel st))"

definition addOutput ::
  "(string, ('t, 'o) OutputFactory) gomap \<Rightarrow> (string, (int, 't) gomap) gomap \<Rightarrow> (string, (int, 'o) gomap) gomap \<Rightarrow>
   string \<times> SubscriberSettings \<Rightarrow> goerr + (string, (int, 'o) gomap) gomap" where
  "addOutput factories ts outs = (\<lambda>(name, st).
     case gm_get factories (sub_Output st) of
       None \<Rightarrow> Inl (Opaque (''can not create outputs: there is no output of type '' @ sub_Output st @ '' for subscriber '' @ name @ '' with modelId '' @ sourceId st))
     | Some factory \<Rightarrow>
         (case gm_get ts (sourceId st) of
            None \<Rightarrow> Inl (Opaque (''can not create transformer: there is no transformer for subscriber '' @ name @ '' with modelId '' @ sourceId st))
          | Some versioned \<Rightarrow>
              (case factory st versioned name of
                 Inl err \<Rightarrow> Inl (errorf_w (''can not create output for subscriber '' @ name @ '' with modelId '' @ sourceId st @ '': '') err [])
               | Inr o' \<Rightarrow> Inr (gm_set outs (sourceId st) o'))))"

definition initOutputs ::
  "(string, ('t, 'o) OutputFactory) gomap \<Rightarrow> subscribers \<Rightarrow> (string, (int, 't) gomap) gomap \<Rightarrow> goerr + (string, (int, 'o) gomap) gomap" where
  "initOutputs factories settings ts = foldres (addOutput factories ts) [] settings"

definition GetSubscriberFQN :: "'a nconfig \<Rightarrow> string \<Rightarrow> SubscriberModel \<Rightarrow> goerr + string" where
  "GetSubscriberFQN config name sourceModel =
     (if \<not> sm_Shared sourceModel then Inr (''subscriber-'' @ name)
      else case ModelId_PadFromConfig config (sm_ModelId sourceModel) of
        Inl err \<Rightarrow> Inl (errorf_w ''failed to pad source model from config: '' err [])
      | Inr m \<Rightarrow> Inr (''subscriber-'' @ ReplaceAll ''.'' ''-'' (DomainString m) @ ''-'' @ sharedName))"

text \<open>A module is named by the subscriber whose source model its callback has.\<close>

definition addModule ::
  "'a nconfig \<Rightarrow> (string, string) gomap \<Rightarrow> string \<times> SubscriberSettings \<Rightarrow> goerr + (string, string) gomap" where
  "addModule config modules = (\<lambda>(name, st).
     case GetSubscriberFQN config name (SourceModel st) of
       Inl err \<Rightarrow> Inl (errorf_w (''can not get subscriber fqn for subscriber '' @ name @ '': '') err [])
     | Inr fqn \<Rightarrow>
         if gm_has modules fqn
         then (if sm_Shared (SourceModel st) \<and> sm_Shared (TargetModel st) then Inr modules
               else Inl (Opaque (''duplicate subscriber name '' @ quoted fqn @ '' for source model '' @ quoted (sourceId st))))
         else Inr (gm_set modules fqn name))"

definition SubscriberFactory ::
  "'a nconfig \<Rightarrow> goerr + subscribers \<Rightarrow> (string, (int, goerr + 't) gomap) gomap \<Rightarrow> (string, ('t, 'o) OutputFactory) gomap \<Rightarrow>
   goerr + ((string, (int, 't) gomap) gomap \<times> (string, (int, 'o) gomap) gomap) \<times> (string, string) gomap" where
  "SubscriberFactory config unmarshalled transformerFactories outputFactories =
     (case unmarshalSettings unmarshalled of
        Inl err \<Rightarrow> Inl (errorf_w ''failed to unmarshal subscriber settings: '' err [])
      | Inr settings \<Rightarrow>
          (case initTransformers config settings transformerFactories of
             Inl err \<Rightarrow> Inl (errorf_w ''failed to create subscriber core: '' (errorf_w ''failed to init transformers: '' err []) [])
           | Inr (settings, ts) \<Rightarrow>
               (case initOutputs outputFactories settings ts of
                  Inl err \<Rightarrow> Inl (errorf_w ''failed to create subscriber core: '' (errorf_w ''failed to init outputs: '' err []) [])
                | Inr outs \<Rightarrow>
                    (case foldres (addModule config) [] settings of
                       Inl err \<Rightarrow> Inl err
                     | Inr modules \<Rightarrow> Inr ((ts, outs), modules)))))"

section \<open>Filter policies\<close>

definition ConfigurableInputKey :: "string \<Rightarrow> string" where
  "ConfigurableInputKey name = ''stream.input.'' @ name"

definition getInputKeyForSubscriber :: "'a nconfig \<Rightarrow> string \<Rightarrow> SubscriberSettings \<Rightarrow> goerr + string" where
  "getInputKeyForSubscriber config name st =
     (case GetSubscriberFQN config name (SourceModel st) of
        Inl err \<Rightarrow> Inl (errorf_w (''can not get input key for subscriber '' @ name @ '': '') (errorf_w ''failed to get subscriber fqn: '' err []) [])
      | Inr fqn \<Rightarrow> Inr (ConfigurableInputKey fqn))"

definition addModelId ::
  "'a nconfig \<Rightarrow> (string, string list) gomap \<Rightarrow> string \<times> SubscriberSettings \<Rightarrow> goerr + (string, string list) gomap" where
  "addModelId config result = (\<lambda>(name, st).
     if sub_Input st \<noteq> InputTypeSns then Inr result
     else case getInputKeyForSubscriber config name st of
       Inl err \<Rightarrow> Inl err
     | Inr key \<Rightarrow>
         (case ModelId_PadFromConfig config (sm_ModelId (SourceModel st)) of
            Inl err \<Rightarrow> Inl (errorf_w (''can not pad source model for subscriber '' @ name @ '': '') err [])
          | Inr m \<Rightarrow> Inr (gm_set result key ((case gm_get result key of None \<Rightarrow> [] | Some ids \<Rightarrow> ids) @ [ModelId_String m]))))"

definition collectModelIdsByInput :: "'a nconfig \<Rightarrow> subscribers \<Rightarrow> goerr + (string, string list) gomap" where
  "collectModelIdsByInput config settings =
     (case foldres (addModelId config) [] settings of
        Inl err \<Rightarrow> Inl err
      | Inr result \<Rightarrow> Inr (map (\<lambda>(key, ids). (key, sort ids)) result))"

definition buildSubscriberFilterPolicy :: "string list \<Rightarrow> (string, string list) gomap" where
  "buildSubscriberFilterPolicy modelIds = (if modelIds = [] then [] else [(AttributeModelId, modelIds)])"

section \<open>Outputs: the laws\<close>

lemma fanoutLoop_calls_all:
  "fst (fanoutLoop children model op s) = fold (\<lambda>(name, output) s. fst (output model op s)) children s"
  by (induction children model op s rule: fanoutLoop.induct) (auto split: prod.splits)

lemma fanoutLoop_no_error:
  "snd (fanoutLoop children model op s) = [] \<longleftrightarrow>
     (\<forall>us name output vs. children = us @ (name, output) # vs \<longrightarrow> snd (output model op (fst (fanoutLoop us model op s))) = None)"
proof (induction children model op s rule: fanoutLoop.induct)
  case (2 name f rest model op s)
  obtain s1 err where o: "f model op s = (s1, err)" by fastforce
  have shift: "fst (fanoutLoop ((name, f) # us) model op s) = fst (fanoutLoop us model op s1)" for us
    using o by (simp add: case_prod_unfold)
  have "snd (fanoutLoop ((name, f) # rest) model op s) = [] \<longleftrightarrow> err = None \<and> snd (fanoutLoop rest model op s1) = []"
    using o by (auto simp: case_prod_unfold split: option.splits)
  also have "\<dots> \<longleftrightarrow> (\<forall>us n out vs. (name, f) # rest = us @ (n, out) # vs \<longrightarrow> snd (out model op (fst (fanoutLoop us model op s))) = None)"
    (is "_ \<longleftrightarrow> ?all")
  proof
    assume l: "err = None \<and> snd (fanoutLoop rest model op s1) = []"
    show ?all
    proof (intro allI impI)
      fix us n out vs
      assume split: "(name, f) # rest = us @ (n, out) # vs"
      show "snd (out model op (fst (fanoutLoop us model op s))) = None"
        using l split 2 [OF o [symmetric]] shift o by (cases us) (auto simp del: fanoutLoop.simps(2))
    qed
  next
    assume all: ?all
    have "err = None" using all [rule_format, of "[]" name f rest] o by simp
    moreover have "snd (fanoutLoop rest model op s1) = []"
      unfolding 2 [OF o [symmetric]]
    proof (intro allI impI)
      fix us n out vs assume "rest = us @ (n, out) # vs"
      then show "snd (out model op (fst (fanoutLoop us model op s1))) = None"
        using all [rule_format, of "(name, f) # us" n out vs] by (simp only: append_Cons shift)
    qed
    ultimately show "err = None \<and> snd (fanoutLoop rest model op s1) = []" by blast
  qed
  finally show ?case .
qed simp

text \<open>Every child of a fanout is called once, in order, whatever the others return, and the result is an error if and only if one of the calls was.\<close>

lemma outputFanout_calls_all:
  "outputFanout_Persist children model op s = (s', err) \<Longrightarrow>
     s' = fold (\<lambda>(name, output) s. fst (output model op s)) children s \<and>
     (err = None \<longleftrightarrow> (\<forall>us name output vs. children = us @ (name, output) # vs \<longrightarrow>
        snd (output model op (fold (\<lambda>(name, output) s. fst (output model op s)) us s)) = None))"
  unfolding fanoutLoop_calls_all [symmetric] fanoutLoop_no_error [symmetric]
  by (auto simp: outputFanout_Persist_def ErrorOrNil_def split: prod.splits if_splits)

text \<open>The number of calls of a repository, counted beside its state.\<close>

definition counted :: "('m \<Rightarrow> 's \<Rightarrow> 's \<times> error) \<Rightarrow> 'm \<Rightarrow> nat \<times> 's \<Rightarrow> (nat \<times> 's) \<times> error" where
  "counted Save model = (\<lambda>(n, s). case Save model s of (s', err) \<Rightarrow> ((Suc n, s'), err))"

lemma outputDb_save_bounded:
  "outputDb_save dup (counted Save) attempts model (n, s) = ((n', s'), err) \<Longrightarrow>
     n < n' \<and> n' \<le> n + Suc attempts \<and> (\<forall>e. err = Some e \<longrightarrow> dup e \<longrightarrow> n' = n + Suc attempts)"
proof (induction attempts arbitrary: n s)
  case 0
  then show ?case by (auto simp: counted_def split: prod.splits option.splits if_splits)
next
  case (Suc attempts)
  obtain s1 e1 where save: "Save model s = (s1, e1)" by fastforce
  show ?case
  proof (cases "\<exists>e. e1 = Some e \<and> dup e")
    case True
    then have "outputDb_save dup (counted Save) attempts model (Suc n, s1) = ((n', s'), err)"
      using Suc.prems save unfolding outputDb_save.simps [of _ _ "Suc attempts"] by (auto simp: counted_def simp del: outputDb_save.simps)
    from Suc.IH [OF this] show ?thesis by auto
  next
    case False
    then show ?thesis using Suc.prems save by (auto simp: counted_def split: option.splits if_splits)
  qed
qed

text \<open>The effect of a published operation on the stored models.\<close>

definition applyOp :: "string \<Rightarrow> string \<Rightarrow> 'm \<Rightarrow> (string \<rightharpoonup> 'm) \<Rightarrow> (string \<rightharpoonup> 'm)" where
  "applyOp op x model m = (if op = TypeDelete then m(x := None) else m(x \<mapsto> model))"

fun persistAll :: "('m, 's) Output \<Rightarrow> (string \<times> 'm) list \<Rightarrow> 's \<Rightarrow> 's \<times> error" where
  "persistAll output [] s = (s, None)"
| "persistAll output ((op, model) # rest) s =
     (case output model op s of (s, Some err) \<Rightarrow> (s, Some err) | (s, None) \<Rightarrow> persistAll output rest s)"

context kv_store
begin

lemma kvstore_output_step:
  assumes "OutputKvstore_Persist ops GetId model op s = (s', None)" and "CastKeyToString ts (GetId model) = Inr x" and "exact s"
  shows "live s' = applyOp op x model (live s) \<and> exact s'"
  using assms put_law [of s "GetId model" model s' None x] delete_law [of s "GetId model" s' None x]
  by (auto simp: OutputKvstore_Persist_def applyOp_def TypeCreate_def TypeUpdate_def TypeDelete_def split: if_splits)

lemma kvstore_output_projects:
  assumes "persistAll (OutputKvstore_Persist ops GetId) published s = (s', None)" and "exact s"
    and "\<And>op model. (op, model) \<in> set published \<Longrightarrow> CastKeyToString ts (GetId model) = Inr (key model)"
  shows "live s' = fold (\<lambda>(op, model). applyOp op (key model) model) published (live s)"
  using assms
proof (induction published arbitrary: s)
  case (Cons p published)
  obtain op model where p: "p = (op, model)" by fastforce
  obtain s1 where o: "OutputKvstore_Persist ops GetId model op s = (s1, None)"
    and r: "persistAll (OutputKvstore_Persist ops GetId) published s1 = (s', None)"
    using Cons.prems(1) p by (auto split: prod.splits option.splits)
  have key: "CastKeyToString ts (GetId model) = Inr (key model)" using Cons.prems(3) [of op model] p by simp
  have "live s1 = applyOp op (key model) model (live s)" "exact s1"
    using kvstore_output_step [OF o key Cons.prems(2)] by simp_all
  then show ?case using Cons.IH [OF r] Cons.prems(3) p by (metis (no_types, lifting) case_prod_conv fold_simps(2) list.set_intros(2))
qed simp

end

lemma memory_output_projects:
  assumes "ccache_ok cc live" and "\<And>x. ts (KStr x) = Inr x" and "ccache_exact cc live" and "0 < ttl (mem_cache s)"
    and "persistAll (OutputKvstore_Persist (memOps ts cc zero) (\<lambda>m. KStr (key m))) published s = (s', None)"
  shows "mem_live live s' = fold (\<lambda>(op, model). applyOp op (key model) model) published (mem_live live s)"
  by (rule kv_store.kvstore_output_projects [OF mem_kv_store [where b = True] assms(5)])
    (use assms in \<open>simp_all add: mem_exact_def\<close>)

section \<open>Building the subscribers: the laws\<close>

lemma le_last_sorted: "sorted xs \<Longrightarrow> x \<in> set xs \<Longrightarrow> x \<le> last xs"
  by (induction xs) auto

lemma GetLatestModelIdVersion_max:
  "GetLatestModelIdVersion c modelId = Inr v \<Longrightarrow>
     \<exists>versioned. gm_get (transformers c) (ModelId_String modelId) = Some versioned \<and> gm_has versioned v \<and> (\<forall>w. gm_has versioned w \<longrightarrow> w \<le> v)"
proof -
  assume "GetLatestModelIdVersion c modelId = Inr v"
  then obtain versioned where m: "gm_get (transformers c) (ModelId_String modelId) = Some versioned"
    and ne: "sort (map fst versioned) \<noteq> []" and v: "v = last (sort (map fst versioned))"
    by (auto simp: GetLatestModelIdVersion_def Let_def Keys_eq split: option.splits if_splits)
  have "w \<le> last (sort (map fst versioned))" if "w \<in> fst ` set versioned" for w
    using le_last_sorted [OF sorted_sort, of w "map fst versioned"] that by simp
  then have "\<forall>w. gm_has versioned w \<longrightarrow> w \<le> v" by (simp add: v gm_dom_conv del: not_None_eq)
  moreover have "gm_has versioned v" using last_in_set [OF ne] v by (simp only: gm_dom_conv) simp
  ultimately show ?thesis using m by blast
qed

lemma addOutput_key:
  "addOutput factories ts outs (name, st) = Inr outs' \<Longrightarrow> gm_has outs' (sourceId st) \<and> gm_has ts (sourceId st) \<and> (\<forall>k. gm_has outs k \<longrightarrow> gm_has outs' k)"
  by (auto simp: addOutput_def split: option.splits sum.splits)

lemma initOutputs_complete:
  assumes "initOutputs factories settings ts = Inr outs" and "(name, st) \<in> set settings"
  shows "gm_has outs (sourceId st) \<and> gm_has ts (sourceId st)"
  using assms unfolding initOutputs_def
  by (rule foldres_establishes) (auto simp: case_prod_unfold dest: addOutput_key)

lemma addModule_key:
  "addModule config modules (name, st) = Inr modules' \<Longrightarrow>
     (\<exists>fqn. GetSubscriberFQN config name (SourceModel st) = Inr fqn \<and> gm_has modules' fqn) \<and> (\<forall>k. gm_has modules k \<longrightarrow> gm_has modules' k)"
  by (auto simp: addModule_def split: option.splits sum.splits if_splits)

lemma padSources_spec:
  "padSources config isKnown settings = Inr settings' \<Longrightarrow>
     list_all2 (\<lambda>(name, st) (name', st'). name' = name \<and> isKnown (sourceId st') \<and>
       ModelId_PadFromConfig config (sm_ModelId (SourceModel st)) = Inr (sm_ModelId (SourceModel st')) \<and>
       sm_Shared (SourceModel st') = sm_Shared (SourceModel st) \<and> TargetModel st' = TargetModel st \<and>
       sub_Input st' = sub_Input st \<and> sub_Output st' = sub_Output st) settings settings'"
  by (induction config isKnown settings arbitrary: settings' rule: padSources.induct) (auto split: sum.splits if_splits)

text \<open>
  If the factory returns, every subscriber has a module under its name, a transformer for every version of its
  source model and outputs.
\<close>

lemma SubscriberFactory_complete:
  assumes "SubscriberFactory config (Inr unmarshalled) transformerFactories outputFactories = Inr ((ts, outs), modules)"
  shows "\<exists>settings. map fst settings = map fst unmarshalled \<and>
    (\<forall>(name, st) \<in> set settings. gm_has ts (sourceId st) \<and> gm_has outs (sourceId st) \<and>
       (\<exists>fqn. GetSubscriberFQN config name (SourceModel st) = Inr fqn \<and> gm_has modules fqn))"
proof -
  obtain settings0 settings where s0: "unmarshalSettings (Inr unmarshalled) = Inr settings0"
    and s: "initTransformers config settings0 transformerFactories = Inr (settings, ts)"
    and o: "initOutputs outputFactories settings ts = Inr outs" and m: "foldres (addModule config) [] settings = Inr modules"
    using assms by (auto simp: SubscriberFactory_def split: sum.splits)
  have "map fst settings0 = map fst unmarshalled" using s0 by (auto simp: unmarshalSettings_def)
  moreover have "list_all2 (\<lambda>x y. fst x = fst y) settings0 settings"
    using s by (auto simp: initTransformers_def split: sum.splits dest!: padSources_spec elim!: list_all2_mono)
  then have "map fst settings = map fst settings0" by (induction rule: list_all2_induct) auto
  moreover have "\<exists>fqn. GetSubscriberFQN config name (SourceModel st) = Inr fqn \<and> gm_has modules fqn" if "(name, st) \<in> set settings" for name st
    using m that by (rule foldres_establishes) (auto dest: addModule_key)
  ultimately show ?thesis using initOutputs_complete [OF o] by (intro exI [of _ settings]) auto
qed

text \<open>
  Two subscribers that read the same shared source model, one with a target model of its own: the factory accepts them
  or not depending on which the iteration of the map reaches first, since only the second is looked at.
\<close>

lemma duplicate_check_depends_on_order:
  assumes "GetSubscriberFQN config n1 (SourceModel st1) = Inr fqn" and "GetSubscriberFQN config n2 (SourceModel st2) = Inr fqn"
    and "sm_Shared (SourceModel st2)" and "sm_Shared (TargetModel st2)" and "\<not> sm_Shared (TargetModel st1)"
  shows "foldres (addModule config) [] [(n1, st1), (n2, st2)] = Inr [(fqn, n1)]"
    and "\<exists>err. foldres (addModule config) [] [(n2, st2), (n1, st1)] = Inl err"
  using assms by (simp_all add: addModule_def)

text \<open>Two subscribers of the same source model: only the output of the one that is reached last is kept, so models are never written to the other.\<close>

lemma outputs_of_same_source_overwritten:
  assumes "sourceId st1 = sourceId st2" and "initOutputs factories [(n1, st1), (n2, st2)] ts = Inr outs"
  shows "\<exists>factory versioned o2. gm_get factories (sub_Output st2) = Some factory \<and> gm_get ts (sourceId st2) = Some versioned \<and>
    factory st2 versioned n2 = Inr o2 \<and> outs = [(sourceId st2, o2)]"
  using assms by (auto simp: initOutputs_def addOutput_def split: option.splits sum.splits)

text \<open>Every model that arrives over a topic passes the filter policy of its subscriber's input.\<close>

lemma addModelId_key:
  "addModelId config result (name, st) = Inr result' \<Longrightarrow> sub_Input st = InputTypeSns \<Longrightarrow>
     getInputKeyForSubscriber config name st = Inr key \<Longrightarrow> ModelId_PadFromConfig config (sm_ModelId (SourceModel st)) = Inr m \<Longrightarrow>
     \<exists>ids. gm_get result' key = Some ids \<and> ModelId_String m \<in> set ids"
  by (auto simp: addModelId_def)

lemma addModelId_keeps:
  "addModelId config result x = Inr result' \<Longrightarrow> gm_get result key = Some ids \<Longrightarrow> i \<in> set ids \<Longrightarrow>
     \<exists>ids. gm_get result' key = Some ids \<and> i \<in> set ids"
  by (auto simp: addModelId_def split: prod.splits sum.splits option.splits if_splits)

lemma gm_get_map_values: "gm_get (map (\<lambda>(k, v). (k, f v)) m) k = map_option f (gm_get m k)"
  by (induction m) auto

lemma filter_policy_complete:
  assumes "collectModelIdsByInput config settings = Inr result" and "(name, st) \<in> set settings" and "sub_Input st = InputTypeSns"
    and "getInputKeyForSubscriber config name st = Inr key" and "ModelId_PadFromConfig config (sm_ModelId (SourceModel st)) = Inr m"
  shows "\<exists>ids. gm_get result key = Some ids \<and> sorted ids \<and> buildSubscriberFilterPolicy ids = [(AttributeModelId, ids)] \<and> ModelId_String m \<in> set ids"
proof -
  obtain r where r: "foldres (addModelId config) [] settings = Inr r" and res: "result = map (\<lambda>(key, ids). (key, sort ids)) r"
    using assms(1) by (auto simp: collectModelIdsByInput_def split: sum.splits)
  have "\<exists>ids. gm_get r key = Some ids \<and> ModelId_String m \<in> set ids"
    using r assms(2) by (rule foldres_establishes) (use assms(3-5) addModelId_key addModelId_keeps in \<open>blast+\<close>)
  then obtain ids where ids: "gm_get r key = Some ids" "ModelId_String m \<in> set ids" by blast
  then have "sort ids \<noteq> []" by (metis empty_iff empty_set set_sort)
  with ids show ?thesis by (intro exI [of _ "sort ids"]) (auto simp: res gm_get_map_values buildSubscriberFilterPolicy_def)
qed

section \<open>From publisher to output\<close>

lemma getModelSpecification_of_created:
  assumes "ToIntE (itoa version) = Inr version"
    and "\<And>k. k \<in> {AttributeType, AttributeVersion, AttributeModelId} \<Longrightarrow> gm_get a k = gm_get (CreateMessageAttributes modelId typ version) k"
  shows "getModelSpecification ToIntE a = Inr \<lparr>CrudType = typ, spec_Version = version, spec_ModelId = ModelId_String modelId\<rparr>"
  using assms by (simp add: getModelSpecification_def CreateMessageAttributes_def)

lemma own_keys:
  "k \<in> {AttributeType, AttributeVersion, AttributeModelId} \<Longrightarrow> gm_get (ownAttributes e) k = None"
  by (auto simp: ownAttributes_def AttributeEncoding_def AttributeCompression_def AttributeType_def AttributeVersion_def AttributeModelId_def)

text \<open>An output that only collects what is written.\<close>

definition collect :: "Message list \<Rightarrow> Message list \<Rightarrow> Message list \<times> error" where
  "collect ms out = (out @ ms, None)"

lemma Publish_encodes:
  assumes "publisher_Publish encode collect settings typ version v custom [] = (out, None)"
  shows "\<exists>msg. out = [msg] \<and> encode (CreateMessageAttributes (pub_ModelId settings) typ version # custom) v = Inr msg"
  using assms by (auto simp: publisher_Publish_def producer_WriteOne_def collect_def Let_def split: sum.splits)

lemma Consume_persists:
  assumes "getModelSpecification ToIntE a = Inr spec" and "GetTransformer core spec = Inr t" and "t v = Inr (Some model)"
    and "GetOutput core spec = Inr output" and "output model (CrudType spec) s = (s', None)"
  shows "SubscriberCallback_Consume ToIntE checks core v a s = (s', True, None)"
  using assms by (simp add: SubscriberCallback_Consume_def)

text \<open>The callback of the subscriber as the consumer sees it, for outputs that are in the state \<open>world t\<close> at the call number \<open>t\<close>.\<close>

definition subscriberEnv ::
  "(string \<Rightarrow> goerr + int) \<Rightarrow> RequestCanceledCheck list \<Rightarrow> ('i, 'm, 's) subscriberCore \<Rightarrow> (nat \<Rightarrow> 's) \<Rightarrow>
   'i codecEnv \<Rightarrow> ('c, 'i) messageEncoder \<Rightarrow> 'c \<Rightarrow> (('i, 'm) ModelTransformer, 'i) consumerEnv \<Rightarrow> (('i, 'm) ModelTransformer, 'i) consumerEnv" where
  "subscriberEnv ToIntE checks core world cenv e ctx env =
     env\<lparr>cb_GetModel := \<lambda>t a. Returned (map_sum (\<lambda>err. err) Some (SubscriberCallback_GetModel ToIntE core a)),
         ignorable := ignorableModelError,
         decodeModel := codecDecoder cenv e ctx,
         cb_Consume := \<lambda>t d a. Returned (snd (SubscriberCallback_Consume ToIntE checks core d a (world t)))\<rparr>"

lemma published_spec:
  fixes modelId :: ModelId and op :: string and version :: int
  defines "spec \<equiv> \<lparr>CrudType = op, spec_Version = version, spec_ModelId = ModelId_String modelId\<rparr>"
  assumes "codec_ok cenv e" and "handlers_ok (encodeHandlers e) Ks" and "ToIntE (itoa version) = Inr version"
    and "\<And>k. k \<in> \<Union> (set Ks) \<Longrightarrow> k \<notin> {AttributeEncoding, AttributeCompression, AttributeType, AttributeVersion, AttributeModelId} \<and> gm_get (concat custom) k = None"
    and "gm_get (concat custom) AttributeCompression = None"
    and "encoder_Encode cenv e ctx v (CreateMessageAttributes modelId op version # custom) = Inr msg"
  shows "\<exists>ctx' a. encoder_Decode cenv e dctx msg = (msg\<lparr>Attributes := a\<rparr>, ctx', a, Inr v) \<and>
    getModelSpecification ToIntE a = Inr spec \<and> getModelSpecification ToIntE (Attributes msg) = Inr spec"
proof -
  let ?new = "CreateMessageAttributes modelId op version" and ?keys = "{AttributeType, AttributeVersion, AttributeModelId}"
  let ?sets = "?new # custom"
  have created: "gm_get ?new k = None" if "k \<notin> ?keys" for k using that by (simp add: CreateMessageAttributes_def)
  have sets: "gm_get (concat ?sets) k = (case gm_get ?new k of None \<Rightarrow> gm_get (concat custom) k | Some x \<Rightarrow> Some x)" for k
    by (simp add: map_add_def)
  have "k \<notin> {AttributeEncoding, AttributeCompression} \<and> gm_get (concat ?sets) k = None" if "k \<in> \<Union> (set Ks)" for k
    using assms(5) [OF that] created [of k] sets [of k] by auto
  moreover have "gm_get (concat ?sets) AttributeCompression = None"
    using assms(6) created [of AttributeCompression] sets [of AttributeCompression]
    by (simp add: AttributeCompression_def AttributeType_def AttributeVersion_def AttributeModelId_def)
  ultimately obtain ctx' a where dec: "encoder_Decode cenv e dctx msg = (msg\<lparr>Attributes := a\<rparr>, ctx', a, Inr v)"
    and a: "\<And>k. gm_get a k = (case gm_get (ownAttributes e) k of Some v \<Rightarrow> Some v | None \<Rightarrow> gm_get (concat ?sets) k)"
    and ma: "\<And>k. k \<notin> \<Union> (set Ks) \<Longrightarrow> gm_get (Attributes msg) k = gm_get a k"
    using encode_decode [OF assms(2,3,7)] by metis
  have ak: "gm_get a k = gm_get ?new k" if "k \<in> ?keys" for k
    using a [of k] own_keys [OF that, of e] sets [of k] that by (auto simp: CreateMessageAttributes_def)
  have mk: "gm_get (Attributes msg) k = gm_get ?new k" if "k \<in> ?keys" for k
  proof -
    have "k \<notin> \<Union> (set Ks)" using assms(5) [of k] that by auto
    then show ?thesis using ma ak [OF that] by simp
  qed
  have "getModelSpecification ToIntE a = Inr spec" unfolding spec_def using assms(4) ak by (rule getModelSpecification_of_created)
  moreover have "getModelSpecification ToIntE (Attributes msg) = Inr spec"
    unfolding spec_def using assms(4) mk by (rule getModelSpecification_of_created)
  ultimately show ?thesis using dec by blast
qed

text \<open>
  C33. What is published arrives: a value that is published with a type and a version is, when the message reaches a consumer with the same
  encoder, decoded to the same value, transformed by the transformer registered for its model and version, and handed to the
  output of that model and version with the published type; if the output takes it, the message is
  acknowledged. Attributes of the application may not use the names of the encode handlers or the compression attribute.
\<close>

theorem published_reaches_output:
  assumes "codec_ok cenv e" and "handlers_ok (encodeHandlers e) Ks" and "ToIntE (itoa version) = Inr version"
    and "\<And>k. k \<in> \<Union> (set Ks) \<Longrightarrow> k \<notin> {AttributeEncoding, AttributeCompression, AttributeType, AttributeVersion, AttributeModelId} \<and> gm_get (concat custom) k = None"
    and "gm_get (concat custom) AttributeCompression = None"
    and "publisher_Publish (\<lambda>sets d. encoder_Encode cenv e ctx d sets) collect settings typ version v custom [] = (out, None)"
    and "GetTransformer core \<lparr>CrudType = typ, spec_Version = version, spec_ModelId = ModelId_String (pub_ModelId settings)\<rparr> = Inr t"
    and "t v = Inr (Some model)"
    and "GetOutput core \<lparr>CrudType = typ, spec_Version = version, spec_ModelId = ModelId_String (pub_ModelId settings)\<rparr> = Inr output"
    and "\<And>i. output model typ (world i) = (world' i, None)" and "\<not> ctxDone env (now s)"
  shows "\<exists>msg s' msg' a. out = [msg] \<and>
    process (subscriberEnv ToIntE checks core world cenv e dctx env) c msg native s = (s', msg', True) \<and>
    events s' = events s @ [Consumed msg' v (Returned (True, None))] \<and>
    (\<exists>m' ctx'. encoder_Decode cenv e dctx msg = (m', ctx', a, Inr v)) \<and>
    (\<forall>i. SubscriberCallback_Consume ToIntE checks core v a (world i) = (world' i, True, None))"
proof -
  let ?spec = "\<lparr>CrudType = typ, spec_Version = version, spec_ModelId = ModelId_String (pub_ModelId settings)\<rparr>"
  obtain msg where msg: "out = [msg]"
    and enc: "encoder_Encode cenv e ctx v (CreateMessageAttributes (pub_ModelId settings) typ version # custom) = Inr msg"
    using Publish_encodes [OF assms(6)] by blast
  obtain ctx' a where dec: "encoder_Decode cenv e dctx msg = (msg\<lparr>Attributes := a\<rparr>, ctx', a, Inr v)"
    and spec: "getModelSpecification ToIntE a = Inr ?spec" "getModelSpecification ToIntE (Attributes msg) = Inr ?spec"
    using published_spec [where ToIntE = ToIntE and Ks = Ks and custom = custom and version = version, OF assms(1-5) enc] by blast
  have gm: "SubscriberCallback_GetModel ToIntE core (Attributes msg) = Inr t"
    using spec(2) assms(7) by (simp add: SubscriberCallback_GetModel_def)
  have con: "SubscriberCallback_Consume ToIntE checks core v a (world i) = (world' i, True, None)" for i
    using Consume_persists [OF spec(1) assms(7,8,9), of "world i" "world' i"] assms(10) by simp
  show ?thesis
    using msg dec con gm assms(11)
    by (auto simp: process_def consumeModel_def subscriberEnv_def codecDecoder_def Let_def)
qed

definition demoModelId :: ModelId where
  "demoModelId = emptyModelId\<lparr>m_Name := ''order''\<rparr>"

definition demoCore :: "(string, string, string list) subscriberCore" where
  "demoCore = \<lparr>transformers = [(ModelId_String demoModelId, [(1, \<lambda>i. Inr (Some (rev i)))])],
     outputs = [(ModelId_String demoModelId, [(1, \<lambda>m op s. (s @ [op, m], None))])]\<rparr>"

definition demoToInt :: "string \<Rightarrow> goerr + int" where
  "demoToInt s = (if s = itoa 1 then Inr 1 else Inl (Opaque ''not a number''))"

theorem published_reaches_output_witness:
  "\<exists>msg s' msg' a. publisher_Publish (\<lambda>sets d. encoder_Encode demoEnv demoEncoder (Some True) d sets) collect
       \<lparr>pub_ModelId = demoModelId, Producer = ''p'', OutputType = ''sns'', pub_Shared = False\<rparr> TypeCreate 1 ''abc'' [[(''k'', ''v'')]] [] = ([msg], None) \<and>
     process (subscriberEnv demoToInt [] demoCore (\<lambda>_. []) demoEnv demoEncoder None (undefined\<lparr>ctxDone := \<lambda>_. False\<rparr>)) demoSettings msg False startState
       = (s', msg', True) \<and>
     SubscriberCallback_Consume demoToInt [] demoCore ''abc'' a [] = ([TypeCreate, ''cba''], True, None)"
proof -
  let ?st = "\<lparr>pub_ModelId = demoModelId, Producer = ''p'', OutputType = ''sns'', pub_Shared = False\<rparr>"
  let ?enc = "\<lambda>sets d. encoder_Encode demoEnv demoEncoder (Some True) d sets"
  let ?spec = "\<lparr>CrudType = TypeCreate, spec_Version = 1, spec_ModelId = ModelId_String demoModelId\<rparr>"
  have out: "\<exists>msg. publisher_Publish ?enc collect ?st TypeCreate 1 ''abc'' [[(''k'', ''v'')]] [] = ([msg], None)"
    by (simp add: publisher_Publish_def producer_WriteOne_def collect_def CreateMessageAttributes_def encoder_Encode_def encodeBody_def compressBody_def
        EncodeMessage_def CompressMessage_def demoEnv_def demoEncoder_def samplingHandler_def Sampling_Encode_def AttributeEncoding_def
        AttributeCompression_def CompressionNone_text_def AttributeType_def AttributeVersion_def AttributeModelId_def)
  then obtain msg where pub: "publisher_Publish ?enc collect ?st TypeCreate 1 ''abc'' [[(''k'', ''v'')]] [] = ([msg], None)" by blast
  have ok: "codec_ok demoEnv demoEncoder" by (simp add: codec_ok_def demoEnv_def demoEncoder_def)
  have h: "handlers_ok (encodeHandlers demoEncoder) [{sampled_attribute}]" using samplingHandler_ok by (simp add: demoEncoder_def)
  have t: "GetTransformer demoCore ?spec = Inr (\<lambda>i. Inr (Some (rev i)))" "GetOutput demoCore ?spec = Inr (\<lambda>m op s. (s @ [op, m], None))"
    by (simp_all add: GetTransformer_def GetOutput_def demoCore_def)
  have k: "k \<in> \<Union> (set [{sampled_attribute}]) \<Longrightarrow> k \<notin> {AttributeEncoding, AttributeCompression, AttributeType, AttributeVersion, AttributeModelId} \<and>
      gm_get (concat [[(''k'', ''v'')]]) k = None" for k
    by (auto simp: sampled_attribute_def AttributeEncoding_def AttributeCompression_def AttributeType_def AttributeVersion_def AttributeModelId_def)
  have i: "demoToInt (itoa 1) = Inr 1" "gm_get (concat [[(''k'', ''v'')]]) AttributeCompression = None"
    by (simp_all add: demoToInt_def AttributeCompression_def)
  have t': "GetTransformer demoCore \<lparr>CrudType = TypeCreate, spec_Version = 1, spec_ModelId = ModelId_String (pub_ModelId ?st)\<rparr> = Inr (\<lambda>i. Inr (Some (rev i)))"
    "GetOutput demoCore \<lparr>CrudType = TypeCreate, spec_Version = 1, spec_ModelId = ModelId_String (pub_ModelId ?st)\<rparr> = Inr (\<lambda>m op s. (s @ [op, m], None))"
    using t by simp_all
  have "\<exists>m s' msg' a. [msg] = [m] \<and>
    process (subscriberEnv demoToInt [] demoCore (\<lambda>_. []) demoEnv demoEncoder None (undefined\<lparr>ctxDone := \<lambda>_. False\<rparr>)) demoSettings m False startState = (s', msg', True) \<and>
    events s' = events startState @ [Consumed msg' ''abc'' (Returned (True, None))] \<and>
    (\<exists>m' ctx'. encoder_Decode demoEnv demoEncoder None m = (m', ctx', a, Inr ''abc'')) \<and>
    (\<forall>i::nat. SubscriberCallback_Consume demoToInt [] demoCore ''abc'' a [] = ([TypeCreate, ''cba''], True, None))"
    by (rule published_reaches_output [where Ks = "[{sampled_attribute}]" and custom = "[[(''k'', ''v'')]]" and cenv = demoEnv and e = demoEncoder and core = demoCore
          and model = "''cba''"], rule ok, rule h, rule i, erule k, rule i, rule pub, rule t', simp, rule t', simp_all)
  then show ?thesis using pub by blast
qed

end
