(* ===== verification/KvRemote.thy ===== *)
theory KvRemote
  imports KvProps "HOL-Library.List_Lexorder" "HOL-Library.Char_ord"
begin

text \<open>
  The stores of \<open>pkg/kvstore\<close> that keep their values in Redis (\<open>redis.go\<close>) and DynamoDB (\<open>ddb.go\<close>).

  The Redis client and the DynamoDB repository are interfaces the stores are given: records of operations over a state of their own.
  \<open>json.Marshal\<close> and \<open>json.Unmarshal\<close> are parameters; \<open>Unmarshal\<close> gets the value it decodes into and returns what it holds afterwards.
  Both stores meet the contract \<open>kv_store\<close> for clients that behave as documented, so that the chains of different stores do.
\<close>

section \<open>Encoding (kvstore.go)\<close>

record 'v kvCodec =
  Marshal :: "'v \<Rightarrow> goerr + string"
  Unmarshal :: "string \<Rightarrow> 'v \<Rightarrow> 'v \<times> error"

section \<open>Redis (redis.go)\<close>

datatype redisCmd = MSet "(string \<times> string) list" | Expire string int

text \<open>\<open>redis.Nil\<close>, the error of a \<open>Get\<close> that found nothing, is the result \<open>None\<close>; \<open>MGet\<close> has nil for keys that are not there.\<close>

record 'c redisClient =
  rc_Exists :: "'c \<Rightarrow> string \<Rightarrow> 'c \<times> (goerr + int)"
  rc_Get :: "'c \<Rightarrow> string \<Rightarrow> 'c \<times> (goerr + string option)"
  rc_MGet :: "'c \<Rightarrow> string list \<Rightarrow> 'c \<times> (goerr + string option list)"
  rc_Set :: "'c \<Rightarrow> string \<Rightarrow> string \<Rightarrow> int \<Rightarrow> 'c \<times> error"
  rc_Exec :: "'c \<Rightarrow> redisCmd list \<Rightarrow> 'c \<times> error"
  rc_Del :: "'c \<Rightarrow> string list \<Rightarrow> 'c \<times> error"
  rc_DBSize :: "'c \<Rightarrow> goerr + int"

record redisSettings =
  rs_Ttl :: int
  rs_BatchSize :: nat

definition redis_key :: "toStringE \<Rightarrow> gokey \<Rightarrow> goerr + string" where
  "redis_key ts key =
     (case CastKeyToString ts key of
        Inl err \<Rightarrow> Inl (errorf_w (''can not cast key '' @ key_type key @ '' '' @ key_text key @ '' to string: '') err [])
      | Inr keyStr \<Rightarrow> Inr keyStr)"

definition redis_Contains :: "toStringE \<Rightarrow> 'c redisClient \<Rightarrow> 'c \<Rightarrow> gokey \<Rightarrow> 'c \<times> bool \<times> error" where
  "redis_Contains ts client c key =
     (case redis_key ts key of
        Inl err \<Rightarrow> (c, False, Some (errorf_w ''can not get key to check value in redis: '' err []))
      | Inr keyStr \<Rightarrow>
          (case rc_Exists client c keyStr of
             (c, Inl err) \<Rightarrow> (c, False, Some (errorf_w ''can not check existence in redis store: '' err []))
           | (c, Inr n) \<Rightarrow> (c, n > 0, None)))"

definition redis_Get :: "toStringE \<Rightarrow> 'v kvCodec \<Rightarrow> 'c redisClient \<Rightarrow> 'c \<Rightarrow> gokey \<Rightarrow> 'v \<Rightarrow> 'c \<times> 'v \<times> bool \<times> error" where
  "redis_Get ts codec client c key value =
     (case redis_key ts key of
        Inl err \<Rightarrow> (c, value, False, Some (errorf_w ''can not get key to read value from redis: '' err []))
      | Inr keyStr \<Rightarrow>
          (case rc_Get client c keyStr of
             (c, Inr None) \<Rightarrow> (c, value, False, None)
           | (c, Inl err) \<Rightarrow> (c, value, False, Some (errorf_w ''can not get value from redis store: '' err []))
           | (c, Inr (Some d)) \<Rightarrow>
               (case Unmarshal codec d value of
                  (value, Some err) \<Rightarrow> (c, value, False, Some (errorf_w ''can not unmarshal value from redis store: '' err []))
                | (value, None) \<Rightarrow> (c, value, True, None))))"

fun redis_keys :: "toStringE \<Rightarrow> gokey list \<Rightarrow> goerr + string list" where
  "redis_keys ts [] = Inr []"
| "redis_keys ts (key # keys) =
     (case redis_key ts key of
        Inl err \<Rightarrow> Inl err
      | Inr k \<Rightarrow> (case redis_keys ts keys of Inl err \<Rightarrow> Inl err | Inr ks \<Rightarrow> Inr (k # ks)))"

fun redis_readItems :: "'v kvCodec \<Rightarrow> 'v \<Rightarrow> (gokey \<times> string option) list \<Rightarrow> 'v rmap \<Rightarrow> gokey list \<Rightarrow> 'v rmap \<times> (goerr + gokey list)" where
  "redis_readItems codec zero [] rm missing = (rm, Inr missing)"
| "redis_readItems codec zero ((key, None) # items) rm missing = redis_readItems codec zero items rm (missing @ [key])"
| "redis_readItems codec zero ((key, Some item) # items) rm missing =
     (case Unmarshal codec item zero of
        (element, Some err) \<Rightarrow> (rm, Inl (errorf_w ''can not unmarshal item: '' err []))
      | (element, None) \<Rightarrow>
          (case Map_Set rm key element of
             Inl err \<Rightarrow> (rm, Inl (errorf_w ''can not set new element on result map: '' err []))
           | Inr rm \<Rightarrow> redis_readItems codec zero items rm missing))"

definition redis_getChunk ::
  "toStringE \<Rightarrow> 'v kvCodec \<Rightarrow> 'c redisClient \<Rightarrow> 'v \<Rightarrow> 'c \<Rightarrow> 'v rmap \<Rightarrow> gokey list \<Rightarrow> 'c \<times> 'v rmap \<times> (goerr + gokey list)" where
  "redis_getChunk ts codec client zero c rm keys =
     (case redis_keys ts keys of
        Inl err \<Rightarrow> (c, rm, Inl (errorf_w ''can not build string key: '' err []))
      | Inr keyStrings \<Rightarrow>
          (case rc_MGet client c keyStrings of
             (c, Inl err) \<Rightarrow> (c, rm, Inl (errorf_w ''can not get batch from redis: '' err []))
           | (c, Inr items) \<Rightarrow>
               if length items \<noteq> length keys
               then (c, rm, Inl (Opaque (''count of returned items does not match key count '' @ itoa (int (length items)) @ '' != '' @ itoa (int (length keys)))))
               else (c, redis_readItems codec zero (zip keys items) rm [])))"

definition redis_GetBatch ::
  "toStringE \<Rightarrow> 'v kvCodec \<Rightarrow> redisSettings \<Rightarrow> 'c redisClient \<Rightarrow> 'v \<Rightarrow> 'c \<Rightarrow> gokey list dyn \<Rightarrow> 'v rmap dyn \<Rightarrow>
     'c \<times> 'v rmap dyn \<times> gokey list \<times> error" where
  "redis_GetBatch ts codec settings client zero c keys result =
     getBatch ts keys result (redis_getChunk ts codec client zero) (int (rs_BatchSize settings)) c"

definition redis_marshalKeyValue :: "toStringE \<Rightarrow> 'v kvCodec \<Rightarrow> gokey \<Rightarrow> 'v \<Rightarrow> goerr + string \<times> string" where
  "redis_marshalKeyValue ts codec key value =
     (case Marshal codec value of
        Inl err \<Rightarrow> Inl (errorf_w ''can not marshal value: '' err [])
      | Inr bytes \<Rightarrow>
          (case redis_key ts key of
             Inl err \<Rightarrow> Inl (errorf_w ''can not get key to write value to redis: '' err [])
           | Inr keyStr \<Rightarrow> Inr (keyStr, bytes)))"

definition redis_Put :: "toStringE \<Rightarrow> 'v kvCodec \<Rightarrow> redisSettings \<Rightarrow> 'c redisClient \<Rightarrow> 'c \<Rightarrow> gokey \<Rightarrow> 'v \<Rightarrow> 'c \<times> error" where
  "redis_Put ts codec settings client c key value =
     (case redis_marshalKeyValue ts codec key value of
        Inl err \<Rightarrow> (c, Some (errorf_w ''can not get key/value to write to redis: '' err []))
      | Inr (keyStr, bytes) \<Rightarrow>
          (case rc_Set client c keyStr bytes (rs_Ttl settings) of
             (c, Some err) \<Rightarrow> (c, Some (errorf_w ''can not set value in redis store: '' err []))
           | (c, None) \<Rightarrow> (c, None)))"

definition redis_flushChunk :: "redisSettings \<Rightarrow> 'c redisClient \<Rightarrow> 'c \<Rightarrow> (string \<times> string) list \<Rightarrow> 'c \<times> error" where
  "redis_flushChunk settings client c pairs =
     (if pairs = [] then (c, None)
      else rc_Exec client c (MSet pairs # (if rs_Ttl settings \<noteq> 0 then map (\<lambda>(k, v). Expire k (rs_Ttl settings)) pairs else [])))"

fun redis_putLoop ::
  "toStringE \<Rightarrow> 'v kvCodec \<Rightarrow> redisSettings \<Rightarrow> 'c redisClient \<Rightarrow> (gokey, 'v) gomap \<Rightarrow> (string \<times> string) list \<Rightarrow> 'c \<Rightarrow> 'c \<times> error" where
  "redis_putLoop ts codec settings client [] pairs c = redis_flushChunk settings client c pairs"
| "redis_putLoop ts codec settings client ((k, v) # mii) pairs c =
     (case redis_marshalKeyValue ts codec k v of
        Inl err \<Rightarrow> (c, Some (errorf_w ''PutBatch could not marshal key/value: '' err []))
      | Inr pair \<Rightarrow>
          (let pairs = pairs @ [pair]
           in if length pairs \<ge> rs_BatchSize settings
              then (case redis_flushChunk settings client c pairs of
                      (c, Some err) \<Rightarrow> (c, Some (errorf_w ''failed to write batch to redis: '' err []))
                    | (c, None) \<Rightarrow> redis_putLoop ts codec settings client mii [] c)
              else redis_putLoop ts codec settings client mii pairs c))"

definition redis_PutBatch :: "toStringE \<Rightarrow> 'v kvCodec \<Rightarrow> redisSettings \<Rightarrow> 'c redisClient \<Rightarrow> 'c \<Rightarrow> 'v rmap dyn \<Rightarrow> 'c \<times> error" where
  "redis_PutBatch ts codec settings client c values =
     (case InterfaceToMapInterfaceInterface values of
        Inl err \<Rightarrow> (c, Some (Opaque ''could not convert values to map[any]any''))
      | Inr mii \<Rightarrow> redis_putLoop ts codec settings client mii [] c)"

definition redis_Delete :: "toStringE \<Rightarrow> 'c redisClient \<Rightarrow> 'c \<Rightarrow> gokey \<Rightarrow> 'c \<times> error" where
  "redis_Delete ts client c key =
     (case redis_key ts key of
        Inl err \<Rightarrow> (c, Some (errorf_w ''can not get key to delete value from redis: '' err []))
      | Inr keyStr \<Rightarrow>
          (case rc_Del client c [keyStr] of
             (c, Some err) \<Rightarrow> (c, Some (errorf_w ''can not delete value from redis store: '' err []))
           | (c, None) \<Rightarrow> (c, None)))"

definition redis_DeleteBatch :: "toStringE \<Rightarrow> 'c redisClient \<Rightarrow> 'c \<Rightarrow> gokey list dyn \<Rightarrow> 'c \<times> error" where
  "redis_DeleteBatch ts client c keys =
     (case InterfaceToInterfaceSlice keys of
        Inl err \<Rightarrow> (c, Some (errorf_w ''could not convert keys to []any: '' err []))
      | Inr si \<Rightarrow>
          (case redis_keys ts si of
             Inl err \<Rightarrow> (c, Some (errorf_w ''can not get key to delete value from redis: '' err []))
           | Inr redisKeys \<Rightarrow>
               (case rc_Del client c redisKeys of
                  (c, Some err) \<Rightarrow> (c, Some (errorf_w ''can not delete values from redis store: '' err []))
                | (c, None) \<Rightarrow> (c, None))))"

definition redis_EstimateSize :: "'c redisClient \<Rightarrow> 'c \<Rightarrow> int option" where
  "redis_EstimateSize client c = (case rc_DBSize client c of Inl err \<Rightarrow> None | Inr n \<Rightarrow> Some n)"

definition redisOps :: "toStringE \<Rightarrow> 'v kvCodec \<Rightarrow> redisSettings \<Rightarrow> 'c redisClient \<Rightarrow> 'v \<Rightarrow> ('c, 'v) kvops" where
  "redisOps ts codec settings client zero = \<lparr>op_Contains = redis_Contains ts client, op_Get = redis_Get ts codec client,
     op_GetBatch = redis_GetBatch ts codec settings client zero, op_Put = redis_Put ts codec settings client,
     op_PutBatch = redis_PutBatch ts codec settings client, op_Delete = redis_Delete ts client, op_DeleteBatch = redis_DeleteBatch ts client\<rparr>"

section \<open>DynamoDB (ddb.go)\<close>

record DdbItem =
  item_Key :: string
  item_Value :: string

record 'c ddbRepository =
  dr_GetItem :: "'c \<Rightarrow> string \<Rightarrow> 'c \<times> (goerr + DdbItem option)"
  dr_BatchGetItems :: "'c \<Rightarrow> string list \<Rightarrow> 'c \<times> (goerr + DdbItem list)"
  dr_PutItem :: "'c \<Rightarrow> DdbItem \<Rightarrow> 'c \<times> error"
  dr_BatchPutItems :: "'c \<Rightarrow> DdbItem list \<Rightarrow> 'c \<times> error"
  dr_DeleteItem :: "'c \<Rightarrow> string \<Rightarrow> 'c \<times> error"
  dr_BatchDeleteItems :: "'c \<Rightarrow> string list \<Rightarrow> 'c \<times> error"

definition castErr :: "gokey \<Rightarrow> goerr \<Rightarrow> goerr" where
  "castErr key err = errorf_w (''can not cast key '' @ key_type key @ '' '' @ key_text key @ '' to string: '') err []"

definition ddb_Contains :: "toStringE \<Rightarrow> 'c ddbRepository \<Rightarrow> 'c \<Rightarrow> gokey \<Rightarrow> 'c \<times> bool \<times> error" where
  "ddb_Contains ts repository c key =
     (case CastKeyToString ts key of
        Inl err \<Rightarrow> (c, False, Some (castErr key err))
      | Inr keyStr \<Rightarrow>
          (case dr_GetItem repository c keyStr of
             (c, Inl err) \<Rightarrow> (c, False, Some (errorf_w (''can not check if ddb store contains the key '' @ keyStr @ '': '') err []))
           | (c, Inr item) \<Rightarrow> (c, item \<noteq> None, None)))"

definition ddb_Get :: "toStringE \<Rightarrow> 'v kvCodec \<Rightarrow> 'c ddbRepository \<Rightarrow> 'c \<Rightarrow> gokey \<Rightarrow> 'v \<Rightarrow> 'c \<times> 'v \<times> bool \<times> error" where
  "ddb_Get ts codec repository c key value =
     (case CastKeyToString ts key of
        Inl err \<Rightarrow> (c, value, False, Some (castErr key err))
      | Inr keyStr \<Rightarrow>
          (case dr_GetItem repository c keyStr of
             (c, Inl err) \<Rightarrow> (c, value, False, Some (errorf_w (''can not get item '' @ keyStr @ '' from ddb store: '') err []))
           | (c, Inr None) \<Rightarrow> (c, value, False, None)
           | (c, Inr (Some item)) \<Rightarrow>
               (case Unmarshal codec (item_Value item) value of
                  (value, Some err) \<Rightarrow> (c, value, False, Some (errorf_w (''can not unmarshal value for item '' @ keyStr @ '': '') err []))
                | (value, None) \<Rightarrow> (c, value, True, None))))"

text \<open>The key strings with the map back to the keys; later keys replace earlier ones with the same text.\<close>

fun ddb_keyStrings :: "toStringE \<Rightarrow> gokey list \<Rightarrow> (string, gokey) gomap \<Rightarrow> goerr + string list \<times> (string, gokey) gomap" where
  "ddb_keyStrings ts [] orig = Inr ([], orig)"
| "ddb_keyStrings ts (key # keys) orig =
     (case CastKeyToString ts key of
        Inl err \<Rightarrow> Inl (castErr key err)
      | Inr k \<Rightarrow>
          (case ddb_keyStrings ts keys (gm_set orig k key) of Inl err \<Rightarrow> Inl err | Inr (ks, orig) \<Rightarrow> Inr (k # ks, orig)))"

text \<open>A key the table returns without having been asked for has no original: the nil value is refused by the result map.\<close>

fun ddb_readItems :: "'v kvCodec \<Rightarrow> 'v \<Rightarrow> (string, gokey) gomap \<Rightarrow> DdbItem list \<Rightarrow> 'v rmap \<Rightarrow> string list \<Rightarrow> 'v rmap \<times> (goerr + string list)" where
  "ddb_readItems codec zero orig [] rm found = (rm, Inr found)"
| "ddb_readItems codec zero orig (item # items) rm found =
     (case Unmarshal codec (item_Value item) zero of
        (element, Some err) \<Rightarrow> (rm, Inl (errorf_w ''can not unmarshal item: '' err []))
      | (element, None) \<Rightarrow>
          (case Map_Set rm (case gm_get orig (item_Key item) of Some key \<Rightarrow> key | None \<Rightarrow> KOther ''nil'' []) element of
             Inl err \<Rightarrow> (rm, Inl (errorf_w ''can not set new element on result map: '' err []))
           | Inr rm \<Rightarrow> ddb_readItems codec zero orig items rm (item_Key item # found)))"

definition ddb_getChunk ::
  "toStringE \<Rightarrow> 'v kvCodec \<Rightarrow> 'c ddbRepository \<Rightarrow> 'v \<Rightarrow> 'c \<Rightarrow> 'v rmap \<Rightarrow> gokey list \<Rightarrow> 'c \<times> 'v rmap \<times> (goerr + gokey list)" where
  "ddb_getChunk ts codec repository zero c rm keys =
     (case ddb_keyStrings ts keys [] of
        Inl err \<Rightarrow> (c, rm, Inl err)
      | Inr (keyStrings, orig) \<Rightarrow>
          (case dr_BatchGetItems repository c keyStrings of
             (c, Inl err) \<Rightarrow> (c, rm, Inl (errorf_w ''can not get items from ddb: '' err []))
           | (c, Inr items) \<Rightarrow>
               (case ddb_readItems codec zero orig items rm [] of
                  (rm, Inl err) \<Rightarrow> (c, rm, Inl err)
                | (rm, Inr found) \<Rightarrow> (c, rm, Inr (map snd (filter (\<lambda>(k, key). k \<notin> set found) (zip keyStrings keys)))))))"

definition ddb_GetBatch ::
  "toStringE \<Rightarrow> 'v kvCodec \<Rightarrow> int \<Rightarrow> 'c ddbRepository \<Rightarrow> 'v \<Rightarrow> 'c \<Rightarrow> gokey list dyn \<Rightarrow> 'v rmap dyn \<Rightarrow>
     'c \<times> 'v rmap dyn \<times> gokey list \<times> error" where
  "ddb_GetBatch ts codec batchSize repository zero c keys result = getBatch ts keys result (ddb_getChunk ts codec repository zero) batchSize c"

definition ddb_Put :: "toStringE \<Rightarrow> 'v kvCodec \<Rightarrow> 'c ddbRepository \<Rightarrow> 'c \<Rightarrow> gokey \<Rightarrow> 'v \<Rightarrow> 'c \<times> error" where
  "ddb_Put ts codec repository c key value =
     (case CastKeyToString ts key of
        Inl err \<Rightarrow> (c, Some (castErr key err))
      | Inr keyStr \<Rightarrow>
          (case Marshal codec value of
             Inl err \<Rightarrow> (c, Some (errorf_w (''can not marshal value '' @ keyStr @ '': '') err []))
           | Inr bytes \<Rightarrow>
               (case dr_PutItem repository c \<lparr>item_Key = keyStr, item_Value = bytes\<rparr> of
                  (c, Some err) \<Rightarrow> (c, Some (errorf_w (''can not put item '' @ keyStr @ '' into ddb store: '') err []))
                | (c, None) \<Rightarrow> (c, None))))"

text \<open>The value of the key the string stands for is in the map, since the keys are its own.\<close>

fun ddb_items :: "'v kvCodec \<Rightarrow> (string, gokey) gomap \<Rightarrow> (gokey, 'v) gomap \<Rightarrow> string list \<Rightarrow> goerr + DdbItem list" where
  "ddb_items codec orig mii [] = Inr []"
| "ddb_items codec orig mii (k # ks) =
     (case Marshal codec (the (gm_get mii (the (gm_get orig k)))) of
        Inl err \<Rightarrow> Inl (errorf_w (''can not marshal value '' @ k @ '': '') err [])
      | Inr bytes \<Rightarrow>
          (case ddb_items codec orig mii ks of
             Inl err \<Rightarrow> Inl err
           | Inr items \<Rightarrow> Inr (\<lparr>item_Key = k, item_Value = bytes\<rparr> # items)))"

definition ddb_PutBatch :: "toStringE \<Rightarrow> 'v kvCodec \<Rightarrow> 'c ddbRepository \<Rightarrow> 'c \<Rightarrow> 'v rmap dyn \<Rightarrow> 'c \<times> error" where
  "ddb_PutBatch ts codec repository c values =
     (case InterfaceToMapInterfaceInterface values of
        Inl err \<Rightarrow> (c, Some (Opaque ''could not convert values to map[any]any''))
      | Inr mii \<Rightarrow>
          (case ddb_keyStrings ts (map fst mii) [] of
             Inl err \<Rightarrow> (c, Some err)
           | Inr (keyStrings, orig) \<Rightarrow>
               (case ddb_items codec orig mii (sort keyStrings) of
                  Inl err \<Rightarrow> (c, Some err)
                | Inr items \<Rightarrow>
                    (case dr_BatchPutItems repository c items of
                       (c, Some err) \<Rightarrow> (c, Some (errorf_w ''not able to put values into ddb store: '' err []))
                     | (c, None) \<Rightarrow> (c, None)))))"

definition ddb_Delete :: "toStringE \<Rightarrow> 'c ddbRepository \<Rightarrow> 'c \<Rightarrow> gokey \<Rightarrow> 'c \<times> error" where
  "ddb_Delete ts repository c key =
     (case CastKeyToString ts key of
        Inl err \<Rightarrow> (c, Some (castErr key err))
      | Inr keyStr \<Rightarrow>
          (case dr_DeleteItem repository c keyStr of
             (c, Some err) \<Rightarrow> (c, Some (errorf_w (''can not delete item '' @ keyStr @ '' from ddb store: '') err []))
           | (c, None) \<Rightarrow> (c, None)))"

definition ddb_DeleteBatch :: "toStringE \<Rightarrow> 'c ddbRepository \<Rightarrow> 'c \<Rightarrow> gokey list dyn \<Rightarrow> 'c \<times> error" where
  "ddb_DeleteBatch ts repository c keys =
     (case InterfaceToInterfaceSlice keys of
        Inl err \<Rightarrow> (c, Some (errorf_w ''could not convert keys to []any: '' err []))
      | Inr si \<Rightarrow>
          (case ddb_keyStrings ts si [] of
             Inl err \<Rightarrow> (c, Some err)
           | Inr (ks, _) \<Rightarrow>
               (case dr_BatchDeleteItems repository c ks of
                  (c, Some err) \<Rightarrow> (c, Some (errorf_w ''can not delete values from ddb store: '' err []))
                | (c, None) \<Rightarrow> (c, None))))"

definition ddbOps :: "toStringE \<Rightarrow> 'v kvCodec \<Rightarrow> int \<Rightarrow> 'c ddbRepository \<Rightarrow> 'v \<Rightarrow> ('c, 'v) kvops" where
  "ddbOps ts codec batchSize repository zero = \<lparr>op_Contains = ddb_Contains ts repository, op_Get = ddb_Get ts codec repository,
     op_GetBatch = ddb_GetBatch ts codec batchSize repository zero, op_Put = ddb_Put ts codec repository,
     op_PutBatch = ddb_PutBatch ts codec repository, op_Delete = ddb_Delete ts repository, op_DeleteBatch = ddb_DeleteBatch ts repository\<rparr>"

section \<open>Stores of different kinds\<close>

text \<open>The interface value of a chain element: one of two stores, with the method table of its kind.\<close>

definition sumOps :: "('s, 'v) kvops \<Rightarrow> ('t, 'v) kvops \<Rightarrow> ('s + 't, 'v) kvops" where
  "sumOps a b = \<lparr>
     op_Contains = (\<lambda>st key. case st of Inl s \<Rightarrow> map_prod Inl id (op_Contains a s key) | Inr t \<Rightarrow> map_prod Inr id (op_Contains b t key)),
     op_Get = (\<lambda>st key v. case st of Inl s \<Rightarrow> map_prod Inl id (op_Get a s key v) | Inr t \<Rightarrow> map_prod Inr id (op_Get b t key v)),
     op_GetBatch = (\<lambda>st ks r. case st of Inl s \<Rightarrow> map_prod Inl id (op_GetBatch a s ks r) | Inr t \<Rightarrow> map_prod Inr id (op_GetBatch b t ks r)),
     op_Put = (\<lambda>st key v. case st of Inl s \<Rightarrow> map_prod Inl id (op_Put a s key v) | Inr t \<Rightarrow> map_prod Inr id (op_Put b t key v)),
     op_PutBatch = (\<lambda>st vs. case st of Inl s \<Rightarrow> map_prod Inl id (op_PutBatch a s vs) | Inr t \<Rightarrow> map_prod Inr id (op_PutBatch b t vs)),
     op_Delete = (\<lambda>st key. case st of Inl s \<Rightarrow> map_prod Inl id (op_Delete a s key) | Inr t \<Rightarrow> map_prod Inr id (op_Delete b t key)),
     op_DeleteBatch = (\<lambda>st ks. case st of Inl s \<Rightarrow> map_prod Inl id (op_DeleteBatch a s ks) | Inr t \<Rightarrow> map_prod Inr id (op_DeleteBatch b t ks))\<rparr>"

lemma sum_kv_store:
  assumes "kv_store ts a live exact" and "kv_store ts b live' exact'"
  shows "kv_store ts (sumOps a b) (case_sum live live') (case_sum exact exact')"
proof
  show "ts (KStr x) = Inr x" for x using assms(1) by (rule kv_store.ts_str)
next
  fix st r st' err
  assume "op_PutBatch (sumOps a b) st (Val r) = (st', err)" and r: "gm_wf (mapValue r)" "fst ` set (mapValue r) \<subseteq> range KStr"
  then show "case_sum exact exact' st' = case_sum exact exact' st \<and>
      (\<forall>x v. case_sum live live' st' x = Some v \<longrightarrow> case_sum live live' st x = Some v \<or> gm_get (mapValue r) (KStr x) = Some v)"
    using kv_store.putBatch_law [OF assms(1) _ r] kv_store.putBatch_law [OF assms(2) _ r]
    by (cases st) (fastforce simp: sumOps_def map_prod_def split: prod.splits)+
qed (auto simp: sumOps_def map_prod_def split: sum.splits prod.splits
    dest: assms [THEN kv_store.contains_law] assms [THEN kv_store.get_law] assms [THEN kv_store.put_law]
      assms [THEN kv_store.delete_law] assms [THEN kv_store.getBatch_law])

section \<open>The contract of a remote store\<close>

text \<open>Reading by chunks: a chunk reads the keys it is given and reports those that are not there.\<close>

locale chunk_getter =
  fixes ts :: toStringE and getChunk :: "('s, 'v) chunkGetter" and live :: "'s \<Rightarrow> string \<rightharpoonup> 'v"
  assumes ts_str: "ts (KStr x) = Inr x"
    and chunk_law: "getChunk s rm (map KStr xs) = (s', rm', r) \<Longrightarrow> keyType rm = ''string'' \<Longrightarrow>
      live s' = live s \<and> reads (live s) (set xs) rm rm' \<and>
      (\<forall>missing. r = Inr missing \<longrightarrow> set missing = KStr ` {x \<in> set xs. live s x = None} \<and> reads_all (live s) (set xs) rm')"
begin

lemma chunkLoop_law:
  assumes "chunkLoop getChunk (map (map KStr) xss) s rm missing = (s', rm', r)" and "keyType rm = ''string''"
  shows "live s' = live s \<and> reads (live s) (set (concat xss)) rm rm' \<and>
    (\<forall>missing'. r = Inr missing' \<longrightarrow>
       set missing' = set missing \<union> KStr ` {x \<in> set (concat xss). live s x = None} \<and> reads_all (live s) (set (concat xss)) rm')"
  using assms
proof (induction xss arbitrary: s rm missing)
  case Nil
  then show ?case by (auto simp: reads_all_def)
next
  case (Cons xs xss)
  obtain s1 rm1 r1 where g: "getChunk s rm (map KStr xs) = (s1, rm1, r1)" by (metis prod_cases3)
  note law = chunk_law [OF g Cons.prems(2)]
  have read1: "reads (live s) (set (concat (xs # xss))) rm rm1"
    using law reads_trans [OF _ reads_refl [of _ "{}"], of "live s" "set (concat (xs # xss))" rm rm1] by (auto simp: reads_def)
  show ?case
  proof (cases r1)
    case (Inl err)
    then show ?thesis using Cons.prems(1) g law read1 by auto
  next
    case (Inr miss)
    have t: "keyType rm1 = ''string''" using law Cons.prems(2) by (simp add: reads_def)
    have "chunkLoop getChunk (map (map KStr) xss) s1 rm1 (missing @ miss) = (s', rm', r)"
      using Cons.prems(1) g Inr by simp
    note IH = Cons.IH [OF this t]
    have live1: "live s1 = live s" using law by simp
    have "reads (live s) (set (concat (xs # xss))) rm rm'"
      using reads_trans [OF read1, of "set (concat xss)" rm'] IH live1 by simp
    moreover have "reads_all (live s) (set xs) rm'"
      using reads_all_keep [of "live s" "set xs" rm1 "set (concat xss)" rm'] law IH live1 Inr by simp
    ultimately show ?thesis using IH law live1 Inr by (auto simp: reads_all_def)
  qed
qed

lemma getBatch_law:
  assumes "getBatch ts (Val (map KStr xs)) (Val rm) getChunk n s = (s', rd, missing, err)" and "keyType rm = ''string''"
  shows "live s' = live s \<and> (\<exists>rm'. rd = Val rm' \<and> reads (live s) (set xs) rm rm' \<and>
    (err = None \<longrightarrow> set missing = KStr ` {x \<in> set xs. live s x = None} \<and> reads_all (live s) (set xs) rm'))"
proof -
  let ?n = "nat (if n < 1 then 1 else n)" and ?us = "firsts id {} xs"
  obtain s1 rm1 r where c: "chunkLoop getChunk (map (map KStr) (keyChunks ?us ?n)) s rm [] = (s1, rm1, r)" by (metis prod_cases3)
  have "0 < ?n" by simp
  then have us: "concat (keyChunks ?us ?n) = ?us" by (rule concat_keyChunks)
  have set: "set ?us = set xs" using firsts_keys [of id "{}" xs] by simp
  have "s' = s1 \<and> rd = Val rm1 \<and> (\<forall>m. r = Inr m \<longrightarrow> missing = m) \<and> (err = None \<longrightarrow> (\<exists>m. r = Inr m))"
    using assms(1) c by (auto simp: getBatch_def InterfaceToInterfaceSlice_def UniqKeys_def uniqLoop_str [OF ts_str] MapOf_def Let_def keyChunks_map
        simp del: nat_eq_iff split: sum.splits)
  then show ?thesis using chunkLoop_law [OF c assms(2)] by (auto simp: us set)
qed

end

text \<open>The in-memory store reads its chunks like this.\<close>

interpretation memChunks: chunk_getter demo_ts "\<lambda>s rm ks. (s, mem_getChunk demo_ts listCache zero s ks rm [])" "mem_live gm_get" for zero :: int
proof
  show "demo_ts (KStr x) = Inr x" for x by (simp add: demo_ts_def)
next
  fix s rm and xs :: "string list" and s' rm' r
  assume "(s, mem_getChunk demo_ts listCache zero s (map KStr xs) rm []) = (s', rm', r)" and k: "keyType rm = ''string''"
  then show "mem_live gm_get s' = mem_live gm_get s \<and> reads (mem_live gm_get s) (set xs) rm rm' \<and>
      (\<forall>missing. r = Inr missing \<longrightarrow> set missing = KStr ` {x \<in> set xs. mem_live gm_get s x = None} \<and> reads_all (mem_live gm_get s) (set xs) rm')"
    by (subst (asm) mem_getChunk_str [OF _ listCache_ok k]) (auto simp: demo_ts_def reads_def reads_all_def readInto_get split: gokey.splits if_splits)
qed

text \<open>What is decoded does not depend on the value decoded into, and what was encoded is decoded again.\<close>

definition kvCodec_ok :: "'v kvCodec \<Rightarrow> 'v \<Rightarrow> bool" where
  "kvCodec_ok codec zero \<longleftrightarrow>
     (\<forall>v b w. Marshal codec v = Inr b \<longrightarrow> Unmarshal codec b w = (v, None)) \<and>
     (\<forall>b v w. Unmarshal codec b w = (v, None) \<longrightarrow> Unmarshal codec b zero = (v, None))"

text \<open>The values that rows of encoded text stand for.\<close>

definition decoded :: "'v kvCodec \<Rightarrow> 'v \<Rightarrow> (string \<rightharpoonup> string) \<Rightarrow> string \<rightharpoonup> 'v" where
  "decoded codec zero rows x = map_option (\<lambda>b. fst (Unmarshal codec b zero)) (rows x)"

lemma decoded_None [simp]: "decoded codec zero rows x = None \<longleftrightarrow> rows x = None"
  by (simp add: decoded_def)

lemma decoded_upd:
  "kvCodec_ok codec zero \<Longrightarrow> Marshal codec v = Inr b \<Longrightarrow> decoded codec zero (rows(x \<mapsto> b)) = (decoded codec zero rows)(x \<mapsto> v)"
  by (auto simp: decoded_def kvCodec_ok_def fun_eq_iff)

lemma decoded_del: "decoded codec zero (rows(x := None)) = (decoded codec zero rows)(x := None)"
  by (auto simp: decoded_def fun_eq_iff)

lemma decoded_read:
  "kvCodec_ok codec zero \<Longrightarrow> rows x = Some b \<Longrightarrow> Unmarshal codec b w = (v, None) \<Longrightarrow> decoded codec zero rows x = Some v"
  by (simp add: decoded_def kvCodec_ok_def) (metis fst_conv)

lemma reads_step:
  assumes "m x = Some v" and "Map_Set rm (KStr x) v = Inr rm1" and "reads m xs rm1 rm'"
  shows "reads m (insert x xs) rm rm'"
  using assms unfolding reads_def by (auto simp: Map_Set_def split: if_splits)

lemma reads_all_step:
  assumes "m x = Some v" and "Map_Set rm (KStr x) v = Inr rm1" and "reads m xs rm1 rm'" and "reads_all m xs rm'"
  shows "reads_all m (insert x xs) rm'"
  using assms reads_keep [OF assms(3), of "KStr x"] by (auto simp: reads_all_def Map_Set_def split: if_splits)

lemma Map_Set_str: "keyType rm = ''string'' \<Longrightarrow> \<exists>rm'. Map_Set rm (KStr x) v = Inr rm' \<and> keyType rm' = ''string''"
  by (simp add: Map_Set_def)

lemma redis_readItems_law:
  assumes "kvCodec_ok codec zero" and "redis_readItems codec zero (zip (map KStr xs) (map rows xs)) rm missing = (rm', r)"
    and "keyType rm = ''string''"
  shows "reads (decoded codec zero rows) (set xs) rm rm' \<and>
    (\<forall>m. r = Inr m \<longrightarrow> set m = set missing \<union> KStr ` {x \<in> set xs. rows x = None} \<and> reads_all (decoded codec zero rows) (set xs) rm')"
  using assms(2,3)
proof (induction xs arbitrary: rm missing)
  case Nil
  then show ?case by (auto simp: reads_all_def)
next
  case (Cons x xs)
  show ?case
  proof (cases "rows x")
    case None
    with Cons.prems have "redis_readItems codec zero (zip (map KStr xs) (map rows xs)) rm (missing @ [KStr x]) = (rm', r)" by simp
    from Cons.IH [OF this Cons.prems(2)] None show ?thesis by (auto simp: reads_def reads_all_def)
  next
    case (Some b)
    obtain v e where u: "Unmarshal codec b zero = (v, e)" by fastforce
    obtain rm1 where s: "Map_Set rm (KStr x) v = Inr rm1" and t: "keyType rm1 = ''string''" using Map_Set_str [OF Cons.prems(2)] by blast
    show ?thesis
    proof (cases e)
      case None
      have d: "decoded codec zero rows x = Some v" using decoded_read [OF assms(1), of rows x b] Some u None by simp
      have "redis_readItems codec zero (zip (map KStr xs) (map rows xs)) rm1 missing = (rm', r)"
        using Cons.prems(1) Some u None s by simp
      note IH = Cons.IH [OF this t]
      then show ?thesis using reads_step [where m = "decoded codec zero rows", OF d s, of "set xs" rm'] reads_all_step [where m = "decoded codec zero rows", OF d s, of "set xs" rm'] Some by auto
    next
      case (Some err)
      then show ?thesis using Cons.prems(1) \<open>rows x = Some b\<close> u by auto
    qed
  qed
qed

text \<open>The client as Redis documents its commands; a call that reports an error has not been carried out, a failed transaction perhaps in part.\<close>

definition redis_ok :: "'c redisClient \<Rightarrow> ('c \<Rightarrow> string \<rightharpoonup> string) \<Rightarrow> bool" where
  "redis_ok client rows \<longleftrightarrow>
     (\<forall>c k c' r. rc_Exists client c k = (c', r) \<longrightarrow> rows c' = rows c \<and> (\<forall>n. r = Inr n \<longrightarrow> n = (if rows c k = None then 0 else 1))) \<and>
     (\<forall>c k c' r. rc_Get client c k = (c', r) \<longrightarrow> rows c' = rows c \<and> (\<forall>v. r = Inr v \<longrightarrow> v = rows c k)) \<and>
     (\<forall>c ks c' r. rc_MGet client c ks = (c', r) \<longrightarrow> rows c' = rows c \<and> (\<forall>items. r = Inr items \<longrightarrow> items = map (rows c) ks)) \<and>
     (\<forall>c k v ttl c' err. rc_Set client c k v ttl = (c', err) \<longrightarrow> 0 \<le> ttl \<longrightarrow> rows c' = (if err = None then (rows c)(k \<mapsto> v) else rows c)) \<and>
     (\<forall>c ks c' err. rc_Del client c ks = (c', err) \<longrightarrow> rows c' = (if err = None then (\<lambda>k. if k \<in> set ks then None else rows c k) else rows c)) \<and>
     (\<forall>c pairs ttls c' err. rc_Exec client c (MSet pairs # map (\<lambda>(k, t). Expire k t) ttls) = (c', err) \<longrightarrow> (\<forall>t \<in> snd ` set ttls. 0 < t) \<longrightarrow>
        (err = None \<longrightarrow> rows c' = rows c ++ map_of (rev pairs)) \<and> (\<forall>k. rows c' k = rows c k \<or> (\<exists>v. rows c' k = Some v \<and> (k, v) \<in> set pairs)))"

lemma redis_ok_Exists:
  "redis_ok client rows \<Longrightarrow> rc_Exists client c k = (c', r) \<Longrightarrow> rows c' = rows c \<and> (\<forall>n. r = Inr n \<longrightarrow> n = (if rows c k = None then 0 else 1))"
  unfolding redis_ok_def by (drule conjunct1, blast)

lemma redis_ok_Get:
  "redis_ok client rows \<Longrightarrow> rc_Get client c k = (c', r) \<Longrightarrow> rows c' = rows c \<and> (\<forall>v. r = Inr v \<longrightarrow> v = rows c k)"
  unfolding redis_ok_def by (drule conjunct2, drule conjunct1, blast)

lemma redis_ok_MGet:
  "redis_ok client rows \<Longrightarrow> rc_MGet client c ks = (c', r) \<Longrightarrow> rows c' = rows c \<and> (\<forall>items. r = Inr items \<longrightarrow> items = map (rows c) ks)"
  unfolding redis_ok_def by (drule conjunct2, drule conjunct2, drule conjunct1, blast)

lemma redis_ok_Set:
  "redis_ok client rows \<Longrightarrow> rc_Set client c k v d = (c', err) \<Longrightarrow> 0 \<le> d \<Longrightarrow> rows c' = (if err = None then (rows c)(k \<mapsto> v) else rows c)"
  unfolding redis_ok_def by (drule conjunct2, drule conjunct2, drule conjunct2, drule conjunct1, blast)

lemma redis_ok_Del:
  "redis_ok client rows \<Longrightarrow> rc_Del client c ks = (c', err) \<Longrightarrow> rows c' = (if err = None then (\<lambda>k. if k \<in> set ks then None else rows c k) else rows c)"
  unfolding redis_ok_def by (drule conjunct2, drule conjunct2, drule conjunct2, drule conjunct2, drule conjunct1, blast)

lemma redis_ok_Exec:
  "redis_ok client rows \<Longrightarrow> rc_Exec client c (MSet pairs # map (\<lambda>(k, t). Expire k t) ttls) = (c', err) \<Longrightarrow> \<forall>t \<in> snd ` set ttls. 0 < t \<Longrightarrow>
     (err = None \<longrightarrow> rows c' = rows c ++ map_of (rev pairs)) \<and> (\<forall>k. rows c' k = rows c k \<or> (\<exists>v. rows c' k = Some v \<and> (k, v) \<in> set pairs))"
  unfolding redis_ok_def by (drule conjunct2, drule conjunct2, drule conjunct2, drule conjunct2, drule conjunct2, blast)

lemma redis_key_str: "(\<And>x. ts (KStr x) = Inr x) \<Longrightarrow> redis_key ts (KStr x) = Inr x"
  by (simp add: redis_key_def)

lemma redis_keys_str: "(\<And>x. ts (KStr x) = Inr x) \<Longrightarrow> redis_keys ts (map KStr xs) = Inr xs"
  by (induction xs) (simp_all add: redis_key_str)

lemma redis_key_cast: "CastKeyToString ts key = Inr x \<Longrightarrow> redis_key ts key = Inr x"
  by (simp add: redis_key_def)

lemma redis_chunks:
  assumes "redis_ok client rows" and "kvCodec_ok codec zero" and "\<And>x. ts (KStr x) = Inr x"
  shows "chunk_getter ts (redis_getChunk ts codec client zero) (\<lambda>c. decoded codec zero (rows c))"
proof
  show "ts (KStr x) = Inr x" for x by (rule assms(3))
next
  fix c rm xs c' rm' r
  assume g: "redis_getChunk ts codec client zero c rm (map KStr xs) = (c', rm', r)" and k: "keyType rm = ''string''"
  obtain c1 res where m: "rc_MGet client c xs = (c1, res)" by fastforce
  note law = redis_ok_MGet [OF assms(1) m]
  show "decoded codec zero (rows c') = decoded codec zero (rows c) \<and> reads (decoded codec zero (rows c)) (set xs) rm rm' \<and>
      (\<forall>missing. r = Inr missing \<longrightarrow> set missing = KStr ` {x \<in> set xs. decoded codec zero (rows c) x = None} \<and>
         reads_all (decoded codec zero (rows c)) (set xs) rm')"
  proof (cases res)
    case (Inl err)
    then show ?thesis using g m law by (auto simp: redis_getChunk_def redis_keys_str [OF assms(3)])
  next
    case (Inr items)
    then have "c' = c1" "redis_readItems codec zero (zip (map KStr xs) (map (rows c) xs)) rm [] = (rm', r)"
      using g m law by (auto simp: redis_getChunk_def redis_keys_str [OF assms(3)])
    then show ?thesis using redis_readItems_law [OF assms(2) _ k] law by auto
  qed
qed

lemma redis_flushChunk_law:
  assumes "redis_ok client rows" and "0 \<le> rs_Ttl settings" and "redis_flushChunk settings client c pairs = (c', err)"
  shows "rows c' k = rows c k \<or> (\<exists>v. rows c' k = Some v \<and> (k, v) \<in> set pairs)"
proof (cases "pairs = []")
  case True
  then show ?thesis using assms(3) by (simp add: redis_flushChunk_def)
next
  case False
  define ttls where "ttls = (if rs_Ttl settings \<noteq> 0 then map (\<lambda>(k, v). (k, rs_Ttl settings)) pairs else [])"
  have "rc_Exec client c (MSet pairs # map (\<lambda>(k, t). Expire k t) ttls) = (c', err)"
    using assms(3) False by (auto simp: redis_flushChunk_def ttls_def comp_def case_prod_unfold)
  moreover have "\<forall>t \<in> snd ` set ttls. 0 < t" using assms(2) by (auto simp: ttls_def)
  ultimately show ?thesis using redis_ok_Exec [OF assms(1)] by blast
qed

text \<open>The pairs that are collected are encodings of entries of the map.\<close>

lemma redis_putLoop_law:
  assumes "redis_ok client rows" and "0 \<le> rs_Ttl settings"
    and "redis_putLoop ts codec settings client mii pairs c = (c', err)"
    and "\<And>k b. (k, b) \<in> set pairs \<Longrightarrow> \<exists>key v. (key, v) \<in> set all \<and> redis_marshalKeyValue ts codec key v = Inr (k, b)"
    and "set mii \<subseteq> set all"
  shows "rows c' k = rows c k \<or> (\<exists>b key v. rows c' k = Some b \<and> (key, v) \<in> set all \<and> redis_marshalKeyValue ts codec key v = Inr (k, b))"
  using assms(3-)
proof (induction mii arbitrary: pairs c)
  case Nil
  then have "redis_flushChunk settings client c pairs = (c', err)" by simp
  from redis_flushChunk_law [OF assms(1,2) this, of k] show ?case using Nil.prems(2) by blast
next
  case (Cons kv mii)
  obtain key v where kv: "kv = (key, v)" by fastforce
  show ?case
  proof (cases "redis_marshalKeyValue ts codec key v")
    case (Inl e)
    then show ?thesis using Cons.prems(1) kv by simp
  next
    case (Inr pair)
    have new: "\<exists>key v. (key, v) \<in> set all \<and> redis_marshalKeyValue ts codec key v = Inr (k, b)" if "(k, b) \<in> set (pairs @ [pair])" for k b
      using that Cons.prems(2) [of k b] Cons.prems(3) kv Inr by auto
    have sub: "set mii \<subseteq> set all" using Cons.prems(3) by simp
    show ?thesis
    proof (cases "length (pairs @ [pair]) \<ge> rs_BatchSize settings")
      case True
      obtain c1 e where f: "redis_flushChunk settings client c (pairs @ [pair]) = (c1, e)" by fastforce
      note step = redis_flushChunk_law [OF assms(1,2) f, of k]
      show ?thesis
      proof (cases e)
        case None
        then have "redis_putLoop ts codec settings client mii [] c1 = (c', err)" using Cons.prems(1) kv Inr True f by (simp add: Let_def)
        from Cons.IH [OF this _ sub] step new show ?thesis by (metis empty_iff empty_set)
      next
        case (Some e')
        then show ?thesis using Cons.prems(1) kv Inr True f step new by (auto simp: Let_def)
      qed
    next
      case False
      then have "redis_putLoop ts codec settings client mii (pairs @ [pair]) c = (c', err)" using Cons.prems(1) kv Inr by (simp add: Let_def)
      from Cons.IH [OF this new sub] show ?thesis .
    qed
  qed
qed

lemma redis_marshal_str:
  "(\<And>x. ts (KStr x) = Inr x) \<Longrightarrow> redis_marshalKeyValue ts codec (KStr y) v = Inr (k, b) \<longleftrightarrow> k = y \<and> Marshal codec v = Inr b"
  by (auto simp: redis_marshalKeyValue_def redis_key_str split: sum.splits)

theorem redis_kv_store:
  assumes ok: "redis_ok client rows" and codec: "kvCodec_ok codec zero" and ts: "\<And>x. ts (KStr x) = Inr x" and d: "0 \<le> rs_Ttl settings"
  shows "kv_store ts (redisOps ts codec settings client zero) (\<lambda>c. decoded codec zero (rows c)) (\<lambda>c. True)"
proof
  show "ts (KStr x) = Inr x" for x by (rule ts)
next
  fix c key c' found err x
  assume p: "op_Contains (redisOps ts codec settings client zero) c key = (c', found, err)"
  show "decoded codec zero (rows c') = decoded codec zero (rows c) \<and> True = True \<and> (err \<noteq> None \<longrightarrow> \<not> found) \<and>
      (err = None \<longrightarrow> CastKeyToString ts key = Inr x \<longrightarrow> found = (decoded codec zero (rows c) x \<noteq> None))"
  proof (cases "CastKeyToString ts key")
    case (Inl e)
    then show ?thesis using p by (simp add: redisOps_def redis_Contains_def redis_key_def)
  next
    case (Inr y)
    obtain c1 r where r: "rc_Exists client c y = (c1, r)" by fastforce
    show ?thesis using p Inr r redis_ok_Exists [OF ok r] by (cases r) (auto simp: redisOps_def redis_Contains_def redis_key_def split: if_splits)
  qed
next
  fix c key v c' v' found err x
  assume g: "op_Get (redisOps ts codec settings client zero) c key v = (c', v', found, err)"
  show "decoded codec zero (rows c') = decoded codec zero (rows c) \<and> True = True \<and> (err \<noteq> None \<longrightarrow> \<not> found) \<and>
      (err = None \<longrightarrow> CastKeyToString ts key = Inr x \<longrightarrow>
         (if found then decoded codec zero (rows c) x = Some v' else decoded codec zero (rows c) x = None \<and> v' = v))"
    using g decoded_read [OF codec, of "rows c" x]
    by (auto simp: redisOps_def redis_Get_def redis_key_def split: sum.splits prod.splits option.splits dest!: redis_ok_Get [OF ok])
next
  fix c key v c' err x
  assume p: "op_Put (redisOps ts codec settings client zero) c key v = (c', err)" and x: "CastKeyToString ts key = Inr x"
  have "decoded codec zero (rows c') = (if err = None then (decoded codec zero (rows c))(x \<mapsto> v) else decoded codec zero (rows c))"
    using p redis_key_cast [OF x] decoded_upd [OF codec]
    by (auto simp: redisOps_def redis_Put_def redis_marshalKeyValue_def split: sum.splits prod.splits option.splits dest!: redis_ok_Set [OF ok _ d])
  then show "True = True \<and> (err = None \<longrightarrow> decoded codec zero (rows c') \<subseteq>\<^sub>m (decoded codec zero (rows c))(x \<mapsto> v)) \<and>
      (err = None \<and> True \<longrightarrow> decoded codec zero (rows c') = (decoded codec zero (rows c))(x \<mapsto> v)) \<and>
      (err \<noteq> None \<longrightarrow> decoded codec zero (rows c') = decoded codec zero (rows c))" by auto
next
  fix c key c' err x
  assume p: "op_Delete (redisOps ts codec settings client zero) c key = (c', err)" and x: "CastKeyToString ts key = Inr x"
  have one: "(\<lambda>k. if k \<in> set [x] then None else rows c k) = (rows c)(x := None)" by auto
  have "decoded codec zero (rows c') = (if err = None then (decoded codec zero (rows c))(x := None) else decoded codec zero (rows c))"
    using p redis_key_cast [OF x]
    by (auto simp: redisOps_def redis_Delete_def decoded_del [symmetric] one [symmetric] split: prod.splits option.splits dest!: redis_ok_Del [OF ok])
  then show "True = True \<and> (err = None \<longrightarrow> decoded codec zero (rows c') \<subseteq>\<^sub>m (decoded codec zero (rows c))(x := None)) \<and>
      (err = None \<and> True \<longrightarrow> decoded codec zero (rows c') = (decoded codec zero (rows c))(x := None)) \<and>
      (err \<noteq> None \<longrightarrow> decoded codec zero (rows c') = decoded codec zero (rows c))" by auto
next
  fix c xs rm c' rd missing err
  assume "op_GetBatch (redisOps ts codec settings client zero) c (Val (map KStr xs)) (Val rm) = (c', rd, missing, err)" and "keyType rm = ''string''"
  then show "decoded codec zero (rows c') = decoded codec zero (rows c) \<and> True = True \<and>
      (\<exists>rm'. rd = Val rm' \<and> reads (decoded codec zero (rows c)) (set xs) rm rm' \<and>
         (err = None \<longrightarrow> set missing = KStr ` {x \<in> set xs. decoded codec zero (rows c) x = None} \<and> reads_all (decoded codec zero (rows c)) (set xs) rm'))"
    using chunk_getter.getBatch_law [OF redis_chunks [OF ok codec ts]] by (simp add: redisOps_def redis_GetBatch_def)
next
  fix c r c' err
  assume p: "op_PutBatch (redisOps ts codec settings client zero) c (Val r) = (c', err)" and wf: "gm_wf (mapValue r)" and str: "fst ` set (mapValue r) \<subseteq> range KStr"
  have "decoded codec zero (rows c) x = Some v \<or> gm_get (mapValue r) (KStr x) = Some v" if live: "decoded codec zero (rows c') x = Some v" for x v
  proof (cases "rows c' x = rows c x")
    case True
    then show ?thesis using live by (simp add: decoded_def)
  next
    case False
    then obtain b key w where b: "rows c' x = Some b" and kw: "(key, w) \<in> set (mapValue r)" "redis_marshalKeyValue ts codec key w = Inr (x, b)"
      using redis_putLoop_law [OF ok d, of ts codec "mapValue r" "[]" c c' err "mapValue r" x] p
      by (auto simp: redisOps_def redis_PutBatch_def InterfaceToMapInterfaceInterface_def)
    obtain y where y: "key = KStr y" using str kw(1) by force
    then have m: "y = x" "Marshal codec w = Inr b" using kw(2) redis_marshal_str [of ts codec y w x b, OF ts] by simp_all
    then have "w = v" using live b codec by (simp add: decoded_def kvCodec_ok_def)
    then show ?thesis using kw(1) y m(1) gm_get_in_set [OF wf] by simp
  qed
  then show "True = True \<and> (\<forall>x v. decoded codec zero (rows c') x = Some v \<longrightarrow>
      decoded codec zero (rows c) x = Some v \<or> gm_get (mapValue r) (KStr x) = Some v)" by simp
qed

text \<open>The repository as DynamoDB documents its operations; a failed batch may have been written in part.\<close>

definition ddb_ok :: "'c ddbRepository \<Rightarrow> ('c \<Rightarrow> string \<rightharpoonup> string) \<Rightarrow> bool" where
  "ddb_ok repository rows \<longleftrightarrow>
     (\<forall>c k c' r. dr_GetItem repository c k = (c', r) \<longrightarrow> rows c' = rows c \<and> (\<forall>item. r = Inr item \<longrightarrow> rows c k = map_option item_Value item)) \<and>
     (\<forall>c ks c' r. dr_BatchGetItems repository c ks = (c', r) \<longrightarrow> rows c' = rows c \<and>
        (\<forall>items. r = Inr items \<longrightarrow> (\<forall>k v. \<lparr>item_Key = k, item_Value = v\<rparr> \<in> set items \<longleftrightarrow> k \<in> set ks \<and> rows c k = Some v))) \<and>
     (\<forall>c item c' err. dr_PutItem repository c item = (c', err) \<longrightarrow> rows c' = (if err = None then (rows c)(item_Key item \<mapsto> item_Value item) else rows c)) \<and>
     (\<forall>c items c' err. dr_BatchPutItems repository c items = (c', err) \<longrightarrow>
        (\<forall>k. rows c' k = rows c k \<or> (\<exists>v. rows c' k = Some v \<and> \<lparr>item_Key = k, item_Value = v\<rparr> \<in> set items))) \<and>
     (\<forall>c k c' err. dr_DeleteItem repository c k = (c', err) \<longrightarrow> rows c' = (if err = None then (rows c)(k := None) else rows c))"

lemma ddb_ok_GetItem:
  "ddb_ok repository rows \<Longrightarrow> dr_GetItem repository c k = (c', r) \<Longrightarrow>
     rows c' = rows c \<and> (\<forall>item. r = Inr item \<longrightarrow> rows c k = map_option item_Value item)"
  unfolding ddb_ok_def by (drule conjunct1, blast)

lemma ddb_ok_BatchGetItems:
  "ddb_ok repository rows \<Longrightarrow> dr_BatchGetItems repository c ks = (c', r) \<Longrightarrow> rows c' = rows c \<and>
     (\<forall>items. r = Inr items \<longrightarrow> (\<forall>k v. \<lparr>item_Key = k, item_Value = v\<rparr> \<in> set items \<longleftrightarrow> k \<in> set ks \<and> rows c k = Some v))"
  unfolding ddb_ok_def by (drule conjunct2, drule conjunct1, blast)

lemma ddb_ok_PutItem:
  "ddb_ok repository rows \<Longrightarrow> dr_PutItem repository c item = (c', err) \<Longrightarrow>
     rows c' = (if err = None then (rows c)(item_Key item \<mapsto> item_Value item) else rows c)"
  unfolding ddb_ok_def by (drule conjunct2, drule conjunct2, drule conjunct1, blast)

lemma ddb_ok_BatchPutItems:
  "ddb_ok repository rows \<Longrightarrow> dr_BatchPutItems repository c items = (c', err) \<Longrightarrow>
     rows c' k = rows c k \<or> (\<exists>v. rows c' k = Some v \<and> \<lparr>item_Key = k, item_Value = v\<rparr> \<in> set items)"
  unfolding ddb_ok_def by (drule conjunct2, drule conjunct2, drule conjunct2, drule conjunct1, blast)

lemma ddb_ok_DeleteItem:
  "ddb_ok repository rows \<Longrightarrow> dr_DeleteItem repository c k = (c', err) \<Longrightarrow> rows c' = (if err = None then (rows c)(k := None) else rows c)"
  unfolding ddb_ok_def by (drule conjunct2, drule conjunct2, drule conjunct2, drule conjunct2, blast)

lemma ddb_keyStrings_str:
  assumes "\<And>x. ts (KStr x) = Inr x" and "\<And>x key. gm_get orig x = Some key \<Longrightarrow> key = KStr x"
  shows "\<exists>orig'. ddb_keyStrings ts (map KStr xs) orig = Inr (xs, orig') \<and>
    (\<forall>x. gm_get orig' x = (if x \<in> set xs then Some (KStr x) else gm_get orig x))"
  using assms(2)
proof (induction xs arbitrary: orig)
  case (Cons x xs)
  have "key = KStr y" if "gm_get (gm_set orig x (KStr x)) y = Some key" for y key
    using that Cons.prems [of y key] by (auto split: if_splits)
  from Cons.IH [OF this] obtain orig' where
    o: "ddb_keyStrings ts (map KStr xs) (gm_set orig x (KStr x)) = Inr (xs, orig')"
    and g: "\<forall>y. gm_get orig' y = (if y \<in> set xs then Some (KStr y) else gm_get (gm_set orig x (KStr x)) y)" by blast
  show ?case using o g assms(1) by (intro exI [of _ orig']) auto
qed simp

lemma ddb_readItems_law:
  assumes "kvCodec_ok codec zero" and "ddb_readItems codec zero orig items rm found = (rm', r)" and "keyType rm = ''string''"
    and "\<And>item. item \<in> set items \<Longrightarrow> rows (item_Key item) = Some (item_Value item) \<and> gm_get orig (item_Key item) = Some (KStr (item_Key item))"
  shows "reads (decoded codec zero rows) (item_Key ` set items) rm rm' \<and>
    (\<forall>f. r = Inr f \<longrightarrow> set f = set found \<union> item_Key ` set items \<and> reads_all (decoded codec zero rows) (item_Key ` set items) rm')"
  using assms(2-)
proof (induction items arbitrary: rm found)
  case Nil
  then show ?case by (auto simp: reads_all_def)
next
  case (Cons item items)
  let ?x = "item_Key item"
  have row: "rows ?x = Some (item_Value item)" and orig: "gm_get orig ?x = Some (KStr ?x)" using Cons.prems(3) by auto
  obtain v e where u: "Unmarshal codec (item_Value item) zero = (v, e)" by fastforce
  obtain rm1 where s: "Map_Set rm (KStr ?x) v = Inr rm1" and t: "keyType rm1 = ''string''" using Map_Set_str [OF Cons.prems(2)] by blast
  show ?case
  proof (cases e)
    case None
    have d: "decoded codec zero rows ?x = Some v" using decoded_read [OF assms(1), of rows ?x] row u None by simp
    have "ddb_readItems codec zero orig items rm1 (?x # found) = (rm', r)" using Cons.prems(1) u None s orig by simp
    from Cons.IH [OF this t Cons.prems(3)] show ?thesis
      using reads_step [where m = "decoded codec zero rows", OF d s, of "item_Key ` set items" rm']
        reads_all_step [where m = "decoded codec zero rows", OF d s, of "item_Key ` set items" rm'] by auto
  next
    case (Some err)
    then show ?thesis using Cons.prems(1) u by auto
  qed
qed

lemma ddb_chunks:
  assumes "ddb_ok repository rows" and "kvCodec_ok codec zero" and "\<And>x. ts (KStr x) = Inr x"
  shows "chunk_getter ts (ddb_getChunk ts codec repository zero) (\<lambda>c. decoded codec zero (rows c))"
proof
  show "ts (KStr x) = Inr x" for x by (rule assms(3))
next
  fix c rm xs c' rm' r
  assume g: "ddb_getChunk ts codec repository zero c rm (map KStr xs) = (c', rm', r)" and k: "keyType rm = ''string''"
  obtain orig where o: "ddb_keyStrings ts (map KStr xs) [] = Inr (xs, orig)" and orig: "\<forall>x. gm_get orig x = (if x \<in> set xs then Some (KStr x) else None)"
    using ddb_keyStrings_str [OF assms(3), of "[]" xs] by auto
  obtain c1 res where m: "dr_BatchGetItems repository c xs = (c1, res)" by fastforce
  note law = ddb_ok_BatchGetItems [OF assms(1) m]
  show "decoded codec zero (rows c') = decoded codec zero (rows c) \<and> reads (decoded codec zero (rows c)) (set xs) rm rm' \<and>
      (\<forall>missing. r = Inr missing \<longrightarrow> set missing = KStr ` {x \<in> set xs. decoded codec zero (rows c) x = None} \<and>
         reads_all (decoded codec zero (rows c)) (set xs) rm')"
  proof (cases res)
    case (Inl err)
    then show ?thesis using g o m law by (auto simp: ddb_getChunk_def)
  next
    case (Inr items)
    have mem: "item \<in> set items \<longleftrightarrow> item_Key item \<in> set xs \<and> rows c (item_Key item) = Some (item_Value item)" for item
      using law Inr by (cases item) auto
    have "x \<in> item_Key ` set items" if "x \<in> set xs" "rows c x = Some v" for x v
      using mem [of "\<lparr>item_Key = x, item_Value = v\<rparr>"] that by force
    then have keys: "item_Key ` set items = {x \<in> set xs. rows c x \<noteq> None}" using mem by auto
    have items: "rows c (item_Key item) = Some (item_Value item) \<and> gm_get orig (item_Key item) = Some (KStr (item_Key item))"
      if "item \<in> set items" for item using that mem orig by simp
    obtain rm1 r1 where read: "ddb_readItems codec zero orig items rm [] = (rm1, r1)" by fastforce
    note law2 = ddb_readItems_law [where rows = "rows c", OF assms(2) read k items, unfolded keys]
    have sub: "reads m {x \<in> set xs. P x} a b \<Longrightarrow> reads m (set xs) a b" for m :: "string \<Rightarrow> 'b option" and P a b
      by (auto simp: reads_def)
    have miss: "set (map snd (filter (\<lambda>(k, key). k \<notin> set f) (zip xs (map KStr xs)))) = KStr ` {x \<in> set xs. x \<notin> set f}" for f
      by (auto simp: zip_map2 zip_same_conv_map image_iff)
    have res: "c' = c1" "rm' = rm1" "\<And>missing. r = Inr missing \<Longrightarrow> \<exists>f. r1 = Inr f \<and> missing = map snd (filter (\<lambda>(k, key). k \<notin> set f) (zip xs (map KStr xs)))"
      using g o m Inr read by (auto simp: ddb_getChunk_def split: sum.splits)
    have "set missing = KStr ` {x \<in> set xs. rows c x = None} \<and> reads_all (decoded codec zero (rows c)) (set xs) rm'" if rr: "r = Inr missing" for missing
    proof -
      obtain f where f: "r1 = Inr f" "missing = map snd (filter (\<lambda>(k, key). k \<notin> set f) (zip xs (map KStr xs)))" using res(3) [OF rr] by blast
      have found: "set f = {x \<in> set xs. rows c x \<noteq> None}" and all: "reads_all (decoded codec zero (rows c)) {x \<in> set xs. rows c x \<noteq> None} rm1"
        using law2 f(1) by simp_all
      have "set missing = KStr ` {x \<in> set xs. rows c x = None}" unfolding f(2) by (subst miss) (auto simp: found)
      moreover have "reads_all (decoded codec zero (rows c)) (set xs) rm'" using all res(2) by (auto simp: reads_all_def)
      ultimately show ?thesis by blast
    qed
    then show ?thesis using law sub [OF law2 [THEN conjunct1]] res(1,2) by simp
  qed
qed

lemma ddb_items_law:
  "ddb_items codec orig mii ks = Inr items \<Longrightarrow> item \<in> set items \<Longrightarrow>
     item_Key item \<in> set ks \<and> Marshal codec (the (gm_get mii (the (gm_get orig (item_Key item))))) = Inr (item_Value item)"
  by (induction ks arbitrary: items) (auto split: sum.splits)

lemma ddb_PutBatch_law:
  assumes "ddb_ok repository rows" and "\<And>x. ts (KStr x) = Inr x" and "ddb_PutBatch ts codec repository c (Val r) = (c', err)"
    and "gm_wf (mapValue r)" and "fst ` set (mapValue r) \<subseteq> range KStr"
  shows "rows c' x = rows c x \<or> (\<exists>b v. rows c' x = Some b \<and> gm_get (mapValue r) (KStr x) = Some v \<and> Marshal codec v = Inr b)"
proof -
  obtain xs where xs: "map fst (mapValue r) = map KStr xs" 
    using assms(5) ex_map_conv [of "map fst (mapValue r)" KStr] by auto
  obtain orig where o: "ddb_keyStrings ts (map KStr xs) [] = Inr (xs, orig)" and orig: "\<forall>x. gm_get orig x = (if x \<in> set xs then Some (KStr x) else None)"
    using ddb_keyStrings_str [OF assms(2), of "[]" xs] by auto
  show ?thesis
  proof (cases "ddb_items codec orig (mapValue r) (sort xs)")
    case (Inl e)
    then show ?thesis using assms(3) o xs by (simp add: ddb_PutBatch_def InterfaceToMapInterfaceInterface_def)
  next
    case (Inr items)
    obtain e where put: "dr_BatchPutItems repository c items = (c', e)"
      using assms(3) o xs Inr by (auto simp: ddb_PutBatch_def InterfaceToMapInterfaceInterface_def split: prod.splits option.splits)
    have "\<exists>w. gm_get (mapValue r) (KStr x) = Some w \<and> Marshal codec w = Inr v" if i: "\<lparr>item_Key = x, item_Value = v\<rparr> \<in> set items" for v
    proof -
      have l: "x \<in> set xs" "Marshal codec (the (gm_get (mapValue r) (the (gm_get orig x)))) = Inr v" using ddb_items_law [OF Inr i] by auto
      have "KStr x \<in> fst ` set (mapValue r)" using l(1) xs by (metis image_eqI image_set)
      then obtain w where "gm_get (mapValue r) (KStr x) = Some w" by (metis gm_dom_conv not_None_eq)
      then show ?thesis using l orig by simp
    qed
    then show ?thesis using ddb_ok_BatchPutItems [OF assms(1) put, of x] by blast
  qed
qed

theorem ddb_kv_store:
  assumes ok: "ddb_ok repository rows" and codec: "kvCodec_ok codec zero" and ts: "\<And>x. ts (KStr x) = Inr x"
  shows "kv_store ts (ddbOps ts codec batchSize repository zero) (\<lambda>c. decoded codec zero (rows c)) (\<lambda>c. True)"
proof
  show "ts (KStr x) = Inr x" for x by (rule ts)
next
  fix c key c' found err x
  assume p: "op_Contains (ddbOps ts codec batchSize repository zero) c key = (c', found, err)"
  show "decoded codec zero (rows c') = decoded codec zero (rows c) \<and> True = True \<and> (err \<noteq> None \<longrightarrow> \<not> found) \<and>
      (err = None \<longrightarrow> CastKeyToString ts key = Inr x \<longrightarrow> found = (decoded codec zero (rows c) x \<noteq> None))"
  proof (cases "CastKeyToString ts key")
    case (Inl e)
    then show ?thesis using p by (simp add: ddbOps_def ddb_Contains_def)
  next
    case (Inr y)
    obtain c1 r where r: "dr_GetItem repository c y = (c1, r)" by fastforce
    show ?thesis using p Inr r ddb_ok_GetItem [OF ok r] by (cases r) (auto simp: ddbOps_def ddb_Contains_def)
  qed
next
  fix c key v c' v' found err x
  assume g: "op_Get (ddbOps ts codec batchSize repository zero) c key v = (c', v', found, err)"
  show "decoded codec zero (rows c') = decoded codec zero (rows c) \<and> True = True \<and> (err \<noteq> None \<longrightarrow> \<not> found) \<and>
      (err = None \<longrightarrow> CastKeyToString ts key = Inr x \<longrightarrow>
         (if found then decoded codec zero (rows c) x = Some v' else decoded codec zero (rows c) x = None \<and> v' = v))"
  proof (cases "CastKeyToString ts key")
    case (Inl e)
    then show ?thesis using g by (simp add: ddbOps_def ddb_Get_def)
  next
    case (Inr y)
    obtain c1 r where r: "dr_GetItem repository c y = (c1, r)" by fastforce
    note law = ddb_ok_GetItem [OF ok r]
    show ?thesis using g Inr r law decoded_read [OF codec, of "rows c" y]
      by (cases r) (auto simp: ddbOps_def ddb_Get_def split: option.splits prod.splits)
  qed
next
  fix c key v c' err x
  assume p: "op_Put (ddbOps ts codec batchSize repository zero) c key v = (c', err)" and x: "CastKeyToString ts key = Inr x"
  have "decoded codec zero (rows c') = (if err = None then (decoded codec zero (rows c))(x \<mapsto> v) else decoded codec zero (rows c))"
    using p x decoded_upd [OF codec]
    by (auto simp: ddbOps_def ddb_Put_def split: sum.splits prod.splits option.splits dest!: ddb_ok_PutItem [OF ok])
  then show "True = True \<and> (err = None \<longrightarrow> decoded codec zero (rows c') \<subseteq>\<^sub>m (decoded codec zero (rows c))(x \<mapsto> v)) \<and>
      (err = None \<and> True \<longrightarrow> decoded codec zero (rows c') = (decoded codec zero (rows c))(x \<mapsto> v)) \<and>
      (err \<noteq> None \<longrightarrow> decoded codec zero (rows c') = decoded codec zero (rows c))" by auto
next
  fix c key c' err x
  assume p: "op_Delete (ddbOps ts codec batchSize repository zero) c key = (c', err)" and x: "CastKeyToString ts key = Inr x"
  have "decoded codec zero (rows c') = (if err = None then (decoded codec zero (rows c))(x := None) else decoded codec zero (rows c))"
    using p x by (auto simp: ddbOps_def ddb_Delete_def decoded_del split: prod.splits option.splits dest!: ddb_ok_DeleteItem [OF ok])
  then show "True = True \<and> (err = None \<longrightarrow> decoded codec zero (rows c') \<subseteq>\<^sub>m (decoded codec zero (rows c))(x := None)) \<and>
      (err = None \<and> True \<longrightarrow> decoded codec zero (rows c') = (decoded codec zero (rows c))(x := None)) \<and>
      (err \<noteq> None \<longrightarrow> decoded codec zero (rows c') = decoded codec zero (rows c))" by auto
next
  fix c xs rm c' rd missing err
  assume "op_GetBatch (ddbOps ts codec batchSize repository zero) c (Val (map KStr xs)) (Val rm) = (c', rd, missing, err)" and "keyType rm = ''string''"
  then show "decoded codec zero (rows c') = decoded codec zero (rows c) \<and> True = True \<and>
      (\<exists>rm'. rd = Val rm' \<and> reads (decoded codec zero (rows c)) (set xs) rm rm' \<and>
         (err = None \<longrightarrow> set missing = KStr ` {x \<in> set xs. decoded codec zero (rows c) x = None} \<and> reads_all (decoded codec zero (rows c)) (set xs) rm'))"
    using chunk_getter.getBatch_law [OF ddb_chunks [OF ok codec ts]] by (simp add: ddbOps_def ddb_GetBatch_def)
next
  fix c r c' err
  assume p: "op_PutBatch (ddbOps ts codec batchSize repository zero) c (Val r) = (c', err)" and wf: "gm_wf (mapValue r)" and str: "fst ` set (mapValue r) \<subseteq> range KStr"
  have "decoded codec zero (rows c) x = Some v \<or> gm_get (mapValue r) (KStr x) = Some v" if "decoded codec zero (rows c') x = Some v" for x v
    using ddb_PutBatch_law [OF ok ts, of codec c r c' err x] p wf str codec that
    by (auto simp: ddbOps_def decoded_def kvCodec_ok_def)
  then show "True = True \<and> (\<forall>x v. decoded codec zero (rows c') x = Some v \<longrightarrow>
      decoded codec zero (rows c) x = Some v \<or> gm_get (mapValue r) (KStr x) = Some v)" by simp
qed

section \<open>Redis in front of DynamoDB\<close>

text \<open>The chain the subscribers of models configure: the values are those of the table, Redis holds copies.\<close>

definition remoteLive :: "'v kvCodec \<Rightarrow> 'v \<Rightarrow> ('r \<Rightarrow> string \<rightharpoonup> string) \<Rightarrow> ('d \<Rightarrow> string \<rightharpoonup> string) \<Rightarrow> 'r + 'd \<Rightarrow> string \<rightharpoonup> 'v" where
  "remoteLive codec zero rrows drows = case_sum (\<lambda>r. decoded codec zero (rrows r)) (\<lambda>d. decoded codec zero (drows d))"

lemma remote_chain:
  assumes "redis_ok client rrows" and "ddb_ok repository drows" and "kvCodec_ok codec zero" and "\<And>x. ts (KStr x) = Inr x"
    and "0 \<le> rs_Ttl settings" and "kv_store ts mops mlive mexact"
  shows "kv_chain ts (sumOps (redisOps ts codec settings client zero) (ddbOps ts codec batchSize repository zero))
    (remoteLive codec zero rrows drows) (\<lambda>s. True) mops mlive mexact"
proof -
  have "case_sum (\<lambda>_. True) (\<lambda>_. True) = (\<lambda>_. True)" by (auto simp: fun_eq_iff split: sum.split)
  then have "kv_store ts (sumOps (redisOps ts codec settings client zero) (ddbOps ts codec batchSize repository zero)) (remoteLive codec zero rrows drows) (\<lambda>s. True)"
    using sum_kv_store [OF redis_kv_store [OF assms(1,3,4,5)] ddb_kv_store [OF assms(2-4), of batchSize]] by (simp add: remoteLive_def)
  then show ?thesis using assms(6) by (rule kv_chain.intro)
qed


text \<open>Concrete clients: association lists.\<close>

definition listRedis :: "(string, string) gomap redisClient" where
  "listRedis = \<lparr>rc_Exists = \<lambda>c k. (c, Inr (if gm_get c k = None then 0 else 1)), rc_Get = \<lambda>c k. (c, Inr (gm_get c k)),
     rc_MGet = \<lambda>c ks. (c, Inr (map (gm_get c) ks)), rc_Set = \<lambda>c k v d. (gm_set c k v, None),
     rc_Exec = \<lambda>c cmds. (case cmds of MSet pairs # _ \<Rightarrow> (rev pairs @ c, None) | _ \<Rightarrow> (c, None)),
     rc_Del = \<lambda>c ks. (filter (\<lambda>(k, v). k \<notin> set ks) c, None), rc_DBSize = \<lambda>c. Inr (int (length c))\<rparr>"

lemma listRedis_ok: "redis_ok listRedis gm_get"
proof -
  have "gm_get (rev ps @ c) k = gm_get c k \<or> (\<exists>v. gm_get (rev ps @ c) k = Some v \<and> (k, v) \<in> set ps)" for ps c :: "(string, string) gomap" and k
  proof (cases "gm_get (rev ps) k")
    case None
    then show ?thesis by (simp add: map_add_def)
  next
    case (Some v)
    then show ?thesis using map_of_SomeD [OF Some] by (simp add: map_add_def)
  qed
  moreover have "gm_get (filter (\<lambda>(k, v). k \<notin> set ks) c) = (\<lambda>k. if k \<in> set ks then None else gm_get c k)" for ks and c :: "(string, string) gomap"
    by (auto simp: gm_get_filter_keys fun_eq_iff)
  ultimately show ?thesis by (simp add: redis_ok_def listRedis_def fun_eq_iff)
qed

definition listDdb :: "(string, string) gomap ddbRepository" where
  "listDdb = \<lparr>dr_GetItem = \<lambda>c k. (c, Inr (map_option (\<lambda>v. \<lparr>item_Key = k, item_Value = v\<rparr>) (gm_get c k))),
     dr_BatchGetItems = \<lambda>c ks. (c, Inr (concat (map (\<lambda>k. case gm_get c k of None \<Rightarrow> [] | Some v \<Rightarrow> [\<lparr>item_Key = k, item_Value = v\<rparr>]) ks))),
     dr_PutItem = \<lambda>c item. (gm_set c (item_Key item) (item_Value item), None),
     dr_BatchPutItems = \<lambda>c items. (c, Some (Opaque ''throttled'')),
     dr_DeleteItem = \<lambda>c k. (gm_del c k, None), dr_BatchDeleteItems = \<lambda>c ks. (fold (\<lambda>k c. gm_del c k) ks c, None)\<rparr>"

lemma listDdb_ok: "ddb_ok listDdb gm_get"
  by (auto simp: ddb_ok_def listDdb_def option.map_comp comp_def fun_eq_iff option.map_ident split: option.splits)

definition textCodec :: "string kvCodec" where
  "textCodec = \<lparr>Marshal = Inr, Unmarshal = \<lambda>b w. (b, None)\<rparr>"

lemma textCodec_ok: "kvCodec_ok textCodec zero"
  by (simp add: kvCodec_ok_def textCodec_def)


text \<open>
  What the hypothesis about the write to Redis is for: when a level in front of the table can not be written, \<open>Put\<close> only warns and
  returns nil, and later reads return the old value of that level.
\<close>

lemma failed_cache_write_serves_stale:
  assumes "op_Put ops cache key v = (cache', Some e)" and "op_Put ops table key v = (table', None)"
    and "op_Contains mops (fst (op_Delete mops m key)) key = (m', False, None)"
    and "op_Get ops cache' key w = (cache'', old, True, None)"
  shows "\<exists>c'. chain_Put ops mops \<lparr>chain = [cache, table], missingCache = m\<rparr> key v = (c', None) \<and>
    (\<exists>c''. chain_Get ops mops zero c' key w = (c'', old, True, None))"
  using assms by (simp add: chain_Put_def chain_Get_def Let_def)

end
