(* ===== verification/CloudOutputs.thy ===== *)
theory CloudOutputs
  imports Consumer KvStore "HOL-Library.Multiset"
begin

text \<open>
  The outputs of \<open>pkg/stream\<close> to Kinesis, SQS and SNS (\<open>output_kinesis.go\<close>, \<open>output_sqs.go\<close>, \<open>output_sns.go\<close>), with the writers of
  \<open>pkg/cloud/aws\<close> behind them (\<open>kinesis/record_writer.go\<close>, \<open>sqs/queue.go\<close>, \<open>sns/topic.go\<close>), and the in-memory output.

  The clients of the services are parameters over a state of their own. A call with several records has a result for every record; an
  error means that the call as a whole failed. Metrics, logs and the time spent sleeping are left out.
\<close>

section \<open>Kinesis: the record writer (record\_writer.go)\<close>

record putRecord =
  pr_Data :: string
  pr_PartitionKey :: "string option"
  pr_ExplicitHashKey :: "string option"

definition kinesisBatchSizeMax :: int where "kinesisBatchSizeMax = 500"

text \<open>The client answers every record with an error code or none.\<close>

type_synonym 's putRecordsClient = "'s \<Rightarrow> putRecord list \<Rightarrow> 's \<times> (goerr + string option list)"

definition putRecordsAndCollectFailed :: "'s putRecordsClient \<Rightarrow> putRecord list \<Rightarrow> 's \<Rightarrow> 's \<times> (goerr + putRecord list)" where
  "putRecordsAndCollectFailed client records s =
     (case client s records of
        (s, Inl err) \<Rightarrow> (s, Inl (errorf_w ''can not execute PutRecordsRequest: '' err []))
      | (s, Inr out) \<Rightarrow> (s, Inr (map ((!) records) (filter (\<lambda>i. out ! i \<noteq> None) [0..<length out]))))"

text \<open>The loop has no limit: it ends when every record was accepted or a call failed.\<close>

partial_function (option) putLoop :: "'s putRecordsClient \<Rightarrow> putRecord list \<Rightarrow> 's \<Rightarrow> ('s \<times> error) option" where
  "putLoop client records s =
     (case putRecordsAndCollectFailed client records s of
        (s', Inl err) \<Rightarrow> Some (s', Some (errorf_w ''can not write batch to stream: '' err []))
      | (s', Inr failed) \<Rightarrow> if failed = [] then Some (s', None) else putLoop client failed s')"

text \<open>Records without a key get a new one, which is written to the record of the caller. \<open>n\<close> counts the generated identifiers.\<close>

fun assignKeys :: "(nat \<Rightarrow> string) \<Rightarrow> putRecord list \<Rightarrow> nat \<Rightarrow> putRecord list \<times> nat" where
  "assignKeys uuid [] n = ([], n)"
| "assignKeys uuid (r # rs) n =
     (let (r, n) = (if pr_PartitionKey r = None \<and> pr_ExplicitHashKey r = None then (r\<lparr>pr_PartitionKey := Some (uuid n)\<rparr>, Suc n) else (r, n));
          (rs, n) = assignKeys uuid rs n
      in (r # rs, n))"

definition putRecordsBatch ::
  "(nat \<Rightarrow> string) \<Rightarrow> 's putRecordsClient \<Rightarrow> putRecord list \<Rightarrow> nat \<Rightarrow> 's \<Rightarrow> (putRecord list \<times> nat \<times> 's \<times> error) option" where
  "putRecordsBatch uuid client batch n s =
     (case assignKeys uuid batch n of (records, n) \<Rightarrow>
        map_option (\<lambda>(s, err). (records, Suc n, s, err)) (putLoop client records s))"

fun putChunks ::
  "(nat \<Rightarrow> string) \<Rightarrow> 's putRecordsClient \<Rightarrow> putRecord list list \<Rightarrow> nat \<Rightarrow> 's \<Rightarrow> (putRecord list \<times> nat \<times> 's \<times> goerr list) option" where
  "putChunks uuid client [] n s = Some ([], n, s, [])"
| "putChunks uuid client (chunk # chunks) n s =
     (case putRecordsBatch uuid client chunk n s of
        None \<Rightarrow> None
      | Some (rs, n, s, err) \<Rightarrow>
          map_option (\<lambda>(rs', n, s, errs). (rs @ rs', n, s, (case err of None \<Rightarrow> [] | Some e \<Rightarrow> [e]) @ errs)) (putChunks uuid client chunks n s))"

definition recordWriter_PutRecords ::
  "(nat \<Rightarrow> string) \<Rightarrow> string \<Rightarrow> 's putRecordsClient \<Rightarrow> putRecord list \<Rightarrow> nat \<Rightarrow> 's \<Rightarrow> (putRecord list \<times> nat \<times> 's \<times> error) option" where
  "recordWriter_PutRecords uuid stream client records n s =
     (if records = [] then Some (records, n, s, None)
      else map_option (\<lambda>(rs, n, s, errs). (rs, n, s,
             if errs = [] then None else Some (errorf_w (''can not put records to stream '' @ stream @ '': '') (Multi (concat (map err_text errs)) errs) [])))
           (putChunks uuid client (the (Chunk records kinesisBatchSizeMax)) (Suc n) s))"

definition recordWriter_PutRecord ::
  "(nat \<Rightarrow> string) \<Rightarrow> string \<Rightarrow> 's putRecordsClient \<Rightarrow> putRecord \<Rightarrow> nat \<Rightarrow> 's \<Rightarrow> (putRecord list \<times> nat \<times> 's \<times> error) option" where
  "recordWriter_PutRecord uuid stream client record n s = recordWriter_PutRecords uuid stream client [record] n s"

section \<open>Kinesis: the output (output\_kinesis.go)\<close>

definition AttributeKinesisPartitionKey :: string where "AttributeKinesisPartitionKey = ''gosoline.kinesis.partitionKey''"
definition AttributeKinesisExplicitHashKey :: string where "AttributeKinesisExplicitHashKey = ''gosoline.kinesis.explicitHashKey''"

text \<open>The values of the attributes are strings, so the casts do not fail.\<close>

definition buildRecord :: "('m \<Rightarrow> goerr + string) \<Rightarrow> ('m \<Rightarrow> attrs) \<Rightarrow> 'm \<Rightarrow> goerr + putRecord" where
  "buildRecord MarshalToBytes getAttributes msg =
     (case MarshalToBytes msg of
        Inl err \<Rightarrow> Inl (errorf_w ''can not marshal message to bytes: '' err [])
      | Inr bytes \<Rightarrow>
          (let attributes = getAttributes msg;
               r = \<lparr>pr_Data = bytes, pr_PartitionKey = gm_get attributes AttributeKinesisPartitionKey, pr_ExplicitHashKey = None\<rparr>
           in case gm_get attributes AttributeKinesisExplicitHashKey of
                None \<Rightarrow> Inr r
              | Some h \<Rightarrow> Inr (r\<lparr>pr_ExplicitHashKey := Some h, pr_PartitionKey := Some h\<rparr>)))"

fun buildRecords :: "('m \<Rightarrow> goerr + string) \<Rightarrow> ('m \<Rightarrow> attrs) \<Rightarrow> 'm list \<Rightarrow> goerr + putRecord list" where
  "buildRecords MarshalToBytes getAttributes [] = Inr []"
| "buildRecords MarshalToBytes getAttributes (msg # batch) =
     (case buildRecord MarshalToBytes getAttributes msg of
        Inl err \<Rightarrow> Inl (errorf_w ''can not build record: '' err [])
      | Inr r \<Rightarrow> (case buildRecords MarshalToBytes getAttributes batch of Inl err \<Rightarrow> Inl err | Inr rs \<Rightarrow> Inr (r # rs)))"

definition kinesisOutput_Write ::
  "(nat \<Rightarrow> string) \<Rightarrow> string \<Rightarrow> 's putRecordsClient \<Rightarrow> ('m \<Rightarrow> goerr + string) \<Rightarrow> ('m \<Rightarrow> attrs) \<Rightarrow> 'm list \<Rightarrow> nat \<Rightarrow> 's \<Rightarrow> (nat \<times> 's \<times> error) option" where
  "kinesisOutput_Write uuid stream client MarshalToBytes getAttributes batch n s =
     (case buildRecords MarshalToBytes getAttributes batch of
        Inl err \<Rightarrow> Some (n, s, Some err)
      | Inr records \<Rightarrow> map_option snd (recordWriter_PutRecords uuid stream client records n s))"

section \<open>SQS: the queue (queue.go)\<close>

record sqsMessage =
  sm_DelaySeconds :: int
  sm_MessageGroupId :: "string option"
  sm_MessageDeduplicationId :: "string option"
  sm_Body :: string

definition sqsBatchSize :: nat where "sqsBatchSize = 10"

text \<open>
  The client reports the identifiers of the entries that failed. \<open>SendBatch\<close> looks at the error only.
\<close>

type_synonym 's sendBatchClient = "'s \<Rightarrow> (string \<times> sqsMessage) list \<Rightarrow> 's \<times> (goerr + string list)"

definition queue_Send :: "('s \<Rightarrow> sqsMessage \<Rightarrow> 's \<times> error) \<Rightarrow> sqsMessage \<Rightarrow> 's \<Rightarrow> 's \<times> error" where
  "queue_Send SendMessage msg s = SendMessage s msg"

fun sendLoop :: "('m list \<Rightarrow> 's \<Rightarrow> 's \<times> error) \<Rightarrow> 'm list list \<Rightarrow> 's \<Rightarrow> 's \<times> error" where
  "sendLoop send [] s = (s, None)"
| "sendLoop send (chunk # chunks) s =
     (case send chunk s of (s, Some err) \<Rightarrow> (s, Some err) | (s, None) \<Rightarrow> sendLoop send chunks s)"

lemma sendLoop_cong [fundef_cong]:
  "chunks = chunks' \<Longrightarrow> s = s' \<Longrightarrow> (\<And>c s. c \<in> set chunks' \<Longrightarrow> f c s = g c s) \<Longrightarrow> sendLoop f chunks s = sendLoop g chunks' s'"
proof (induction chunks' arbitrary: chunks s s')
  case (Cons c cs)
  from Cons.prems(1,2) Cons.prems(3) [of c s'] Cons.IH [OF refl refl] Cons.prems(3)
  show ?case by (auto split: prod.splits option.splits)
qed simp

lemma Chunk_smaller:
  assumes "1 < length ms" and "c \<in> set (the (Chunk ms (int ((length ms + 1) div 2))))"
  shows "length c < length ms"
proof -
  have "0 < int ((length ms + 1) div 2)" using assms(1) by simp
  then obtain cs where cs: "Chunk ms (int ((length ms + 1) div 2)) = Some cs"
    and len: "\<forall>j. j < length cs \<longrightarrow> 0 < length (cs ! j) \<and> int (length (cs ! j)) \<le> int ((length ms + 1) div 2)"
    using Chunk_correct [of "int ((length ms + 1) div 2)" ms] by auto
  obtain j where "j < length cs" "c = cs ! j" using assms(2) cs by (auto simp: in_set_conv_nth)
  then have "length c \<le> (length ms + 1) div 2" using len by (metis of_nat_le_iff)
  then show ?thesis using assms(1) by linarith
qed

function queue_SendBatch :: "(nat \<Rightarrow> string) \<Rightarrow> 's sendBatchClient \<Rightarrow> sqsMessage list \<Rightarrow> nat \<times> 's \<Rightarrow> (nat \<times> 's) \<times> error" where
  "queue_SendBatch uuid client messages st =
     (if messages = [] then (st, None)
      else (case st of (n, s) \<Rightarrow>
        (case client s (zip (map uuid [n..<n + length messages]) messages) of
           (s, Inl err) \<Rightarrow>
             if as_typed ''BatchRequestTooLong'' err \<noteq> None \<and> length messages > 1
             then sendLoop (queue_SendBatch uuid client) (the (Chunk messages (int ((length messages + 1) div 2)))) (n + length messages, s)
             else ((n + length messages, s), Some err)
         | (s, Inr failed) \<Rightarrow> ((n + length messages, s), None))))"
  by pat_completeness auto
termination
  by (relation "measure (\<lambda>(uuid, client, messages, st). length messages)") (auto simp: Chunk_smaller)

declare queue_SendBatch.simps [simp del]

text \<open>A cancelled receive returns no messages and no error.\<close>

definition queue_Receive :: "RequestCanceledCheck list \<Rightarrow> ('s \<Rightarrow> 's \<times> (goerr + 'm list)) \<Rightarrow> 's \<Rightarrow> 's \<times> 'm list \<times> error" where
  "queue_Receive checks ReceiveMessage s =
     (case ReceiveMessage s of
        (s, Inl err) \<Rightarrow> if IsRequestCanceled checks (Some err) then (s, [], None) else (s, [], Some err)
      | (s, Inr messages) \<Rightarrow> (s, messages, None))"

definition queue_DeleteMessage :: "('s \<Rightarrow> string \<Rightarrow> 's \<times> error) \<Rightarrow> string \<Rightarrow> 's \<Rightarrow> 's \<times> error" where
  "queue_DeleteMessage DeleteMessage receiptHandle s = DeleteMessage s receiptHandle"

fun deleteChunks :: "('s \<Rightarrow> (string \<times> string) list \<Rightarrow> 's \<times> (goerr + string list)) \<Rightarrow> (string \<times> string) list list \<Rightarrow> 's \<Rightarrow> 's \<times> goerr list" where
  "deleteChunks client [] s = (s, [])"
| "deleteChunks client (entries # rest) s =
     (case client s entries of (s, r) \<Rightarrow>
        (case deleteChunks client rest s of (s, errs) \<Rightarrow> (s, (case r of Inl err \<Rightarrow> [err] | Inr failed \<Rightarrow> []) @ errs)))"

text \<open>The loop over \<open>entries[i:j]\<close> cuts them into pieces of at most \<open>sqsBatchSize\<close>, as \<open>keyChunks\<close> does.\<close>

definition queue_DeleteMessageBatch ::
  "(nat \<Rightarrow> string) \<Rightarrow> ('s \<Rightarrow> (string \<times> string) list \<Rightarrow> 's \<times> (goerr + string list)) \<Rightarrow> string list \<Rightarrow> nat \<times> 's \<Rightarrow> (nat \<times> 's) \<times> error" where
  "queue_DeleteMessageBatch uuid client receiptHandles = (\<lambda>(n, s).
     case deleteChunks client (keyChunks (zip (map uuid [n..<n + length receiptHandles]) receiptHandles) sqsBatchSize) s of
       (s, errs) \<Rightarrow> ((n + length receiptHandles, s), ErrorOrNil errs))"

section \<open>SQS: the output (output\_sqs.go)\<close>

definition AttributeSqsMessageGroupId :: string where "AttributeSqsMessageGroupId = ''sqsMessageGroupId''"
definition AttributeSqsMessageDeduplicationId :: string where "AttributeSqsMessageDeduplicationId = ''sqsMessageDeduplicationId''"
definition SqsOutputBatchSize :: int where "SqsOutputBatchSize = 10"

definition nonEmpty :: "string option \<Rightarrow> string option" where
  "nonEmpty v = (case v of None \<Rightarrow> None | Some t \<Rightarrow> if t = [] then None else Some t)"

definition buildSqsMessage :: "(string \<Rightarrow> goerr + int) \<Rightarrow> ('m \<Rightarrow> goerr + string) \<Rightarrow> ('m \<Rightarrow> attrs) \<Rightarrow> 'm \<Rightarrow> goerr + sqsMessage" where
  "buildSqsMessage ToInt32E MarshalToString getAttributes msg =
     (let attributes = getAttributes msg
      in case (case gm_get attributes AttributeSqsDelaySeconds of None \<Rightarrow> Inr 0 | Some d \<Rightarrow> ToInt32E d) of
           Inl err \<Rightarrow> Inl (errorf_w (''the type of the '' @ AttributeSqsDelaySeconds @ '' attribute should be castable to int32: '') err [])
         | Inr delay \<Rightarrow>
             (case MarshalToString msg of
                Inl err \<Rightarrow> Inl err
              | Inr body \<Rightarrow> Inr \<lparr>sm_DelaySeconds = delay, sm_MessageGroupId = nonEmpty (gm_get attributes AttributeSqsMessageGroupId),
                  sm_MessageDeduplicationId = nonEmpty (gm_get attributes AttributeSqsMessageDeduplicationId), sm_Body = body\<rparr>))"

fun buildSqsMessages :: "('m \<Rightarrow> goerr + sqsMessage) \<Rightarrow> 'm list \<Rightarrow> sqsMessage list \<times> goerr list" where
  "buildSqsMessages build [] = ([], [])"
| "buildSqsMessages build (msg # messages) =
     (case buildSqsMessages build messages of (ok, errs) \<Rightarrow>
        (case build msg of Inl err \<Rightarrow> (ok, err # errs) | Inr m \<Rightarrow> (m # ok, errs)))"

fun sqsChunks :: "('m \<Rightarrow> goerr + sqsMessage) \<Rightarrow> (sqsMessage list \<Rightarrow> 'q \<Rightarrow> 'q \<times> error) \<Rightarrow> 'm list list \<Rightarrow> 'q \<Rightarrow> 'q \<times> goerr list" where
  "sqsChunks build SendBatch [] q = (q, [])"
| "sqsChunks build SendBatch (chunk # chunks) q =
     (case buildSqsMessages build chunk of (messages, errs) \<Rightarrow>
        (let es = (if errs = [] then [] else [Multi (concat (map err_text errs)) errs]);
             (q, es) = (if messages = [] then (q, es)
                        else case SendBatch messages q of (q, None) \<Rightarrow> (q, es) | (q, Some err) \<Rightarrow> (q, es @ [err]));
             (q, rest) = sqsChunks build SendBatch chunks q
         in (q, es @ rest)))"

definition sqsOutput_Write :: "('m \<Rightarrow> goerr + sqsMessage) \<Rightarrow> (sqsMessage list \<Rightarrow> 'q \<Rightarrow> 'q \<times> error) \<Rightarrow> 'm list \<Rightarrow> 'q \<Rightarrow> 'q \<times> error" where
  "sqsOutput_Write build SendBatch batch q =
     (case sqsChunks build SendBatch (the (Chunk batch SqsOutputBatchSize)) q of
        (q, errs) \<Rightarrow> (q, if errs = [] then None
                         else Some (errorf_w ''there were errors on writing to the sqs stream: '' (Multi (concat (map err_text errs)) errs) [])))"

definition sqsOutput_WriteOne :: "('m \<Rightarrow> goerr + sqsMessage) \<Rightarrow> (sqsMessage \<Rightarrow> 'q \<Rightarrow> 'q \<times> error) \<Rightarrow> 'm \<Rightarrow> 'q \<Rightarrow> 'q \<times> error" where
  "sqsOutput_WriteOne build Send msg q =
     (case build msg of
        Inl err \<Rightarrow> (q, Some (errorf_w ''could not build sqs message: '' err []))
      | Inr m \<Rightarrow> (case Send m q of (q, None) \<Rightarrow> (q, None) | (q, Some err) \<Rightarrow> (q, Some (errorf_w ''could not send sqs message: '' err []))))"

section \<open>SNS: the topic (topic.go, attributes.go)\<close>

definition MaxBatchSize :: nat where "MaxBatchSize = 10"

definition charCode :: "char \<Rightarrow> nat" where
  "charCode c = of_char c"

definition toLowerAscii :: "string \<Rightarrow> string" where
  "toLowerAscii = map (\<lambda>c. if 65 \<le> charCode c \<and> charCode c \<le> 90 then char_of (charCode c + 32) else c)"

definition attributeChar :: "char \<Rightarrow> bool" where
  "attributeChar c \<longleftrightarrow> (97 \<le> charCode c \<and> charCode c \<le> 122) \<or> (48 \<le> charCode c \<and> charCode c \<le> 57) \<or> c = CHR ''_'' \<or> c = CHR ''-''"

text \<open>The expression of the code: \<open>inSegment\<close> tells whether the segment has a character already.\<close>

fun attributeRegex :: "bool \<Rightarrow> string \<Rightarrow> bool" where
  "attributeRegex inSegment [] \<longleftrightarrow> inSegment"
| "attributeRegex inSegment (c # cs) \<longleftrightarrow>
     (if c = CHR ''.'' then inSegment \<and> attributeRegex False cs else attributeChar c \<and> attributeRegex True cs)"

definition IsValidAttributeName :: "string \<Rightarrow> bool" where
  "IsValidAttributeName name =
     (let name = toLowerAscii name
      in \<not> (take 4 name = ''aws.'' \<or> take 7 name = ''amazon.'') \<and> length name \<le> 256 \<and> attributeRegex False name)"

definition buildAttributes :: "attrs list \<Rightarrow> attrs" where
  "buildAttributes attributes = fold (\<lambda>attrs out. fold (\<lambda>(key, val) out. if IsValidAttributeName key then gm_set out key val else out) attrs out) attributes []"

definition published :: "RequestCanceledCheck list \<Rightarrow> string \<Rightarrow> error \<Rightarrow> error" where
  "published checks msg err =
     (case err of
        None \<Rightarrow> None
      | Some e \<Rightarrow> if IsRequestCanceled checks (Some e) then Some (errorf_w ''request was canceled while publishing to topic: '' e [])
                  else Some (errorf_w msg e []))"

definition topic_Publish :: "RequestCanceledCheck list \<Rightarrow> ('s \<Rightarrow> string \<times> attrs \<Rightarrow> 's \<times> error) \<Rightarrow> string \<Rightarrow> attrs list \<Rightarrow> 's \<Rightarrow> 's \<times> error" where
  "topic_Publish checks Publish msg attributes s =
     (case Publish s (msg, buildAttributes attributes) of (s, err) \<Rightarrow> (s, published checks ''could not publish message: '' err))"

record publishEntry =
  pe_Id :: string
  pe_Message :: string
  pe_Attributes :: attrs

definition computeEntries :: "string list \<Rightarrow> attrs list \<Rightarrow> publishEntry list" where
  "computeEntries messages attributes =
     map (\<lambda>i. \<lparr>pe_Id = itoa (int i), pe_Message = messages ! i, pe_Attributes = buildAttributes [attributes ! i]\<rparr>) [0..<length messages]"

text \<open>The result of the client names the entries that failed; only its error is looked at.\<close>

type_synonym 's publishBatchClient = "'s \<Rightarrow> publishEntry list \<Rightarrow> 's \<times> (goerr + string list)"

definition publishSubSlice :: "RequestCanceledCheck list \<Rightarrow> 's publishBatchClient \<Rightarrow> publishEntry list \<Rightarrow> 's \<Rightarrow> 's \<times> error" where
  "publishSubSlice checks client entries s =
     (if length entries > MaxBatchSize then (s, Some (Opaque ''batch is too large, max length is 10''))
      else case client s entries of
             (s, Inl err) \<Rightarrow> (s, published checks ''could not publish batch: '' (Some err))
           | (s, Inr failed) \<Rightarrow> (s, None))"

fun publishSlices :: "RequestCanceledCheck list \<Rightarrow> 's publishBatchClient \<Rightarrow> nat \<Rightarrow> publishEntry list list \<Rightarrow> 's \<Rightarrow> 's \<times> error" where
  "publishSlices checks client i [] s = (s, None)"
| "publishSlices checks client i (part # parts) s =
     (case publishSubSlice checks client part s of
        (s, Some err) \<Rightarrow> (s, Some (errorf_w (''could not publish sub slice ['' @ itoa (int i) @ '', '' @ itoa (int (i + length part) - 1) @ '']:'') err []))
      | (s, None) \<Rightarrow> publishSlices checks client (i + MaxBatchSize) parts s)"

definition topic_PublishBatch ::
  "RequestCanceledCheck list \<Rightarrow> 's publishBatchClient \<Rightarrow> string list \<Rightarrow> attrs list \<Rightarrow> 's \<Rightarrow> 's \<times> error" where
  "topic_PublishBatch checks client messages attributes s =
     (if length messages \<noteq> length attributes then (s, Some (Opaque ''there should be as many attributes as messages''))
      else publishSlices checks client 0 (keyChunks (computeEntries messages attributes) MaxBatchSize) s)"

section \<open>SNS: the output (output\_sns.go)\<close>

fun computeMessagesAttributes :: "('m \<Rightarrow> goerr + string) \<Rightarrow> ('m \<Rightarrow> attrs) \<Rightarrow> nat \<Rightarrow> 'm list \<Rightarrow> goerr + string list \<times> attrs list" where
  "computeMessagesAttributes MarshalToString getAttributes i [] = Inr ([], [])"
| "computeMessagesAttributes MarshalToString getAttributes i (msg # batch) =
     (case MarshalToString msg of
        Inl err \<Rightarrow> Inl (errorf_w (''failed to marshal message '' @ itoa (int i) @ '': '') err [])
      | Inr m \<Rightarrow>
          (case computeMessagesAttributes MarshalToString getAttributes (Suc i) batch of
             Inl err \<Rightarrow> Inl err
           | Inr (ms, as) \<Rightarrow> Inr (m # ms, getAttributes msg # as)))"

definition snsOutput_Write ::
  "RequestCanceledCheck list \<Rightarrow> 's publishBatchClient \<Rightarrow> ('m \<Rightarrow> goerr + string) \<Rightarrow> ('m \<Rightarrow> attrs) \<Rightarrow> 'm list \<Rightarrow> 's \<Rightarrow> 's \<times> error" where
  "snsOutput_Write checks client MarshalToString getAttributes batch s =
     (case computeMessagesAttributes MarshalToString getAttributes 0 batch of
        Inl err \<Rightarrow> (s, Some (errorf_w ''could not compute message attributes: '' err []))
      | Inr (messages, attributes) \<Rightarrow>
          (case topic_PublishBatch checks client messages attributes s of
             (s, Some err) \<Rightarrow> (s, Some (errorf_w ''can not publish message batch: '' err []))
           | (s, None) \<Rightarrow> (s, None)))"

definition snsOutput_WriteOne ::
  "RequestCanceledCheck list \<Rightarrow> ('s \<Rightarrow> string \<times> attrs \<Rightarrow> 's \<times> error) \<Rightarrow> ('m \<Rightarrow> goerr + string) \<Rightarrow> ('m \<Rightarrow> attrs) \<Rightarrow> 'm \<Rightarrow> 's \<Rightarrow> 's \<times> error" where
  "snsOutput_WriteOne checks Publish MarshalToString getAttributes msg s =
     (case MarshalToString msg of
        Inl err \<Rightarrow> (s, Some (errorf_w ''can not marshal message to string: '' err []))
      | Inr body \<Rightarrow>
          (case topic_Publish checks Publish body [getAttributes msg] s of
             (s, Some err) \<Rightarrow> (s, Some (errorf_w ''can not publish message: '' err []))
           | (s, None) \<Rightarrow> (s, None)))"

section \<open>The in-memory output (output\_in\_memory.go)\<close>

datatype writable = WMsg Message | WRaw string | WOther string attrs

fun memoryOutput_Write :: "(string \<Rightarrow> goerr + Message) \<Rightarrow> writable list \<Rightarrow> Message list \<Rightarrow> Message list \<times> error" where
  "memoryOutput_Write Unmarshal [] messages = (messages, None)"
| "memoryOutput_Write Unmarshal (msg # batch) messages =
     (case (case msg of WMsg m \<Rightarrow> Inr m | WRaw body \<Rightarrow> Unmarshal body | WOther body as \<Rightarrow> Inr \<lparr>Attributes = as, Body = body\<rparr>) of
        Inl err \<Rightarrow> (messages, Some err)
      | Inr m \<Rightarrow> memoryOutput_Write Unmarshal batch (messages @ [m]))"
section \<open>What Kinesis receives\<close>

text \<open>
  The service for calls of at most 500 records: it answers every record, and holds exactly those it accepted; a call that fails may have been
  carried out in part.
\<close>

definition kinesis_ok :: "'s putRecordsClient \<Rightarrow> ('s \<Rightarrow> putRecord multiset) \<Rightarrow> bool" where
  "kinesis_ok client written \<longleftrightarrow> (\<forall>s rs s' r. client s rs = (s', r) \<longrightarrow> rs \<noteq> [] \<longrightarrow> length rs \<le> nat kinesisBatchSizeMax \<longrightarrow>
     (case r of
        Inl err \<Rightarrow> written s \<subseteq># written s' \<and> written s' \<subseteq># written s + mset rs
      | Inr out \<Rightarrow> length out = length rs \<and> written s' = written s + mset (map ((!) rs) (filter (\<lambda>i. out ! i = None) [0..<length rs]))))"

lemma kinesis_ok_law:
  "kinesis_ok client written \<Longrightarrow> client s rs = (s', r) \<Longrightarrow> rs \<noteq> [] \<Longrightarrow> length rs \<le> nat kinesisBatchSizeMax \<Longrightarrow>
     (case r of
        Inl err \<Rightarrow> written s \<subseteq># written s' \<and> written s' \<subseteq># written s + mset rs
      | Inr out \<Rightarrow> length out = length rs \<and> written s' = written s + mset (map ((!) rs) (filter (\<lambda>i. out ! i = None) [0..<length rs])))"
  unfolding kinesis_ok_def by blast

lemma mset_partition: "mset (map f (filter P xs)) + mset (map f (filter (\<lambda>i. \<not> P i) xs)) = mset (map f xs)"
  by (induction xs) auto

lemma mset_nth_split:
  "mset (map ((!) rs) (filter P [0..<length rs])) + mset (map ((!) rs) (filter (\<lambda>i. \<not> P i) [0..<length rs])) = mset rs"
  by (simp only: mset_partition map_nth)

text \<open>One call: what was accepted and what has to be written again make up the call.\<close>

lemma collectFailed_law:
  assumes "kinesis_ok client written" and "rs \<noteq> []" and "length rs \<le> nat kinesisBatchSizeMax"
    and "putRecordsAndCollectFailed client rs s = (s', r)"
  shows "written s \<subseteq># written s' \<and> (case r of
      Inl err \<Rightarrow> written s' \<subseteq># written s + mset rs
    | Inr failed \<Rightarrow> written s' + mset failed = written s + mset rs \<and> length failed \<le> length rs)"
proof -
  obtain s1 r1 where c: "client s rs = (s1, r1)" by fastforce
  note law = kinesis_ok_law [OF assms(1) c assms(2,3)]
  show ?thesis
  proof (cases r1)
    case (Inl err)
    then show ?thesis using assms(4) c law by (auto simp: putRecordsAndCollectFailed_def)
  next
    case (Inr out)
    then have "s' = s1" "r = Inr (map ((!) rs) (filter (\<lambda>i. \<not> out ! i = None) [0..<length rs]))"
      using assms(4) c law by (auto simp: putRecordsAndCollectFailed_def)
    then show ?thesis
      using law Inr mset_nth_split [of rs "\<lambda>i. out ! i = None"] length_filter_le [of "\<lambda>i. \<not> out ! i = None" "[0..<length rs]"]
      by (simp add: union_assoc)
  qed
qed

lemma putLoop_written:
  assumes "putLoop client rs s = Some (s', err)" and "kinesis_ok client written" and "rs \<noteq> []" and "length rs \<le> nat kinesisBatchSizeMax"
  shows "written s \<subseteq># written s' \<and> written s' \<subseteq># written s + mset rs \<and> (err = None \<longrightarrow> written s' = written s + mset rs)"
  using assms
proof (induction client rs s "(s', err)" arbitrary: s' err rule: putLoop.raw_induct [rotated, consumes 1, case_names step])
  case (step loop client rs s)
  obtain s1 r where c: "putRecordsAndCollectFailed client rs s = (s1, r)" by fastforce
  note law = collectFailed_law [OF step(3-5) c]
  show ?case
  proof (cases r)
    case (Inl e)
    then show ?thesis using step(2) c law by auto
  next
    case (Inr failed)
    show ?thesis
    proof (cases "failed = []")
      case True
      then show ?thesis using step(2) c law Inr by auto
    next
      case False
      then have "loop client failed s1 = Some (s', err)" using step(2) c Inr by simp
      from step(1) [OF this] step(3,5) False law Inr
      have IH: "written s1 \<subseteq># written s' \<and> written s' \<subseteq># written s1 + mset failed \<and> (err = None \<longrightarrow> written s' = written s1 + mset failed)" by simp
      then show ?thesis using law Inr by (auto intro: subset_mset.order_trans)
    qed
  qed
qed

text \<open>A service that accepts at least one record of every call it answers.\<close>

definition kinesis_progress :: "'s putRecordsClient \<Rightarrow> bool" where
  "kinesis_progress client \<longleftrightarrow> (\<forall>s rs s' out. client s rs = (s', Inr out) \<longrightarrow> rs \<noteq> [] \<longrightarrow> length out = length rs \<and> None \<in> set out)"

lemma putLoop_returns:
  assumes "kinesis_progress client" and "rs \<noteq> []"
  shows "\<exists>y. putLoop client rs s = Some y"
  using assms(2)
proof (induction "length rs" arbitrary: rs s rule: less_induct)
  case less
  obtain s1 r where c: "client s rs = (s1, r)" by fastforce
  show ?case
  proof (cases r)
    case (Inl err)
    then show ?thesis using c by (simp add: putLoop.simps [of client rs s] putRecordsAndCollectFailed_def)
  next
    case (Inr out)
    let ?failed = "map ((!) rs) (filter (\<lambda>i. out ! i \<noteq> None) [0..<length out])"
    have out: "length out = length rs" "None \<in> set out" using assms(1) c Inr less.prems by (auto simp: kinesis_progress_def)
    then obtain i where "i < length out" "out ! i = None" by (metis in_set_conv_nth)
    then have "length (filter (\<lambda>i. out ! i \<noteq> None) [0..<length out]) < length [0..<length out]"
      by (intro length_filter_less [of i]) auto
    then have small: "length ?failed < length rs" using out(1) by simp
    have "putLoop client rs s = (if ?failed = [] then Some (s1, None) else putLoop client ?failed s1)"
      using c Inr by (simp add: putLoop.simps [of client rs s] putRecordsAndCollectFailed_def)
    then show ?thesis using less.hyps [OF small, of s1] by metis
  qed
qed

text \<open>
  The settings of the back-off do not limit the loop: against a service that answers but accepts nothing it never returns.
\<close>

lemma putLoop_never_gives_up:
  assumes "\<And>s rs. client s rs = (s, Inr (replicate (length rs) (Some code)))" and "rs \<noteq> []"
  shows "putLoop client rs s = None"
proof -
  have "False" if "putLoop client rs s = Some y" for y using that assms
  proof (induction client rs s y rule: putLoop.raw_induct [rotated, consumes 1, case_names step])
    case (step loop client rs s y)
    have "filter (\<lambda>i. replicate (length rs) (Some code) ! i \<noteq> None) [0..<length rs] = [0..<length rs]" by (simp add: filter_id_conv)
    then have "putRecordsAndCollectFailed client rs s = (s, Inr rs)"
      using step(3) by (simp add: putRecordsAndCollectFailed_def map_nth)
    then have "loop client rs s = Some y" using step(2,4) by simp
    then show ?case using step(1,3,4) by blast
  qed
  then show ?thesis by (cases "putLoop client rs s") auto
qed

text \<open>What the writer may change of a record: it gets a partition key when it has no key at all.\<close>

definition keyed :: "putRecord \<Rightarrow> putRecord \<Rightarrow> bool" where
  "keyed r r' \<longleftrightarrow> (if pr_PartitionKey r = None \<and> pr_ExplicitHashKey r = None then \<exists>k. r' = r\<lparr>pr_PartitionKey := Some k\<rparr> else r' = r)"

lemma assignKeys_keyed: "assignKeys uuid rs n = (rs', n') \<Longrightarrow> list_all2 keyed rs rs'"
  by (induction uuid rs n arbitrary: rs' n' rule: assignKeys.induct) (auto simp: keyed_def Let_def split: if_splits prod.splits)

lemma putChunks_written:
  assumes "kinesis_ok client written" and "\<And>c. c \<in> set chunks \<Longrightarrow> c \<noteq> [] \<and> length c \<le> nat kinesisBatchSizeMax"
    and "putChunks uuid client chunks n s = Some (rs, n', s', errs)"
  shows "list_all2 keyed (concat chunks) rs \<and> written s \<subseteq># written s' \<and> written s' \<subseteq># written s + mset rs \<and>
    (errs = [] \<longrightarrow> written s' = written s + mset rs)"
  using assms(2,3)
proof (induction chunks arbitrary: n s rs errs n')
  case (Cons chunk chunks)
  obtain recs n1 where a: "assignKeys uuid chunk n = (recs, n1)" by fastforce
  obtain s1 err rs2 n2 errs2 where p: "putLoop client recs s = Some (s1, err)"
    and q: "putChunks uuid client chunks (Suc n1) s1 = Some (rs2, n2, s', errs2)"
    and r: "rs = recs @ rs2" "errs = (case err of None \<Rightarrow> [] | Some e \<Rightarrow> [e]) @ errs2"
    using Cons.prems(2) a by (auto simp: putRecordsBatch_def split: option.splits)
  have keys: "list_all2 keyed chunk recs" using a by (rule assignKeys_keyed)
  then have recs: "recs \<noteq> []" "length recs \<le> nat kinesisBatchSizeMax" using Cons.prems(1) [of chunk] list_all2_lengthD by fastforce+
  note one = putLoop_written [OF p assms(1) recs]
  have "\<And>c. c \<in> set chunks \<Longrightarrow> c \<noteq> [] \<and> length c \<le> nat kinesisBatchSizeMax" using Cons.prems(1) by simp
  note rest = Cons.IH [OF this q]
  have "written s1 + mset rs2 \<subseteq># (written s + mset recs) + mset rs2" using one by (simp only: mset_subset_eq_mono_add_right_cancel)
  then have "written s' \<subseteq># written s + mset rs" using rest r(1) subset_mset.order_trans by (fastforce simp: union_assoc)
  moreover have "written s \<subseteq># written s'" using one rest subset_mset.order_trans by blast
  ultimately show ?case using one rest r keys by (auto simp: list_all2_appendI split: option.splits)
qed simp

lemma chunks_of_records:
  "c \<in> set (the (Chunk records kinesisBatchSizeMax)) \<Longrightarrow> c \<noteq> [] \<and> length c \<le> nat kinesisBatchSizeMax"
  "concat (the (Chunk records kinesisBatchSizeMax)) = records"
  using Chunk_correct [of kinesisBatchSizeMax records] by (auto simp: kinesisBatchSizeMax_def in_set_conv_nth)

lemma putChunks_returns:
  assumes "kinesis_progress client" and "\<And>c. c \<in> set chunks \<Longrightarrow> c \<noteq> []"
  shows "\<exists>y. putChunks uuid client chunks n s = Some y"
  using assms(2)
proof (induction chunks arbitrary: n s)
  case (Cons chunk chunks)
  obtain recs n1 where a: "assignKeys uuid chunk n = (recs, n1)" by fastforce
  have "recs \<noteq> []" using list_all2_lengthD [OF assignKeys_keyed [OF a]] Cons.prems [of chunk] by auto
  then obtain s1 err where "putLoop client recs s = Some (s1, err)" using putLoop_returns [OF assms(1)] by (metis surj_pair)
  moreover obtain y where "putChunks uuid client chunks (Suc n1) s1 = Some y" using Cons.IH Cons.prems by (metis list.set_intros(2))
  ultimately show ?case using a by (cases y) (simp add: putRecordsBatch_def)
qed simp


text \<open>A service that refuses the first record whenever there are several.\<close>

definition demoKinesis :: "putRecord multiset putRecordsClient" where
  "demoKinesis s rs = (case rs of [] \<Rightarrow> (s, Inr []) | [r] \<Rightarrow> (add_mset r s, Inr [None]) | r # rs \<Rightarrow> (s + mset rs, Inr (Some ''throttled'' # map (\<lambda>_. None) rs)))"

lemma demoKinesis_ok: "kinesis_ok demoKinesis id" "kinesis_progress demoKinesis"
proof -
  have "mset (map ((!) (r # rs)) (filter (\<lambda>i. (Some c # map (\<lambda>_. None) rs) ! i = None) [0..<length (r # rs)])) = mset rs" for r rs and c :: string
  proof -
    have "filter (\<lambda>i. (Some c # map (\<lambda>_. None) rs) ! i = None) [0..<length (r # rs)] = map Suc [0..<length rs]"
    proof -
      have "[0..<length (r # rs)] = 0 # map Suc [0..<length rs]" by (simp add: map_Suc_upt upt_conv_Cons del: upt_Suc)
      then show ?thesis by (simp add: filter_map comp_def filter_id_conv del: upt_Suc)
    qed
    then show ?thesis by (simp add: comp_def map_nth)
  qed
  note accepted = this
  show "kinesis_ok demoKinesis id"
    unfolding kinesis_ok_def
  proof (intro allI impI)
    fix s rs s' r
    assume d: "demoKinesis s rs = (s', r)" and "rs \<noteq> []"
    then consider x where "rs = [x]" | x y ys where "rs = x # y # ys" by (metis list.exhaust)
    then show "case r of Inl err \<Rightarrow> id s \<subseteq># id s' \<and> id s' \<subseteq># id s + mset rs
      | Inr out \<Rightarrow> length out = length rs \<and> id s' = id s + mset (map ((!) rs) (filter (\<lambda>i. out ! i = None) [0..<length rs]))"
    proof cases
      case 1
      then show ?thesis using d by (auto simp: demoKinesis_def)
    next
      case 2
      then have "r = Inr (Some ''throttled'' # map (\<lambda>_. None) (y # ys))" "s' = s + mset (y # ys)" using d by (simp_all add: demoKinesis_def)
      then show ?thesis using accepted [of x "y # ys" "''throttled''"] 2 by (simp only: sum.case id_apply length_Cons length_map simp_thms)
    qed
  qed
  show "kinesis_progress demoKinesis" by (auto simp: kinesis_progress_def demoKinesis_def split: list.splits)
qed


section \<open>Outputs that keep the order\<close>

text \<open>A writer that, when it reports no error, has delivered the messages it was given, in their order.\<close>

locale ordered_writer =
  fixes emit :: "'m list \<Rightarrow> 's \<Rightarrow> 's \<times> error" and delivered :: "'s \<Rightarrow> 'r list" and enc :: "'m \<Rightarrow> 'r"
  assumes write_law: "emit ms s = (s', None) \<Longrightarrow> delivered s' = delivered s @ map enc ms"
begin

lemma sendLoop_law: "sendLoop emit chunks s = (s', None) \<Longrightarrow> delivered s' = delivered s @ map enc (concat chunks)"
  by (induction chunks arbitrary: s) (auto split: prod.splits option.splits dest!: write_law)

end

definition writableMessage :: "(string \<Rightarrow> goerr + Message) \<Rightarrow> writable \<Rightarrow> Message" where
  "writableMessage Unmarshal w =
     (case w of WMsg m \<Rightarrow> m | WRaw body \<Rightarrow> (case Unmarshal body of Inr m \<Rightarrow> m | Inl e \<Rightarrow> \<lparr>Attributes = [], Body = body\<rparr>)
      | WOther body as \<Rightarrow> \<lparr>Attributes = as, Body = body\<rparr>)"

interpretation memoryOut: ordered_writer "memoryOutput_Write Unmarshal" "\<lambda>messages. messages" "writableMessage Unmarshal" for Unmarshal
proof
  show "s' = s @ map (writableMessage Unmarshal) ms" if "memoryOutput_Write Unmarshal ms s = (s', None)" for ms s s'
    using that by (induction ms arbitrary: s) (fastforce simp: writableMessage_def split: writable.splits sum.splits)+
qed

section \<open>What SQS receives\<close>

text \<open>The queue takes the entries it does not report as failed; a request that is too long is not carried out.\<close>

definition sqs_ok :: "'s sendBatchClient \<Rightarrow> ('s \<Rightarrow> sqsMessage list) \<Rightarrow> bool" where
  "sqs_ok client sent \<longleftrightarrow>
     (\<forall>s es s' failed. client s es = (s', Inr failed) \<longrightarrow> sent s' = sent s @ map snd (filter (\<lambda>(i, m). i \<notin> set failed) es)) \<and>
     (\<forall>s es s' err. client s es = (s', Inl err) \<longrightarrow> as_typed ''BatchRequestTooLong'' err \<noteq> None \<longrightarrow> sent s' = sent s)"

definition sqs_all_or_nothing :: "'s sendBatchClient \<Rightarrow> bool" where
  "sqs_all_or_nothing client \<longleftrightarrow> (\<forall>s es s' failed. client s es = (s', Inr failed) \<longrightarrow> failed = [])"

lemma concat_halves:
  assumes "1 < length ms"
  shows "concat (the (Chunk ms (int ((length ms + 1) div 2)))) = ms"
proof -
  have "0 < int ((length ms + 1) div 2)" using assms by simp
  then show ?thesis using Chunk_correct [of "int ((length ms + 1) div 2)" ms] by auto
qed

lemma SendBatch_sends_all:
  assumes "sqs_ok client sent" and "sqs_all_or_nothing client" and "queue_SendBatch uuid client ms st = (st', None)"
  shows "sent (snd st') = sent (snd st) @ ms"
  using assms(3)
proof (induction "length ms" arbitrary: ms st st' rule: less_induct)
  case less
  obtain n s where st: "st = (n, s)" by fastforce
  obtain s1 r where c: "client s (zip (map uuid [n..<n + length ms]) ms) = (s1, r)" by fastforce
  have ids: "map snd (zip (map uuid [n..<n + length ms]) ms) = ms" by simp
  show ?case
  proof (cases "ms = []")
    case True
    then show ?thesis using less.prems by (simp add: queue_SendBatch.simps)
  next
    case ne: False
    show ?thesis
    proof (cases r)
      case (Inr failed)
      then have "failed = []" using assms(2) c by (simp add: sqs_all_or_nothing_def)
      with Inr c have "sent s1 = sent s @ map snd (filter (\<lambda>(i, m). i \<notin> set []) (zip (map uuid [n..<n + length ms]) ms))"
        using assms(1) unfolding sqs_ok_def by metis
      then have "sent s1 = sent s @ ms" by (simp add: case_prod_unfold)
      then show ?thesis using less.prems ne c Inr st by (simp add: queue_SendBatch.simps [of _ _ ms]) auto
    next
      case (Inl err)
      then have long: "as_typed ''BatchRequestTooLong'' err \<noteq> None" "1 < length ms"
        and loop: "sendLoop (queue_SendBatch uuid client) (the (Chunk ms (int ((length ms + 1) div 2)))) (n + length ms, s1) = (st', None)"
        using less.prems ne c st by (auto simp: queue_SendBatch.simps [of _ _ ms] split: if_splits)
      have s1: "sent s1 = sent s" using assms(1) c Inl long(1) by (simp add: sqs_ok_def)
      have step: "sent (snd b) = sent (snd a) @ x" if "x \<in> set (the (Chunk ms (int ((length ms + 1) div 2))))" "queue_SendBatch uuid client x a = (b, None)" for x a b
        using less.hyps [OF Chunk_smaller [OF long(2) that(1)] that(2)] .
      have "sendLoop (queue_SendBatch uuid client) cs a = (b, None) \<Longrightarrow> set cs \<subseteq> set (the (Chunk ms (int ((length ms + 1) div 2)))) \<Longrightarrow> sent (snd b) = sent (snd a) @ concat cs" for cs a b
        using step by (induction cs arbitrary: a) (fastforce split: prod.splits option.splits)+
      from this [OF loop] show ?thesis using s1 st concat_halves [OF long(2)] by simp
    qed
  qed
qed

lemma queueWriter:
  assumes "sqs_ok client sent" and "sqs_all_or_nothing client"
  shows "ordered_writer (queue_SendBatch uuid client) (\<lambda>st. sent (snd st)) id"
  by unfold_locales (simp add: SendBatch_sends_all [OF assms])

lemma buildSqsMessages_ok: "buildSqsMessages build msgs = (ms, []) \<Longrightarrow> map build msgs = map Inr ms"
  by (induction msgs arbitrary: ms) (auto split: prod.splits sum.splits)

lemma sqsChunks_ok:
  assumes "ordered_writer SendBatch delivered id" and "sqsChunks build SendBatch chunks q = (q', [])"
  shows "\<exists>ms. map build (concat chunks) = map Inr ms \<and> delivered q' = delivered q @ ms"
  using assms(2)
proof (induction chunks arbitrary: q)
  case (Cons chunk chunks)
  obtain ms where b: "buildSqsMessages build chunk = (ms, [])" and
    rest: "\<exists>q1. (if ms = [] then q1 = q else SendBatch ms q = (q1, None)) \<and> sqsChunks build SendBatch chunks q1 = (q', [])"
    using Cons.prems by (auto simp: Let_def split: prod.splits if_splits option.splits)
  then obtain q1 where q1: "if ms = [] then q1 = q else SendBatch ms q = (q1, None)" "sqsChunks build SendBatch chunks q1 = (q', [])" by blast
  have "delivered q1 = delivered q @ ms" using q1(1) ordered_writer.write_law [OF assms(1)] by (auto split: if_splits)
  moreover obtain ms2 where "map build (concat chunks) = map Inr ms2" "delivered q' = delivered q1 @ ms2" using Cons.IH [OF q1(2)] by blast
  ultimately show ?case using buildSqsMessages_ok [OF b] by (intro exI [of _ "ms @ ms2"]) simp
qed simp

text \<open>
  C36. Writing a batch to SQS: when the queue reports no entry of a request as failed and \<open>Write\<close> returns no error, every message was
  built, and the queue has received exactly the messages of the batch in their order, however often a request was too long and had to be split.
\<close>

theorem sqs_batch_complete:
  assumes "sqs_ok client sent" and "sqs_all_or_nothing client"
    and "sqsOutput_Write (buildSqsMessage ToInt32E MarshalToString getAttributes) (queue_SendBatch uuid client) batch st = (st', None)"
  shows "\<exists>ms. map (buildSqsMessage ToInt32E MarshalToString getAttributes) batch = map Inr ms \<and> sent (snd st') = sent (snd st) @ ms"
proof -
  have "concat (the (Chunk batch SqsOutputBatchSize)) = batch" using Chunk_correct [of SqsOutputBatchSize batch] by (auto simp: SqsOutputBatchSize_def)
  moreover have "sqsChunks (buildSqsMessage ToInt32E MarshalToString getAttributes) (queue_SendBatch uuid client) (the (Chunk batch SqsOutputBatchSize)) st = (st', [])"
    using assms(3) by (auto simp: sqsOutput_Write_def split: prod.splits if_splits)
  ultimately show ?thesis using sqsChunks_ok [OF queueWriter [OF assms(1,2)]] by metis
qed

text \<open>
  A batch that SQS takes in part is reported as sent: whatever entries the queue reports as failed, \<open>SendBatch\<close> returns no error, although the
  queue has received only the others.
\<close>

theorem sqs_failed_entries_ignored:
  assumes "sqs_ok client sent" and "ms \<noteq> []" and "client s (zip (map uuid [n..<n + length ms]) ms) = (s', Inr failed)"
  shows "queue_SendBatch uuid client ms (n, s) = ((n + length ms, s'), None) \<and>
    sent s' = sent s @ map snd (filter (\<lambda>(i, m). i \<notin> set failed) (zip (map uuid [n..<n + length ms]) ms))"
  using assms by (simp add: queue_SendBatch.simps sqs_ok_def)

lemma sns_failed_entries_ignored:
  assumes "client s entries = (s', Inr failed)" and "length entries \<le> MaxBatchSize"
  shows "publishSubSlice checks client entries s = (s', None)"
  using assms by (simp add: publishSubSlice_def)

text \<open>A queue that refuses more than two messages at a time and takes the others; it numbers nothing and fails nothing.\<close>

definition demoSqs :: "sqsMessage list sendBatchClient" where
  "demoSqs s es = (if length es > 2 then (s, Inl (Typed ''BatchRequestTooLong'' ''too long'' (Opaque []))) else (s @ map snd es, Inr []))"

lemma demoSqs_ok: "sqs_ok demoSqs id" "sqs_all_or_nothing demoSqs"
  by (auto simp: sqs_ok_def sqs_all_or_nothing_def demoSqs_def case_prod_unfold split: if_splits)

theorem sqs_batch_complete_witness:
  "\<exists>ms. map (buildSqsMessage (\<lambda>d. Inr 0) Inr (\<lambda>m. [])) [''a'', ''b'', ''c''] = map Inr ms \<and>
     snd (fst (sqsOutput_Write (buildSqsMessage (\<lambda>d. Inr 0) Inr (\<lambda>m. [])) (queue_SendBatch (\<lambda>k. itoa (int k)) demoSqs) [''a'', ''b'', ''c''] (0, []))) = ms"
proof -
  let ?build = "buildSqsMessage (\<lambda>d. Inr 0) Inr (\<lambda>m :: string. [])" and ?send = "queue_SendBatch (\<lambda>k. itoa (int k)) demoSqs"
  have "snd (sqsOutput_Write ?build ?send [''a'', ''b'', ''c''] (0, [])) = None" by code_simp
  then obtain st' where w: "sqsOutput_Write ?build ?send [''a'', ''b'', ''c''] (0, []) = (st', None)" by (metis prod.collapse)
  from sqs_batch_complete [OF demoSqs_ok w] show ?thesis using w by simp
qed

text \<open>A queue that fails every entry it is asked to take.\<close>

definition failingSqs :: "sqsMessage list sendBatchClient" where
  "failingSqs s es = (s, Inr (map fst es))"

theorem sqs_failed_entries_ignored_witness:
  "queue_SendBatch (\<lambda>k. itoa (int k)) failingSqs [\<lparr>sm_DelaySeconds = 0, sm_MessageGroupId = None, sm_MessageDeduplicationId = None, sm_Body = ''a''\<rparr>] (0, []) =
     ((1, []), None)"
proof -
  have "filter (\<lambda>(i, m). i \<notin> set (map fst es)) es = []" for es :: "(string \<times> sqsMessage) list" by (force simp: filter_empty_conv)
  then have "sqs_ok failingSqs id" by (simp add: sqs_ok_def failingSqs_def)
  from sqs_failed_entries_ignored [OF this, of "[\<lparr>sm_DelaySeconds = 0, sm_MessageGroupId = None, sm_MessageDeduplicationId = None, sm_Body = ''a''\<rparr>]" "[]" "\<lambda>k. itoa (int k)" 0 "[]"]
  show ?thesis by (auto simp: failingSqs_def)
qed

text \<open>Deleting passes every receipt handle on once, at most ten at a time, and reports the calls that failed.\<close>

lemma deleteChunks_logged:
  "deleteChunks (\<lambda>calls es. (calls @ [es], answer es)) chunks calls = (calls', errs) \<Longrightarrow>
     calls' = calls @ chunks \<and> (errs = [] \<longleftrightarrow> (\<forall>es \<in> set chunks. \<exists>failed. answer es = Inr failed))"
  by (induction chunks arbitrary: calls errs) (fastforce split: prod.splits sum.splits)+

lemma DeleteMessageBatch_all:
  assumes "queue_DeleteMessageBatch uuid (\<lambda>calls es. (calls @ [es], answer es)) handles (n, []) = ((n', calls), err)"
  shows "map snd (concat calls) = handles \<and> (\<forall>es \<in> set calls. es \<noteq> [] \<and> length es \<le> sqsBatchSize) \<and>
    (err = None \<longleftrightarrow> (\<forall>es \<in> set calls. \<exists>failed. answer es = Inr failed))"
proof -
  let ?es = "zip (map uuid [n..<n + length handles]) handles"
  have "concat (keyChunks ?es sqsBatchSize) = ?es" by (rule concat_keyChunks) (simp add: sqsBatchSize_def)
  moreover have "es \<noteq> [] \<and> length es \<le> sqsBatchSize" if "es \<in> set (keyChunks ?es sqsBatchSize)" for es using keyChunks_length [OF that] .
  moreover obtain errs where "deleteChunks (\<lambda>calls es. (calls @ [es], answer es)) (keyChunks ?es sqsBatchSize) [] = (calls, errs)" "err = ErrorOrNil errs"
    using assms by (auto simp: queue_DeleteMessageBatch_def split: prod.splits)
  ultimately show ?thesis using deleteChunks_logged [of answer "keyChunks ?es sqsBatchSize" "[]" calls errs] by (simp add: ErrorOrNil_def)
qed

section \<open>What SNS receives\<close>

definition sns_ok :: "'s publishBatchClient \<Rightarrow> ('s \<Rightarrow> publishEntry list) \<Rightarrow> bool" where
  "sns_ok client got \<longleftrightarrow> (\<forall>s es s' failed. client s es = (s', Inr failed) \<longrightarrow> got s' = got s @ filter (\<lambda>e. pe_Id e \<notin> set failed) es)"

lemma publishSlices_all:
  assumes "sns_ok client got" and "\<And>s es s' failed. client s es = (s', Inr failed) \<Longrightarrow> failed = []"
    and "publishSlices checks client i parts s = (s', None)"
  shows "got s' = got s @ concat parts"
  using assms(3)
proof (induction parts arbitrary: i s)
  case (Cons part parts)
  obtain s1 where p: "publishSubSlice checks client part s = (s1, None)" and r: "publishSlices checks client (i + MaxBatchSize) parts s1 = (s', None)"
    using Cons.prems by (auto split: prod.splits option.splits)
  have "client s part = (s1, Inr [])"
    using p assms(2) by (auto simp: publishSubSlice_def published_def split: if_splits prod.splits sum.splits)
  then have "got s1 = got s @ part" using assms(1) by (simp add: sns_ok_def)
  then show ?case using Cons.IH [OF r] by simp
qed simp

lemma sns_batch_complete:
  assumes "sns_ok client got" and "\<And>s es s' failed. client s es = (s', Inr failed) \<Longrightarrow> failed = []"
    and "topic_PublishBatch checks client messages attributes s = (s', None)"
  shows "got s' = got s @ computeEntries messages attributes \<and> map pe_Message (computeEntries messages attributes) = messages"
proof -
  have "concat (keyChunks (computeEntries messages attributes) MaxBatchSize) = computeEntries messages attributes"
    by (rule concat_keyChunks) (simp add: MaxBatchSize_def)
  then show ?thesis
    using assms(3) publishSlices_all [OF assms(1,2)]
    by (auto simp: topic_PublishBatch_def computeEntries_def comp_def map_nth split: if_splits)
qed

text \<open>Only valid attribute names are sent, with the value of the last map that has the name.\<close>

lemma addAttributes_valid:
  "gm_get (fold (\<lambda>(key, val) out. if IsValidAttributeName key then gm_set out key val else out) attrs out) k \<noteq> None \<Longrightarrow>
     IsValidAttributeName k \<or> gm_get out k \<noteq> None"
proof (induction attrs arbitrary: out)
  case (Cons a attrs)
  show ?case using Cons.IH Cons.prems by (cases a) (fastforce split: if_splits)
qed simp

lemma buildAttributes_valid:
  assumes "gm_get (buildAttributes as) k \<noteq> None"
  shows "IsValidAttributeName k"
proof -
  let ?add = "\<lambda>attrs out. fold (\<lambda>(key, val) out. if IsValidAttributeName key then gm_set out key val else out) attrs out"
  have "IsValidAttributeName k \<or> gm_get out k \<noteq> None" if "gm_get (fold ?add as out) k \<noteq> None" for out
    using that
  proof (induction as arbitrary: out)
    case (Cons a as)
    have "IsValidAttributeName k \<or> gm_get (?add a out) k \<noteq> None"
      using Cons.IH [of "?add a out"] Cons.prems unfolding fold_simps by blast
    then show ?case using addAttributes_valid [of a out k] by blast
  qed simp
  from this [of "[]"] show ?thesis using assms by (simp add: buildAttributes_def)
qed

end
