(* ===== verification/Scheduler.thy ===== *)
theory Scheduler
  imports GoErrors "HOL-Library.Multiset"
begin

text \<open>
  The job scheduler of \<open>pkg/conc/scheduler\<close> (\<open>scheduler.go\<close>): callers put jobs into a bounded queue, one goroutine collects them into batches
  that it sends when they are full or a timeout has passed, and a number of runners execute the batches and answer the callers.

  A state holds the channels as lists and where every goroutine stands; a step is one operation on a channel. The batch runner the scheduler is
  given may return anything. A job is identified by its result channel. Metrics are left out.
\<close>

section \<open>State\<close>

record job =
  job_key :: string
  job_result :: nat

text \<open>An answer is an error or a value.\<close>

type_synonym 'v answer = "goerr + 'v"

datatype creator = Selecting | Flushing "job list" bool | Closed

datatype 'v runner = Idle | Running "job list" | Delivering "(job \<times> 'v answer) list" | Exited

record 'v scheduler =
  called :: "job list"
  sending :: "job list"
  workQueue :: "job list"
  creator :: creator
  currentBatch :: "job list"
  tickerOn :: bool
  batchQueue :: "job list list"
  runners :: "'v runner list"
  answered :: "(job \<times> 'v answer) list"
  ctxDone :: bool

record schedulerSettings =
  runnerCount :: nat
  maxBatchSize :: int

definition startScheduler :: "schedulerSettings \<Rightarrow> 'v scheduler" where
  "startScheduler c = \<lparr>called = [], sending = [], workQueue = [], creator = Selecting, currentBatch = [], tickerOn = False, batchQueue = [],
     runners = replicate (runnerCount c) Idle, answered = [], ctxDone = False\<rparr>"

section \<open>The operations\<close>

text \<open>The three cases of the \<open>select\<close> of \<open>createBatches\<close>.\<close>

definition onDone :: "'v scheduler \<Rightarrow> 'v scheduler" where
  "onDone s = (if currentBatch s \<noteq> [] then s\<lparr>creator := Flushing (currentBatch s) True, currentBatch := []\<rparr> else s\<lparr>creator := Closed\<rparr>)"

definition onTick :: "'v scheduler \<Rightarrow> 'v scheduler" where
  "onTick s =
     (let s = (if currentBatch s \<noteq> [] then s\<lparr>creator := Flushing (currentBatch s) False, currentBatch := []\<rparr> else s)
      in s\<lparr>tickerOn := False\<rparr>)"

definition onJob :: "schedulerSettings \<Rightarrow> job \<Rightarrow> 'v scheduler \<Rightarrow> 'v scheduler" where
  "onJob c j s =
     (let batch = currentBatch s @ [j];
          s = s\<lparr>currentBatch := batch\<rparr>;
          s = (if length batch = 1 then s\<lparr>tickerOn := True\<rparr> else s)
      in if int (length batch) = maxBatchSize c
         then s\<lparr>creator := Flushing batch False, currentBatch := [], tickerOn := False\<rparr>
         else s)"

text \<open>The send of a batch into the queue, after which the loop goes on or ends.\<close>

definition sendBatch :: "job list \<Rightarrow> bool \<Rightarrow> 'v scheduler \<Rightarrow> 'v scheduler" where
  "sendBatch batch final s = s\<lparr>batchQueue := batchQueue s @ [batch], creator := (if final then Closed else Selecting)\<rparr>"

text \<open>The answers of a batch: the error of the runner, or the entry of its map, the zero value where it has none.\<close>

definition batchAnswers :: "'v \<Rightarrow> job list \<Rightarrow> goerr + (string, 'v) gomap \<Rightarrow> (job \<times> 'v answer) list" where
  "batchAnswers zero batch outcome =
     map (\<lambda>j. (j, case outcome of Inl err \<Rightarrow> Inl err | Inr results \<Rightarrow> Inr (case gm_get results (job_key j) of Some v \<Rightarrow> v | None \<Rightarrow> zero))) batch"

definition setRunner :: "nat \<Rightarrow> 'v runner \<Rightarrow> 'v scheduler \<Rightarrow> 'v scheduler" where
  "setRunner i r s = s\<lparr>runners := (runners s)[i := r]\<rparr>"

definition afterDelivery :: "(job \<times> 'v answer) list \<Rightarrow> 'v runner" where
  "afterDelivery rest = (if rest = [] then Idle else Delivering rest)"

text \<open>What a call returns when its answer arrives.\<close>

definition ScheduleJob_result :: "'v \<Rightarrow> 'v answer \<Rightarrow> 'v \<times> error" where
  "ScheduleJob_result zero r = (case r of Inr v \<Rightarrow> (v, None) | Inl err \<Rightarrow> (zero, Some err))"

section \<open>Steps\<close>

text \<open>What callers and the context do.\<close>

inductive extern :: "'v scheduler \<Rightarrow> 'v scheduler \<Rightarrow> bool" where
  Call: "j \<notin> set (called s) \<Longrightarrow> extern s (s\<lparr>called := called s @ [j], sending := sending s @ [j]\<rparr>)"
| Cancel: "extern s (s\<lparr>ctxDone := True\<rparr>)"

text \<open>What the goroutines of the scheduler do.\<close>

inductive intern :: "schedulerSettings \<Rightarrow> 'v \<Rightarrow> 'v scheduler \<Rightarrow> 'v scheduler \<Rightarrow> bool" for c zero where
  Enqueue: "sending s = us @ j # vs \<Longrightarrow> length (workQueue s) < runnerCount c \<Longrightarrow>
    intern c zero s (s\<lparr>sending := us @ vs, workQueue := workQueue s @ [j]\<rparr>)"
| Done: "creator s = Selecting \<Longrightarrow> ctxDone s \<Longrightarrow> intern c zero s (onDone s)"
| Tick: "creator s = Selecting \<Longrightarrow> tickerOn s \<Longrightarrow> intern c zero s (onTick s)"
| Receive: "creator s = Selecting \<Longrightarrow> workQueue s = j # q \<Longrightarrow> intern c zero s (onJob c j (s\<lparr>workQueue := q\<rparr>))"
| Flush: "creator s = Flushing batch final \<Longrightarrow> length (batchQueue s) < runnerCount c \<Longrightarrow> intern c zero s (sendBatch batch final s)"
| Take: "i < length (runners s) \<Longrightarrow> runners s ! i = Idle \<Longrightarrow> batchQueue s = batch # q \<Longrightarrow>
    intern c zero s (setRunner i (Running batch) (s\<lparr>batchQueue := q\<rparr>))"
| Execute: "i < length (runners s) \<Longrightarrow> runners s ! i = Running batch \<Longrightarrow>
    intern c zero s (setRunner i (afterDelivery (batchAnswers zero batch outcome)) s)"
| Answer: "i < length (runners s) \<Longrightarrow> runners s ! i = Delivering (a # rest) \<Longrightarrow>
    intern c zero s (setRunner i (afterDelivery rest) (s\<lparr>answered := answered s @ [a]\<rparr>))"
| Exit: "i < length (runners s) \<Longrightarrow> runners s ! i = Idle \<Longrightarrow> batchQueue s = [] \<Longrightarrow> creator s = Closed \<Longrightarrow>
    intern c zero s (setRunner i Exited s)"

inductive sched_reachable :: "schedulerSettings \<Rightarrow> 'v \<Rightarrow> 'v scheduler \<Rightarrow> bool" for c zero where
  Start: "sched_reachable c zero (startScheduler c)"
| Extern: "sched_reachable c zero s \<Longrightarrow> extern s s' \<Longrightarrow> sched_reachable c zero s'"
| Intern: "sched_reachable c zero s \<Longrightarrow> intern c zero s s' \<Longrightarrow> sched_reachable c zero s'"

section \<open>Invariants\<close>

fun creatorJobs :: "creator \<Rightarrow> job list" where
  "creatorJobs (Flushing batch final) = batch"
| "creatorJobs _ = []"

fun runnerJobs :: "'v runner \<Rightarrow> job list" where
  "runnerJobs (Running batch) = batch"
| "runnerJobs (Delivering as) = map fst as"
| "runnerJobs _ = []"

lemmas sched_defs = onDone_def onTick_def onJob_def sendBatch_def setRunner_def Let_def

text \<open>Where the jobs that were called are.\<close>

definition jobsIn :: "'v scheduler \<Rightarrow> job multiset" where
  "jobsIn s = mset (sending s) + mset (workQueue s) + mset (currentBatch s) + mset (creatorJobs (creator s)) + mset (concat (batchQueue s)) +
     mset (concat (map runnerJobs (runners s))) + mset (map fst (answered s))"

lemma concat_update:
  "i < length rs \<Longrightarrow> mset (concat (map f (rs[i := r]))) + mset (f (rs ! i)) = mset (concat (map f rs)) + mset (f r)"
  by (induction rs arbitrary: i) (auto simp: nth_Cons' split: nat.splits)

lemma jobsIn_setRunner:
  "i < length (runners s) \<Longrightarrow> jobsIn (setRunner i r s) + mset (runnerJobs (runners s ! i)) = jobsIn s + mset (runnerJobs r)"
  using concat_update [of i "runners s" runnerJobs r] by (simp add: jobsIn_def setRunner_def ac_simps)

lemma runnerJobs_afterDelivery [simp]: "runnerJobs (afterDelivery rest) = map fst rest"
  by (simp add: afterDelivery_def)

lemma runnerJobs_batchAnswers [simp]: "map fst (batchAnswers zero batch outcome) = batch"
  by (simp add: batchAnswers_def comp_def)

lemma intern_jobs: "intern c zero s s' \<Longrightarrow> jobsIn s' = jobsIn s"
proof (induction rule: intern.induct)
  case (Take i s batch q)
  show ?case using jobsIn_setRunner [of i "s\<lparr>batchQueue := q\<rparr>" "Running batch"] Take by (simp add: jobsIn_def ac_simps)
next
  case (Execute i s batch outcome)
  show ?case using jobsIn_setRunner [of i s "afterDelivery (batchAnswers zero batch outcome)"] Execute by simp
next
  case (Answer i s a rest)
  show ?case using jobsIn_setRunner [of i "s\<lparr>answered := answered s @ [a]\<rparr>" "afterDelivery rest"] Answer by (simp add: jobsIn_def ac_simps)
next
  case (Exit i s)
  show ?case using jobsIn_setRunner [of i s Exited] Exit by simp
qed (auto simp: sched_defs jobsIn_def ac_simps split: if_splits)

definition sched_inv :: "schedulerSettings \<Rightarrow> 'v scheduler \<Rightarrow> bool" where
  "sched_inv c s \<longleftrightarrow> mset (called s) = jobsIn s \<and> distinct (called s) \<and>
     (creator s = Selecting \<and> currentBatch s \<noteq> [] \<longrightarrow> tickerOn s) \<and> (creator s \<noteq> Selecting \<longrightarrow> currentBatch s = []) \<and>
     length (runners s) = runnerCount c \<and> Delivering [] \<notin> set (runners s) \<and> (creator s \<noteq> Closed \<longrightarrow> Exited \<notin> set (runners s))"

lemma set_update_notin: "x \<notin> set xs \<Longrightarrow> x \<noteq> y \<Longrightarrow> x \<notin> set (xs[i := y])"
  using set_update_subset_insert by fastforce

lemma afterDelivery_kinds [simp]: "afterDelivery rest \<noteq> Delivering []" "afterDelivery rest \<noteq> Exited" "Delivering [] \<noteq> afterDelivery rest" "Exited \<noteq> afterDelivery rest"
  by (auto simp: afterDelivery_def)

lemma intern_inv:
  assumes "intern c zero s s'" and "sched_inv c s"
  shows "sched_inv c s'"
proof -
  have jobs: "jobsIn s' = jobsIn s" using assms(1) by (rule intern_jobs)
  moreover have "called s' = called s" using assms(1) by cases (auto simp: sched_defs)
  moreover have "length (runners s') = length (runners s)" using assms(1) by cases (auto simp: sched_defs)
  moreover have "(creator s' = Selecting \<and> currentBatch s' \<noteq> [] \<longrightarrow> tickerOn s') \<and> (creator s' \<noteq> Selecting \<longrightarrow> currentBatch s' = [])"
    using assms by cases (auto simp: sched_defs sched_inv_def)
  moreover have "Delivering [] \<notin> set (runners s') \<and> (creator s' \<noteq> Closed \<longrightarrow> Exited \<notin> set (runners s'))"
    using assms by cases (auto simp: sched_defs sched_inv_def set_update_notin split: if_splits)
  ultimately show ?thesis using assms(2) by (simp add: sched_inv_def)
qed

lemma sched_reachable_inv: "sched_reachable c zero s \<Longrightarrow> sched_inv c s"
proof (induction rule: sched_reachable.induct)
  case Start
  show ?case by (auto simp: sched_inv_def startScheduler_def jobsIn_def)
next
  case (Extern s s')
  from Extern(2,3) show ?case by cases (auto simp: sched_inv_def jobsIn_def)
next
  case (Intern s s')
  show ?case by (rule intern_inv [OF Intern(2,3)])
qed

section \<open>Batches\<close>

text \<open>No batch is larger than the limit, and none is empty.\<close>

definition size_ok :: "schedulerSettings \<Rightarrow> job list \<Rightarrow> bool" where
  "size_ok c batch \<longleftrightarrow> batch \<noteq> [] \<and> int (length batch) \<le> maxBatchSize c"

definition sizes_ok :: "schedulerSettings \<Rightarrow> 'v scheduler \<Rightarrow> bool" where
  "sizes_ok c s \<longleftrightarrow> int (length (currentBatch s)) < maxBatchSize c \<and> list_all (size_ok c) (batchQueue s) \<and>
     (\<forall>batch final. creator s = Flushing batch final \<longrightarrow> size_ok c batch) \<and>
     (\<forall>i batch. i < length (runners s) \<longrightarrow> runners s ! i = Running batch \<longrightarrow> size_ok c batch)"

lemma intern_sizes:
  assumes "intern c zero s s'" and "1 \<le> maxBatchSize c" and "sizes_ok c s"
  shows "sizes_ok c s'"
  using assms
proof (induction rule: intern.induct)
  case (Execute i s batch outcome)
  then show ?case by (auto simp: sizes_ok_def setRunner_def nth_list_update afterDelivery_def split: if_splits)
next
  case (Answer i s a rest)
  then show ?case by (auto simp: sizes_ok_def setRunner_def nth_list_update afterDelivery_def split: if_splits)
next
  case (Take i s batch q)
  then show ?case by (auto simp: sizes_ok_def setRunner_def nth_list_update split: if_splits)
next
  case (Exit i s)
  then show ?case by (auto simp: sizes_ok_def setRunner_def nth_list_update split: if_splits)
qed (auto simp: sizes_ok_def size_ok_def sched_defs split: if_splits)

lemma sched_reachable_sizes: "sched_reachable c zero s \<Longrightarrow> 1 \<le> maxBatchSize c \<Longrightarrow> sizes_ok c s"
proof (induction rule: sched_reachable.induct)
  case Start
  then show ?case by (simp add: sizes_ok_def startScheduler_def)
next
  case (Extern s s')
  from Extern(2) Extern.IH [OF Extern.prems] show ?case by cases (simp_all add: sizes_ok_def)
next
  case (Intern s s')
  show ?case by (rule intern_sizes [OF Intern(2) Intern.prems Intern.IH [OF Intern.prems]])
qed

section \<open>Every job is answered\<close>

lemma all_idle:
  assumes "sched_inv c s" and "creator s \<noteq> Closed" and "\<And>s'. \<not> intern c zero s s'" and "r \<in> set (runners s)"
  shows "r = Idle"
proof -
  obtain i where i: "i < length (runners s)" "runners s ! i = r" using assms(4) by (auto simp: in_set_conv_nth)
  show ?thesis
  proof (cases r)
    case (Running batch)
    then show ?thesis using assms(3) intern.Execute i by metis
  next
    case (Delivering as)
    then have "as \<noteq> []" using assms(1,4) by (auto simp: sched_inv_def)
    then show ?thesis using assms(3) intern.Answer i Delivering by (metis neq_Nil_conv)
  next
    case Exited
    then show ?thesis using assms(1,2,4) by (auto simp: sched_inv_def)
  qed simp
qed

lemma intern_progress:
  assumes "sched_inv c s" and "creator s \<noteq> Closed" and "0 < runnerCount c" and "\<And>s'. \<not> intern c zero s s'"
  shows "mset (called s) = mset (map fst (answered s))"
proof -
  have idle: "r = Idle" if "r \<in> set (runners s)" for r using all_idle [OF assms(1,2,4) that] .
  have len: "length (runners s) = runnerCount c" using assms(1) by (simp add: sched_inv_def)
  then have r0: "0 < length (runners s)" "runners s ! 0 = Idle" using assms(3) idle by auto
  have q: "batchQueue s = []" using intern.Take [OF r0] assms(4) by (metis neq_Nil_conv)
  then have cr: "creator s = Selecting" using intern.Flush [of s _ _ c zero] assms(2-4) by (cases "creator s") auto
  then have w: "workQueue s = []" using intern.Receive [of s _ _ c zero] assms(4) by (metis neq_Nil_conv)
  then have "sending s = []" using intern.Enqueue [of s "[]" _ _ c zero] assms(3,4) by (metis append_Nil list.size(3) neq_Nil_conv)
  moreover have "currentBatch s = []" using intern.Tick [OF cr, of c zero] assms(1,4) cr by (auto simp: sched_inv_def)
  moreover have "concat (map runnerJobs (runners s)) = []" using idle by (fastforce simp: concat_eq_Nil_conv)
  ultimately show ?thesis using assms(1) q w cr by (simp add: sched_inv_def jobsIn_def)
qed

text \<open>How much is left to do.\<close>

fun creatorEffort :: "creator \<Rightarrow> nat" where
  "creatorEffort Selecting = 1"
| "creatorEffort (Flushing batch final) = length batch + 4"
| "creatorEffort Closed = 0"

fun runnerEffort :: "'v runner \<Rightarrow> nat" where
  "runnerEffort Idle = 1"
| "runnerEffort (Running batch) = length batch + 2"
| "runnerEffort (Delivering as) = length as + 1"
| "runnerEffort Exited = 0"

definition effort :: "'v scheduler \<Rightarrow> nat" where
  "effort s = 8 * length (sending s) + 7 * length (workQueue s) + 5 * length (currentBatch s) + (if tickerOn s then 1 else 0) +
     creatorEffort (creator s) + sum_list (map (\<lambda>b. length b + 2) (batchQueue s)) + sum_list (map runnerEffort (runners s))"

lemma sum_update: "i < length rs \<Longrightarrow> sum_list (map f (rs[i := r])) + f (rs ! i) = sum_list (map f rs) + f r" for f :: "'a \<Rightarrow> nat"
  by (induction rs arbitrary: i) (auto simp: nth_Cons' split: nat.splits)

lemma effort_setRunner: "i < length (runners s) \<Longrightarrow> effort (setRunner i r s) + runnerEffort (runners s ! i) = effort s + runnerEffort r"
  using sum_update [of i "runners s" runnerEffort r] by (simp add: effort_def setRunner_def)

lemma afterDelivery_effort: "runnerEffort (afterDelivery rest) = length rest + 1"
  by (simp add: afterDelivery_def)

lemma intern_effort: "intern c zero s s' \<Longrightarrow> effort s' < effort s"
proof (induction rule: intern.induct)
  case (Take i s batch q)
  show ?case using effort_setRunner [of i "s\<lparr>batchQueue := q\<rparr>" "Running batch"] Take by (simp add: effort_def)
next
  case (Execute i s batch outcome)
  show ?case using effort_setRunner [of i s "afterDelivery (batchAnswers zero batch outcome)"] Execute
    by (simp add: afterDelivery_effort batchAnswers_def)
next
  case (Answer i s a rest)
  show ?case using effort_setRunner [of i "s\<lparr>answered := answered s @ [a]\<rparr>" "afterDelivery rest"] Answer
    by (simp add: effort_def afterDelivery_effort)
next
  case (Exit i s)
  show ?case using effort_setRunner [of i s Exited] Exit by simp
next
  case (Done s)
  then show ?case by (cases "currentBatch s") (auto simp: effort_def sched_defs)
next
  case (Tick s)
  then show ?case by (cases "currentBatch s") (auto simp: effort_def sched_defs)
qed (auto simp: effort_def sched_defs)

lemma intern_keeps: "intern c zero s s' \<Longrightarrow> called s' = called s \<and> ctxDone s' = ctxDone s"
  by (induction rule: intern.induct) (auto simp: sched_defs)

lemma closed_done: "sched_reachable c zero s \<Longrightarrow> (creator s = Closed \<or> (\<exists>batch. creator s = Flushing batch True)) \<longrightarrow> ctxDone s"
proof (induction rule: sched_reachable.induct)
  case (Extern s s')
  from Extern(2,3) show ?case by cases auto
next
  case (Intern s s')
  from Intern(2,3) show ?case by cases (auto simp: sched_defs split: if_splits)
qed (simp add: startScheduler_def)

lemma intern_run:
  assumes "(intern c zero ^^ n) s s'" and "sched_reachable c zero s"
  shows "n + effort s' \<le> effort s \<and> sched_reachable c zero s' \<and> called s' = called s \<and> ctxDone s' = ctxDone s"
  using assms(1)
proof (induction n arbitrary: s')
  case (Suc n)
  then obtain t where t: "(intern c zero ^^ n) s t" "intern c zero t s'" by auto
  from Suc.IH [OF t(1)] intern_effort [OF t(2)] intern_keeps [OF t(2)] sched_reachable.Intern [OF _ t(2)] show ?case by auto
qed (simp add: assms(2))

text \<open>
  C37. Every job is answered exactly once: no call is answered twice, for every behaviour of the batch runner the goroutines of the scheduler come to rest after a
  bounded number of steps, and unless the scheduler was told to stop, they only rest when all calls have their answer.
\<close>

theorem scheduler_answers_every_job:
  assumes "sched_reachable c zero s" and "0 < runnerCount c"
  shows "distinct (map fst (answered s)) \<and> set (map fst (answered s)) \<subseteq> set (called s) \<and>
    (\<exists>bound. \<forall>n s'. (intern c zero ^^ n) s s' \<longrightarrow> n \<le> bound \<and>
       (\<not> ctxDone s \<and> (\<nexists>s''. intern c zero s' s'') \<longrightarrow> mset (map fst (answered s')) = mset (called s)))"
proof -
  have jobs: "mset (called s) = jobsIn s" "distinct (called s)" using sched_reachable_inv [OF assms(1)] by (auto simp: sched_inv_def)
  obtain rest where rest: "mset (called s) = mset rest + mset (map fst (answered s))"
    using jobs(1) unfolding jobsIn_def by (metis ex_mset)
  have d: "distinct (rest @ map fst (answered s))" using rest jobs(2) by (metis mset_append mset_eq_imp_distinct_iff)
  have c: "set (called s) = set (rest @ map fst (answered s))" using rest by (metis mset_append mset_eq_setD)
  have run: "n \<le> effort s \<and> (\<not> ctxDone s \<and> (\<nexists>s''. intern c zero s' s'') \<longrightarrow> mset (map fst (answered s')) = mset (called s))"
    if "(intern c zero ^^ n) s s'" for n s'
  proof -
    note run = intern_run [OF that assms(1)]
    have "creator s' \<noteq> Closed" if "\<not> ctxDone s" using closed_done [of c zero s'] run that by auto
    then show ?thesis using intern_progress [of c s' zero] sched_reachable_inv [of c zero s'] run assms(2) by fastforce
  qed
  show ?thesis
  proof (intro conjI exI [of _ "effort s"] allI impI)
    show "distinct (map fst (answered s))" "set (map fst (answered s)) \<subseteq> set (called s)" using d c by auto
  qed (use run in blast)+
qed

definition demoJob :: job where "demoJob = \<lparr>job_key = ''k'', job_result = 0\<rparr>"
definition demoScheduler :: schedulerSettings where "demoScheduler = \<lparr>runnerCount = 1, maxBatchSize = 2\<rparr>"
definition demoCalled :: "int scheduler" where
  "demoCalled = (startScheduler demoScheduler)\<lparr>called := [demoJob], sending := [demoJob]\<rparr>"

lemma demoCalled_reachable: "sched_reachable demoScheduler 0 demoCalled"
  using sched_reachable.Extern [OF sched_reachable.Start extern.Call [of demoJob "startScheduler demoScheduler"], of 0]
  by (simp add: demoCalled_def startScheduler_def)

theorem scheduler_answers_every_job_witness:
  "\<exists>bound. \<forall>n s'. (intern demoScheduler 0 ^^ n) demoCalled s' \<longrightarrow> n \<le> bound \<and>
     ((\<nexists>s''. intern demoScheduler 0 s' s'') \<longrightarrow> mset (map fst (answered s')) = {#demoJob#})"
proof -
  have "\<not> ctxDone demoCalled" "mset (called demoCalled) = {#demoJob#}" by (simp_all add: demoCalled_def startScheduler_def)
  moreover have "0 < runnerCount demoScheduler" by (simp add: demoScheduler_def)
  ultimately show ?thesis using scheduler_answers_every_job [OF demoCalled_reachable] by auto
qed

section \<open>Stopping\<close>

abbreviation anyStep :: "schedulerSettings \<Rightarrow> 'v \<Rightarrow> 'v scheduler \<Rightarrow> 'v scheduler \<Rightarrow> bool" where
  "anyStep c zero s s' \<equiv> extern s s' \<or> intern c zero s s'"

lemma left_behind_step:
  assumes "anyStep c zero s s'" and "creator s = Closed" and "j \<in> set (sending s) \<union> set (workQueue s)"
  shows "creator s' = Closed \<and> j \<in> set (sending s') \<union> set (workQueue s')"
  using assms(1)
proof
  assume "extern s s'"
  then show ?thesis using assms(2,3) by cases auto
next
  assume "intern c zero s s'"
  then show ?thesis using assms(2,3) by cases (auto simp: sched_defs)
qed

lemma waiting_not_answered:
  assumes "sched_inv c s" and "j \<in> set (sending s) \<union> set (workQueue s)"
  shows "j \<notin> fst ` set (answered s)"
proof
  assume "j \<in> fst ` set (answered s)"
  then have 1: "1 \<le> count (mset (map fst (answered s))) j" by (metis count_greater_eq_one_iff image_set set_mset_mset)
  have "1 \<le> count (mset (sending s) + mset (workQueue s)) j" using assms(2) by (simp add: Suc_le_eq)
  with 1 have "2 \<le> count (jobsIn s) j" unfolding jobsIn_def by (simp only: count_union)
  moreover have "distinct (called s)" using assms(1) by (simp add: sched_inv_def)
  then have "count (mset (called s)) j \<le> 1" by (subst distinct_count_atmost_1 [THEN iffD1, rule_format]) simp_all
  ultimately show False using assms(1) by (simp add: sched_inv_def)
qed

text \<open>
  C38. A call that is still in the queue when the scheduler stops is never answered: once the goroutine that collects the jobs has returned, a job in the work queue, or one that
  waits for room in it, stays there whatever happens, and its caller, who looks at nothing but the result channel, waits forever.
\<close>

theorem stopped_scheduler_leaves_callers:
  assumes "sched_reachable c zero s" and "creator s = Closed" and "j \<in> set (sending s) \<union> set (workQueue s)"
    and "(anyStep c zero)\<^sup>*\<^sup>* s s'"
  shows "j \<notin> fst ` set (answered s')"
proof -
  have "sched_reachable c zero s' \<and> creator s' = Closed \<and> j \<in> set (sending s') \<union> set (workQueue s')"
    using assms(4)
  proof (induction rule: rtranclp_induct)
    case (step t u)
    then show ?case using left_behind_step [of t u c zero j] sched_reachable.Extern [of c zero t u] sched_reachable.Intern [of c zero t u] by auto
  qed (use assms(1-3) in simp)
  then show ?thesis using waiting_not_answered sched_reachable_inv by metis
qed

definition demoClosed :: "int scheduler" where
  "demoClosed = demoCalled\<lparr>ctxDone := True, creator := Closed\<rparr>"

theorem stopped_scheduler_leaves_callers_witness:
  "sched_reachable demoScheduler 0 demoClosed \<and> creator demoClosed = Closed \<and> demoJob \<in> set (sending demoClosed) \<union> set (workQueue demoClosed)
   \<and> (anyStep demoScheduler 0)\<^sup>*\<^sup>* demoClosed demoClosed \<and> demoJob \<notin> fst ` set (answered demoClosed)"
proof -
  have 1: "sched_reachable demoScheduler 0 (demoCalled\<lparr>ctxDone := True\<rparr>)" by (rule sched_reachable.Extern [OF demoCalled_reachable extern.Cancel])
  have "onDone (demoCalled\<lparr>ctxDone := True\<rparr>) = demoClosed" by (simp add: onDone_def demoClosed_def demoCalled_def startScheduler_def)
  then have 2: "sched_reachable demoScheduler 0 demoClosed"
    using sched_reachable.Intern [OF 1 intern.Done] by (simp add: demoCalled_def startScheduler_def)
  moreover have "creator demoClosed = Closed" "demoJob \<in> set (sending demoClosed) \<union> set (workQueue demoClosed)"
    by (simp_all add: demoClosed_def demoCalled_def)
  ultimately show ?thesis using stopped_scheduler_leaves_callers [OF 2, of demoJob demoClosed] by simp
qed

text \<open>A key the batch runner leaves out of its result is answered with the zero value and no error.\<close>

lemma missing_result_is_zero:
  assumes "j \<in> set batch" and "gm_get results (job_key j) = None"
  shows "(j, Inr zero) \<in> set (batchAnswers zero batch (Inr results)) \<and> ScheduleJob_result zero (Inr zero) = (zero, None)"
  using assms by (auto simp: batchAnswers_def ScheduleJob_result_def image_iff)

end
