(* ===== verification/Metrics.thy ===== *)
theory Metrics
  imports Funk GoErrors Complex_Main "HOL-Library.List_Lexorder" "HOL-Library.Char_ord"
begin

text \<open>
  Metrics, \<open>pkg/metric\<close>: the data and their defaults (\<open>datum.go\<close>, \<open>defaults.go\<close>), custom units (\<open>custom_units.go\<close>), the unbounded channel
  (\<open>channel.go\<close>, \<open>writer.go\<close>), and the daemon that aggregates data points (\<open>daemon.go\<close>). The writers of the daemon are in the theory
  \<open>MetricWriters\<close>.

  Values are real numbers: the rounding of floating point numbers, infinities and NaN are not modelled. The formatting of a time to the minute is
  the parameter \<open>fmt\<close>. The clock is read once per call of \<open>Write\<close> and of \<open>resetBatch\<close>. Logging and its throttling are left out.
\<close>

section \<open>Kinds (kind.go)\<close>

record MetricKind =
  kd_kind :: string
  kd_help :: string
  kd_buckets :: "real list"
  kd_objectives :: "(real, real) gomap"
  kd_maxAge :: int
  kd_ageBuckets :: nat
  kd_bufCap :: nat

definition kindCounter :: string where "kindCounter = ''counter''"
definition kindGauge :: string where "kindGauge = ''gauge''"
definition kindHistogram :: string where "kindHistogram = ''histogram''"
definition kindSummary :: string where "kindSummary = ''summary''"
definition kindTotal :: string where "kindTotal = ''total''"

definition kindOf :: "string \<Rightarrow> MetricKind" where
  "kindOf k = \<lparr>kd_kind = k, kd_help = [], kd_buckets = [], kd_objectives = [], kd_maxAge = 0, kd_ageBuckets = 0, kd_bufCap = 0\<rparr>"

definition KindDefault :: MetricKind where "KindDefault = kindOf []"
definition KindTotal :: MetricKind where "KindTotal = kindOf kindTotal"

section \<open>Data (datum.go)\<close>

record Datum =
  Priority :: int
  Timestamp :: "int option"
  MetricName :: string
  Dimensions :: "(string, string) gomap"
  Value :: real
  Unit :: string
  Kind :: MetricKind

definition joinWith :: "string \<Rightarrow> string list \<Rightarrow> string" where
  "joinWith sep xs = (case xs of [] \<Rightarrow> [] | y # ys \<Rightarrow> y @ concat (map (\<lambda>z. sep @ z) ys))"

definition DimensionKV :: "Datum \<Rightarrow> string" where
  "DimensionKV d = joinWith ''-'' (sort (map (\<lambda>(k, v). k @ '':'' @ v) (Dimensions d)))"

definition Datum_Id :: "Datum \<Rightarrow> string" where
  "Datum_Id d = MetricName d @ '':'' @ DimensionKV d"

definition Datum_IsValid :: "Datum \<Rightarrow> error" where
  "Datum_IsValid d =
     (if MetricName d = [] then Some (Opaque ''missing metric name'')
      else if Priority d = 0 then Some (Opaque (''metric '' @ MetricName d @ '' has no priority''))
      else if Unit d = [] then Some (Opaque (''metric '' @ MetricName d @ '' has no unit''))
      else None)"

section \<open>Defaults (defaults.go)\<close>

type_synonym defaults = "(string, Datum) gomap"

definition addMetricDefaults :: "Datum list \<Rightarrow> defaults \<Rightarrow> defaults" where
  "addMetricDefaults data defs = fold (\<lambda>d defs. gm_set defs (Datum_Id d) d) data defs"

definition amendFromDefault :: "defaults \<Rightarrow> Datum \<Rightarrow> Datum" where
  "amendFromDefault defs d =
     (case gm_get defs (Datum_Id d) of
        None \<Rightarrow> d
      | Some def \<Rightarrow>
          (let d = (if Priority d = 0 then d\<lparr>Priority := Priority def\<rparr> else d);
               d = (if Unit d = [] then d\<lparr>Unit := Unit def\<rparr> else d)
           in if kd_kind (Kind d) = [] then d\<lparr>Kind := Kind def\<rparr> else d))"

section \<open>Units (custom\_units.go)\<close>

definition sumOf :: "real list \<Rightarrow> real" where
  "sumOf xs = fold (\<lambda>v total. total + v) xs 0"

definition averageOf :: "real list \<Rightarrow> real" where
  "averageOf xs = sumOf xs / real (length xs)"

text \<open>The extrema start from the infinities, \<open>None\<close> here; batches always have a value.\<close>

definition maximumOf :: "real list \<Rightarrow> real option" where
  "maximumOf xs = fold (\<lambda>v r. Some (case r of None \<Rightarrow> v | Some m \<Rightarrow> max m v)) xs None"

definition minimumOf :: "real list \<Rightarrow> real option" where
  "minimumOf xs = fold (\<lambda>v r. Some (case r of None \<Rightarrow> v | Some m \<Rightarrow> min m v)) xs None"

definition UnitCount :: string where "UnitCount = ''Count''"
definition UnitMilliseconds :: string where "UnitMilliseconds = ''Milliseconds''"
definition UnitSeconds :: string where "UnitSeconds = ''Seconds''"

text \<open>A registered unit has a standard unit and a reducer.\<close>

type_synonym customUnits = "(string, string \<times> (real list \<Rightarrow> real)) gomap"

definition RegisterCustomUnit :: "string \<Rightarrow> string \<Rightarrow> (real list \<Rightarrow> real) \<Rightarrow> customUnits \<Rightarrow> customUnits option" where
  "RegisterCustomUnit unit standardUnit reducer units =
     (if gm_has units unit then None else Some (gm_set units unit (standardUnit, reducer)))"

definition extremum :: "(real list \<Rightarrow> real option) \<Rightarrow> real list \<Rightarrow> real" where
  "extremum f xs = (case f xs of Some v \<Rightarrow> v | None \<Rightarrow> 0)"

definition builtinUnits :: customUnits where
  "builtinUnits =
     [(''UnitCountAverage'', UnitCount, averageOf), (''UnitCountMaximum'', UnitCount, extremum maximumOf), (''UnitCountMinimum'', UnitCount, extremum minimumOf),
      (''UnitMillisecondsAverage'', UnitMilliseconds, averageOf), (''UnitMillisecondsMaximum'', UnitMilliseconds, extremum maximumOf),
      (''UnitMillisecondsMinimum'', UnitMilliseconds, extremum minimumOf), (''UnitSecondsAverage'', UnitSeconds, averageOf),
      (''UnitSecondsMaximum'', UnitSeconds, extremum maximumOf), (''UnitSecondsMinimum'', UnitSeconds, extremum minimumOf)]"

definition resolveCustomUnit :: "customUnits \<Rightarrow> string \<Rightarrow> real list \<Rightarrow> string \<times> real" where
  "resolveCustomUnit units unit values =
     (case gm_get units unit of Some (standardUnit, reducer) \<Rightarrow> (standardUnit, reducer values) | None \<Rightarrow> (unit, sumOf values))"

section \<open>The channel (channel.go, writer.go)\<close>

record metricChannel =
  ch_data :: "Datum list"
  hasData :: bool
  enabled :: bool
  ch_closed :: bool

definition channel_read :: "metricChannel \<Rightarrow> metricChannel \<times> Datum list" where
  "channel_read c = (c\<lparr>ch_data := []\<rparr>, ch_data c)"

definition channel_write :: "Datum list \<Rightarrow> metricChannel \<Rightarrow> metricChannel" where
  "channel_write batch c = (if \<not> enabled c \<or> ch_closed c then c else c\<lparr>ch_data := ch_data c @ batch, hasData := True\<rparr>)"

definition channel_close :: "metricChannel \<Rightarrow> metricChannel" where
  "channel_close c = c\<lparr>ch_closed := True\<rparr>"

definition stamped :: "int \<Rightarrow> Datum \<Rightarrow> Datum" where
  "stamped now d = (if Timestamp d = None then d\<lparr>Timestamp := Some now\<rparr> else d)"

definition metricWriter_Write :: "int \<Rightarrow> Datum list \<Rightarrow> metricChannel \<Rightarrow> metricChannel" where
  "metricWriter_Write now batch c = (if \<not> enabled c \<or> batch = [] then c else channel_write (map (stamped now) batch) c)"

section \<open>The daemon (daemon.go)\<close>

record BatchedMetricDatum =
  b_Priority :: int
  b_Timestamp :: "int option"
  b_MetricName :: string
  b_Dimensions :: "(string, string) gomap"
  b_Values :: "real list"
  b_Unit :: string
  b_Kind :: MetricKind

text \<open>
  Beside the batch the state records what the raw and the aggregating writers were given, and every datum that was appended, with a mark for defaults.
\<close>

record metricDaemon =
  m_channel :: metricChannel
  m_batch :: "(string, BatchedMetricDatum) gomap"
  dataPointCount :: nat
  rawWritten :: "Datum list list"
  m_published :: "(string, BatchedMetricDatum) gomap list"
  m_points :: "(bool \<times> Datum) list"
  m_running :: bool

definition batchKey :: "(int option \<Rightarrow> string) \<Rightarrow> Datum \<Rightarrow> string" where
  "batchKey fmt d = MetricName d @ ''-'' @ DimensionKV d @ ''-'' @ fmt (Timestamp d)"

definition newBatched :: "Datum \<Rightarrow> BatchedMetricDatum" where
  "newBatched d = \<lparr>b_Priority = Priority d, b_Timestamp = Timestamp d, b_MetricName = MetricName d, b_Dimensions = Dimensions d,
     b_Values = [Value d], b_Unit = Unit d, b_Kind = Kind d\<rparr>"

definition daemon_append :: "(int option \<Rightarrow> string) \<Rightarrow> defaults \<Rightarrow> bool \<Rightarrow> Datum \<Rightarrow> metricDaemon \<Rightarrow> metricDaemon" where
  "daemon_append fmt defs isDefault d s =
     (let s = s\<lparr>dataPointCount := dataPointCount s + 1, m_points := m_points s @ [(isDefault, d)]\<rparr>;
          key = batchKey fmt d
      in case gm_get (m_batch s) key of
           None \<Rightarrow>
             (let d = amendFromDefault defs d
              in if Datum_IsValid d \<noteq> None then s else s\<lparr>m_batch := gm_set (m_batch s) key (newBatched d)\<rparr>)
         | Some existing \<Rightarrow> s\<lparr>m_batch := gm_set (m_batch s) key (existing\<lparr>b_Values := b_Values existing @ [Value d]\<rparr>)\<rparr>)"

definition appendBatch :: "(int option \<Rightarrow> string) \<Rightarrow> defaults \<Rightarrow> Datum list \<Rightarrow> metricDaemon \<Rightarrow> metricDaemon" where
  "appendBatch fmt defs data s = fold (daemon_append fmt defs False) data s"

definition resetBatch :: "(int option \<Rightarrow> string) \<Rightarrow> defaults \<Rightarrow> int \<Rightarrow> metricDaemon \<Rightarrow> metricDaemon" where
  "resetBatch fmt defs now s =
     fold (daemon_append fmt defs True) (map (\<lambda>(i, def). def\<lparr>Timestamp := Some now\<rparr>) defs) (s\<lparr>m_batch := [], dataPointCount := 0\<rparr>)"

definition rawFanout :: "Datum list \<Rightarrow> metricDaemon \<Rightarrow> metricDaemon" where
  "rawFanout data s = s\<lparr>rawWritten := rawWritten s @ [data]\<rparr>"

definition batchDatum :: "customUnits \<Rightarrow> BatchedMetricDatum \<Rightarrow> Datum" where
  "batchDatum units v =
     (case resolveCustomUnit units (b_Unit v) (b_Values v) of (unit, val) \<Rightarrow>
        \<lparr>Priority = b_Priority v, Timestamp = b_Timestamp v, MetricName = b_MetricName v, Dimensions = b_Dimensions v, Value = val, Unit = unit, Kind = b_Kind v\<rparr>)"

definition daemon_buildMetricData :: "customUnits \<Rightarrow> (string, BatchedMetricDatum) gomap \<Rightarrow> Datum list" where
  "daemon_buildMetricData units batch = map (\<lambda>(k, v). batchDatum units v) batch"

text \<open>The writers are given \<open>daemon_buildMetricData\<close> of the batch that is recorded.\<close>

definition publish :: "(int option \<Rightarrow> string) \<Rightarrow> defaults \<Rightarrow> int \<Rightarrow> metricDaemon \<Rightarrow> metricDaemon" where
  "publish fmt defs now s =
     (if m_batch s = [] then s else resetBatch fmt defs now (s\<lparr>m_published := m_published s @ [m_batch s]\<rparr>))"

definition emptyChannel :: "(int option \<Rightarrow> string) \<Rightarrow> defaults \<Rightarrow> metricDaemon \<Rightarrow> metricDaemon" where
  "emptyChannel fmt defs s =
     (case channel_read (channel_close (m_channel s)) of (c, data) \<Rightarrow>
        (let s = s\<lparr>m_channel := c\<rparr>
         in if data = [] then s else appendBatch fmt defs data (rawFanout data s)))"

text \<open>The events of the loop, and the writes of other goroutines between them.\<close>

datatype metricEvent = EvWrite int "Datum list" | EvData | EvTick int | EvStop int

definition metric_start :: "(int option \<Rightarrow> string) \<Rightarrow> defaults \<Rightarrow> int \<Rightarrow> metricDaemon" where
  "metric_start fmt defs now =
     rawFanout (map snd defs) (resetBatch fmt defs now
       \<lparr>m_channel = \<lparr>ch_data = [], hasData = False, enabled = True, ch_closed = False\<rparr>, m_batch = [], dataPointCount = 0, rawWritten = [],
        m_published = [], m_points = [], m_running = True\<rparr>)"

definition metric_step :: "(int option \<Rightarrow> string) \<Rightarrow> defaults \<Rightarrow> metricEvent \<Rightarrow> metricDaemon \<Rightarrow> metricDaemon" where
  "metric_step fmt defs ev s =
     (case ev of
        EvWrite now batch \<Rightarrow> s\<lparr>m_channel := metricWriter_Write now batch (m_channel s)\<rparr>
      | EvData \<Rightarrow>
          if \<not> m_running s \<or> \<not> hasData (m_channel s) then s
          else (case channel_read ((m_channel s)\<lparr>hasData := False\<rparr>) of (c, data) \<Rightarrow>
                  appendBatch fmt defs data (rawFanout data (s\<lparr>m_channel := c\<rparr>)))
      | EvTick now \<Rightarrow> if \<not> m_running s then s else publish fmt defs now s
      | EvStop now \<Rightarrow> if \<not> m_running s then s else (publish fmt defs now (emptyChannel fmt defs s))\<lparr>m_running := False\<rparr>)"

definition metric_run :: "(int option \<Rightarrow> string) \<Rightarrow> defaults \<Rightarrow> metricEvent list \<Rightarrow> metricDaemon \<Rightarrow> metricDaemon" where
  "metric_run fmt defs events s = fold (metric_step fmt defs) events s"


section \<open>Nothing is lost between a write and the published batches\<close>

definition valuesAt :: "(int option \<Rightarrow> string) \<Rightarrow> string \<Rightarrow> (bool \<times> Datum) list \<Rightarrow> real list" where
  "valuesAt fmt k points = map (\<lambda>p. Value (snd p)) (filter (\<lambda>p. batchKey fmt (snd p) = k) points)"

definition batchAt :: "string \<Rightarrow> (string, BatchedMetricDatum) gomap \<Rightarrow> real list" where
  "batchAt k batch = (case gm_get batch k of None \<Rightarrow> [] | Some b \<Rightarrow> b_Values b)"

definition publishedAt :: "string \<Rightarrow> metricDaemon \<Rightarrow> real list" where
  "publishedAt k s = concat (map (batchAt k) (m_published s))"

definition amendable :: "defaults \<Rightarrow> Datum \<Rightarrow> bool" where
  "amendable defs d \<longleftrightarrow> Datum_IsValid (amendFromDefault defs d) = None"

fun written :: "bool \<Rightarrow> metricEvent list \<Rightarrow> Datum list" where
  "written isOpen [] = []"
| "written isOpen (EvWrite now batch # es) = (if isOpen then map (stamped now) batch else []) @ written isOpen es"
| "written isOpen (EvStop now # es) = written False es"
| "written isOpen (_ # es) = written isOpen es"

lemma valuesAt_simps [simp]:
  "valuesAt fmt k [] = []"
  "valuesAt fmt k (ps @ qs) = valuesAt fmt k ps @ valuesAt fmt k qs"
  "valuesAt fmt k (p # ps) = (if batchKey fmt (snd p) = k then [Value (snd p)] else []) @ valuesAt fmt k ps"
  by (simp_all add: valuesAt_def)

lemma batchAt_simps [simp]:
  "batchAt k [] = []"
  "batchAt k (gm_set m k' b) = (if k' = k then b_Values b else batchAt k m)"
  by (simp_all add: batchAt_def)

lemma amend_fields [simp]:
  "MetricName (amendFromDefault defs d) = MetricName d" "Dimensions (amendFromDefault defs d) = Dimensions d"
  "Value (amendFromDefault defs d) = Value d" "Timestamp (amendFromDefault defs d) = Timestamp d"
  by (simp_all add: amendFromDefault_def Let_def split: option.splits)

lemma stamped_fields [simp]: "Datum_Id (stamped now d) = Datum_Id d" "Datum_Id (d\<lparr>Timestamp := t\<rparr>) = Datum_Id d"
  by (simp_all add: stamped_def Datum_Id_def DimensionKV_def)

lemma amendable_timestamp [simp]: "amendable defs (d\<lparr>Timestamp := t\<rparr>) = amendable defs d" "amendable defs (stamped now d) = amendable defs d"
proof -
  show *: "amendable defs (d\<lparr>Timestamp := t\<rparr>) = amendable defs d" for t
    by (simp add: amendable_def amendFromDefault_def Let_def Datum_IsValid_def split: option.splits)
  show "amendable defs (stamped now d) = amendable defs d" using * by (simp add: stamped_def)
qed

text \<open>One datum that is valid once the defaults are filled in ends up in the batch, at its key and behind the values there.\<close>

lemma append_frame [simp]:
  "m_channel (daemon_append fmt defs i d s) = m_channel s" "m_published (daemon_append fmt defs i d s) = m_published s"
  "rawWritten (daemon_append fmt defs i d s) = rawWritten s" "m_running (daemon_append fmt defs i d s) = m_running s"
  "m_points (daemon_append fmt defs i d s) = m_points s @ [(i, d)]" "dataPointCount (daemon_append fmt defs i d s) = dataPointCount s + 1"
  by (simp_all add: daemon_append_def Let_def split: option.splits)

lemma append_batch:
  assumes "amendable defs d"
  shows "batchAt k (m_batch (daemon_append fmt defs i d s)) = batchAt k (m_batch s) @ valuesAt fmt k [(i, d)]"
  using assms by (auto simp: daemon_append_def Let_def amendable_def newBatched_def batchAt_def split: option.splits)

lemma append_fold_frame [simp]:
  "m_channel (fold (daemon_append fmt defs i) ds s) = m_channel s" "m_published (fold (daemon_append fmt defs i) ds s) = m_published s"
  "m_running (fold (daemon_append fmt defs i) ds s) = m_running s"
  "m_points (fold (daemon_append fmt defs i) ds s) = m_points s @ map (Pair i) ds"
  "dataPointCount (fold (daemon_append fmt defs i) ds s) = dataPointCount s + length ds"
  by (induction ds arbitrary: s) simp_all

lemma append_fold_batch:
  "(\<And>d. d \<in> set ds \<Longrightarrow> amendable defs d) \<Longrightarrow>
   batchAt k (m_batch (fold (daemon_append fmt defs i) ds s)) = batchAt k (m_batch s) @ valuesAt fmt k (map (Pair i) ds)"
proof (induction ds arbitrary: s)
  case (Cons d ds)
  then show ?case using append_batch [of defs d k fmt i s] by simp
qed simp

text \<open>The points split into those that were published and those that are in the batch; once the daemon has stopped, the latter are defaults only.\<close>

definition points_inv :: "(int option \<Rightarrow> string) \<Rightarrow> metricDaemon \<Rightarrow> bool" where
  "points_inv fmt s \<longleftrightarrow>
     (\<exists>ps qs. m_points s = ps @ qs \<and> (\<forall>k. valuesAt fmt k ps = publishedAt k s) \<and> (\<forall>k. valuesAt fmt k qs = batchAt k (m_batch s))
        \<and> (\<not> m_running s \<longrightarrow> (\<forall>p \<in> set qs. fst p)))"

lemma points_invI:
  assumes "m_points s = ps @ qs" and "\<And>k. valuesAt fmt k ps = publishedAt k s" and "\<And>k. valuesAt fmt k qs = batchAt k (m_batch s)"
    and "\<not> m_running s \<Longrightarrow> \<forall>p \<in> set qs. fst p"
  shows "points_inv fmt s"
  using assms unfolding points_inv_def by blast

lemma points_invE:
  assumes "points_inv fmt s"
  obtains ps qs where "m_points s = ps @ qs" and "\<And>k. valuesAt fmt k ps = publishedAt k s" and "\<And>k. valuesAt fmt k qs = batchAt k (m_batch s)"
    and "\<not> m_running s \<Longrightarrow> \<forall>p \<in> set qs. fst p"
  using assms unfolding points_inv_def by blast

lemma points_inv_cong:
  assumes "points_inv fmt s" and "m_points s' = m_points s" "m_published s' = m_published s" "m_batch s' = m_batch s" "m_running s' = m_running s"
  shows "points_inv fmt s'"
  using assms by (simp add: points_inv_def publishedAt_def)

definition dataOf :: "metricDaemon \<Rightarrow> Datum list" where
  "dataOf s = map snd (filter (\<lambda>p. \<not> fst p) (m_points s))"

lemma filter_default_marks [simp]: "filter (\<lambda>p. \<not> fst p) (map (Pair i) ds) = (if i then [] else map (Pair i) ds)"
  by (induction ds) auto

lemma map_snd_Pair [simp]: "map snd (map (Pair i) ds) = ds"
  by (simp add: comp_def)

lemma appendBatch_inv:
  assumes "points_inv fmt s" and "m_running s" and "\<And>d. d \<in> set ds \<Longrightarrow> amendable defs d"
  shows "points_inv fmt (appendBatch fmt defs ds s)"
  using assms(1)
proof (rule points_invE)
  fix ps qs
  assume inv: "m_points s = ps @ qs" "\<And>k. valuesAt fmt k ps = publishedAt k s" "\<And>k. valuesAt fmt k qs = batchAt k (m_batch s)"
  show ?thesis
    by (rule points_invI [where ps = ps and qs = "qs @ map (Pair False) ds"])
      (use inv assms(2,3) in \<open>simp_all add: appendBatch_def append_fold_batch publishedAt_def\<close>)
qed

lemma appendBatch_dataOf: "dataOf (appendBatch fmt defs ds s) = dataOf s @ ds"
  by (simp add: dataOf_def appendBatch_def comp_def)

definition defaultsValid :: "defaults \<Rightarrow> bool" where
  "defaultsValid defs \<longleftrightarrow> (\<forall>(i, d) \<in> set defs. amendable defs d)"

lemma resetBatch_inv:
  assumes "defaultsValid defs" and "\<And>k. valuesAt fmt k (m_points s) = publishedAt k s"
  shows "points_inv fmt ((resetBatch fmt defs now s)\<lparr>m_running := r\<rparr>)"
proof -
  define ds where "ds = map (\<lambda>(i, def). def\<lparr>Timestamp := Some now\<rparr>) defs"
  have valid: "amendable defs d" if "d \<in> set ds" for d using that assms(1) by (auto simp: defaultsValid_def ds_def)
  show ?thesis
    by (rule points_invI [where ps = "m_points s" and qs = "map (Pair True) ds"])
      (use assms(2) append_fold_batch [OF valid] in \<open>auto simp: resetBatch_def publishedAt_def ds_def [symmetric]\<close>)
qed

lemma resetBatch_frame [simp]:
  "m_channel (resetBatch fmt defs now s) = m_channel s" "m_running (resetBatch fmt defs now s) = m_running s" "dataOf (resetBatch fmt defs now s) = dataOf s"
  by (simp_all add: resetBatch_def dataOf_def comp_def)

lemma publish_frame [simp]:
  "m_channel (publish fmt defs now s) = m_channel s" "m_running (publish fmt defs now s) = m_running s" "dataOf (publish fmt defs now s) = dataOf s"
  by (simp_all add: publish_def) (simp_all add: dataOf_def)

lemma publish_inv:
  assumes "points_inv fmt s" and "defaultsValid defs"
  shows "points_inv fmt ((publish fmt defs now s)\<lparr>m_running := r\<rparr>)"
  using assms(1)
proof (rule points_invE)
  fix ps qs
  assume inv: "m_points s = ps @ qs" "\<And>k. valuesAt fmt k ps = publishedAt k s" "\<And>k. valuesAt fmt k qs = batchAt k (m_batch s)"
  show ?thesis
  proof (cases "m_batch s = []")
    case True
    then show ?thesis
      using inv by (intro points_invI [where ps = "ps @ qs" and qs = "[]"]) (simp_all add: publish_def publishedAt_def)
  next
    case False
    show ?thesis
      using False inv resetBatch_inv [OF assms(2), of fmt "s\<lparr>m_published := m_published s @ [m_batch s]\<rparr>"] by (simp add: publish_def publishedAt_def)
  qed
qed


lemma metric_start_inv:
  assumes "defaultsValid defs"
  shows "points_inv fmt (metric_start fmt defs now)"
    and "m_running (metric_start fmt defs now)" and "dataOf (metric_start fmt defs now) = []"
proof -
  let ?s = "\<lparr>m_channel = \<lparr>ch_data = [], hasData = False, enabled = True, ch_closed = False\<rparr>, m_batch = [], dataPointCount = 0, rawWritten = [],
        m_published = [], m_points = [], m_running = True\<rparr>"
  have "points_inv fmt ((resetBatch fmt defs now ?s)\<lparr>m_running := True\<rparr>)"
    by (rule resetBatch_inv [OF assms]) (simp add: publishedAt_def)
  then show "points_inv fmt (metric_start fmt defs now)" by (rule points_inv_cong) (simp_all add: metric_start_def rawFanout_def)
  show "m_running (metric_start fmt defs now)" by (simp add: metric_start_def rawFanout_def)
  have "dataOf (metric_start fmt defs now) = dataOf (resetBatch fmt defs now ?s)" unfolding metric_start_def rawFanout_def dataOf_def by simp
  then show "dataOf (metric_start fmt defs now) = []" by simp (simp add: dataOf_def)
qed

text \<open>What holds of the daemon and its channel between events: the channel is open and enabled while the daemon runs, and empty afterwards.\<close>

definition metric_inv :: "(int option \<Rightarrow> string) \<Rightarrow> defaults \<Rightarrow> Datum list \<Rightarrow> metricDaemon \<Rightarrow> bool" where
  "metric_inv fmt defs ws s \<longleftrightarrow>
     points_inv fmt s \<and> dataOf s @ ch_data (m_channel s) = ws \<and> enabled (m_channel s) \<and> ch_closed (m_channel s) = (\<not> m_running s)
     \<and> (\<not> m_running s \<longrightarrow> ch_data (m_channel s) = []) \<and> (\<forall>d \<in> set ws. amendable defs d)
     \<and> (ch_data (m_channel s) \<noteq> [] \<longrightarrow> hasData (m_channel s))"

lemma metric_invI:
  assumes "points_inv fmt s" "dataOf s @ ch_data (m_channel s) = ws" "enabled (m_channel s)" "ch_closed (m_channel s) = (\<not> m_running s)"
    "\<not> m_running s \<longrightarrow> ch_data (m_channel s) = []" "\<forall>d \<in> set ws. amendable defs d" "ch_data (m_channel s) \<noteq> [] \<longrightarrow> hasData (m_channel s)"
  shows "metric_inv fmt defs ws s"
  using assms by (simp add: metric_inv_def)

lemma metric_invD:
  assumes "metric_inv fmt defs ws s"
  shows "points_inv fmt s" "dataOf s @ ch_data (m_channel s) = ws" "enabled (m_channel s)" "ch_closed (m_channel s) = (\<not> m_running s)"
    "\<not> m_running s \<Longrightarrow> ch_data (m_channel s) = []" "\<forall>d \<in> set ws. amendable defs d" "ch_data (m_channel s) \<noteq> [] \<Longrightarrow> hasData (m_channel s)"
  using assms by (simp_all add: metric_inv_def)

lemma appendBatch_frame [simp]:
  "m_channel (appendBatch fmt defs ds s) = m_channel s" "m_running (appendBatch fmt defs ds s) = m_running s"
  by (simp_all add: appendBatch_def)

lemma rawFanout_frame [simp]:
  "m_channel (rawFanout ds s) = m_channel s" "m_running (rawFanout ds s) = m_running s" "dataOf (rawFanout ds s) = dataOf s"
  by (simp_all add: rawFanout_def dataOf_def)

lemma with_channel_frame [simp]:
  "dataOf (s\<lparr>m_channel := c\<rparr>) = dataOf s" "dataOf (s\<lparr>m_running := r\<rparr>) = dataOf s" "points_inv fmt (s\<lparr>m_channel := c\<rparr>) = points_inv fmt s"
  by (simp_all add: dataOf_def points_inv_def publishedAt_def)

lemma fanned_inv:
  assumes "points_inv fmt s" and "m_running s" and "\<And>d. d \<in> set ds \<Longrightarrow> amendable defs d"
  shows "points_inv fmt (appendBatch fmt defs ds (rawFanout ds (s\<lparr>m_channel := c\<rparr>)))"
  using assms by (intro appendBatch_inv) (auto simp: rawFanout_def intro: points_inv_cong)

lemma metric_step_write:
  assumes "metric_inv fmt defs ws s" and "\<forall>d \<in> set batch. amendable defs d"
  shows "metric_inv fmt defs (ws @ (if m_running s then map (stamped now) batch else [])) (metric_step fmt defs (EvWrite now batch) s)"
  using metric_invD [OF assms(1)] assms(2)
  by (intro metric_invI) (auto simp: metric_step_def metricWriter_Write_def channel_write_def)

lemma metric_step_data:
  assumes "metric_inv fmt defs ws s"
  shows "metric_inv fmt defs ws (metric_step fmt defs EvData s)"
proof (cases "m_running s \<and> hasData (m_channel s)")
  case True
  note inv = metric_invD [OF assms]
  have "points_inv fmt (metric_step fmt defs EvData s)"
    using True inv(1,6) inv(2) [symmetric] by (auto simp: metric_step_def channel_read_def intro!: fanned_inv)
  then show ?thesis
    using True inv(2-6) by (intro metric_invI) (auto simp: metric_step_def channel_read_def appendBatch_dataOf)
next
  case False
  then show ?thesis using assms by (simp add: metric_step_def)
qed

lemma metric_step_tick:
  assumes "metric_inv fmt defs ws s" and "defaultsValid defs"
  shows "metric_inv fmt defs ws (metric_step fmt defs (EvTick now) s)"
proof (cases "m_running s")
  case True
  note inv = metric_invD [OF assms(1)]
  have "points_inv fmt ((publish fmt defs now s)\<lparr>m_running := True\<rparr>)" by (rule publish_inv [OF inv(1) assms(2)])
  then have "points_inv fmt (publish fmt defs now s)" by (rule points_inv_cong) (simp_all add: True)
  then show ?thesis using True inv(2-7) by (intro metric_invI) (auto simp: metric_step_def)
next
  case False
  then show ?thesis using assms(1) by (simp add: metric_step_def)
qed

text \<open>Stopping empties the channel and publishes what was in it.\<close>

lemma metric_step_stop:
  assumes "metric_inv fmt defs ws s" and "defaultsValid defs"
  shows "metric_inv fmt defs ws (metric_step fmt defs (EvStop now) s) \<and> \<not> m_running (metric_step fmt defs (EvStop now) s)"
proof (cases "m_running s")
  case True
  note inv = metric_invD [OF assms(1)]
  define t where "t = emptyChannel fmt defs s"
  have t: "points_inv fmt t" "dataOf t = ws" "m_channel t = (m_channel s)\<lparr>ch_closed := True, ch_data := []\<rparr>"
    using inv(1,6) inv(2) [symmetric] True
    by (auto simp: t_def emptyChannel_def channel_read_def channel_close_def appendBatch_dataOf Let_def intro!: fanned_inv)
  have "points_inv fmt ((publish fmt defs now t)\<lparr>m_running := False\<rparr>)" by (rule publish_inv [OF t(1) assms(2)])
  then show ?thesis using True inv(2-7) t(2,3) by (auto simp: metric_step_def t_def [symmetric] intro!: metric_invI)
next
  case False
  then show ?thesis using assms(1) by (simp add: metric_step_def)
qed

lemma metric_run_simps [simp]:
  "metric_run fmt defs [] s = s" "metric_run fmt defs (ev # events) s = metric_run fmt defs events (metric_step fmt defs ev s)"
  by (simp_all add: metric_run_def)

lemma metric_run_inv:
  assumes "metric_inv fmt defs ws s" and "defaultsValid defs" and "\<forall>ev \<in> set events. \<forall>now batch. ev = EvWrite now batch \<longrightarrow> (\<forall>d \<in> set batch. amendable defs d)"
  shows "metric_inv fmt defs (ws @ written (m_running s) events) (metric_run fmt defs events s)"
  using assms(1,3)
proof (induction events arbitrary: s ws)
  case Nil
  then show ?case by simp
next
  case (Cons ev events)
  have rest: "\<forall>ev \<in> set events. \<forall>now batch. ev = EvWrite now batch \<longrightarrow> (\<forall>d \<in> set batch. amendable defs d)" using Cons.prems(2) by simp
  show ?case
  proof (cases ev)
    case (EvWrite now batch)
    show ?thesis
      using Cons.IH [OF metric_step_write [OF Cons.prems(1)] rest, of batch now] Cons.prems(2) unfolding metric_run_simps EvWrite
      by (simp add: metric_step_def split: if_splits)
  next
    case EvData
    have "m_running (metric_step fmt defs EvData s) = m_running s" by (simp add: metric_step_def split: prod.splits)
    then show ?thesis using Cons.IH [OF metric_step_data [OF Cons.prems(1)] rest] unfolding metric_run_simps EvData by simp
  next
    case (EvTick now)
    have "m_running (metric_step fmt defs (EvTick now) s) = m_running s" by (simp add: metric_step_def)
    then show ?thesis using Cons.IH [OF metric_step_tick [OF Cons.prems(1) assms(2)] rest, of now] unfolding metric_run_simps EvTick by simp
  next
    case (EvStop now)
    show ?thesis
      using Cons.IH [OF metric_step_stop [OF Cons.prems(1) assms(2), THEN conjunct1] rest, of now]
        metric_step_stop [OF Cons.prems(1) assms(2), of now] unfolding metric_run_simps EvStop by simp
  qed
qed


definition allAmendable :: "defaults \<Rightarrow> metricEvent list \<Rightarrow> bool" where
  "allAmendable defs events \<longleftrightarrow> (\<forall>ev \<in> set events. case ev of EvWrite now batch \<Rightarrow> list_all (amendable defs) batch | _ \<Rightarrow> True)"


definition demoDatum :: "real \<Rightarrow> Datum" where
  "demoDatum v = \<lparr>Priority = 0, Timestamp = None, MetricName = ''reads'', Dimensions = [], Value = v, Unit = [], Kind = KindDefault\<rparr>"

definition demoDefaults :: defaults where
  "demoDefaults = [(''reads:'', (demoDatum 0)\<lparr>Priority := 2, Unit := ''UnitCountAverage''\<rparr>)]"

definition minuteOf :: "int option \<Rightarrow> string" where
  "minuteOf t = (if t = Some 0 then ''00:00'' else ''00:01'')"

definition demoMetricEvents :: "metricEvent list" where
  "demoMetricEvents = [EvWrite 0 [demoDatum 10], EvData, EvTick 1, EvWrite 1 [demoDatum 4, demoDatum 8], EvStop 1, EvWrite 1 [demoDatum 7]]"

lemma demoDefaults_valid: "defaultsValid demoDefaults" "allAmendable demoDefaults demoMetricEvents"
  by (simp_all add: demoDefaults_def demoDatum_def defaultsValid_def allAmendable_def demoMetricEvents_def amendable_def amendFromDefault_def Datum_IsValid_def
      Datum_Id_def DimensionKV_def joinWith_def Let_def)


text \<open>
  A default enters the batch as a data point of its own: the average of a minute with the single value 10 is published as 5.
\<close>

definition demoDefault :: Datum where
  "demoDefault = (demoDatum 0)\<lparr>Priority := 2, Unit := ''UnitCountAverage''\<rparr>"

lemma demo_simps:
  "demoDefaults = [(''reads:'', demoDefault)]"
  "batchKey minuteOf (demoDefault\<lparr>Timestamp := Some 0\<rparr>) = ''reads--00:00''" "batchKey minuteOf ((demoDatum v)\<lparr>Timestamp := Some 0\<rparr>) = ''reads--00:00''"
  "batchKey minuteOf (demoDefault\<lparr>Timestamp := Some 1\<rparr>) = ''reads--00:01''"
  "stamped 0 (demoDatum v) = (demoDatum v)\<lparr>Timestamp := Some 0\<rparr>"
  "amendFromDefault [(''reads:'', demoDefault)] (demoDefault\<lparr>Timestamp := t\<rparr>) = demoDefault\<lparr>Timestamp := t\<rparr>"
  "Datum_IsValid (demoDefault\<lparr>Timestamp := t\<rparr>) = None"
  "Value (demoDatum v) = v" "Value demoDefault = 0" "Unit demoDefault = ''UnitCountAverage''" "MetricName demoDefault = ''reads''"
  by (simp_all add: demoDefaults_def demoDefault_def demoDatum_def batchKey_def DimensionKV_def joinWith_def minuteOf_def stamped_def amendFromDefault_def
      Datum_Id_def Datum_IsValid_def Let_def)

lemma default_enters_average:
  "(let s = metric_run minuteOf demoDefaults [EvWrite 0 [demoDatum 10], EvData, EvTick 1] (metric_start minuteOf demoDefaults 0)
    in map (map (\<lambda>d. (MetricName d, Unit d, Value d))) (map (daemon_buildMetricData builtinUnits) (m_published s)) = [[(''reads'', UnitCount, 5)]])"
  by (simp add: metric_step_def metric_start_def resetBatch_def rawFanout_def metricWriter_Write_def channel_write_def channel_read_def appendBatch_def publish_def
      daemon_append_def Let_def demo_simps)
    (simp add: newBatched_def daemon_buildMetricData_def batchDatum_def resolveCustomUnit_def builtinUnits_def averageOf_def sumOf_def demo_simps)

text \<open>
  The key does not separate names from values: two sets of dimensions share a batch, and the second datum is counted for the dimensions of the first.
\<close>

definition collidingDatum :: "(string, string) gomap \<Rightarrow> Datum" where
  "collidingDatum dims = \<lparr>Priority = 2, Timestamp = Some 0, MetricName = ''reads'', Dimensions = dims, Value = 1, Unit = UnitCount, Kind = KindDefault\<rparr>"

lemma collidingDatum_simps [simp]:
  "Timestamp (collidingDatum dims) = Some 0" "stamped now (collidingDatum dims) = collidingDatum dims" "amendFromDefault [] d = d"
  "Datum_IsValid (collidingDatum dims) = None"
  by (simp_all add: collidingDatum_def stamped_def amendFromDefault_def Datum_IsValid_def UnitCount_def)

lemma collidingDatum_keys [simp]:
  "batchKey minuteOf (collidingDatum [(''b'', ''c-d:e'')]) = ''reads-b:c-d:e-00:00''"
  "batchKey minuteOf (collidingDatum [(''b'', ''c''), (''d'', ''e'')]) = ''reads-b:c-d:e-00:00''"
  by code_simp+

lemma batchKey_collision:
  "(let s = metric_run minuteOf [] [EvWrite 0 [collidingDatum [(''b'', ''c-d:e'')], collidingDatum [(''b'', ''c''), (''d'', ''e'')]], EvData, EvTick 1] (metric_start minuteOf [] 0)
    in map (map (\<lambda>d. (Dimensions d, Value d))) (map (daemon_buildMetricData builtinUnits) (m_published s)) = [[([(''b'', ''c-d:e'')], 2)]])"
  by (simp add: metric_step_def metric_start_def resetBatch_def rawFanout_def metricWriter_Write_def channel_write_def channel_read_def appendBatch_def publish_def
      daemon_append_def Let_def)
    (simp add: collidingDatum_def newBatched_def daemon_buildMetricData_def batchDatum_def resolveCustomUnit_def builtinUnits_def sumOf_def UnitCount_def)

section \<open>Reducers\<close>

lemma builtinUnits_registered:
  "fold (\<lambda>(unit, v) units. Option.bind units (RegisterCustomUnit unit (fst v) (snd v))) builtinUnits (Some []) = Some builtinUnits"
  by (simp add: builtinUnits_def RegisterCustomUnit_def)

lemma fold_sum: "fold (\<lambda>v total. total + v) xs a = a + sum_list xs" for a :: real
  by (induction xs arbitrary: a) simp_all

lemma sumOf_sum_list: "sumOf xs = sum_list xs"
  by (simp add: sumOf_def fold_sum)

lemma fold_max: "fold (\<lambda>v r. Some (case r of None \<Rightarrow> v | Some m \<Rightarrow> max m v)) xs (Some a) = Some (Max (set (a # xs)))" for a :: real
proof (induction xs arbitrary: a)
  case (Cons x xs)
  then show ?case by (cases "set xs = {}") (simp_all add: max.assoc)
qed simp

lemma fold_min: "fold (\<lambda>v r. Some (case r of None \<Rightarrow> v | Some m \<Rightarrow> min m v)) xs (Some a) = Some (Min (set (a # xs)))" for a :: real
proof (induction xs arbitrary: a)
  case (Cons x xs)
  then show ?case by (cases "set xs = {}") (simp_all add: min.assoc)
qed simp

lemma extrema_correct:
  assumes "xs \<noteq> []"
  shows "maximumOf xs = Some (Max (set xs))" and "minimumOf xs = Some (Min (set xs))"
  using assms by (cases xs; simp add: maximumOf_def minimumOf_def fold_max fold_min)+

lemma average_between:
  assumes "xs \<noteq> []" and "minimumOf xs = Some a" and "maximumOf xs = Some b"
  shows "a \<le> averageOf xs \<and> averageOf xs \<le> b"
proof -
  have "x \<le> b" "a \<le> x" if "x \<in> set xs" for x using assms that by (auto simp: extrema_correct)
  then have "sum_list xs \<le> sum_list (map (\<lambda>_. b) xs)" "sum_list (map (\<lambda>_. a) xs) \<le> sum_list xs"
    using sum_list_mono [of xs "\<lambda>x. x" "\<lambda>_. b"] sum_list_mono [of xs "\<lambda>_. a" "\<lambda>x. x"] by simp_all
  then have "sum_list xs \<le> real (length xs) * b" "real (length xs) * a \<le> sum_list xs" by (simp_all add: sum_list_triv)
  then show ?thesis using assms(1) by (simp add: averageOf_def sumOf_sum_list field_simps)
qed

end
