(* ===== verification/MetricWriters.thy ===== *)
theory MetricWriters
  imports Metrics TextPattern KernelBuild
begin

text \<open>
  The writers of the metric daemon: CloudWatch (\<open>writer_cw.go\<close>), Prometheus (\<open>writer_prometheus.go\<close>) and OpenTelemetry (\<open>writer_otel.go\<close>,
  \<open>otel_naming.go\<close>). The CloudWatch client, the Prometheus registry and the OpenTelemetry meter are parameters. Strings are byte strings: letters are those
  of ASCII. The construction of the writers, their grace contexts and logging are left out; errors that are only logged are values here.
\<close>

section \<open>CloudWatch (writer\_cw.go)\<close>

definition PriorityLow :: int where "PriorityLow = 1"
definition PriorityHigh :: int where "PriorityHigh = 2"
definition DimensionDefault :: string where "DimensionDefault = ''{{default}}''"
definition chunkSizeCloudWatch :: int where "chunkSizeCloudWatch = 20"
definition minusOneWeek :: int where "minusOneWeek = - 1 * 7 * 24 * 3600000000000"
definition plusOneHour :: int where "plusOneHour = 1 * 3600000000000"

record cwDatum =
  cw_MetricName :: string
  cw_Dimensions :: "(string \<times> string) list"
  cw_Timestamp :: int
  cw_Value :: real
  cw_Unit :: string

definition cwDimensions :: "(string, string) gomap \<Rightarrow> (string \<times> string) list" where
  "cwDimensions dims = filter (\<lambda>(name, value). value \<noteq> DimensionDefault) dims"

definition cwBuildDatum :: "int \<Rightarrow> Datum \<Rightarrow> cwDatum option" where
  "cwBuildDatum now d =
     (if Priority d < PriorityHigh then None
      else (let timestamp = (case Timestamp d of None \<Rightarrow> now | Some t \<Rightarrow> t);
                dimensions = cwDimensions (Dimensions d)
            in if timestamp < now + minusOneWeek \<or> timestamp > now + plusOneHour then None
               else if \<exists>(name, value) \<in> set dimensions. name = [] \<or> value = [] then None
               else Some \<lparr>cw_MetricName = MetricName d, cw_Dimensions = dimensions, cw_Timestamp = timestamp, cw_Value = Value d, cw_Unit = Unit d\<rparr>))"

definition cw_buildMetricData :: "int \<Rightarrow> Datum list \<Rightarrow> cwDatum list" where
  "cw_buildMetricData now batch = List.map_filter (cwBuildDatum now) batch"

type_synonym 's cwClient = "'s \<Rightarrow> cwDatum list \<Rightarrow> 's \<times> error"

fun putMetricChunks :: "(goerr list \<Rightarrow> string) \<Rightarrow> 's cwClient \<Rightarrow> cwDatum list list \<Rightarrow> 's \<Rightarrow> error \<Rightarrow> 's \<times> error" where
  "putMetricChunks multiText PutMetricData [] s errs = (s, errs)"
| "putMetricChunks multiText PutMetricData (chunk # chunks) s errs =
     (case PutMetricData s chunk of
        (s, err) \<Rightarrow> putMetricChunks multiText PutMetricData chunks s (case err of None \<Rightarrow> errs | Some e \<Rightarrow> multierror_Append multiText errs e))"

definition cw_write :: "(goerr list \<Rightarrow> string) \<Rightarrow> 's cwClient \<Rightarrow> int \<Rightarrow> Datum list \<Rightarrow> 's \<Rightarrow> 's \<times> error" where
  "cw_write multiText PutMetricData now batch s =
     putMetricChunks multiText PutMetricData (the (Chunk (cw_buildMetricData now batch) chunkSizeCloudWatch)) s None"

definition cw_Write :: "(goerr list \<Rightarrow> string) \<Rightarrow> 's cwClient \<Rightarrow> int \<Rightarrow> Datum list \<Rightarrow> 's \<Rightarrow> 's \<times> error" where
  "cw_Write multiText PutMetricData now batch s = (if batch = [] then (s, None) else cw_write multiText PutMetricData now batch s)"

text \<open>A client that keeps what it was sent and what it answered, over any client.\<close>

definition recording :: "'s cwClient \<Rightarrow> ('s \<times> (cwDatum list \<times> error) list) cwClient" where
  "recording PutMetricData s chunk = (case PutMetricData (fst s) chunk of (s', err) \<Rightarrow> ((s', snd s @ [(chunk, err)]), err))"

lemma multierror_Append_some [simp]: "(multierror_Append multiText err e = None) = False"
  by (simp add: multierror_Append_def Let_def)

lemma putMetricChunks_recording:
  assumes "putMetricChunks multiText (recording PutMetricData) chunks s errs = (s', err)"
  shows "\<exists>rs. snd s' = snd s @ rs \<and> map fst rs = chunks \<and> (err = None \<longleftrightarrow> errs = None \<and> (\<forall>r \<in> set rs. snd r = None))"
  using assms
proof (induction chunks arbitrary: s errs)
  case (Cons c chunks)
  obtain t e where r: "PutMetricData (fst s) c = (t, e)" by fastforce
  let ?errs = "case e of None \<Rightarrow> errs | Some x \<Rightarrow> multierror_Append multiText errs x"
  obtain rs where rs: "snd s' = (snd s @ [(c, e)]) @ rs" "map fst rs = chunks" "err = None \<longleftrightarrow> ?errs = None \<and> (\<forall>r \<in> set rs. snd r = None)"
    using Cons.IH [of "(t, snd s @ [(c, e)])" ?errs] Cons.prems by (auto simp: recording_def r)
  then show ?case by (intro exI [of _ "(c, e) # rs"]) (auto split: option.splits)
qed simp

lemma cw_chunks:
  "concat (the (Chunk ds chunkSizeCloudWatch)) = ds"
  "c \<in> set (the (Chunk ds chunkSizeCloudWatch)) \<Longrightarrow> c \<noteq> [] \<and> length c \<le> 20"
  using Chunk_correct [of chunkSizeCloudWatch ds] by (auto simp: chunkSizeCloudWatch_def in_set_conv_nth)

text \<open>
  Whatever the client answers, every datum that can be written is sent once, in order, in requests of at most 20 data; nothing else is sent; and an error is
  returned exactly when a request failed.
\<close>

lemma cw_Write_sends_all:
  assumes "cw_Write multiText (recording PutMetricData) now batch (s0, []) = ((s1, requests), err)"
  shows "concat (map fst requests) = List.map_filter (cwBuildDatum now) batch" and "\<forall>r \<in> set requests. fst r \<noteq> [] \<and> length (fst r) \<le> 20"
    and "err = None \<longleftrightarrow> (\<forall>r \<in> set requests. snd r = None)"
proof -
  let ?chunks = "the (Chunk (cw_buildMetricData now batch) chunkSizeCloudWatch)"
  have *: "batch = [] \<and> requests = [] \<and> err = None \<or>
      map fst requests = ?chunks \<and> (err = None \<longleftrightarrow> (\<forall>r \<in> set requests. snd r = None))"
    using assms putMetricChunks_recording [of multiText PutMetricData ?chunks "(s0, [])" None "(s1, requests)" err]
    by (auto simp: cw_Write_def cw_write_def split: if_splits)
  then show "concat (map fst requests) = List.map_filter (cwBuildDatum now) batch"
  proof
    assume "batch = [] \<and> requests = [] \<and> err = None"
    then show ?thesis by (simp add: List.map_filter_def)
  next
    assume "map fst requests = ?chunks \<and> (err = None \<longleftrightarrow> (\<forall>r \<in> set requests. snd r = None))"
    then show ?thesis by (simp only: cw_chunks(1) cw_buildMetricData_def)
  qed
  have "c \<noteq> [] \<and> length c \<le> 20" if "c \<in> fst ` set requests" for c
    using that * cw_chunks(2) by (metis image_iff list.set_map empty_iff empty_set image_is_empty)
  then show "\<forall>r \<in> set requests. fst r \<noteq> [] \<and> length (fst r) \<le> 20" by blast
  show "err = None \<longleftrightarrow> (\<forall>r \<in> set requests. snd r = None)" using * by auto
qed

section \<open>Prometheus (writer\_prometheus.go)\<close>

definition promReplace :: "string \<Rightarrow> string" where
  "promReplace s = map (\<lambda>c. if c = CHR ''-'' then CHR ''_'' else c) s"

definition preprocessPrometheusMetric :: "Datum \<Rightarrow> Datum" where
  "preprocessPrometheusMetric d = d\<lparr>Dimensions := map (\<lambda>(k, v). (k, if v = DimensionDefault then [] else v)) (Dimensions d)\<rparr>"

definition shouldFilterMetric :: "Datum \<Rightarrow> bool" where
  "shouldFilterMetric d \<longleftrightarrow> Priority d < PriorityLow \<or> kd_kind (Kind d) = kindTotal"

definition getEffectiveKind :: "Datum \<Rightarrow> string" where
  "getEffectiveKind d =
     (if kd_kind (Kind d) \<in> {kindCounter, kindGauge, kindHistogram, kindSummary} then kd_kind (Kind d)
      else if Unit d = UnitCount then kindCounter
      else if Unit d = UnitMilliseconds \<or> Unit d = UnitSeconds then kindSummary
      else kindGauge)"

definition buildHelp :: "Datum \<Rightarrow> string" where
  "buildHelp d = (if kd_help (Kind d) \<noteq> [] then kd_help (Kind d) else ''unit: '' @ Unit d)"

definition DatumDimensionKeys :: "Datum \<Rightarrow> string list" where
  "DatumDimensionKeys d = rev (sort (map fst (Dimensions d)))"

text \<open>A collector: its type, name, help and labels, and the options of histograms and summaries.\<close>

record promCollector =
  pc_kind :: string
  pc_namespace :: string
  pc_name :: string
  pc_help :: string
  pc_labels :: "string list"
  pc_options :: "(real list \<times> (real, real) gomap \<times> int \<times> nat \<times> nat)"

definition createCollector :: "string \<Rightarrow> string \<Rightarrow> Datum \<Rightarrow> promCollector" where
  "createCollector namespace k d =
     \<lparr>pc_kind = k, pc_namespace = namespace, pc_name = MetricName d, pc_help = buildHelp d, pc_labels = DatumDimensionKeys d,
      pc_options =
        (if k = kindHistogram then (kd_buckets (Kind d), [], 0, 0, 0)
         else if k = kindSummary then ([], kd_objectives (Kind d), kd_maxAge (Kind d), kd_ageBuckets (Kind d), kd_bufCap (Kind d))
         else ([], [], 0, 0, 0))\<rparr>"

text \<open>
  The registry and the collectors in it, a state of type \<open>'r\<close>: \<open>Register\<close> either takes the collector, tells which collector is registered already, or
  fails; \<open>process\<close> adds a value to a collector as one of the given type and may panic.
\<close>

datatype registration = Registered | AlreadyRegistered promCollector | RegistrationFailed goerr

type_synonym 'r promLib = "(promCollector \<Rightarrow> 'r \<Rightarrow> 'r \<times> registration) \<times> (string \<Rightarrow> promCollector \<Rightarrow> (string, string) gomap \<Rightarrow> real \<Rightarrow> 'r \<Rightarrow> 'r \<times> error)"

record 'r promWriter =
  pw_registry :: 'r
  pw_metrics :: int
  pw_logged :: "goerr list"

definition addMetric :: "int \<Rightarrow> 'r promWriter \<Rightarrow> 'r promWriter \<times> error" where
  "addMetric metricLimit w =
     (if pw_metrics w \<ge> metricLimit then (w, Some (Opaque ''metric limit exceeded'')) else (w\<lparr>pw_metrics := pw_metrics w + 1\<rparr>, None))"

definition logErr :: "goerr \<Rightarrow> 'r promWriter \<Rightarrow> 'r promWriter" where
  "logErr e w = w\<lparr>pw_logged := pw_logged w @ [e]\<rparr>"

definition processMetric :: "'r promLib \<Rightarrow> string \<Rightarrow> promCollector \<Rightarrow> Datum \<Rightarrow> 'r promWriter \<Rightarrow> 'r promWriter" where
  "processMetric lib k c d w =
     (case snd lib k c (Dimensions d) (Value d) (pw_registry w) of
        (r, None) \<Rightarrow> w\<lparr>pw_registry := r\<rparr>
      | (r, Some panic) \<Rightarrow> logErr panic (w\<lparr>pw_registry := r\<rparr>))"

definition registerAndProcessMetric :: "'r promLib \<Rightarrow> int \<Rightarrow> string \<Rightarrow> promCollector \<Rightarrow> Datum \<Rightarrow> 'r promWriter \<Rightarrow> 'r promWriter" where
  "registerAndProcessMetric lib metricLimit k c d w =
     (case fst lib c (pw_registry w) of
        (r, RegistrationFailed err) \<Rightarrow> logErr (errorf_w (''register metric '' @ MetricName d @ '': '') err []) (w\<lparr>pw_registry := r\<rparr>)
      | (r, AlreadyRegistered c') \<Rightarrow> processMetric lib k c' d (w\<lparr>pw_registry := r\<rparr>)
      | (r, Registered) \<Rightarrow>
          (case addMetric metricLimit (w\<lparr>pw_registry := r\<rparr>) of
             (w, Some err) \<Rightarrow> logErr (errorf_w ''add metric: '' err []) w
           | (w, None) \<Rightarrow> processMetric lib k c d w))"

definition writeMetricFromDatum :: "'r promLib \<Rightarrow> string \<Rightarrow> int \<Rightarrow> Datum \<Rightarrow> 'r promWriter \<Rightarrow> 'r promWriter" where
  "writeMetricFromDatum lib namespace metricLimit d w =
     (let d = (if CHR ''-'' \<in> set (MetricName d) then d\<lparr>MetricName := promReplace (MetricName d)\<rparr> else d);
          k = getEffectiveKind d
      in registerAndProcessMetric lib metricLimit k (createCollector namespace k d) d w)"

definition prom_write :: "'r promLib \<Rightarrow> defaults \<Rightarrow> string \<Rightarrow> int \<Rightarrow> Datum list \<Rightarrow> 'r promWriter \<Rightarrow> 'r promWriter" where
  "prom_write lib defs namespace metricLimit batch w =
     fold (\<lambda>d w.
         let d = amendFromDefault defs (preprocessPrometheusMetric d)
         in if shouldFilterMetric d then w else writeMetricFromDatum lib namespace metricLimit d w)
       batch w"

lemma getEffectiveKind_cases: "getEffectiveKind d \<in> {kindCounter, kindGauge, kindHistogram, kindSummary}"
  by (simp add: getEffectiveKind_def)

text \<open>The counter of metrics never exceeds the limit.\<close>

lemma registerAndProcessMetric_limit:
  "pw_metrics w \<le> metricLimit \<Longrightarrow> pw_metrics (registerAndProcessMetric lib metricLimit k c d w) \<le> metricLimit"
  by (auto simp: registerAndProcessMetric_def processMetric_def addMetric_def logErr_def split: prod.splits registration.splits option.splits)

text \<open>
  The limit does not limit the metrics: the collector that is refused stays in the registry, so only the first value of the metric is dropped.
\<close>

lemma refused_metric_written_next:
  assumes "fst lib c (pw_registry w) = (r1, Registered)" and "pw_metrics w \<ge> metricLimit"
    and "fst lib c r1 = (r1, AlreadyRegistered c)" and "snd lib k c (Dimensions d) (Value d) r1 = (r2, None)"
  shows "registerAndProcessMetric lib metricLimit k c d w = w\<lparr>pw_registry := r1, pw_logged := pw_logged w @ [errorf_w ''add metric: '' (Opaque ''metric limit exceeded'') []]\<rparr>"
    and "pw_registry (registerAndProcessMetric lib metricLimit k c d (registerAndProcessMetric lib metricLimit k c d w)) = r2"
  using assms by (simp_all add: registerAndProcessMetric_def addMetric_def processMetric_def logErr_def)


text \<open>A registry in memory: collectors of one name must agree in help and labels; values are kept per collector.\<close>

definition demoRegister :: "promCollector \<Rightarrow> (string \<times> promCollector \<times> real list) list \<Rightarrow> (string \<times> promCollector \<times> real list) list \<times> registration" where
  "demoRegister c r =
     (case gm_get r (pc_name c) of
        None \<Rightarrow> (gm_set r (pc_name c) (c, []), Registered)
      | Some (c', values) \<Rightarrow>
          if pc_help c' = pc_help c \<and> pc_labels c' = pc_labels c then (r, AlreadyRegistered c') else (r, RegistrationFailed (Opaque ''inconsistent'')))"

definition demoProcess :: "string \<Rightarrow> promCollector \<Rightarrow> (string, string) gomap \<Rightarrow> real \<Rightarrow> (string \<times> promCollector \<times> real list) list
    \<Rightarrow> (string \<times> promCollector \<times> real list) list \<times> error" where
  "demoProcess k c labels v r =
     (if pc_kind c \<noteq> k then (r, Some (Opaque ''interface conversion''))
      else case gm_get r (pc_name c) of None \<Rightarrow> (r, None) | Some (c', values) \<Rightarrow> (gm_set r (pc_name c) (c', values @ [v]), None))"

definition demoCount :: "string \<Rightarrow> real \<Rightarrow> Datum" where
  "demoCount name v = \<lparr>Priority = 2, Timestamp = None, MetricName = name, Dimensions = [], Value = v, Unit = UnitCount, Kind = KindDefault\<rparr>"

text \<open>With a limit of one metric two metrics are exported; the first value of the second is missing.\<close>

lemma limit_drops_first_value_only:
  "(let w = prom_write (demoRegister, demoProcess) [] ''ns'' 1 [demoCount ''a'' 1, demoCount ''b'' 2, demoCount ''b'' 3, demoCount ''a'' 4] \<lparr>pw_registry = [], pw_metrics = 0, pw_logged = []\<rparr>
    in map (\<lambda>(name, c, values). (name, values)) (pw_registry w) = [(''a'', [1, 4]), (''b'', [3])] \<and> pw_metrics w = 1 \<and> length (pw_logged w) = 1)"
proof -
  have [simp]: "preprocessPrometheusMetric (demoCount n v) = demoCount n v" "shouldFilterMetric (demoCount n v) = False"
    "amendFromDefault [] x = x" "getEffectiveKind (demoCount n v) = kindCounter" "MetricName (demoCount n v) = n" "Value (demoCount n v) = v" for n v x
    by (simp_all add: demoCount_def preprocessPrometheusMetric_def shouldFilterMetric_def amendFromDefault_def getEffectiveKind_def PriorityLow_def KindDefault_def
        kindOf_def kindTotal_def kindCounter_def kindGauge_def kindHistogram_def kindSummary_def)
  have [simp]: "pc_name (createCollector ns k d) = MetricName d" "pc_kind (createCollector ns k d) = k" "pc_help (createCollector ns k d) = buildHelp d"
    "pc_labels (createCollector ns k d) = DatumDimensionKeys d" "buildHelp (demoCount n v) = ''unit: Count''" "DatumDimensionKeys (demoCount n v) = []" for ns k d n v
    by (simp_all add: createCollector_def buildHelp_def DatumDimensionKeys_def demoCount_def KindDefault_def kindOf_def UnitCount_def)
  show ?thesis
    by (simp add: prom_write_def writeMetricFromDatum_def registerAndProcessMetric_def processMetric_def demoRegister_def demoProcess_def addMetric_def logErr_def Let_def)
qed

section \<open>OpenTelemetry names and units (otel\_naming.go)\<close>

definition byteOf :: "char \<Rightarrow> nat" where "byteOf c = of_char c"

definition isUpper :: "char \<Rightarrow> bool" where "isUpper c \<longleftrightarrow> 65 \<le> byteOf c \<and> byteOf c \<le> 90"
definition isLower :: "char \<Rightarrow> bool" where "isLower c \<longleftrightarrow> 97 \<le> byteOf c \<and> byteOf c \<le> 122"
definition isDigit :: "char \<Rightarrow> bool" where "isDigit c \<longleftrightarrow> 48 \<le> byteOf c \<and> byteOf c \<le> 57"
definition toLower :: "char \<Rightarrow> char" where "toLower c = (if isUpper c then char_of (byteOf c + 32) else c)"

text \<open>\<open>prev\<close> is the rune before, \<open>None\<close> at the start of the segment.\<close>

fun camelLoop :: "char option \<Rightarrow> string \<Rightarrow> string" where
  "camelLoop prev [] = []"
| "camelLoop prev (r # rest) =
     (let startsNewWord = (case prev of None \<Rightarrow> False
        | Some p \<Rightarrow> (isUpper r \<or> isDigit r)
            \<and> (\<not> isUpper p \<and> \<not> isDigit p \<or> (case rest of [] \<Rightarrow> False | next # _ \<Rightarrow> isLower next))
            \<and> p \<noteq> CHR ''_'')
      in (if startsNewWord then [CHR ''_''] else []) @ toLower r # camelLoop (Some r) rest)"

definition camelToSnake :: "string \<Rightarrow> string" where
  "camelToSnake segment = camelLoop None segment"

definition isSeparator :: "char \<Rightarrow> bool" where
  "isSeparator c \<longleftrightarrow> c = CHR '' '' \<or> c = CHR ''-'' \<or> c = CHR ''/'' \<or> c = CHR '':'' \<or> byteOf c = 92"

text \<open>\<open>strings.Split\<close> at dots and \<open>strings.Join\<close> with them.\<close>

fun splitDots :: "string \<Rightarrow> string list" where
  "splitDots [] = [[]]"
| "splitDots (c # cs) = (if c = CHR ''.'' then [] # splitDots cs else (case splitDots cs of [] \<Rightarrow> [[c]] | p # ps \<Rightarrow> (c # p) # ps))"

definition FormatOtelMetricName :: "string \<Rightarrow> string" where
  "FormatOtelMetricName name =
     (let normalized = map (\<lambda>c. if isSeparator c then CHR ''.'' else c) name;
          out = filter (\<lambda>p. p \<noteq> []) (map TrimSpace (splitDots normalized))
      in joinWith ''.'' (map (\<lambda>p. map toLower (camelToSnake p)) out))"

definition ToUcumUnit :: "string \<Rightarrow> string" where
  "ToUcumUnit unit =
     (if unit = ''Count'' then ''1'' else if unit = ''Seconds'' then ''s'' else if unit = ''Milliseconds'' then ''ms'' else if unit = ''Microseconds'' then ''us''
      else if unit = ''Bytes'' then ''By'' else if unit = ''Kilobytes'' then ''kBy'' else if unit = ''Megabytes'' then ''MBy'' else if unit = ''Gigabytes'' then ''GBy''
      else if unit = ''Terabytes'' then ''TBy'' else if unit = ''Bits'' then ''bit'' else if unit = ''Percent'' then ''%''
      else if unit = ''Bytes/Second'' then ''By/s'' else if unit = ''Bits/Second'' then ''bit/s'' else if unit = ''Count/Second'' then ''1/s'' else ''1'')"

lemma otel_names:
  "FormatOtelMetricName ''ApiRequestCount'' = ''api_request_count''" "FormatOtelMetricName ''stream.ConsumerError'' = ''stream.consumer_error''"
  "FormatOtelMetricName ''db-query/duration'' = ''db.query.duration''" "camelToSnake ''HTTPServer'' = ''http_server''"
  by code_simp+

text \<open>A name in snake case is not kept: the version number is split off.\<close>

lemma otel_name_not_idempotent:
  "FormatOtelMetricName ''apiV2'' = ''api_v2''" "FormatOtelMetricName ''api_v2'' = ''api_v_2''"
  by code_simp+


text \<open>Names have no upper case letters and no separators but the dot.\<close>

lemma byteOf_char: "n < 256 \<Longrightarrow> byteOf (char_of n) = n"
  by (simp add: byteOf_def)

lemma toLower_no_upper: "\<not> isUpper (toLower c)" and toLower_keeps: "\<not> isUpper c \<Longrightarrow> toLower c = c"
  by (auto simp: toLower_def isUpper_def byteOf_char)

lemma toLower_separator: "isSeparator (toLower c) \<longleftrightarrow> isSeparator c"
proof (cases "isUpper c")
  case True
  then have "byteOf (toLower c) = byteOf c + 32" by (simp add: toLower_def byteOf_char isUpper_def)
  then show ?thesis using True by (auto simp: isSeparator_def isUpper_def byteOf_def)
qed (simp add: toLower_keeps)

lemma camelLoop_set: "set (camelLoop prev cs) \<subseteq> insert (CHR ''_'') (toLower ` set cs)"
  by (induction prev cs rule: camelLoop.induct) (auto simp: Let_def split: if_splits option.splits)

lemma splitDots_set: "p \<in> set (splitDots s) \<Longrightarrow> set p \<subseteq> set s"
  by (induction s arbitrary: p) (fastforce split: if_splits list.splits)+

lemma TrimSpace_set: "set (TrimSpace s) \<subseteq> set s"
  by (auto simp: TrimSpace_def dest!: set_dropWhileD)

lemma joinWith_set: "set (joinWith sep xs) \<subseteq> set sep \<union> (\<Union>x \<in> set xs. set x)"
  by (auto simp: joinWith_def split: list.splits)

lemma FormatOtelMetricName_normal:
  assumes "c \<in> set (FormatOtelMetricName name)"
  shows "\<not> isUpper c" and "\<not> isSeparator c"
proof -
  let ?n = "map (\<lambda>c. if isSeparator c then CHR ''.'' else c) name"
  have plain: "\<not> isUpper (CHR ''.'')" "\<not> isSeparator (CHR ''.'')" "\<not> isSeparator (CHR ''_'')" "\<not> isUpper (CHR ''_'')"
    by code_simp+
  consider "c = CHR ''.''" | p where "p \<in> set (splitDots ?n)" "c \<in> toLower ` set (camelToSnake (TrimSpace p))"
    using assms joinWith_set unfolding FormatOtelMetricName_def Let_def by fastforce
  then have "\<not> isUpper c \<and> \<not> isSeparator c"
  proof cases
    case (2 p)
    then obtain x where x: "c = toLower x" "x \<in> set (camelToSnake (TrimSpace p))" by blast
    then have "x = CHR ''_'' \<or> x \<in> toLower ` set p" using camelLoop_set TrimSpace_set unfolding camelToSnake_def by fastforce
    moreover have "\<not> isSeparator y" if "y \<in> set p" for y using that splitDots_set [OF 2(1)] plain by auto
    ultimately show ?thesis using x(1) plain by (auto simp: toLower_no_upper toLower_separator)
  qed (use plain in simp)
  then show "\<not> isUpper c" "\<not> isSeparator c" by simp_all
qed

section \<open>OpenTelemetry (writer\_otel.go)\<close>

text \<open>
  The meter: \<open>instrument k name unit help buckets\<close> makes an instrument of kind \<open>k\<close>, \<open>measure\<close> adds a value to one. The writer keeps one
  instrument per kind and name.
\<close>

record ('m, 'i) otelMeter =
  instrument :: "string \<Rightarrow> string \<Rightarrow> string \<Rightarrow> string \<Rightarrow> real list \<Rightarrow> 'm \<Rightarrow> 'm \<times> (goerr + 'i)"
  measure :: "'i \<Rightarrow> real \<Rightarrow> (string \<times> string) list \<Rightarrow> 'm \<Rightarrow> 'm"

record ('m, 'i) otelWriter =
  ot_state :: 'm
  counters :: "(string, 'i) gomap"
  gauges :: "(string, 'i) gomap"
  histograms :: "(string, 'i) gomap"
  ot_logged :: "goerr list"

definition otelEffectiveKind :: "Datum \<Rightarrow> string" where
  "otelEffectiveKind d =
     (if kd_kind (Kind d) \<in> {kindCounter, kindGauge, kindHistogram, kindSummary} then kd_kind (Kind d)
      else if Unit d = UnitCount then kindCounter
      else if Unit d \<in> {UnitMilliseconds, ''UnitMillisecondsMaximum'', ''UnitMillisecondsMinimum'', ''UnitMillisecondsAverage'',
          UnitSeconds, ''UnitSecondsMaximum'', ''UnitSecondsMinimum'', ''UnitSecondsAverage''} then kindHistogram
      else kindGauge)"

definition otel_counter :: "('m, 'i) otelMeter \<Rightarrow> string \<Rightarrow> string \<Rightarrow> string \<Rightarrow> ('m, 'i) otelWriter \<Rightarrow> ('m, 'i) otelWriter \<times> (goerr + 'i)" where
  "otel_counter meter name unit help w =
     (case gm_get (counters w) name of
        Some i \<Rightarrow> (w, Inr i)
      | None \<Rightarrow>
          (case instrument meter kindCounter name unit help [] (ot_state w) of
             (m, Inl err) \<Rightarrow> (w\<lparr>ot_state := m\<rparr>, Inl err)
           | (m, Inr i) \<Rightarrow> (w\<lparr>ot_state := m, counters := gm_set (counters w) name i\<rparr>, Inr i)))"

definition otel_gauge :: "('m, 'i) otelMeter \<Rightarrow> string \<Rightarrow> string \<Rightarrow> string \<Rightarrow> ('m, 'i) otelWriter \<Rightarrow> ('m, 'i) otelWriter \<times> (goerr + 'i)" where
  "otel_gauge meter name unit help w =
     (case gm_get (gauges w) name of
        Some i \<Rightarrow> (w, Inr i)
      | None \<Rightarrow>
          (case instrument meter kindGauge name unit help [] (ot_state w) of
             (m, Inl err) \<Rightarrow> (w\<lparr>ot_state := m\<rparr>, Inl err)
           | (m, Inr i) \<Rightarrow> (w\<lparr>ot_state := m, gauges := gm_set (gauges w) name i\<rparr>, Inr i)))"

definition otel_histogram ::
  "('m, 'i) otelMeter \<Rightarrow> string \<Rightarrow> string \<Rightarrow> string \<Rightarrow> real list \<Rightarrow> ('m, 'i) otelWriter \<Rightarrow> ('m, 'i) otelWriter \<times> (goerr + 'i)" where
  "otel_histogram meter name unit help buckets w =
     (case gm_get (histograms w) name of
        Some i \<Rightarrow> (w, Inr i)
      | None \<Rightarrow>
          (case instrument meter kindHistogram name unit help buckets (ot_state w) of
             (m, Inl err) \<Rightarrow> (w\<lparr>ot_state := m\<rparr>, Inl err)
           | (m, Inr i) \<Rightarrow> (w\<lparr>ot_state := m, histograms := gm_set (histograms w) name i\<rparr>, Inr i)))"

definition otel_attributes :: "Datum \<Rightarrow> (string \<times> string) list" where
  "otel_attributes d = filter (\<lambda>(k, v). v \<noteq> DimensionDefault) (Dimensions d)"

definition otel_record :: "('m, 'i) otelMeter \<Rightarrow> Datum \<Rightarrow> ('m, 'i) otelWriter \<Rightarrow> ('m, 'i) otelWriter \<times> error" where
  "otel_record meter d w =
     (let name = FormatOtelMetricName (MetricName d); unit = ToUcumUnit (Unit d); k = otelEffectiveKind d; help = kd_help (Kind d)
      in case (if k = kindCounter then otel_counter meter name unit help w
               else if k \<in> {kindHistogram, kindSummary} then otel_histogram meter name unit help (kd_buckets (Kind d)) w
               else otel_gauge meter name unit help w) of
           (w, Inl err) \<Rightarrow> (w, Some err)
         | (w, Inr i) \<Rightarrow> (w\<lparr>ot_state := measure meter i (Value d) (otel_attributes d) (ot_state w)\<rparr>, None))"

text \<open>A batch may hold nil pointers.\<close>

definition otel_Write :: "('m, 'i) otelMeter \<Rightarrow> defaults \<Rightarrow> Datum option list \<Rightarrow> ('m, 'i) otelWriter \<Rightarrow> ('m, 'i) otelWriter" where
  "otel_Write meter defs batch w =
     fold (\<lambda>d w. case d of
         None \<Rightarrow> w
       | Some d \<Rightarrow>
           (let d = amendFromDefault defs d
            in if kd_kind (Kind d) = kindTotal then w
               else (case otel_record meter d w of (w, None) \<Rightarrow> w | (w, Some err) \<Rightarrow> w\<lparr>ot_logged := ot_logged w @ [err]\<rparr>)))
       batch w"

text \<open>An instrument is never replaced, so the unit and the help of the first datum of a name stay.\<close>

definition keepsInstruments :: "('m, 'i) otelWriter \<Rightarrow> ('m, 'i) otelWriter \<Rightarrow> bool" where
  "keepsInstruments w w' \<longleftrightarrow> gm_get (counters w) \<subseteq>\<^sub>m gm_get (counters w') \<and> gm_get (gauges w) \<subseteq>\<^sub>m gm_get (gauges w') \<and> gm_get (histograms w) \<subseteq>\<^sub>m gm_get (histograms w')"

lemma keepsInstruments_refl [simp]: "keepsInstruments w w"
  by (simp add: keepsInstruments_def)

lemma keepsInstruments_trans: "keepsInstruments u v \<Longrightarrow> keepsInstruments v w \<Longrightarrow> keepsInstruments u w"
  unfolding keepsInstruments_def by (blast intro: map_le_trans)

lemma keepsInstruments_frame [simp]:
  "keepsInstruments w (w'\<lparr>ot_state := m\<rparr>) = keepsInstruments w w'" "keepsInstruments w (w'\<lparr>ot_logged := l\<rparr>) = keepsInstruments w w'"
  by (simp_all add: keepsInstruments_def)

lemma otel_instrument_keeps:
  "otel_counter meter name unit help w = (w', r) \<Longrightarrow> keepsInstruments w w'"
  "otel_gauge meter name unit help w = (w', r) \<Longrightarrow> keepsInstruments w w'"
  "otel_histogram meter name unit help buckets w = (w', r) \<Longrightarrow> keepsInstruments w w'"
  unfolding otel_counter_def otel_gauge_def otel_histogram_def
  by (auto simp: keepsInstruments_def map_le_def split: option.splits prod.splits sum.splits)

lemma otel_record_keeps: "otel_record meter d w = (w', r) \<Longrightarrow> keepsInstruments w w'"
  unfolding otel_record_def Let_def
  by (auto split: prod.splits sum.splits if_splits dest: otel_instrument_keeps)

lemma otel_Write_keeps: "keepsInstruments w (otel_Write meter defs batch w)"
proof (induction batch arbitrary: w)
  case (Cons d batch)
  define f where "f = (\<lambda>w. otel_Write meter defs [d] w)"
  have "keepsInstruments w (f w)"
    by (auto simp: f_def otel_Write_def Let_def split: option.splits prod.splits dest: otel_record_keeps)
  moreover have "otel_Write meter defs (d # batch) w = otel_Write meter defs batch (f w)" by (simp add: f_def otel_Write_def)
  ultimately show ?case using keepsInstruments_trans Cons.IH [of "f w"] by metis
qed (simp add: otel_Write_def)

end
