(* ===== verification/Calculator.thy ===== *)
theory Calculator
  imports MetricWriters DistLock
begin

text \<open>
  Metrics per runner: the calculation (\<open>metric/calculator/handler_per_runner_metric.go\<close>), the handlers for messages and requests
  (\<open>stream/mpr_handler.go\<close>, \<open>httpserver/rpr_handler.go\<close>) and the module that runs them on the leader (\<open>calculator_module.go\<close>, \<open>handlers.go\<close>).

  Values are real numbers, times are integers in nanoseconds, and \<open>GetMetricData\<close> of the CloudWatch client is a parameter. Periods are not negative.
\<close>

section \<open>Queries\<close>

record metricQuery =
  q_Id :: string
  q_Namespace :: string
  q_MetricName :: string
  q_Dimensions :: "(string \<times> string) list"
  q_Period :: int
  q_Stat :: string

record metricDataInput =
  gi_StartTime :: int
  gi_EndTime :: int
  gi_Queries :: "metricQuery list"
  gi_MaxDatapoints :: "int option"

text \<open>A result has the id of its query and values.\<close>

type_synonym 's metricSource = "metricDataInput \<Rightarrow> 's \<Rightarrow> 's \<times> (goerr + (string \<times> real list) list)"

record PerRunnerMetricSettings =
  MaxIncreasePercent :: real
  MaxIncreasePeriod :: int
  Period :: int
  TargetValue :: real

record CalculatorSettings =
  cs_Cluster :: string
  cs_Service :: string
  cs_Namespace :: string

definition periodSeconds :: "int \<Rightarrow> int" where
  "periodSeconds period = period div second"

section \<open>The calculation (handler\_per\_runner\_metric.go)\<close>

definition getPerRunnerMetricName :: "string \<Rightarrow> string" where
  "getPerRunnerMetricName name = ''PerRunner'' @ name"

definition firstMetricValue :: "goerr + (string \<times> real list) list \<Rightarrow> goerr + real" where
  "firstMetricValue out =
     (case out of
        Inl err \<Rightarrow> Inl (errorf_w ''can not get metric: '' err [])
      | Inr [] \<Rightarrow> Inl (Opaque ''no metric results'')
      | Inr ((i, []) # _) \<Rightarrow> Inl (Opaque ''no metric values'')
      | Inr ((i, v # _) # _) \<Rightarrow> Inr v)"

definition getPreviousMetric :: "'s metricSource \<Rightarrow> CalculatorSettings \<Rightarrow> int \<Rightarrow> string \<Rightarrow> string \<Rightarrow> PerRunnerMetricSettings \<Rightarrow> 's \<Rightarrow> 's \<times> (goerr + real)" where
  "getPreviousMetric GetMetricData calc now name stat settings s =
     (case GetMetricData
        \<lparr>gi_StartTime = now + - 1 * (MaxIncreasePeriod settings + Period settings), gi_EndTime = now + - 1 * Period settings,
         gi_Queries = [\<lparr>q_Id = ''m1'', q_Namespace = cs_Namespace calc, q_MetricName = name, q_Dimensions = [], q_Period = periodSeconds (Period settings), q_Stat = stat\<rparr>],
         gi_MaxDatapoints = Some 1\<rparr> s of
        (s, out) \<Rightarrow> (s, firstMetricValue out))"

definition getEcsMetric :: "'s metricSource \<Rightarrow> CalculatorSettings \<Rightarrow> int \<Rightarrow> string \<Rightarrow> string \<Rightarrow> int \<Rightarrow> 's \<Rightarrow> 's \<times> (goerr + real)" where
  "getEcsMetric GetMetricData calc now name stat period s =
     (case GetMetricData
        \<lparr>gi_StartTime = now + - 1 * period * 5, gi_EndTime = now + - 1 * period,
         gi_Queries = [\<lparr>q_Id = ''m1'', q_Namespace = ''ECS/ContainerInsights'', q_MetricName = name,
           q_Dimensions = [(''ClusterName'', cs_Cluster calc), (''ServiceName'', cs_Service calc)], q_Period = periodSeconds period, q_Stat = stat\<rparr>],
         gi_MaxDatapoints = Some 1\<rparr> s of
        (s, out) \<Rightarrow> (s, firstMetricValue out))"

text \<open>The new value, from the value of the runners, the previous value per runner (0 when there is none) and the current total.\<close>

definition newPerRunner :: "PerRunnerMetricSettings \<Rightarrow> real \<Rightarrow> real \<Rightarrow> real \<Rightarrow> real" where
  "newPerRunner settings runnerCount currentPrm currentValue =
     (let newPrm = currentValue / runnerCount;
          currentPrm = (if currentPrm = 0 then newPrm else currentPrm);
          maxPrm = currentPrm * (MaxIncreasePercent settings / 100);
          maxPrm = (if currentPrm < TargetValue settings then TargetValue settings * (MaxIncreasePercent settings / 100) else maxPrm)
      in if newPrm > maxPrm then maxPrm else newPrm)"

definition perRunnerDatum :: "string \<Rightarrow> real \<Rightarrow> Datum" where
  "perRunnerDatum metricName v =
     \<lparr>Priority = PriorityHigh, Timestamp = None, MetricName = metricName, Dimensions = [], Value = v, Unit = ''UnitCountAverage'', Kind = KindDefault\<rparr>"

definition CalculatePerRunnerMetrics ::
  "'s metricSource \<Rightarrow> CalculatorSettings \<Rightarrow> int \<Rightarrow> string \<Rightarrow> real \<Rightarrow> PerRunnerMetricSettings \<Rightarrow> 's \<Rightarrow> 's \<times> (goerr + Datum)" where
  "CalculatePerRunnerMetrics GetMetricData calc now name currentValue settings s =
     (let metricName = getPerRunnerMetricName name
      in case getEcsMetric GetMetricData calc now ''DesiredTaskCount'' ''Maximum'' (Period settings) s of
           (s, Inl err) \<Rightarrow> (s, Inl (errorf_w ''can not get runner count: '' err []))
         | (s, Inr runnerCount) \<Rightarrow>
             if runnerCount = 0 then (s, Inl (Opaque ''runner count is zero''))
             else (case getPreviousMetric GetMetricData calc now metricName ''Average'' settings s of
                     (s, r) \<Rightarrow>
                       (let currentPrm = (case r of Inl err \<Rightarrow> 0 | Inr v \<Rightarrow> v)
                        in (s, Inr (perRunnerDatum metricName (newPerRunner settings runnerCount currentPrm currentValue))))))"

text \<open>The value never exceeds the total per runner, nor the allowed increase over the larger of the previous value and the target.\<close>

lemma newPerRunner_bounds:
  assumes "MaxIncreasePercent settings \<ge> 0"
  shows "newPerRunner settings n p v \<le> v / n"
    and "p \<noteq> 0 \<Longrightarrow> newPerRunner settings n p v \<le> max p (TargetValue settings) * (MaxIncreasePercent settings / 100)"
  using assms by (auto simp: newPerRunner_def Let_def max_def intro: mult_right_mono)

text \<open>Within the limit the value is the exact quotient.\<close>

lemma newPerRunner_exact:
  assumes "p \<noteq> 0" and "v / n \<le> max p (TargetValue settings) * (MaxIncreasePercent settings / 100)"
  shows "newPerRunner settings n p v = v / n"
  using assms by (auto simp: newPerRunner_def Let_def max_def split: if_splits)

lemma newPerRunner_pos:
  assumes "p > 0" and "v / n > 0" and "MaxIncreasePercent settings > 0"
  shows "newPerRunner settings n p v > 0"
  using assms by (simp add: newPerRunner_def Let_def)

text \<open>
  CloudWatch as it answers a calculation: the runner count and the value per runner that was written last. The values that are written, period after
  period, each being the previous one of the next.
\<close>

definition lastWritten :: "(real \<times> real) metricSource" where
  "lastWritten input s = (s, Inr [(''m1'', [if map q_MetricName (gi_Queries input) = [''DesiredTaskCount''] then fst s else snd s])])"

fun perRunnerSeries :: "CalculatorSettings \<Rightarrow> int \<Rightarrow> string \<Rightarrow> PerRunnerMetricSettings \<Rightarrow> real \<Rightarrow> (real \<times> real) list \<Rightarrow> real list" where
  "perRunnerSeries calc now name settings p [] = []"
| "perRunnerSeries calc now name settings p ((n, v) # rest) =
     (case CalculatePerRunnerMetrics lastWritten calc now name v settings (n, p) of
        (s, Inr d) \<Rightarrow> Value d # perRunnerSeries calc (now + Period settings) name settings (Value d) rest
      | (s, Inl err) \<Rightarrow> perRunnerSeries calc (now + Period settings) name settings p rest)"

lemma Calculate_lastWritten:
  assumes "n \<noteq> 0"
  shows "CalculatePerRunnerMetrics lastWritten calc now name v settings (n, p) =
    ((n, p), Inr (perRunnerDatum (getPerRunnerMetricName name) (newPerRunner settings n p v)))"
  using assms
  by (simp add: CalculatePerRunnerMetrics_def getEcsMetric_def getPreviousMetric_def lastWritten_def firstMetricValue_def getPerRunnerMetricName_def Let_def)



text \<open>Without a previous value there is no limit but that of the target: a first value is taken as it is.\<close>

lemma first_value_unlimited:
  assumes "MaxIncreasePercent settings \<ge> 100" and "v / n \<ge> TargetValue settings" and "v / n \<ge> 0"
  shows "newPerRunner settings n 0 v = v / n"
proof -
  have "v / n \<le> v / n * (MaxIncreasePercent settings / 100)" using mult_left_mono [of 1 "MaxIncreasePercent settings / 100" "v / n"] assms(1,3) by simp
  then show ?thesis using assms(2) by (simp add: newPerRunner_def Let_def)
qed

section \<open>The handlers (mpr\_handler.go, rpr\_handler.go)\<close>

definition PerRunnerMetricName :: string where "PerRunnerMetricName = ''StreamMessages''"
definition MessagesAvailableMetricName :: string where "MessagesAvailableMetricName = ''StreamMessagesAvailable''"
definition MessagesSentMetricName :: string where "MessagesSentMetricName = ''StreamMessagesSent''"
definition MetricHttpRequestCount :: string where "MetricHttpRequestCount = ''HttpRequestCount''"

definition createDatum :: "string \<Rightarrow> real \<Rightarrow> Datum" where
  "createDatum metricName v =
     \<lparr>Priority = PriorityLow, Timestamp = None, MetricName = metricName, Dimensions = [], Value = v, Unit = UnitCount, Kind = KindDefault\<rparr>"

definition getQueueMetrics ::
  "'s metricSource \<Rightarrow> int \<Rightarrow> PerRunnerMetricSettings \<Rightarrow> string list \<Rightarrow> string \<Rightarrow> string \<Rightarrow> 's \<Rightarrow> 's \<times> (goerr + real)" where
  "getQueueMetrics GetMetricData now settings queueNames metric stat s =
     (case GetMetricData
        \<lparr>gi_StartTime = now + - 1 * Period settings * 5, gi_EndTime = now + - 1 * Period settings,
         gi_Queries = map (\<lambda>(i, queueName).
             \<lparr>q_Id = ''m_'' @ itoa (int i), q_Namespace = ''AWS/SQS'', q_MetricName = metric, q_Dimensions = [(''QueueName'', queueName)],
              q_Period = periodSeconds (Period settings), q_Stat = stat\<rparr>) (zip [0..<length queueNames] queueNames),
         gi_MaxDatapoints = None\<rparr> s of
        (s, Inl err) \<Rightarrow> (s, Inl (errorf_w ''can not get metric data: '' err []))
      | (s, Inr results) \<Rightarrow> (s, Inr (fold (\<lambda>(i, values) value. case values of [] \<Rightarrow> value | v # _ \<Rightarrow> value + v) results 0)))"

definition getMessagesMetric :: "'s metricSource \<Rightarrow> int \<Rightarrow> PerRunnerMetricSettings \<Rightarrow> string list \<Rightarrow> 's \<Rightarrow> 's \<times> (goerr + real \<times> real)" where
  "getMessagesMetric GetMetricData now settings queueNames s =
     (case getQueueMetrics GetMetricData now settings queueNames ''NumberOfMessagesSent'' ''Sum'' s of
        (s, Inl err) \<Rightarrow> (s, Inl (errorf_w ''can not get number of messages sent: '' err []))
      | (s, Inr messagesSent) \<Rightarrow>
          (case getQueueMetrics GetMetricData now settings queueNames ''ApproximateNumberOfMessagesVisible'' ''Maximum'' s of
             (s, Inl err) \<Rightarrow> (s, Inl (errorf_w ''can not get number of messages visible: '' err []))
           | (s, Inr messagesVisible) \<Rightarrow> (s, Inr (messagesSent, messagesVisible))))"

definition mpr_GetMetrics ::
  "'s metricSource \<Rightarrow> CalculatorSettings \<Rightarrow> PerRunnerMetricSettings \<Rightarrow> string list \<Rightarrow> int \<Rightarrow> 's \<Rightarrow> 's \<times> (goerr + Datum list)" where
  "mpr_GetMetrics GetMetricData calc settings queueNames now s =
     (case getMessagesMetric GetMetricData now settings queueNames s of
        (s, Inl err) \<Rightarrow> (s, Inl (errorf_w ''can not get number of messages: '' err []))
      | (s, Inr (messagesSent, messagesAvailable)) \<Rightarrow>
          (let ma = createDatum MessagesAvailableMetricName messagesAvailable; ms = createDatum MessagesSentMetricName messagesSent
           in case CalculatePerRunnerMetrics GetMetricData calc now PerRunnerMetricName (messagesSent + messagesAvailable) settings s of
                (s, Inl err) \<Rightarrow> (s, Inr [ma, ms])
              | (s, Inr rpr) \<Rightarrow> (s, Inr [rpr, ma, ms])))"

fun sumRequests :: "(string \<times> real list) list \<Rightarrow> real \<Rightarrow> goerr + real" where
  "sumRequests [] requests = Inr requests"
| "sumRequests ((i, []) # rest) requests = Inl (Opaque (''no metric values for '' @ i))"
| "sumRequests ((i, v # vs) # rest) requests = sumRequests rest (requests + v)"

definition getRequestsMetrics :: "'s metricSource \<Rightarrow> CalculatorSettings \<Rightarrow> int \<Rightarrow> PerRunnerMetricSettings \<Rightarrow> string list \<Rightarrow> 's \<Rightarrow> 's \<times> (goerr + real)" where
  "getRequestsMetrics GetMetricData calc now settings serverNames s =
     (case GetMetricData
        \<lparr>gi_StartTime = now + - 1 * Period settings * 5, gi_EndTime = now + - 1 * Period settings,
         gi_Queries = map (\<lambda>serverName.
             \<lparr>q_Id = ''m_'' @ serverName, q_Namespace = cs_Namespace calc, q_MetricName = MetricHttpRequestCount, q_Dimensions = [(''ServerName'', serverName)],
              q_Period = periodSeconds (Period settings), q_Stat = ''Sum''\<rparr>) serverNames,
         gi_MaxDatapoints = None\<rparr> s of
        (s, Inl err) \<Rightarrow> (s, Inl (errorf_w ''can not get metric: '' err []))
      | (s, Inr results) \<Rightarrow> (s, if results = [] then Inl (Opaque ''no metric results'') else sumRequests results 0))"

definition rpr_GetMetrics ::
  "'s metricSource \<Rightarrow> CalculatorSettings \<Rightarrow> PerRunnerMetricSettings \<Rightarrow> string list \<Rightarrow> int \<Rightarrow> 's \<Rightarrow> 's \<times> (goerr + Datum list)" where
  "rpr_GetMetrics GetMetricData calc settings serverNames now s =
     (case getRequestsMetrics GetMetricData calc now settings serverNames s of
        (s, Inl err) \<Rightarrow> (s, Inl (errorf_w ''can not get number of requests received: '' err []))
      | (s, Inr requests) \<Rightarrow>
          (case CalculatePerRunnerMetrics GetMetricData calc now ''HttpServerRequests'' requests settings s of
             (s, Inl err) \<Rightarrow> (s, Inl (errorf_w ''can not calculate httpserver per runner metrics: '' err []))
           | (s, Inr rpr) \<Rightarrow> (s, Inr [rpr])))"

definition getHttpServerNames :: "(string, 'v) gomap \<Rightarrow> string list" where
  "getHttpServerNames httpServerMap = filter (\<lambda>s. s \<noteq> ''health-check'') (Keys httpServerMap)"

text \<open>The messages metrics are written even when the calculation fails; the requests handler gives up.\<close>

lemma mpr_keeps_queue_metrics:
  assumes "getMessagesMetric GetMetricData now settings queueNames s = (s', Inr (sent, available))"
  shows "\<exists>rpr s''. mpr_GetMetrics GetMetricData calc settings queueNames now s =
     (s'', Inr (rpr @ [createDatum MessagesAvailableMetricName available, createDatum MessagesSentMetricName sent])) \<and> length rpr \<le> 1"
proof -
  obtain s'' r where r: "CalculatePerRunnerMetrics GetMetricData calc now PerRunnerMetricName (sent + available) settings s' = (s'', r)" by fastforce
  show ?thesis
    by (cases r; intro exI [of _ "case r of Inl _ \<Rightarrow> [] | Inr d \<Rightarrow> [d]"] exI [of _ s'']) (simp_all add: mpr_GetMetrics_def assms r Let_def)
qed

section \<open>The module (calculator\_module.go, handlers.go)\<close>

type_synonym 's handler = "int \<Rightarrow> 's \<Rightarrow> 's \<times> (goerr + Datum list)"

definition RegisterHandlerFactory :: "string \<Rightarrow> 'f \<Rightarrow> (string, 'f) gomap \<Rightarrow> (string, 'f) gomap option" where
  "RegisterHandlerFactory name factory factories = (if gm_has factories name then None else Some (gm_set factories name factory))"

text \<open>A factory fails, makes no handler, or makes one; no handlers, no module.\<close>

fun initHandlers :: "(string \<times> (goerr + 'h option)) list \<Rightarrow> (string, 'h) gomap \<Rightarrow> goerr + (string, 'h) gomap" where
  "initHandlers [] handlers = Inr handlers"
| "initHandlers ((name, Inl err) # rest) handlers = Inl (errorf_w (''failed to initialize handler '' @ name @ '': '') err [])"
| "initHandlers ((name, Inr None) # rest) handlers = initHandlers rest handlers"
| "initHandlers ((name, Inr (Some h)) # rest) handlers = initHandlers rest (gm_set handlers name h)"

definition CalculatorModuleFactory :: "bool \<Rightarrow> (string \<times> (goerr + 'h option)) list \<Rightarrow> goerr + (string, (string, 'h) gomap) gomap" where
  "CalculatorModuleFactory isEnabled factories =
     (if \<not> isEnabled then Inr []
      else case initHandlers factories [] of
             Inl err \<Rightarrow> Inl err
           | Inr handlers \<Rightarrow> if handlers = [] then Inr [] else Inr [(''metrics-calculator'', handlers)])"

definition IsLeaderElectionFatalError :: "goerr \<Rightarrow> bool" where
  "IsLeaderElectionFatalError err \<longleftrightarrow> as_typed ''conc.LeaderElectionFatalError'' err \<noteq> None"

record ('e, 's) calculatorState =
  ca_election :: 'e
  ca_source :: 's
  ca_channel :: metricChannel

fun collectMetrics :: "(string \<times> 's handler) list \<Rightarrow> int \<Rightarrow> 's \<Rightarrow> 's \<times> Datum list" where
  "collectMetrics [] now s = (s, [])"
| "collectMetrics ((name, GetMetrics) # rest) now s =
     (case GetMetrics now s of
        (s, r) \<Rightarrow> (case collectMetrics rest now s of (s, allMetrics) \<Rightarrow> (s, (case r of Inl err \<Rightarrow> [] | Inr metrics \<Rightarrow> metrics) @ allMetrics)))"

definition lead :: "(string \<times> 's handler) list \<Rightarrow> int \<Rightarrow> ('e, 's) calculatorState \<Rightarrow> ('e, 's) calculatorState" where
  "lead handlers now st =
     (case collectMetrics handlers now (ca_source st) of
        (s, allMetrics) \<Rightarrow> st\<lparr>ca_source := s, ca_channel := metricWriter_Write now allMetrics (ca_channel st)\<rparr>)"

definition calculateMetrics ::
  "('e \<Rightarrow> 'e \<times> (goerr + bool)) \<Rightarrow> (string \<times> 's handler) list \<Rightarrow> int \<Rightarrow> ('e, 's) calculatorState \<Rightarrow> ('e, 's) calculatorState \<times> error" where
  "calculateMetrics elect handlers now st =
     (case elect (ca_election st) of
        (e, r) \<Rightarrow>
          (let st = st\<lparr>ca_election := e\<rparr> in
           case r of
             Inl err \<Rightarrow> if IsLeaderElectionFatalError err then (st, Some (errorf_w ''can not decide on leader: '' err [])) else (lead handlers now st, None)
           | Inr isLeader \<Rightarrow> if \<not> isLeader then (st, None) else (lead handlers now st, None)))"


text \<open>\<open>Run\<close>: a calculation at once and one per tick until the context is cancelled; each iteration has its clock and its fault of the election.\<close>

fun calculator_Run ::
  "('f \<Rightarrow> int \<Rightarrow> 'e \<Rightarrow> 'e \<times> (goerr + bool)) \<Rightarrow> (string \<times> 's handler) list \<Rightarrow> (int \<times> 'f) list \<Rightarrow> ('e, 's) calculatorState \<Rightarrow> ('e, 's) calculatorState \<times> error" where
  "calculator_Run elect handlers [] st = (st, None)"
| "calculator_Run elect handlers ((now, f) # ticks) st =
     (case calculateMetrics (elect f now) handlers now st of
        (st, Some err) \<Rightarrow> (st, Some (errorf_w ''can not write message per runner metric: '' err []))
      | (st, None) \<Rightarrow> calculator_Run elect handlers ticks st)"

definition static_IsLeader :: "bool \<Rightarrow> 'e \<Rightarrow> 'e \<times> (goerr + bool)" where
  "static_IsLeader result e = (e, Inr result)"

text \<open>
  What a leader election promises: as long as the lease of a member covers the clock, other members are not told that they lead, and their questions leave
  the lease alone.
\<close>

locale leader_election =
  fixes elect :: "'f \<Rightarrow> int \<Rightarrow> string \<Rightarrow> 'e \<Rightarrow> 'e \<times> (goerr + bool)" and leading :: "string \<Rightarrow> int \<Rightarrow> 'e \<Rightarrow> bool" and covered :: "int \<Rightarrow> int \<Rightarrow> bool"
  assumes others_refused: "leading m ending e \<Longrightarrow> m' \<noteq> m \<Longrightarrow> covered now ending \<Longrightarrow> elect f now m' e = (e', r) \<Longrightarrow> leading m ending e' \<and> r \<noteq> Inr True"
begin

lemma calculation_of_other:
  assumes "leading m ending (ca_election st)" and "m' \<noteq> m" and "covered now ending"
    and "calculateMetrics (elect f now m') handlers now st = (st', err)"
  shows "leading m ending (ca_election st')" and "(\<And>e. snd (elect f now m' (ca_election st)) \<noteq> Inl e) \<Longrightarrow> ca_channel st' = ca_channel st \<and> err = None"
proof -
  obtain e r where e: "elect f now m' (ca_election st) = (e, r)" by fastforce
  have law: "leading m ending e" "r \<noteq> Inr True" using others_refused [OF assms(1-3) e] by simp_all
  show "leading m ending (ca_election st')"
    using assms(4) law by (auto simp: calculateMetrics_def e lead_def Let_def split: sum.splits if_splits prod.splits)
  show "ca_channel st' = ca_channel st \<and> err = None" if "\<And>e. snd (elect f now m' (ca_election st)) \<noteq> Inl e"
    using assms(4) law that by (auto simp: calculateMetrics_def e lead_def Let_def split: sum.splits if_splits)
qed

lemma other_writes_nothing:
  assumes "leading m ending (ca_election st)" and "m' \<noteq> m" and "\<forall>(now, f) \<in> set ticks. covered now ending"
    and "\<forall>(now, f) \<in> set ticks. \<forall>e x. snd (elect f now m' e) \<noteq> Inl x"
  shows "ca_channel (fst (calculator_Run (\<lambda>f now. elect f now m') handlers ticks st)) = ca_channel st \<and>
    leading m ending (ca_election (fst (calculator_Run (\<lambda>f now. elect f now m') handlers ticks st))) \<and>
    snd (calculator_Run (\<lambda>f now. elect f now m') handlers ticks st) = None"
  using assms(1,3,4)
proof (induction ticks arbitrary: st)
  case (Cons t ticks)
  obtain now f where t: "t = (now, f)" by fastforce
  obtain st' err where st': "calculateMetrics (elect f now m') handlers now st = (st', err)" by fastforce
  have "covered now ending" using Cons.prems(2) by (simp add: t)
  note step = calculation_of_other [OF Cons.prems(1) assms(2) this st']
  have "ca_channel st' = ca_channel st \<and> err = None" using step(2) Cons.prems(3) by (auto simp: t)
  then show ?case using Cons.IH [OF step(1)] Cons.prems(2,3) by (simp add: t st')
qed simp

end

interpretation ddbLeader: leader_election "\<lambda>f now m row. IsLeader f now lease m row" "\<lambda>m ending row. leads m ending row" "\<lambda>now ending. Unix now \<le> ending" for lease
proof
  show "leads m ending e' \<and> r \<noteq> Inr True"
    if "leads m ending e" "m' \<noteq> m" "Unix now \<le> ending" "IsLeader f now lease m' e = (e', r)" for m ending e m' now f e' r
    using that by (cases f) (auto simp: leads_def IsLeader_def ddbWrite_def Let_def)
qed

text \<open>
  The calculators of one group write once: after a member was told that it leads, no calculator of another member writes a metric until the lease is over,
  as long as the table answers.
\<close>

lemma one_calculator_writes:
  assumes "IsLeader g from lease m row = (row', Inr True)" and "m' \<noteq> m"
    and "\<forall>(now, f) \<in> set ticks. Unix now \<le> Unix (from + lease) \<and> f = Fine"
  shows "ca_channel (fst (calculator_Run (\<lambda>f now row. IsLeader f now lease m' row) handlers ticks \<lparr>ca_election = row', ca_source = s, ca_channel = ch\<rparr>)) = ch"
proof -
  have "leads m (Unix (from + lease)) row'"
    using assms(1) by (auto simp: leads_def IsLeader_def ddbWrite_def Let_def split: fault.splits if_splits)
  moreover have answers: "snd (IsLeader Fine now lease m' e) \<noteq> Inl x" for now e x
    by (auto simp: IsLeader_def ddbWrite_def Let_def)
  have "\<forall>(now, f) \<in> set ticks. Unix now \<le> Unix (from + lease)"
    and "\<forall>(now, f) \<in> set ticks. \<forall>e x. snd (IsLeader f now lease m' e) \<noteq> Inl x"
    using assms(3) answers by fast+
  ultimately show ?thesis
    using ddbLeader.other_writes_nothing [of m "Unix (from + lease)" "\<lparr>ca_election = row', ca_source = s, ca_channel = ch\<rparr>" m' ticks lease handlers] assms(2)
    by simp
qed

text \<open>A calculator whose election fails for a passing reason writes all the same, so two members can write.\<close>

lemma failed_election_writes:
  assumes "elect (ca_election st) = (e', Inl err)" and "\<not> IsLeaderElectionFatalError err"
  shows "calculateMetrics elect handlers now st = (lead handlers now (st\<lparr>ca_election := e'\<rparr>), None)"
  using assms by (simp add: calculateMetrics_def Let_def)

end
