(* ===== verification/Spec2Isabelle.thy ===== *)
theory Spec2Isabelle
  imports Prelude GoErrors Exec Funk KernelBuild KernelRun KernelProps Cache KvStore KvChain KvProps
    Clock ProducerDaemon StreamProps TextPattern Identity ModelIds
    KinesisMeta KinesisLease Kinsumer ShardReader Conc DistLock StreamCodec Consumer BatchConsumer MapX MdlSub KvRemote CloudOutputs Scheduler Metrics MetricWriters Calculator
begin

text \<open>
  \<^bold>\<open>What this development is.\<close>
  A verification library for gosoline, a Go framework for long running services. An application
  hands module factories to a \<^emph>\<open>kernel\<close>, which builds the modules, runs them in stages and decides how the
  process ends. The modules of a typical service are consumers and producers of message streams, readers
  of Kinesis shards, and servers; they use key-value stores, caches, locks and retrying executors, and they
  name what they talk to by identities built from the configuration. The theories follow that structure: each
  models the code of one part, function by function, under the names of the source, and proves what the
  part promises to the parts that call it. All paths are relative to \<open>src/pkg\<close>.

  \<^bold>\<open>Conventions.\<close>
  \<^item> A Go map is an association list with distinct keys (\<open>gomap\<close> of \<open>Prelude\<close>); the order of the list is the
    order in which a \<open>range\<close> loop happens to visit it, so statements about loops hold for every order.
  \<^item> An \<open>error\<close> is \<open>goerr option\<close>, a function that returns a value or an error returns \<open>goerr + 'a\<close>; \<open>goerr\<close>
    keeps the structure that \<open>errors.Is\<close> and \<open>errors.As\<close> look at. A panic is \<open>None\<close> or a value of its own.
  \<^item> Objects with methods that change them are records that the operations return updated; an interface
    the code calls is a record of functions over a state type, with a locale for its contract.
  \<^item> Goroutines that share state are steps of an inductive relation or of an executable transition function;
    what holds for them holds for every interleaving.
  \<^item> Durations and times are integers in nanoseconds without overflow. Logging, metrics and tracing are left out
    unless a decision depends on them.
  \<^item> Third-party code is a parameter with its documented contract as a hypothesis, and every such
    hypothesis is met by a concrete instance in a witness.

  \<^bold>\<open>The theories.\<close>
  \<^item> \<open>Prelude\<close>: Go maps, loops that stop at the first error, list and decimal lemmas, the collections of rules.
  \<^item> \<open>GoErrors\<close> (\<open>exec/error.go\<close>, \<open>exec/error_canceled.go\<close>): error values and their classification.
    \<open>IsRequestCanceled\<close> is shown to hold exactly for errors that consist of cancellations.
  \<^item> \<open>Exec\<close> (\<open>exec/executor_backoff.go\<close> and the files it uses): the retrying executor. The locale
    \<open>elapsed_time_tracker\<close> is the contract of the trackers. The third-party retry loop is a
    \<open>partial_function\<close>; that it returns within \<open>MaxAttempts\<close> calls is proved, not assumed.
  \<^item> \<open>Funk\<close> (\<open>funk\<close>): sets, slices and maps; the locale \<open>set_contract\<close> and functional specifications.
  \<^item> \<open>KernelBuild\<close>, \<open>KernelRun\<close>, \<open>KernelProps\<close> (\<open>kernel\<close>): the factory with its well-formedness
    theorem; \<open>Run\<close>, \<open>Stop\<close>, the goroutines of the stages, signals and the kill timer as the transition
    function \<open>kstep\<close>; stage order, exit codes, self-termination and the forced exit for every interleaving.
  \<^item> \<open>Cache\<close> (\<open>cache\<close>), \<open>KvStore\<close>, \<open>KvChain\<close>, \<open>KvProps\<close> (\<open>kvstore\<close>): the store interface as locale
    \<open>kv_store\<close>, met by the in-memory and the empty store, and the chain of stores as a client of that contract
    (locale \<open>kv_chain\<close>): reads and writes of a coherent chain are those of its last store.
  \<^item> \<open>Clock\<close> (\<open>clock/fake_*.go\<close>): the fake clock; no wake-up is lost and timers fire once.
  \<^item> \<open>ProducerDaemon\<close>, \<open>StreamProps\<close> (\<open>stream/producer_daemon*.go\<close>): batching, aggregation, partitioned
    aggregation and the daemon; no message is lost or reordered, limits are kept, hash keys are in range.
  \<^item> \<open>TextPattern\<close>, \<open>Identity\<close> (\<open>cfg/identity.go\<close>), \<open>ModelIds\<close> (\<open>mdl\<close>): patterns with placeholders,
    formatting of identities, and printing and parsing of model identifiers as inverse functions.
  \<^item> \<open>KinesisMeta\<close>, \<open>KinesisLease\<close>, \<open>Kinsumer\<close>, \<open>ShardReader\<close> (\<open>cloud/aws/kinesis\<close>): the metadata table with
    conditional writes, leases of shards among any number of clients, the division of the shards, and the reader
    of one shard with its checkpoint. The loops of the reader and of a consumer that may run forever are
    \<open>partial_function (option)\<close>; the theorems show that they return once their context is done.
  \<^item> \<open>Conc\<close>, \<open>DistLock\<close> (\<open>conc\<close>, \<open>conc/ddb\<close>): the lock per key as a refinement of one lock for every key,
    lazily created values, the distributed lock and the leader election under clock skew and lost answers.
  \<^item> \<open>StreamCodec\<close> (\<open>stream/message_encoding.go\<close>, \<open>encoding.go\<close>, \<open>compression.go\<close>, \<open>chunking.go\<close>, \<open>producer.go\<close>, \<open>smpl\<close>): encoding and
    decoding are inverse. The locale \<open>attribute_handler\<close> is the contract of encode handlers, met by the sampling handler.
  \<^item> \<open>Consumer\<close>, \<open>BatchConsumer\<close> (\<open>stream/consumer*.go\<close>, the retry handlers, \<open>input_sqs.go\<close>): what happens to a message,
    read off a log of events: it is accepted, retried or reported, and acknowledged accordingly.
  \<^item> \<open>MapX\<close> (\<open>mapx/map.go\<close>, \<open>mapnode.go\<close>, \<open>key_split.go\<close>): the value tree behind the configuration, with the path syntax of the
    code, shown equal to reading and writing by lists of keys, and the laws of setting, reading and merging.
  \<^item> \<open>MdlSub\<close> (\<open>mdlsub\<close>): publishing, the subscriber callback, the outputs and the construction of the subscribers; a published value
    arrives at the output of its model, a key-value output holds the fold of the published operations, and the factory gives every subscriber a module.
  \<^item> \<open>KvRemote\<close> (\<open>kvstore/redis.go\<close>, \<open>ddb.go\<close>): the stores in Redis and DynamoDB meet the contract \<open>kv_store\<close> for clients that behave as documented;
    the locale \<open>chunk_getter\<close> is what batched reads need, and a chain of both kinds of stores behaves like the table.
  \<^item> \<open>CloudOutputs\<close> (\<open>stream/output_kinesis.go\<close>, \<open>output_sqs.go\<close>, \<open>output_sns.go\<close>, \<open>cloud/aws/kinesis/record_writer.go\<close>, \<open>sqs/queue.go\<close>, \<open>sns/topic.go\<close>):
    what the services have received when a write returns; the loop of the record writer is a partial function whose return is proved for services that make
    progress. The locale \<open>ordered_writer\<close> is the contract of an output that keeps the order.
  \<^item> \<open>Scheduler\<close> (\<open>conc/scheduler\<close>): the goroutines of the job scheduler as a step relation over its channels; conservation of jobs, batch sizes, a measure that
    every step decreases, and what happens to calls when it stops.
  \<^item> \<open>Metrics\<close> (\<open>metric\<close>): data, defaults, units, the unbounded channel and the daemon as a function of its events; conservation of the data points by the key
    of their batch, also over the stop, and the reducers (the average lies between the extrema).
  \<^item> \<open>MetricWriters\<close> (\<open>metric/writer_*.go\<close>, \<open>otel_naming.go\<close>): the CloudWatch, Prometheus and OpenTelemetry writers over their clients; which data
    are sent in which requests, the limit of the metrics, names, and instruments that are never replaced.
  \<^item> \<open>Calculator\<close> (\<open>metric/calculator\<close>, \<open>stream/mpr_handler.go\<close>, \<open>httpserver/rpr_handler.go\<close>): metrics per runner and the module that writes them on the
    leader; the growth of the metric is bounded. The locale \<open>leader_election\<close> is what the module needs of an election, interpreted on that of \<open>DistLock\<close>.

  \<^bold>\<open>Bounds and fuel.\<close>
  No statement is bounded to a number of goroutines, clients, stages, messages or keys. Loops whose end depends on
  the environment are \<open>partial_function (option)\<close> with the environment as a function of an event counter
  (\<open>ShardReader\<close>, \<open>Exec\<close>), or take the list of events as an argument (\<open>Kinsumer\<close>, the daemon, the kernel).

  \<^bold>\<open>Not modelled.\<close>
  The packages that translate calls into requests of other systems (the AWS, redis, database, Kafka, HTTP and gRPC
  clients and servers), code that works by reflection on Go types, generated mocks,
  test suites and fixtures, command line tools, and the reading of settings by struct tags. They have
  little state of their own, and what they do depends on libraries that are not part of the repository.
\<close>

end
